(* ===== verification/Prelude.thy ===== *)
theory Prelude
  imports Complex_Main "HOL-Library.Char_ord"
begin

section \<open>Shared vocabulary of the model\<close>

text \<open>
  What the components share: the errors the worker raises, JSON values, JavaScript's safe
  integers, tables with a primary key, the text the worker writes for numbers and strings, and
  the automation collections.

  Two conventions hold everywhere. A JavaScript string is a \<^typ>\<open>string\<close>, the list of its
  UTF-8 bytes. A JavaScript number that the program only uses as an integer (micro-dollars,
  milliseconds, token counts) is an \<^typ>\<open>int\<close>: the program keeps those within
  \<open>Number.isSafeInteger\<close>, where double arithmetic is exact, and the model checks that range
  wherever the program does. Numbers that arrive from JSON are rationals, so that a
  fractional number is a value the checks can refuse.
\<close>

named_theorems table_simps \<open>lookup, update and deletion on keyed tables\<close>
named_theorems ledger_simps \<open>definitions of the ledger operations, unfolded on demand\<close>

subsection \<open>Errors\<close>

text \<open>
  \<open>HttpError\<close> of \<open>utils.ts\<close>: the status and the error code are what callers
  branch on. \<open>Thrown\<close> is any other exception (\<open>new Error(...)\<close>), with its text.
\<close>

datatype error = HttpError (err_status: int) (err_code: string) | Thrown string

type_synonym 'a result = "error + 'a"

text \<open>Sequencing of fallible computations: the first error ends the run.\<close>

fun rbind :: "'a result \<Rightarrow> ('a \<Rightarrow> 'b result) \<Rightarrow> 'b result" where
  "rbind (Inl e) f = Inl e"
| "rbind (Inr x) f = f x"

lemma rbind_Inr [simp]: "rbind r f = Inr y \<longleftrightarrow> (\<exists>x. r = Inr x \<and> f x = Inr y)"
  by (cases r) auto

definition guard :: "bool \<Rightarrow> error \<Rightarrow> unit result" where
  "guard b e = (if b then Inr () else Inl e)"

lemma guard_Inr [simp]: "guard b e = Inr u \<longleftrightarrow> b"
  by (simp add: guard_def)

lemma guard_simps [simp]: "guard True e = Inr ()" "guard False e = Inl e"
  by (simp_all add: guard_def)

subsection \<open>JSON values and safe integers\<close>

datatype json =
    JNull
  | JBool bool
  | JNum rat
  | JStr string
  | JArr "json list"
  | JObj "(string \<times> json) list"

definition max_safe_integer :: int where
  "max_safe_integer = 9007199254740991"

definition safe_int :: "int \<Rightarrow> bool" where
  "safe_int n \<longleftrightarrow> \<bar>n\<bar> \<le> max_safe_integer"

text \<open>\<open>Number.isSafeInteger\<close>, with the integer it accepted.\<close>

fun safe_integer :: "json \<Rightarrow> int option" where
  "safe_integer (JNum r) =
     (if of_int \<lfloor>r\<rfloor> = r \<and> safe_int \<lfloor>r\<rfloor> then Some \<lfloor>r\<rfloor> else None)"
| "safe_integer _ = None"

lemma safe_integer_Some: "safe_integer j = Some n \<longleftrightarrow> j = JNum (of_int n) \<and> safe_int n"
  by (cases j) (auto split: if_splits)

text \<open>\<open>typeof value === "string" && value.length > 0\<close>.\<close>

fun nonempty_string :: "json \<Rightarrow> string option" where
  "nonempty_string (JStr s) = (if s \<noteq> [] then Some s else None)"
| "nonempty_string _ = None"

lemma nonempty_string_Some: "nonempty_string j = Some s \<longleftrightarrow> j = JStr s \<and> s \<noteq> []"
  by (cases j) auto

text \<open>A member of an object: the last binding of a repeated key, as \<open>JSON.parse\<close> keeps it.\<close>

fun member :: "string \<Rightarrow> json \<Rightarrow> json option" where
  "member k (JObj kvs) = map_of (rev kvs) k"
| "member k _ = None"

subsection \<open>Tables with a primary key\<close>

text \<open>
  An SQL table is the list of its rows in insertion order. The primary key is a function of
  the row; \<open>keyed\<close> says that no two rows share it.
\<close>

definition keyed :: "('row \<Rightarrow> 'key) \<Rightarrow> 'row list \<Rightarrow> bool" where
  "keyed key t \<longleftrightarrow> distinct (map key t)"

definition row_at :: "('row \<Rightarrow> 'key) \<Rightarrow> 'key \<Rightarrow> 'row list \<Rightarrow> 'row option" where
  "row_at key k t = find (\<lambda>r. key r = k) t"

definition update_where :: "('row \<Rightarrow> bool) \<Rightarrow> ('row \<Rightarrow> 'row) \<Rightarrow> 'row list \<Rightarrow> 'row list" where
  "update_where p f t = map (\<lambda>r. if p r then f r else r) t"

definition delete_where :: "('row \<Rightarrow> bool) \<Rightarrow> 'row list \<Rightarrow> 'row list" where
  "delete_where p t = filter (\<lambda>r. \<not> p r) t"

definition sum_where :: "('row \<Rightarrow> bool) \<Rightarrow> ('row \<Rightarrow> int) \<Rightarrow> 'row list \<Rightarrow> int" where
  "sum_where p f t = sum_list (map f (filter p t))"

lemma keyed_Nil [simp]: "keyed key []"
  by (simp add: keyed_def)

lemma keyed_Cons [table_simps]: "keyed key (r # t) \<longleftrightarrow> key r \<notin> key ` set t \<and> keyed key t"
  by (simp add: keyed_def)

lemma row_at_Cons [table_simps]:
  "row_at key k (r # t) = (if key r = k then Some r else row_at key k t)"
  by (simp add: row_at_def)

lemma row_at_Nil [simp]: "row_at key k [] = None"
  by (simp add: row_at_def)

lemma row_at_None: "row_at key k t = None \<longleftrightarrow> k \<notin> key ` set t"
  by (induction t) (auto simp: table_simps)

lemma row_at_in: "row_at key k t = Some r \<Longrightarrow> r \<in> set t \<and> key r = k"
  by (induction t) (auto simp: table_simps split: if_splits)

lemma row_at_member: "keyed key t \<Longrightarrow> r \<in> set t \<Longrightarrow> row_at key (key r) t = Some r"
  by (induction t) (auto simp: table_simps)

lemma row_at_append [table_simps]:
  "row_at key k (t @ u) = (case row_at key k t of None \<Rightarrow> row_at key k u | Some r \<Rightarrow> Some r)"
  by (induction t) (auto simp: table_simps)

lemma keyed_append:
  "keyed key (t @ u) \<longleftrightarrow> keyed key t \<and> keyed key u \<and> key ` set t \<inter> key ` set u = {}"
  by (simp add: keyed_def)

lemma keyed_insert: "keyed key t \<Longrightarrow> row_at key (key r) t = None \<Longrightarrow> keyed key (t @ [r])"
  by (simp add: keyed_append keyed_Cons row_at_None)

lemma keyed_update_where:
  assumes "\<And>r. r \<in> set t \<Longrightarrow> p r \<Longrightarrow> key (f r) = key r"
  shows "keyed key (update_where p f t) = keyed key t"
proof -
  have "map key (update_where p f t) = map key t"
    using assms by (auto simp: update_where_def)
  then show ?thesis by (simp add: keyed_def)
qed

lemma keyed_delete_where: "keyed key t \<Longrightarrow> keyed key (delete_where p t)"
  by (simp add: keyed_def delete_where_def distinct_map_filter)

lemma row_at_update_where:
  assumes "\<And>r. p r \<Longrightarrow> key (f r) = key r"
  shows "row_at key k (update_where p f t) =
    map_option (\<lambda>r. if p r then f r else r) (row_at key k t)"
  using assms by (induction t) (auto simp: update_where_def table_simps)

lemma sum_where_Nil [simp]: "sum_where p f [] = 0"
  by (simp add: sum_where_def)

lemma sum_where_Cons [table_simps]:
  "sum_where p f (r # t) = (if p r then f r else 0) + sum_where p f t"
  by (simp add: sum_where_def)

lemma sum_where_append [table_simps]:
  "sum_where p f (t @ u) = sum_where p f t + sum_where p f u"
  by (simp add: sum_where_def)

lemma sum_where_nonneg: "(\<And>r. r \<in> set t \<Longrightarrow> p r \<Longrightarrow> 0 \<le> f r) \<Longrightarrow> 0 \<le> sum_where p f t"
  by (induction t) (auto simp: table_simps)

lemma sum_where_member:
  assumes "\<And>x. x \<in> set t \<Longrightarrow> 0 \<le> f x" and "r \<in> set t" and "p r"
  shows "f r \<le> sum_where p f t"
  using assms
proof (induction t)
  case (Cons x t)
  then show ?case using sum_where_nonneg [of t p f] by (force simp: sum_where_Cons)
qed simp

lemma sum_where_mono:
  "(\<And>r. r \<in> set t \<Longrightarrow> (if p r then f r else 0) \<le> (if q r then g r else 0)) \<Longrightarrow>
   sum_where p f t \<le> sum_where q g t"
proof (induction t)
  case Nil
  then show ?case by simp
next
  case (Cons x t)
  have "(if p x then f x else 0) \<le> (if q x then g x else 0)"
    by (rule Cons.prems) simp
  moreover have "sum_where p f t \<le> sum_where q g t"
    by (rule Cons.IH) (simp add: Cons.prems)
  ultimately show ?case unfolding sum_where_Cons by (rule add_mono)
qed

text \<open>Updating one row by its key changes a sum by exactly that row's change.\<close>

lemma sum_where_update_key:
  assumes "keyed key t" and "row_at key k t = Some r"
  shows "sum_where p v (update_where (\<lambda>x. key x = k) f t) =
    sum_where p v t - (if p r then v r else 0) + (if p (f r) then v (f r) else 0)"
  using assms
proof (induction t)
  case Nil
  then show ?case by simp
next
  case (Cons x t)
  show ?case
  proof (cases "key x = k")
    case True
    with Cons.prems have x: "x = r" by (simp add: row_at_Cons)
    have "update_where (\<lambda>x. key x = k) f t = t"
      using Cons.prems(1) True unfolding update_where_def keyed_Cons
      by (intro map_idI) (metis image_eqI)
    with True x show ?thesis by (simp add: update_where_def sum_where_Cons)
  next
    case False
    with Cons show ?thesis by (simp add: update_where_def table_simps)
  qed
qed

end
