(* ===== verification/Budget_Ledger.thy ===== *)
theory Budget_Ledger
  imports Prelude
begin

section \<open>The budget ledger object\<close>

text \<open>
  \<open>BudgetLedgerObject\<close> of \<open>worker/ledgers.ts\<close>: the durable object that owns
  the receipts of one budget shard. Its two SQL tables are lists of records, its alarm is an
  optional time, and each request handler is one function from the state to the reply and the new
  state. \<open>Date.now()\<close> is the argument \<open>now\<close>. The handlers first run
  \<open>maintain\<close>, exactly as \<open>fetch\<close> does.

  A receipt's \<open>settled\<close> column is 0 (open), 1 (final) or 2 (expired after dispatch,
  still holding its bound). The invariant \<open>ledger_inv\<close> says what the three states mean.
\<close>

subsection \<open>State\<close>

record reservation =
  reservation_id :: string
  window_key :: string
  policy_id :: string
  reserved_micros :: int
  created_at_ms :: int
  settled :: nat
  dispatch_started :: bool
  budget_scope_key :: "string option"

record budget_window =
  win_key :: string
  win_policy :: string
  spent_micros :: int

record ledger =
  budget_windows :: "budget_window list"
  budget_reservations :: "reservation list"
  alarm_at :: "int option"

definition empty_ledger :: ledger where
  "empty_ledger = \<lparr>budget_windows = [], budget_reservations = [], alarm_at = None\<rparr>"

definition reservation_lease_ms :: int where
  "reservation_lease_ms = 15 * 60 * 1000"

definition charge_retention_ms :: int where
  "charge_retention_ms = 45 * 86400000"

subsection \<open>Requests and replies\<close>

record reserve_request =
  rq_policy :: string
  rq_window :: string
  rq_scope :: "string option"
  rq_limit :: int
  rq_cost :: int
  rq_id :: string
  rq_dispatched :: bool
  rq_capability :: string

text \<open>A charge body is checked field by field, so its fields are JSON values.\<close>

record charge_request =
  cq_id :: json
  cq_policy :: json
  cq_window :: json
  cq_scope :: json
  cq_amount :: json
  cq_capability :: json

record reserve_reply =
  allowed :: bool
  rp_policy :: string
  rp_window :: string
  charged :: int
  spent :: int
  remaining :: int
  rp_dispatched :: bool

datatype ledger_reply =
    ReserveReply reserve_reply
  | ChargeReply string
  | DispatchReply
  | SettleReply int int
  | StatusReply string string int int int
  | Refused int string

subsection \<open>Queries and maintenance\<close>

text \<open>
  \<open>effectiveSpent\<close>: a caller without a scope counts every receipt of the window; a scoped
  caller counts its own receipts and the untyped legacy ones.
\<close>

definition in_scope :: "string \<Rightarrow> string option \<Rightarrow> reservation \<Rightarrow> bool" where
  "in_scope w s r \<longleftrightarrow> window_key r = w \<and>
     (s = None \<or> budget_scope_key r = None \<or> budget_scope_key r = s)"

definition effective_spent :: "ledger \<Rightarrow> string \<Rightarrow> string option \<Rightarrow> int" where
  "effective_spent l w s =
     (let window = (case row_at win_key w (budget_windows l) of None \<Rightarrow> 0 | Some x \<Rightarrow> spent_micros x);
          reservations = sum_where (in_scope w s) reserved_micros (budget_reservations l)
      in max 0 window + max 0 reservations)"

definition expired :: "int \<Rightarrow> reservation \<Rightarrow> bool" where
  "expired now r \<longleftrightarrow> created_at_ms r \<le> now - reservation_lease_ms"

definition release_expired :: "int \<Rightarrow> reservation list \<Rightarrow> reservation list" where
  "release_expired now =
     update_where (\<lambda>r. settled r = 0 \<and> \<not> dispatch_started r \<and> expired now r)
       (\<lambda>r. r\<lparr>reserved_micros := 0, settled := 1\<rparr>)"

definition park_expired :: "int \<Rightarrow> reservation list \<Rightarrow> reservation list" where
  "park_expired now =
     update_where (\<lambda>r. settled r = 0 \<and> dispatch_started r \<and> expired now r)
       (\<lambda>r. r\<lparr>settled := 2\<rparr>)"

definition forget_old :: "int \<Rightarrow> reservation list \<Rightarrow> reservation list" where
  "forget_old now =
     delete_where (\<lambda>r. settled r \<noteq> 0 \<and> created_at_ms r < now - charge_retention_ms)"

definition maintain :: "int \<Rightarrow> ledger \<Rightarrow> ledger" where
  "maintain now l =
     l\<lparr>budget_reservations := forget_old now (park_expired now (release_expired now (budget_reservations l)))\<rparr>"

definition schedule_alarm :: "int \<Rightarrow> ledger \<Rightarrow> ledger" where
  "schedule_alarm now l =
     (if alarm_at l \<noteq> None \<and> alarm_at l \<noteq> Some 0 then l
      else let pending = (\<exists>r \<in> set (budget_reservations l). settled r = 0)
        in if pending then l\<lparr>alarm_at := Some (now + reservation_lease_ms)\<rparr>
           else if budget_reservations l \<noteq> [] then l\<lparr>alarm_at := Some (now + 86400000)\<rparr>
           else l)"

text \<open>The runtime clears the alarm before it calls the handler.\<close>

definition ledger_alarm :: "int \<Rightarrow> ledger \<Rightarrow> ledger" where
  "ledger_alarm now l = schedule_alarm now (maintain now (l\<lparr>alarm_at := None\<rparr>))"

subsection \<open>Handlers\<close>

definition insert_reservation :: "reservation \<Rightarrow> ledger \<Rightarrow> ledger" where
  "insert_reservation r l = l\<lparr>budget_reservations := budget_reservations l @ [r]\<rparr>"

definition lookup_reservation :: "ledger \<Rightarrow> string \<Rightarrow> reservation option" where
  "lookup_reservation l i = row_at reservation_id i (budget_reservations l)"

definition update_reservation :: "string \<Rightarrow> (reservation \<Rightarrow> reservation) \<Rightarrow> ledger \<Rightarrow> ledger" where
  "update_reservation i f l =
     l\<lparr>budget_reservations := update_where (\<lambda>r. reservation_id r = i) f (budget_reservations l)\<rparr>"

definition start_dispatch :: "reservation \<Rightarrow> reservation" where
  "start_dispatch r = r\<lparr>dispatch_started := True\<rparr>"

definition finalize_at :: "int \<Rightarrow> reservation \<Rightarrow> reservation" where
  "finalize_at a r = r\<lparr>reserved_micros := a, settled := 1\<rparr>"

text \<open>\<open>charge\<close>: the six fields are checked before the table is read.\<close>

fun charge_fields :: "charge_request \<Rightarrow> (string \<times> string \<times> string \<times> string \<times> int) option" where
  "charge_fields q =
     (case (nonempty_string (cq_id q), nonempty_string (cq_policy q), nonempty_string (cq_window q),
            nonempty_string (cq_scope q), nonempty_string (cq_capability q), safe_integer (cq_amount q)) of
        (Some i, Some p, Some w, Some s, Some _, Some a) \<Rightarrow>
          (if 0 \<le> a then Some (i, p, w, s, a) else None)
      | _ \<Rightarrow> None)"

definition charge_conflicts :: "reservation \<Rightarrow> string \<Rightarrow> string \<Rightarrow> string \<Rightarrow> int \<Rightarrow> bool" where
  "charge_conflicts r p w s a \<longleftrightarrow>
     window_key r \<noteq> w \<or> policy_id r \<noteq> p \<or> budget_scope_key r \<noteq> Some s \<or>
     reserved_micros r \<noteq> a \<or> settled r \<noteq> 1 \<or> \<not> dispatch_started r"

definition charge :: "int \<Rightarrow> charge_request \<Rightarrow> ledger \<Rightarrow> ledger_reply \<times> ledger" where
  "charge now q l =
     (case charge_fields q of
        None \<Rightarrow> (Refused 400 ''invalid_budget_charge'', l)
      | Some (i, p, w, s, a) \<Rightarrow>
          (case lookup_reservation l i of
             Some r \<Rightarrow>
               if charge_conflicts r p w s a then (Refused 409 ''budget_charge_conflict'', l)
               else (ChargeReply i, schedule_alarm now l)
           | None \<Rightarrow>
               (ChargeReply i,
                schedule_alarm now (insert_reservation
                  \<lparr>reservation_id = i, window_key = w, policy_id = p, reserved_micros = a,
                   created_at_ms = now, settled = 1, dispatch_started = True,
                   budget_scope_key = Some s\<rparr> l))))"

definition reserve :: "int \<Rightarrow> reserve_request \<Rightarrow> ledger \<Rightarrow> ledger_reply \<times> ledger" where
  "reserve now q l =
     (case lookup_reservation l (rq_id q) of
        Some r \<Rightarrow>
          (let sp = effective_spent l (window_key r) (budget_scope_key r);
               disp = rq_dispatched q \<and> dispatch_started r \<and> settled r = 0 \<and>
                 created_at_ms r + reservation_lease_ms > now
           in (ReserveReply \<lparr>allowed = True, rp_policy = policy_id r, rp_window = window_key r,
                 charged = reserved_micros r, spent = sp, remaining = max 0 (rq_limit q - sp),
                 rp_dispatched = disp\<rparr>, l))
      | None \<Rightarrow>
          (let sp = effective_spent l (rq_window q) (rq_scope q);
               left = max 0 (rq_limit q - sp)
           in if rq_cost q > left
              then (ReserveReply \<lparr>allowed = False, rp_policy = rq_policy q, rp_window = rq_window q,
                      charged = 0, spent = sp, remaining = left, rp_dispatched = False\<rparr>, l)
              else (let nxt = sp + rq_cost q in
                (ReserveReply \<lparr>allowed = True, rp_policy = rq_policy q, rp_window = rq_window q,
                   charged = rq_cost q, spent = nxt, remaining = max 0 (rq_limit q - nxt),
                   rp_dispatched = rq_dispatched q\<rparr>,
                 schedule_alarm now (insert_reservation
                   \<lparr>reservation_id = rq_id q, window_key = rq_window q, policy_id = rq_policy q,
                    reserved_micros = rq_cost q, created_at_ms = now, settled = 0,
                    dispatch_started = rq_dispatched q, budget_scope_key = rq_scope q\<rparr> l)))))"

definition dispatch :: "int \<Rightarrow> string \<Rightarrow> ledger \<Rightarrow> ledger_reply \<times> ledger" where
  "dispatch now i l =
     (case lookup_reservation l i of
        None \<Rightarrow> (Refused 409 ''budget_reservation_expired'', l)
      | Some r \<Rightarrow>
          if settled r \<noteq> 0 \<or> created_at_ms r + reservation_lease_ms \<le> now
          then (Refused 409 ''budget_reservation_expired'', l)
          else (DispatchReply, update_reservation i start_dispatch l))"

definition settle :: "string \<Rightarrow> json \<Rightarrow> ledger \<Rightarrow> ledger_reply \<times> ledger" where
  "settle i actual l =
     (case lookup_reservation l i of
        None \<Rightarrow> (Refused 404 ''budget_reservation_missing'', l)
      | Some r \<Rightarrow>
          (case safe_integer actual of
             None \<Rightarrow> (Refused 400 ''invalid_budget_settlement'', l)
           | Some a \<Rightarrow>
               if a < 0 then (Refused 400 ''invalid_budget_settlement'', l)
               else if (settled r = 1 \<and> reserved_micros r \<noteq> a) \<or> (\<not> dispatch_started r \<and> a \<noteq> 0)
               then (Refused 409 ''budget_settlement_conflict'', l)
               else (let current = effective_spent l (window_key r) (budget_scope_key r);
                         nxt = max 0 (current - reserved_micros r) + a
                     in (SettleReply a nxt,
                         update_reservation i (finalize_at a) l))))"

text \<open>
  \<open>numberParam\<close>: an absent parameter is \<open>Number(null)\<close>, which is 0; an inner
  \<open>None\<close> is a text that \<open>Number\<close> reads as \<open>NaN\<close>.
\<close>

definition number_param :: "rat option option \<Rightarrow> int option" where
  "number_param p =
     (case p of
        None \<Rightarrow> Some 0
      | Some None \<Rightarrow> None
      | Some (Some r) \<Rightarrow>
          (case safe_integer (JNum r) of
             None \<Rightarrow> None
           | Some n \<Rightarrow> if 0 \<le> n then Some n else None))"

definition status :: "string option \<Rightarrow> string option \<Rightarrow> rat option option \<Rightarrow> string option \<Rightarrow> ledger \<Rightarrow> ledger_reply" where
  "status p w lm s l =
     (case (p, w, number_param lm) of
        (Some p', Some w', Some limit) \<Rightarrow>
          if p' = [] \<or> w' = [] then Refused 400 ''invalid_budget_request''
          else (let sp = effective_spent l w' s in StatusReply p' w' limit sp (max 0 (limit - sp)))
      | _ \<Rightarrow> Refused 400 ''invalid_budget_request'')"

datatype ledger_request =
    GetStatus "string option" "string option" "rat option option" "string option"
  | PostCharge charge_request
  | PostReserve reserve_request
  | PostDispatch string
  | PostSettle string json
  | OtherRoute

definition ledger_fetch :: "int \<Rightarrow> ledger_request \<Rightarrow> ledger \<Rightarrow> ledger_reply \<times> ledger" where
  "ledger_fetch now q l0 =
     (let l = maintain now l0 in
      case q of
        GetStatus p w lm s \<Rightarrow> (status p w lm s l, l)
      | PostCharge c \<Rightarrow> charge now c l
      | PostReserve r \<Rightarrow> reserve now r l
      | PostDispatch i \<Rightarrow> dispatch now i l
      | PostSettle i a \<Rightarrow> settle i a l
      | OtherRoute \<Rightarrow> (Refused 404 ''route_not_found'', l))"

subsection \<open>Schema migration\<close>

text \<open>
  \<open>ensureSchema\<close> on a table written by an older version. A column the old table lacks is
  \<open>None\<close> in every raw row. Before \<open>created_at_ms\<close> existed, the window balance
  already contained every open reservation, so each is subtracted there once it counts as a row.
\<close>

record raw_reservation =
  raw_id :: string
  raw_window :: string
  raw_policy :: string
  raw_reserved :: int
  raw_created :: "int option"
  raw_settled :: "nat option"
  raw_dispatch :: "bool option"
  raw_scope :: "string option option"

definition set_window :: "string \<Rightarrow> string \<Rightarrow> int \<Rightarrow> budget_window list \<Rightarrow> budget_window list" where
  "set_window w p v ws =
     (if row_at win_key w ws = None then ws @ [\<lparr>win_key = w, win_policy = p, spent_micros = v\<rparr>]
      else update_where (\<lambda>x. win_key x = w) (\<lambda>x. x\<lparr>spent_micros := v\<rparr>) ws)"

definition window_spent :: "string \<Rightarrow> budget_window list \<Rightarrow> int" where
  "window_spent w ws = (case row_at win_key w ws of None \<Rightarrow> 0 | Some x \<Rightarrow> spent_micros x)"

fun unwind_windows :: "raw_reservation list \<Rightarrow> budget_window list \<Rightarrow> budget_window list" where
  "unwind_windows [] ws = ws"
| "unwind_windows (r # rs) ws =
     unwind_windows rs
       (set_window (raw_window r) (raw_policy r) (max 0 (window_spent (raw_window r) ws - raw_reserved r)) ws)"

definition upgrade_row :: "int \<Rightarrow> raw_reservation \<Rightarrow> reservation" where
  "upgrade_row now r =
     \<lparr>reservation_id = raw_id r, window_key = raw_window r, policy_id = raw_policy r,
      reserved_micros = raw_reserved r,
      created_at_ms = (case raw_created r of None \<Rightarrow> now | Some t \<Rightarrow> t),
      settled = (case raw_settled r of None \<Rightarrow> 0 | Some s \<Rightarrow> s),
      dispatch_started = (case raw_dispatch r of None \<Rightarrow> True | Some d \<Rightarrow> d),
      budget_scope_key = (case raw_scope r of None \<Rightarrow> None | Some s \<Rightarrow> s)\<rparr>"

definition ensure_schema :: "bool \<Rightarrow> int \<Rightarrow> budget_window list \<Rightarrow> raw_reservation list \<Rightarrow> ledger" where
  "ensure_schema has_created now ws rs =
     \<lparr>budget_windows = (if has_created then ws else unwind_windows rs ws),
      budget_reservations = map (upgrade_row now) rs, alarm_at = None\<rparr>"

subsection \<open>The invariant\<close>

text \<open>
  Receipt identifiers are unique, amounts are never negative, an undispatched receipt that is
  final is free, and only dispatched work is parked.
\<close>

definition receipt_ok :: "reservation \<Rightarrow> bool" where
  "receipt_ok r \<longleftrightarrow> 0 \<le> reserved_micros r \<and> settled r \<le> 2 \<and>
     (settled r = 1 \<and> \<not> dispatch_started r \<longrightarrow> reserved_micros r = 0) \<and>
     (settled r = 2 \<longrightarrow> dispatch_started r)"

definition ledger_inv :: "ledger \<Rightarrow> bool" where
  "ledger_inv l \<longleftrightarrow> keyed reservation_id (budget_reservations l) \<and>
     list_all receipt_ok (budget_reservations l)"

lemmas receipt_defs = receipt_ok_def expired_def
lemmas table_defs [ledger_simps] =
  insert_reservation_def lookup_reservation_def update_reservation_def

lemma ledger_inv_empty [simp]: "ledger_inv empty_ledger"
  by (simp add: ledger_inv_def empty_ledger_def)

lemma schedule_alarm_tables [simp]:
  "budget_reservations (schedule_alarm now l) = budget_reservations l"
  "budget_windows (schedule_alarm now l) = budget_windows l"
  by (simp_all add: schedule_alarm_def Let_def)

lemma ledger_inv_schedule_alarm [simp]: "ledger_inv (schedule_alarm now l) = ledger_inv l"
  by (simp add: ledger_inv_def)

lemma effective_spent_schedule_alarm [simp]:
  "effective_spent (schedule_alarm now l) w s = effective_spent l w s"
  by (simp add: effective_spent_def)

lemma effective_spent_nonneg: "0 \<le> effective_spent l w s"
  by (simp add: effective_spent_def Let_def)

text \<open>The balance a window carries from the previous schema, and the receipts of a scope.\<close>

definition carried :: "ledger \<Rightarrow> string \<Rightarrow> int" where
  "carried l w = max 0 (window_spent w (budget_windows l))"

definition receipts :: "ledger \<Rightarrow> string \<Rightarrow> string option \<Rightarrow> int" where
  "receipts l w s = sum_where (in_scope w s) reserved_micros (budget_reservations l)"

lemma receipts_nonneg: "ledger_inv l \<Longrightarrow> 0 \<le> receipts l w s"
  unfolding receipts_def ledger_inv_def
  by (rule sum_where_nonneg) (auto simp: list_all_iff receipt_ok_def)

lemma effective_spent_split:
  "ledger_inv l \<Longrightarrow> effective_spent l w s = carried l w + receipts l w s"
  using receipts_nonneg [of l w s]
  by (simp add: effective_spent_def carried_def receipts_def window_spent_def)

lemma receipt_ok_lookup:
  "ledger_inv l \<Longrightarrow> lookup_reservation l i = Some r \<Longrightarrow> receipt_ok r \<and> reservation_id r = i"
  by (auto simp: ledger_inv_def list_all_iff lookup_reservation_def dest: row_at_in)

lemma ledger_inv_insert:
  assumes "ledger_inv l" and "lookup_reservation l (reservation_id r) = None" and "receipt_ok r"
  shows "ledger_inv (insert_reservation r l)"
  using assms by (simp add: ledger_inv_def ledger_simps keyed_insert)

lemma ledger_inv_update:
  assumes "ledger_inv l" and "\<And>r. reservation_id (f r) = reservation_id r"
    and "\<And>r. lookup_reservation l i = Some r \<Longrightarrow> receipt_ok (f r)"
  shows "ledger_inv (update_reservation i f l)"
proof -
  have "receipt_ok (f r)" if "r \<in> set (budget_reservations l)" "reservation_id r = i" for r
    using assms(1,3) that row_at_member [of reservation_id "budget_reservations l" r]
    by (simp add: ledger_inv_def lookup_reservation_def)
  then have "list_all receipt_ok (budget_reservations (update_reservation i f l))"
    using assms(1) by (auto simp: ledger_inv_def list_all_iff update_reservation_def update_where_def)
  with assms(1,2) show ?thesis
    by (simp add: ledger_inv_def update_reservation_def keyed_update_where)
qed

text \<open>What an insertion and an update do to the spent amount of every window and scope.\<close>

lemma effective_spent_insert:
  assumes "ledger_inv l" and "0 \<le> reserved_micros r"
  shows "effective_spent (insert_reservation r l) w s =
    effective_spent l w s + (if in_scope w s r then reserved_micros r else 0)"
  using assms receipts_nonneg [OF assms(1), of w s]
  by (simp add: effective_spent_def insert_reservation_def receipts_def sum_where_append sum_where_Cons)

lemma receipts_update:
  assumes "ledger_inv l" and "lookup_reservation l i = Some r"
  shows "receipts (update_reservation i f l) w s = receipts l w s
    - (if in_scope w s r then reserved_micros r else 0)
    + (if in_scope w s (f r) then reserved_micros (f r) else 0)"
  using assms by (simp add: receipts_def ledger_simps ledger_inv_def sum_where_update_key)

lemma effective_spent_update:
  assumes "ledger_inv l" and "lookup_reservation l i = Some r"
    and "ledger_inv (update_reservation i f l)"
  shows "effective_spent (update_reservation i f l) w s = effective_spent l w s
    - (if in_scope w s r then reserved_micros r else 0)
    + (if in_scope w s (f r) then reserved_micros (f r) else 0)"
proof -
  have "carried (update_reservation i f l) w = carried l w"
    by (simp add: carried_def update_reservation_def)
  then show ?thesis
    using assms receipts_update [OF assms(1,2)] by (simp add: effective_spent_split)
qed

lemma lookup_insert:
  "lookup_reservation l (reservation_id r) = None \<Longrightarrow>
   lookup_reservation (insert_reservation r l) i =
     (if i = reservation_id r then Some r else lookup_reservation l i)"
  by (auto simp: ledger_simps row_at_append row_at_Cons split: option.split)

lemma lookup_update:
  assumes "\<And>r. reservation_id (f r) = reservation_id r"
  shows "lookup_reservation (update_reservation i f l) j =
    map_option (\<lambda>r. if reservation_id r = i then f r else r) (lookup_reservation l j)"
  using assms by (simp add: ledger_simps row_at_update_where)

lemma lookup_schedule_alarm [simp]:
  "lookup_reservation (schedule_alarm now l) i = lookup_reservation l i"
  by (simp add: lookup_reservation_def)

lemma start_dispatch_simps [simp]:
  "reservation_id (start_dispatch r) = reservation_id r" "in_scope w s (start_dispatch r) = in_scope w s r"
  "reserved_micros (start_dispatch r) = reserved_micros r" "settled (start_dispatch r) = settled r"
  "created_at_ms (start_dispatch r) = created_at_ms r" "dispatch_started (start_dispatch r)"
  by (simp_all add: start_dispatch_def in_scope_def)

lemma finalize_at_simps [simp]:
  "reservation_id (finalize_at a r) = reservation_id r" "in_scope w s (finalize_at a r) = in_scope w s r"
  "reserved_micros (finalize_at a r) = a" "settled (finalize_at a r) = 1"
  "dispatch_started (finalize_at a r) = dispatch_started r"
  "window_key (finalize_at a r) = window_key r" "budget_scope_key (finalize_at a r) = budget_scope_key r"
  by (simp_all add: finalize_at_def in_scope_def)

subsection \<open>Maintenance\<close>

text \<open>What maintenance does to one receipt, or \<open>None\<close> when the receipt is forgotten.\<close>

definition maintained :: "int \<Rightarrow> reservation \<Rightarrow> reservation option" where
  "maintained now r =
     (let r' = (if settled r = 0 \<and> expired now r
                then (if dispatch_started r then r\<lparr>settled := 2\<rparr>
                      else r\<lparr>reserved_micros := 0, settled := 1\<rparr>) else r)
      in if settled r' \<noteq> 0 \<and> created_at_ms r < now - charge_retention_ms then None else Some r')"

lemma maintain_rows:
  "budget_reservations (maintain now l) = List.map_filter (maintained now) (budget_reservations l)"
proof -
  have "forget_old now (park_expired now (release_expired now t)) = List.map_filter (maintained now) t" for t
    by (induction t)
      (auto simp: forget_old_def park_expired_def release_expired_def update_where_def
        delete_where_def maintained_def expired_def Let_def map_filter_simps)
  then show ?thesis by (simp add: maintain_def)
qed

lemma maintained_Some:
  assumes "maintained now r = Some r'"
  shows "reservation_id r' = reservation_id r" "window_key r' = window_key r"
    "budget_scope_key r' = budget_scope_key r" "dispatch_started r' = dispatch_started r"
    "policy_id r' = policy_id r" "created_at_ms r' = created_at_ms r"
    "receipt_ok r \<Longrightarrow> receipt_ok r'" "receipt_ok r \<Longrightarrow> reserved_micros r' \<le> reserved_micros r"
  using assms by (auto simp: maintained_def receipt_ok_def Let_def split: if_splits)

lemma in_scope_maintained: "maintained now r = Some r' \<Longrightarrow> in_scope w s r' = in_scope w s r"
  by (simp add: in_scope_def maintained_Some)

lemma keyed_map_filter:
  assumes "\<And>r r'. f r = Some r' \<Longrightarrow> key r' = key r"
  shows "keyed key t \<Longrightarrow> keyed key (List.map_filter f t)"
proof (induction t)
  case Nil
  then show ?case by (simp add: map_filter_simps)
next
  case (Cons r t)
  have "key ` set (List.map_filter f t) \<subseteq> key ` set t"
    using assms by (force simp: map_filter_def)
  with Cons assms show ?case
    by (auto simp: map_filter_simps keyed_Cons split: option.split)
qed

lemma ledger_inv_maintain: "ledger_inv l \<Longrightarrow> ledger_inv (maintain now l)"
  unfolding ledger_inv_def maintain_rows
  by (intro conjI keyed_map_filter) (auto simp: list_all_iff map_filter_def maintained_Some)

lemma receipts_maintain: "ledger_inv l \<Longrightarrow> receipts (maintain now l) w s \<le> receipts l w s"
proof -
  have "sum_where (in_scope w s) reserved_micros (List.map_filter (maintained now) t) \<le>
      sum_where (in_scope w s) reserved_micros t" if "list_all receipt_ok t" for t
    using that
  proof (induction t)
    case Nil
    then show ?case by (simp add: map_filter_simps)
  next
    case (Cons r t)
    then have IH: "sum_where (in_scope w s) reserved_micros (List.map_filter (maintained now) t) \<le>
        sum_where (in_scope w s) reserved_micros t" and r: "receipt_ok r" by simp_all
    show ?case
    proof (cases "maintained now r")
      case None
      with IH r show ?thesis by (simp add: map_filter_simps sum_where_Cons receipt_ok_def)
    next
      case (Some r')
      with IH maintained_Some(8) [OF Some r] show ?thesis
        by (simp add: map_filter_simps sum_where_Cons in_scope_maintained)
    qed
  qed
  then show "ledger_inv l \<Longrightarrow> ?thesis"
    by (simp add: receipts_def maintain_rows ledger_inv_def)
qed

lemma effective_spent_maintain:
  "ledger_inv l \<Longrightarrow> effective_spent (maintain now l) w s \<le> effective_spent l w s"
  using receipts_maintain [of l now w s] ledger_inv_maintain [of l now]
  by (simp add: effective_spent_split carried_def maintain_def)

subsection \<open>One admission\<close>

text \<open>The receipt a reservation request stores.\<close>

definition receipt_of :: "int \<Rightarrow> reserve_request \<Rightarrow> reservation" where
  "receipt_of now q =
     \<lparr>reservation_id = rq_id q, window_key = rq_window q, policy_id = rq_policy q,
      reserved_micros = rq_cost q, created_at_ms = now, settled = 0,
      dispatch_started = rq_dispatched q, budget_scope_key = rq_scope q\<rparr>"

lemma receipt_of_simps [simp]:
  "reservation_id (receipt_of now q) = rq_id q" "reserved_micros (receipt_of now q) = rq_cost q"
  "window_key (receipt_of now q) = rq_window q" "budget_scope_key (receipt_of now q) = rq_scope q"
  "settled (receipt_of now q) = 0" "dispatch_started (receipt_of now q) = rq_dispatched q"
  "receipt_ok (receipt_of now q) \<longleftrightarrow> 0 \<le> rq_cost q"
  by (simp_all add: receipt_of_def receipt_ok_def)

definition affordable :: "reserve_request \<Rightarrow> ledger \<Rightarrow> bool" where
  "affordable q l \<longleftrightarrow> rq_cost q \<le> max 0 (rq_limit q - effective_spent l (rq_window q) (rq_scope q))"

lemma reserve_fresh:
  assumes "lookup_reservation l (rq_id q) = None"
  shows "reserve now q l =
    (let sp = effective_spent l (rq_window q) (rq_scope q) in
     if rq_cost q \<le> max 0 (rq_limit q - sp)
     then (ReserveReply \<lparr>allowed = True, rp_policy = rq_policy q, rp_window = rq_window q,
             charged = rq_cost q, spent = sp + rq_cost q, remaining = max 0 (rq_limit q - (sp + rq_cost q)),
             rp_dispatched = rq_dispatched q\<rparr>,
           schedule_alarm now (insert_reservation (receipt_of now q) l))
     else (ReserveReply \<lparr>allowed = False, rp_policy = rq_policy q, rp_window = rq_window q,
             charged = 0, spent = sp, remaining = max 0 (rq_limit q - sp), rp_dispatched = False\<rparr>, l))"
  using assms by (simp add: reserve_def receipt_of_def Let_def not_le)

lemma reserve_state:
  "snd (reserve now q l) =
     (if lookup_reservation l (rq_id q) = None \<and> affordable q l
      then schedule_alarm now (insert_reservation (receipt_of now q) l) else l)"
  by (auto simp: reserve_def affordable_def receipt_of_def Let_def split: option.split)

lemma ledger_inv_reserve:
  "ledger_inv l \<Longrightarrow> 0 \<le> rq_cost q \<Longrightarrow> ledger_inv (snd (reserve now q l))"
  by (simp add: reserve_state ledger_inv_insert)

lemma effective_spent_reserve:
  assumes "ledger_inv l" and "0 \<le> rq_cost q"
    and "lookup_reservation l (rq_id q) = None" and "affordable q l"
  shows "effective_spent (snd (reserve now q l)) w s =
    effective_spent l w s + (if in_scope w s (receipt_of now q) then rq_cost q else 0)"
  using assms by (simp add: reserve_state effective_spent_insert)

lemma dispatch_state:
  "snd (dispatch now i l) = l \<or>
   snd (dispatch now i l) = update_reservation i start_dispatch l \<and>
     (\<exists>r. lookup_reservation l i = Some r \<and> settled r = 0)"
  by (auto simp: dispatch_def split: option.split)

lemma ledger_inv_dispatch: "ledger_inv l \<Longrightarrow> ledger_inv (snd (dispatch now i l))"
  using dispatch_state [of now i l] receipt_ok_lookup [of l i]
  by (auto intro!: ledger_inv_update simp: receipt_ok_def)

lemma effective_spent_dispatch:
  assumes "ledger_inv l"
  shows "effective_spent (snd (dispatch now i l)) w s = effective_spent l w s"
  using dispatch_state [of now i l]
proof (elim disjE conjE exE)
  fix r assume upd: "snd (dispatch now i l) = update_reservation i start_dispatch l"
    and r: "lookup_reservation l i = Some r"
  have "ledger_inv (update_reservation i start_dispatch l)"
    using ledger_inv_dispatch [OF assms, of now i] upd by simp
  from effective_spent_update [OF assms r this, of w s] upd show ?thesis by simp
qed simp

text \<open>When a settlement is accepted, and the state it leaves.\<close>

definition settles :: "ledger \<Rightarrow> string \<Rightarrow> json \<Rightarrow> reservation \<Rightarrow> int \<Rightarrow> bool" where
  "settles l i j r a \<longleftrightarrow> lookup_reservation l i = Some r \<and> safe_integer j = Some a \<and> 0 \<le> a \<and>
     (settled r = 1 \<longrightarrow> reserved_micros r = a) \<and> (dispatch_started r \<or> a = 0)"

lemma settle_cases:
  obtains (refused) st code where "settle i j l = (Refused st code, l)" "\<nexists>r a. settles l i j r a"
  | (accepted) r a where "settles l i j r a"
      "settle i j l =
        (SettleReply a (max 0 (effective_spent l (window_key r) (budget_scope_key r) - reserved_micros r) + a),
         update_reservation i (finalize_at a) l)"
proof (cases "\<exists>r a. settles l i j r a")
  case True
  then show ?thesis using accepted by (auto simp: settles_def settle_def Let_def)
next
  case False
  then have "\<exists>st code. settle i j l = (Refused st code, l)"
    by (auto simp: settles_def settle_def Let_def split: option.split)
  with False show ?thesis using refused by blast
qed

lemma ledger_inv_settled:
  assumes "ledger_inv l" and "settles l i j r a"
  shows "ledger_inv (update_reservation i (finalize_at a) l)"
  using assms by (intro ledger_inv_update) (auto simp: settles_def receipt_ok_def)

lemma ledger_inv_settle: "ledger_inv l \<Longrightarrow> ledger_inv (snd (settle i j l))"
  by (cases rule: settle_cases [of i j l]) (auto intro: ledger_inv_settled)

lemma effective_spent_settled:
  assumes "ledger_inv l" and "settles l i j r a"
  shows "effective_spent (update_reservation i (finalize_at a) l) w s =
    effective_spent l w s + (if in_scope w s r then a - reserved_micros r else 0)"
  using effective_spent_update [OF assms(1) _ ledger_inv_settled [OF assms], of r w s] assms(2)
  by (auto simp: settles_def)

lemma receipt_le_spent:
  assumes "ledger_inv l" and "lookup_reservation l i = Some r" and "in_scope w s r"
  shows "reserved_micros r \<le> effective_spent l w s"
proof -
  have "reserved_micros r \<le> receipts l w s"
    unfolding receipts_def using assms
    by (intro sum_where_member)
      (auto simp: ledger_inv_def list_all_iff receipt_ok_def lookup_reservation_def dest: row_at_in)
  then show ?thesis using assms(1) by (simp add: effective_spent_split carried_def)
qed

text \<open>The balance named in a settlement's reply is the balance the ledger reads afterwards.\<close>

lemma settle_reply_balance:
  assumes "ledger_inv l" and "settles l i j r a"
  shows "max 0 (effective_spent l (window_key r) (budget_scope_key r) - reserved_micros r) + a =
    effective_spent (update_reservation i (finalize_at a) l) (window_key r) (budget_scope_key r)"
proof -
  have own: "in_scope (window_key r) (budget_scope_key r) r" by (simp add: in_scope_def)
  with receipt_le_spent [OF assms(1), of i r] assms(2)
  show ?thesis by (simp add: effective_spent_settled [OF assms] settles_def)
qed

text \<open>A final receipt accepts its own amount again, with the same reply, and no other.\<close>

lemma settle_again:
  assumes "ledger_inv l" and "settles l i j r a"
  shows "settle i j (update_reservation i (finalize_at a) l) = settle i j l"
    and "safe_int b \<Longrightarrow> 0 \<le> b \<Longrightarrow> b \<noteq> a \<Longrightarrow>
      settle i (JNum (of_int b)) (update_reservation i (finalize_at a) l) =
        (Refused 409 ''budget_settlement_conflict'', update_reservation i (finalize_at a) l)"
proof -
  let ?l = "update_reservation i (finalize_at a) l"
  have id: "reservation_id r = i" and r: "lookup_reservation l i = Some r"
    using assms receipt_ok_lookup by (auto simp: settles_def)
  have r': "lookup_reservation ?l i = Some (finalize_at a r)"
    using r id by (simp add: lookup_update)
  have ok: "settles ?l i j (finalize_at a r) a"
    using assms(2) r' by (simp add: settles_def)
  have "update_reservation i (finalize_at a) ?l = ?l"
    by (simp add: update_reservation_def update_where_def finalize_at_def)
  moreover have "effective_spent ?l (window_key r) (budget_scope_key r) =
      max 0 (effective_spent l (window_key r) (budget_scope_key r) - reserved_micros r) + a"
    using settle_reply_balance [OF assms] by simp
  ultimately show "settle i j ?l = settle i j l"
    using assms(2) r r' by (auto simp: settles_def settle_def Let_def)
  show "safe_int b \<Longrightarrow> 0 \<le> b \<Longrightarrow> b \<noteq> a \<Longrightarrow>
      settle i (JNum (of_int b)) ?l = (Refused 409 ''budget_settlement_conflict'', ?l)"
    using r' by (simp add: settle_def)
qed

lemma charge_fields_Some:
  "charge_fields q = Some (i, p, w, s, a) \<Longrightarrow> 0 \<le> a"
  by (auto split: option.splits if_splits)

lemma ledger_inv_charge: "ledger_inv l \<Longrightarrow> ledger_inv (snd (charge now q l))"
  using charge_fields_Some [of q]
  by (auto simp: charge_def receipt_ok_def split: option.split intro!: ledger_inv_insert simp del: charge_fields.simps)

subsection \<open>The interface the accounting layer relies on\<close>

text \<open>
  A ledger, for its clients: admissions and settlements move the spent amount of every window and
  scope by exactly what their replies say, and keep the invariant. The client lemmas below are
  proved from these laws alone.
\<close>

locale receipt_ledger =
  fixes inv :: "'l \<Rightarrow> bool"
    and spent_of :: "'l \<Rightarrow> string \<Rightarrow> string option \<Rightarrow> int"
    and held :: "'l \<Rightarrow> string \<Rightarrow> reservation option"
    and admit :: "reserve_request \<Rightarrow> 'l \<Rightarrow> bool"
    and store :: "int \<Rightarrow> reserve_request \<Rightarrow> 'l \<Rightarrow> 'l"
    and final :: "string \<Rightarrow> int \<Rightarrow> 'l \<Rightarrow> 'l"
  assumes store_inv: "inv l \<Longrightarrow> 0 \<le> rq_cost q \<Longrightarrow> inv (store now q l)"
    and store_spent: "inv l \<Longrightarrow> 0 \<le> rq_cost q \<Longrightarrow> held l (rq_id q) = None \<Longrightarrow> admit q l \<Longrightarrow>
      spent_of (store now q l) w s =
        spent_of l w s + (if in_scope w s (receipt_of now q) then rq_cost q else 0)"
    and store_held: "inv l \<Longrightarrow> held l (rq_id q) = None \<Longrightarrow> admit q l \<Longrightarrow>
      held (store now q l) i = (if i = rq_id q then Some (receipt_of now q) else held l i)"
    and final_inv: "inv l \<Longrightarrow> held l i = Some r \<Longrightarrow> settled r = 0 \<Longrightarrow> safe_int a \<Longrightarrow> 0 \<le> a \<Longrightarrow>
      dispatch_started r \<or> a = 0 \<Longrightarrow> inv (final i a l)"
    and final_spent: "inv l \<Longrightarrow> held l i = Some r \<Longrightarrow> settled r = 0 \<Longrightarrow> safe_int a \<Longrightarrow> 0 \<le> a \<Longrightarrow>
      dispatch_started r \<or> a = 0 \<Longrightarrow>
      spent_of (final i a l) w s =
        spent_of l w s + (if in_scope w s r then a - reserved_micros r else 0)"
begin

text \<open>Admission followed by settlement charges exactly the settled amount.\<close>

lemma admit_then_final:
  assumes "inv l" "0 \<le> rq_cost q" "held l (rq_id q) = None" "admit q l" "safe_int a" "0 \<le> a"
    and "rq_dispatched q \<or> a = 0"
  shows "inv (final (rq_id q) a (store now q l)) \<and>
    spent_of (final (rq_id q) a (store now q l)) w s =
      spent_of l w s + (if in_scope w s (receipt_of now q) then a else 0)"
proof -
  have st: "inv (store now q l)" using assms(1,2) by (rule store_inv)
  have h: "held (store now q l) (rq_id q) = Some (receipt_of now q)"
    using assms by (simp add: store_held)
  have "spent_of (store now q l) w s =
      spent_of l w s + (if in_scope w s (receipt_of now q) then rq_cost q else 0)"
    using assms by (intro store_spent)
  with st h assms final_spent [OF st h, of a w s] final_inv [OF st h, of a] show ?thesis
    by auto
qed

text \<open>Releasing an admission that was never dispatched restores every reading.\<close>

lemma admit_then_release:
  assumes "inv l" "0 \<le> rq_cost q" "held l (rq_id q) = None" "admit q l"
  shows "inv (final (rq_id q) 0 (store now q l)) \<and>
    spent_of (final (rq_id q) 0 (store now q l)) w s = spent_of l w s"
  using admit_then_final [OF assms, of 0 now w s] by (simp add: safe_int_def max_safe_integer_def)

end

interpretation bl: receipt_ledger ledger_inv effective_spent lookup_reservation affordable
  "\<lambda>now q l. snd (reserve now q l)" "\<lambda>i a l. snd (settle i (JNum (of_int a)) l)"
proof
  fix l q now w s i
  show "ledger_inv l \<Longrightarrow> 0 \<le> rq_cost q \<Longrightarrow> ledger_inv (snd (reserve now q l))"
    by (rule ledger_inv_reserve)
  show "ledger_inv l \<Longrightarrow> 0 \<le> rq_cost q \<Longrightarrow> lookup_reservation l (rq_id q) = None \<Longrightarrow> affordable q l \<Longrightarrow>
    effective_spent (snd (reserve now q l)) w s =
      effective_spent l w s + (if in_scope w s (receipt_of now q) then rq_cost q else 0)"
    by (rule effective_spent_reserve)
  show "ledger_inv l \<Longrightarrow> lookup_reservation l (rq_id q) = None \<Longrightarrow> affordable q l \<Longrightarrow>
    lookup_reservation (snd (reserve now q l)) i =
      (if i = rq_id q then Some (receipt_of now q) else lookup_reservation l i)"
    by (simp add: reserve_state lookup_insert)
next
  fix l i r a w s
  assume l: "ledger_inv l" and r: "lookup_reservation l i = Some r" "settled r = 0"
    and a: "safe_int a" "0 \<le> a" "dispatch_started r \<or> a = 0"
  then have ok: "settles l i (JNum (of_int a)) r a"
    by (simp add: settles_def)
  show "ledger_inv (snd (settle i (JNum (of_int a)) l))"
    using l by (rule ledger_inv_settle)
  show "effective_spent (snd (settle i (JNum (of_int a)) l)) w s =
      effective_spent l w s + (if in_scope w s r then a - reserved_micros r else 0)"
    using effective_spent_settled [OF l ok, of w s] ok
    by (cases rule: settle_cases [of i "JNum (of_int a)" l]) (auto simp: settles_def)
qed

subsection \<open>Runs\<close>

text \<open>
  The ledgers that one budget can reach: any interleaving of requests from any callers, with
  non-negative estimates, where admissions that count towards scope \<open>sc\<close> of window
  \<open>w\<close> are checked against a limit of at most \<open>cap\<close> and no settlement exceeds
  the amount it had reserved.
\<close>

inductive capped :: "string \<Rightarrow> string \<Rightarrow> int \<Rightarrow> ledger \<Rightarrow> bool" for w sc cap where
  start: "capped w sc cap empty_ledger"
| alarm: "capped w sc cap l \<Longrightarrow> capped w sc cap (ledger_alarm now l)"
| read: "capped w sc cap l \<Longrightarrow> capped w sc cap (snd (ledger_fetch now (GetStatus p v lm s) l))"
| admit: "capped w sc cap l \<Longrightarrow> 0 \<le> rq_cost q \<Longrightarrow>
    (rq_window q = w \<and> (rq_scope q = None \<or> rq_scope q = Some sc) \<longrightarrow> rq_limit q \<le> cap) \<Longrightarrow>
    capped w sc cap (snd (ledger_fetch now (PostReserve q) l))"
| dispatched: "capped w sc cap l \<Longrightarrow> capped w sc cap (snd (ledger_fetch now (PostDispatch i) l))"
| settled: "capped w sc cap l \<Longrightarrow>
    (\<And>r a. settles (maintain now l) i j r a \<Longrightarrow> in_scope w (Some sc) r \<Longrightarrow> a \<le> reserved_micros r) \<Longrightarrow>
    capped w sc cap (snd (ledger_fetch now (PostSettle i j) l))"

lemma effective_spent_scope_mono:
  "ledger_inv l \<Longrightarrow> effective_spent l w s \<le> effective_spent l w None"
proof -
  assume "ledger_inv l"
  then have "receipts l w s \<le> receipts l w None"
    unfolding receipts_def
    by (intro sum_where_mono) (auto simp: in_scope_def ledger_inv_def list_all_iff receipt_ok_def)
  with \<open>ledger_inv l\<close> show ?thesis by (simp add: effective_spent_split)
qed

lemma reserve_respects_cap:
  assumes "ledger_inv l" and "0 \<le> rq_cost q" and "effective_spent l w (Some sc) \<le> cap"
    and "rq_window q = w \<and> (rq_scope q = None \<or> rq_scope q = Some sc) \<longrightarrow> rq_limit q \<le> cap"
  shows "effective_spent (snd (reserve now q l)) w (Some sc) \<le> cap"
proof (cases "lookup_reservation l (rq_id q) = None \<and> affordable q l")
  case False
  then show ?thesis using assms(3) by (auto simp: reserve_state)
next
  case True
  let ?hit = "in_scope w (Some sc) (receipt_of now q)"
  have eq: "effective_spent (snd (reserve now q l)) w (Some sc) =
      effective_spent l w (Some sc) + (if ?hit then rq_cost q else 0)"
    using assms(1,2) True by (intro effective_spent_reserve) auto
  show ?thesis
  proof (cases "?hit \<and> 0 < rq_cost q")
    case False
    with eq assms(2,3) show ?thesis by (auto split: if_splits)
  next
    case hit: True
    then have "rq_window q = w" and sc: "rq_scope q = None \<or> rq_scope q = Some sc"
      by (auto simp: in_scope_def)
    then have "effective_spent l w (Some sc) \<le> effective_spent l (rq_window q) (rq_scope q)"
      using effective_spent_scope_mono [OF assms(1)] by auto
    with True hit eq assms(4) sc \<open>rq_window q = w\<close> show ?thesis
      by (auto simp: affordable_def)
  qed
qed

lemma capped_inv: "capped w sc cap l \<Longrightarrow> 0 \<le> cap \<Longrightarrow> ledger_inv l \<and> effective_spent l w (Some sc) \<le> cap"
proof (induction rule: capped.induct)
  case start
  then show ?case by (simp add: effective_spent_def empty_ledger_def ledger_inv_def)
next
  case (alarm l now)
  have "ledger_inv (l\<lparr>alarm_at := None\<rparr>)" "effective_spent (l\<lparr>alarm_at := None\<rparr>) w (Some sc) \<le> cap"
    using alarm by (simp_all add: ledger_inv_def effective_spent_def)
  then show ?case
    using effective_spent_maintain [of "l\<lparr>alarm_at := None\<rparr>" now w "Some sc"]
      ledger_inv_maintain [of "l\<lparr>alarm_at := None\<rparr>" now] by (simp add: ledger_alarm_def)
next
  case (read l now p v lm s)
  then show ?case
    using effective_spent_maintain [of l now w "Some sc"]
    by (simp add: ledger_fetch_def Let_def ledger_inv_maintain)
next
  case (admit l q now)
  then have "ledger_inv (maintain now l)" "effective_spent (maintain now l) w (Some sc) \<le> cap"
    using effective_spent_maintain [of l now w "Some sc"] by (simp_all add: ledger_inv_maintain)
  with admit show ?case
    by (simp add: ledger_fetch_def ledger_inv_reserve reserve_respects_cap)
next
  case (dispatched l now i)
  then show ?case
    using effective_spent_maintain [of l now w "Some sc"]
    by (simp add: ledger_fetch_def ledger_inv_maintain ledger_inv_dispatch effective_spent_dispatch)
next
  case (settled l now i j)
  then have m: "ledger_inv (maintain now l)" "effective_spent (maintain now l) w (Some sc) \<le> cap"
    using effective_spent_maintain [of l now w "Some sc"] by (simp_all add: ledger_inv_maintain)
  show ?case
  proof (cases rule: settle_cases [of i j "maintain now l"])
    case refused
    with m show ?thesis by (simp add: ledger_fetch_def)
  next
    case (accepted r a)
    with m settled.hyps(2) [OF accepted(1)] effective_spent_settled [OF m(1) accepted(1), of w "Some sc"]
    show ?thesis by (auto simp: ledger_fetch_def ledger_inv_settled)
  qed
qed

lemma alarm_only [simp]: "maintain now (l\<lparr>alarm_at := t\<rparr>) = (maintain now l)\<lparr>alarm_at := t\<rparr>"
  by (simp add: maintain_def)

lemma fetch_keeps_ledger_inv:
  assumes "ledger_inv l" and "\<And>r. q = PostReserve r \<Longrightarrow> 0 \<le> rq_cost r"
  shows "ledger_inv (snd (ledger_fetch now q l))"
  using assms ledger_inv_maintain [OF assms(1), of now]
  by (cases q) (simp_all add: ledger_fetch_def Let_def ledger_inv_charge ledger_inv_reserve
      ledger_inv_dispatch ledger_inv_settle)

subsection \<open>Migration\<close>

lemma window_spent_set_window:
  "window_spent v (set_window w p x ws) = (if v = w then x else window_spent v ws)"
proof (cases "row_at win_key w ws")
  case None
  then show ?thesis
    by (auto simp: set_window_def window_spent_def row_at_append row_at_Cons split: option.split)
next
  case (Some y)
  then have "win_key y = w" by (auto dest: row_at_in)
  with Some row_at_in [of win_key v ws] show ?thesis
    by (auto simp: set_window_def window_spent_def row_at_update_where split: option.split)
qed

text \<open>Each open reservation leaves the window balance once, as long as the balance contains it.\<close>

lemma window_spent_unwind:
  assumes "list_all (\<lambda>r. 0 \<le> raw_reserved r) rs"
    and "sum_where (\<lambda>r. raw_window r = w) raw_reserved rs \<le> window_spent w ws"
  shows "window_spent w (unwind_windows rs ws) =
    window_spent w ws - sum_where (\<lambda>r. raw_window r = w) raw_reserved rs"
  using assms
proof (induction rs arbitrary: ws)
  case Nil
  then show ?case by simp
next
  case (Cons r rs)
  let ?ws = "set_window (raw_window r) (raw_policy r)
    (max 0 (window_spent (raw_window r) ws - raw_reserved r)) ws"
  have nonneg: "0 \<le> sum_where (\<lambda>r. raw_window r = w) raw_reserved rs"
    using Cons.prems(1) by (intro sum_where_nonneg) (simp add: list_all_iff)
  have step: "window_spent w ?ws = window_spent w ws - (if raw_window r = w then raw_reserved r else 0)"
    using Cons.prems nonneg by (auto simp: window_spent_set_window sum_where_Cons split: if_splits)
  then show ?case
    using Cons.prems Cons.IH [of ?ws] by (auto simp: sum_where_Cons split: if_splits)
qed

subsection \<open>Properties\<close>


definition example_request :: reserve_request where
  "example_request = \<lparr>rq_policy = ''t/p'', rq_window = ''t/p/2026-01'', rq_scope = Some ''s'',
     rq_limit = 100, rq_cost = 60, rq_id = ''budget_1'', rq_dispatched = False, rq_capability = ''llm.chat''\<rparr>"

definition example_ledger :: ledger where
  "example_ledger = snd (ledger_fetch 5 (PostReserve example_request) empty_ledger)"

lemmas example_defs = example_ledger_def example_request_def empty_ledger_def ledger_fetch_def
  maintain_def release_expired_def park_expired_def forget_old_def update_where_def delete_where_def
  reserve_def lookup_reservation_def row_at_def effective_spent_def sum_where_def
  insert_reservation_def schedule_alarm_def Let_def

lemma example_ledger_eq:
  "example_ledger = \<lparr>budget_windows = [], budget_reservations = [receipt_of 5 example_request],
     alarm_at = Some 900005\<rparr>"
  by (simp add: example_defs receipt_of_def reservation_lease_ms_def)

lemma example_ledger_inv: "ledger_inv example_ledger"
  by (simp add: example_ledger_eq ledger_inv_def keyed_Cons example_request_def)


text \<open>
  C2. A fresh admission is granted exactly when its estimate fits the remaining budget; a granted
  one reports the new balance it stores, a refused one stores nothing and charges nothing.
\<close>

theorem reserve_decides:
  assumes "ledger_inv l" and "0 \<le> rq_cost q" and "lookup_reservation l (rq_id q) = None"
    and "reserve now q l = (rp, l')"
  shows "(if rq_cost q \<le> max 0 (rq_limit q - effective_spent l (rq_window q) (rq_scope q))
     then \<exists>x. rp = ReserveReply x \<and> allowed x \<and> charged x = rq_cost q \<and>
       spent x = effective_spent l' (rq_window q) (rq_scope q) \<and>
       spent x \<le> max (rq_limit q) (effective_spent l (rq_window q) (rq_scope q)) \<and>
       lookup_reservation l' (rq_id q) = Some (receipt_of now q)
     else l' = l \<and> (\<exists>x. rp = ReserveReply x \<and> \<not> allowed x \<and> charged x = 0))"
proof (cases "affordable q l")
  case True
  have l': "l' = snd (reserve now q l)" using assms(4) by simp
  have "effective_spent l' (rq_window q) (rq_scope q) =
      effective_spent l (rq_window q) (rq_scope q) + rq_cost q"
    using effective_spent_reserve [OF assms(1-3) True, of now] l' by (simp add: in_scope_def)
  moreover have "lookup_reservation l' (rq_id q) = Some (receipt_of now q)"
    using assms(1,3) True l' by (simp add: bl.store_held)
  moreover have "rp = fst (reserve now q l)" using assms(4) by simp
  ultimately show ?thesis
    using True assms(2,3) by (simp add: affordable_def reserve_fresh Let_def max_def split: if_splits)
next
  case False
  then show ?thesis using assms(3,4) by (auto simp: affordable_def reserve_fresh Let_def)
qed

theorem reserve_decides_witness:
  "\<exists>x. fst (reserve 7 (example_request\<lparr>rq_id := ''budget_2''\<rparr>) example_ledger) = ReserveReply x \<and>
     \<not> allowed x \<and> charged x = 0"
proof -
  let ?q = "example_request\<lparr>rq_id := ''budget_2''\<rparr>"
  obtain rp l' where rp: "reserve 7 ?q example_ledger = (rp, l')" by fastforce
  have "lookup_reservation example_ledger (rq_id ?q) = None"
    by (simp add: example_ledger_eq lookup_reservation_def row_at_Cons example_request_def)
  moreover have "effective_spent example_ledger (rq_window ?q) (rq_scope ?q) = 60"
    by (simp add: example_ledger_eq effective_spent_def sum_where_def in_scope_def example_request_def)
  moreover have "rq_limit ?q = 100" "rq_cost ?q = 60" by (simp_all add: example_request_def)
  ultimately show ?thesis
    using reserve_decides [OF example_ledger_inv _ _ rp] rp by simp
qed

text \<open>
  C3. Settlement replaces the reserved amount by the actual one: the reply names the balance the
  ledger then reads, the receipt is final, and repeating the settlement changes nothing, while a
  different amount is refused.
\<close>

theorem settle_exactly_once:
  assumes "ledger_inv l" and "settle i j l = (SettleReply a n, l')" and "b \<noteq> a"
    and "safe_int b" and "0 \<le> b"
  shows "(\<exists>r. lookup_reservation l i = Some r \<and>
       (\<forall>w s. effective_spent l' w s =
          effective_spent l w s + (if in_scope w s r then a - reserved_micros r else 0)) \<and>
       n = effective_spent l' (window_key r) (budget_scope_key r) \<and>
       lookup_reservation l' i = Some (finalize_at a r)) \<and>
     settle i j l' = (SettleReply a n, l') \<and>
     settle i (JNum (of_int b)) l' = (Refused 409 ''budget_settlement_conflict'', l')"
proof (cases rule: settle_cases [of i j l])
  case refused
  with assms(2) show ?thesis by simp
next
  case (accepted r c)
  with assms(2) have ok: "settles l i j r a" and l': "l' = update_reservation i (finalize_at a) l"
    and n: "n = effective_spent l' (window_key r) (budget_scope_key r)"
    using settle_reply_balance [OF assms(1) accepted(1)] by auto
  have r: "lookup_reservation l i = Some r" "reservation_id r = i"
    using ok assms(1) receipt_ok_lookup by (auto simp: settles_def)
  show ?thesis
    using r n l' effective_spent_settled [OF assms(1) ok] settle_again [OF assms(1) ok] assms
    by (auto simp: lookup_update)
qed

definition dispatched_ledger :: ledger where
  "dispatched_ledger = snd (dispatch 6 ''budget_1'' example_ledger)"

lemma dispatched_ledger_eq:
  "dispatched_ledger = example_ledger\<lparr>budget_reservations := [start_dispatch (receipt_of 5 example_request)]\<rparr>"
  by (simp add: dispatched_ledger_def dispatch_def example_ledger_eq lookup_reservation_def row_at_def
      receipt_of_def example_request_def reservation_lease_ms_def update_reservation_def update_where_def)

lemma dispatched_ledger_inv: "ledger_inv dispatched_ledger"
  using ledger_inv_dispatch [OF example_ledger_inv] by (simp add: dispatched_ledger_def)

theorem settle_exactly_once_witness:
  "\<exists>n l'. settle ''budget_1'' (JNum 42) dispatched_ledger = (SettleReply 42 n, l') \<and>
     settle ''budget_1'' (JNum 42) l' = (SettleReply 42 n, l') \<and>
     settle ''budget_1'' (JNum 41) l' = (Refused 409 ''budget_settlement_conflict'', l')"
proof -
  have "\<exists>n l'. settle ''budget_1'' (JNum 42) dispatched_ledger = (SettleReply 42 n, l')"
    by (simp add: settle_def dispatched_ledger_eq lookup_reservation_def row_at_def
        start_dispatch_def receipt_of_def example_request_def safe_int_def max_safe_integer_def Let_def)
  then obtain n l' where s: "settle ''budget_1'' (JNum 42) dispatched_ledger = (SettleReply 42 n, l')"
    by blast
  from settle_exactly_once [OF dispatched_ledger_inv s, of 41] s show ?thesis
    by (auto simp: safe_int_def max_safe_integer_def)
qed

lemma charge_fields_of:
  "charge_fields \<lparr>cq_id = JStr i, cq_policy = JStr p, cq_window = JStr w, cq_scope = JStr s,
     cq_amount = JNum (of_int a), cq_capability = JStr c\<rparr> =
   (if i \<noteq> [] \<and> p \<noteq> [] \<and> w \<noteq> [] \<and> s \<noteq> [] \<and> c \<noteq> [] \<and> safe_int a \<and> 0 \<le> a
    then Some (i, p, w, s, a) else None)"
  by (simp split: option.split)

text \<open>
  A charge is applied exactly once: an accepted charge adds its amount to the balance of its
  own window and scope, its repetition is acknowledged without changing any balance, and a
  repetition with another amount is refused.
\<close>

theorem charge_exactly_once:
  fixes i p w s capability :: string and a b :: int
  defines "q \<equiv> \<lambda>x. \<lparr>cq_id = JStr i, cq_policy = JStr p, cq_window = JStr w, cq_scope = JStr s,
     cq_amount = JNum (of_int x), cq_capability = JStr capability\<rparr>"
  assumes "ledger_inv l" and "lookup_reservation l i = None"
    and "i \<noteq> []" "p \<noteq> []" "w \<noteq> []" "s \<noteq> []" "capability \<noteq> []" "safe_int a" "0 \<le> a"
    and "safe_int b" "0 \<le> b" "b \<noteq> a"
  shows "\<exists>l'. charge now (q a) l = (ChargeReply i, l') \<and>
     effective_spent l' w (Some s) = effective_spent l w (Some s) + a \<and>
     fst (charge later (q a) l') = ChargeReply i \<and>
     budget_reservations (snd (charge later (q a) l')) = budget_reservations l' \<and>
     charge later (q b) l' = (Refused 409 ''budget_charge_conflict'', l')"
proof -
  let ?r = "\<lparr>reservation_id = i, window_key = w, policy_id = p, reserved_micros = a,
     created_at_ms = now, settled = 1, dispatch_started = True, budget_scope_key = Some s\<rparr>"
  let ?l = "schedule_alarm now (insert_reservation ?r l)"
  have eq: "charge now (q a) l = (ChargeReply i, ?l)"
    using assms by (simp add: charge_def charge_fields_of del: charge_fields.simps)
  have held: "lookup_reservation ?l i = Some ?r"
    using assms(3) lookup_insert [of l ?r i] by simp
  have "effective_spent ?l w (Some s) = effective_spent l w (Some s) + a"
    using assms effective_spent_insert [of l ?r w "Some s"] by (simp add: in_scope_def)
  then show ?thesis
    using eq held assms
    by (intro exI [of _ ?l])
      (simp add: charge_def charge_fields_of charge_conflicts_def del: charge_fields.simps)
qed

theorem charge_exactly_once_witness:
  "\<exists>l'. charge 1 \<lparr>cq_id = JStr ''c'', cq_policy = JStr ''p'', cq_window = JStr ''w'', cq_scope = JStr ''s'',
      cq_amount = JNum (of_int 30), cq_capability = JStr ''llm.chat''\<rparr> empty_ledger = (ChargeReply ''c'', l') \<and>
    effective_spent l' ''w'' (Some ''s'') = effective_spent empty_ledger ''w'' (Some ''s'') + 30"
  using charge_exactly_once [OF ledger_inv_empty, of "''c''" "''p''" "''w''" "''s''" "''llm.chat''" 30 31 1 2]
  by (simp add: empty_ledger_def lookup_reservation_def safe_int_def max_safe_integer_def) blast

lemma row_at_map_filter:
  assumes "\<And>r r'. f r = Some r' \<Longrightarrow> key r' = key r" and "keyed key t"
  shows "row_at key k (List.map_filter f t) = Option.bind (row_at key k t) f"
  using assms(2)
proof (induction t)
  case Nil
  then show ?case by (simp add: map_filter_simps)
next
  case (Cons r t)
  have "row_at key k t = None" if "key r = k"
    using Cons.prems that by (auto simp: keyed_Cons row_at_None)
  with Cons assms(1) [of r] show ?case
    by (auto simp: map_filter_simps row_at_Cons keyed_Cons split: option.split)
qed

lemma lookup_maintain:
  "ledger_inv l \<Longrightarrow> lookup_reservation (maintain now l) i = Option.bind (lookup_reservation l i) (maintained now)"
  unfolding lookup_reservation_def maintain_rows ledger_inv_def
  by (rule row_at_map_filter) (auto simp: maintained_Some)



text \<open>
  The invariant (unique receipts, non-negative amounts, nothing charged to undispatched work)
  is kept by every request the ledger serves, as long as estimates are non-negative.
\<close>

theorem every_request_keeps_invariant:
  assumes "ledger_inv l" and "\<And>r. q = PostReserve r \<Longrightarrow> 0 \<le> rq_cost r"
  shows "ledger_inv (snd (ledger_fetch now q l)) \<and> ledger_inv (ledger_alarm now l)"
proof
  show "ledger_inv (snd (ledger_fetch now q l))" using assms by (rule fetch_keeps_ledger_inv)
  have "ledger_inv (maintain now (l\<lparr>alarm_at := None\<rparr>))"
    using assms(1) by (intro ledger_inv_maintain) (simp add: ledger_inv_def)
  then show "ledger_inv (ledger_alarm now l)" unfolding ledger_alarm_def by simp
qed

theorem every_request_keeps_invariant_witness:
  "ledger_inv (snd (ledger_fetch 9 (PostSettle ''budget_1'' (JNum 3)) dispatched_ledger)) \<and>
   ledger_inv (ledger_alarm 9 dispatched_ledger)"
  using every_request_keeps_invariant [OF dispatched_ledger_inv, of "PostSettle ''budget_1'' (JNum 3)" 9]
  by simp

text \<open>
  Upgrading a table without creation times conserves the debt of every window: what the old
  balance contained is what the upgraded balance and its receipts add up to.
\<close>

theorem migration_conserves_debt:
  assumes "list_all (\<lambda>r. 0 \<le> raw_reserved r) rs"
    and "sum_where (\<lambda>r. raw_window r = w) raw_reserved rs \<le> window_spent w ws"
  shows "effective_spent (ensure_schema False now ws rs) w None = max 0 (window_spent w ws)"
proof -
  have "sum_where (in_scope w None) reserved_micros (map (upgrade_row now) rs) =
      sum_where (\<lambda>r. raw_window r = w) raw_reserved rs"
    by (induction rs) (simp_all add: sum_where_Cons in_scope_def upgrade_row_def)
  moreover have "0 \<le> sum_where (\<lambda>r. raw_window r = w) raw_reserved rs"
    using assms(1) by (intro sum_where_nonneg) (simp add: list_all_iff)
  ultimately show ?thesis
    using window_spent_unwind [OF assms] assms(2)
    by (simp add: effective_spent_def ensure_schema_def window_spent_def)
qed

theorem migration_conserves_debt_witness:
  "effective_spent (ensure_schema False 1 [\<lparr>win_key = ''w'', win_policy = ''p'', spent_micros = 50\<rparr>]
     [\<lparr>raw_id = ''r'', raw_window = ''w'', raw_policy = ''p'', raw_reserved = 20, raw_created = None,
       raw_settled = None, raw_dispatch = None, raw_scope = None\<rparr>]) ''w'' None = 50"
  by (subst migration_conserves_debt) (simp_all add: sum_where_Cons window_spent_def row_at_Cons)

end
