(* ===== verification/Access_Types.thy ===== *)
theory Access_Types
  imports Prelude
begin

section \<open>Policies, credentials and identities\<close>

text \<open>
  The records of \<open>worker/types.ts\<close> and \<open>shared/contracts.ts\<close> that the components
  below read. An optional or nullable field whose two empty values the code never tells
  apart is an option; where \<open>Object.hasOwn\<close> does tell them apart it is a nested option.
  Policy sections that no component below inspects are not fields of the records.
\<close>

datatype pricing_gap = AudioUploadBound | ModelRequestFee | HostedToolFee | HostedToolUsage | RetainedToolUnknown | OpaqueInputBound
datatype budget_scope = PolicyScope | PrincipalScope
datatype budget_mode = ReserveMode | SoftMode
datatype selection_strategy = Priority | RoundRobin | LeastUsed | MostRemaining | Threshold | WeightedRandom
datatype stickiness = NoStickiness | IdentitySticky | SessionSticky
datatype stale_state = AllowStale | DenyStale

record routing_policy =
  strategy :: selection_strategy
  sticky :: stickiness
  failover :: bool
  environmentFallback :: "bool option"
  includedQuotaReservePercent :: "rat option"
  staleState :: stale_state
  staleAfterSeconds :: rat
  switchAtUsedPercent :: rat
  hysteresisPercent :: rat
  eligibleGrants :: "(string \<times> string list) list"
  sharedGrants :: "(string \<times> string list) list option"

text \<open>A cap of an override: absent, explicitly unlimited (\<open>null\<close>) or an amount.\<close>

record budget_override =
  ov_daily :: "int option option"
  ov_weekly :: "int option option"
  ov_monthly :: "int option option"
  updatedBy :: string
  updatedAt :: int

record policy_service_tiers =
  tiers_allowed :: "string list"
  tiers_models :: "(string \<times> string list) list option"

record access_policy =
  pol_enabled :: bool
  generation :: string
  providers :: "string list"
  models :: "string list option"
  poolVisible :: bool
  tenantId :: "string option"
  tokenRole :: "string option"
  monthlyBudgetMicros :: "int option"
  dailyBudgetMicros :: "int option"
  weeklyBudgetMicros :: "int option"
  limitHint :: "string option"
  policyTiers :: "policy_service_tiers option"
  requestCostMicros :: "int option"
  requestCostsMicros :: "(string \<times> int) list option"
  budgetScope :: "budget_scope option"
  budgetMode :: "budget_mode option"
  retainRequestContent :: bool
  grantRouting :: routing_policy
  budgetOverride :: "budget_override option"

record proxy_credential =
  cred_name :: "string option"
  cred_enabled :: bool
  secretSha256 :: string
  cred_policyId :: string
  policyGeneration :: string
  cred_principalId :: "string option"
  expiresAt :: "int option"
  cred_serviceTiers :: "string list option"

datatype auth_type = ProxyKey | AccessLogin

record authorized_identity =
  id_serviceTiers :: "string list option"
  credentialId :: "string option"
  principalId :: "string option"
  authType :: auth_type
  policyId :: string
  policy :: access_policy
  contentRetentionDisabled :: bool

record provider_connection =
  providerId :: string
  conn_enabled :: bool
  conn_monthlyBudget :: "int option"

definition default_routing :: routing_policy where
  "default_routing = \<lparr>strategy = Priority, sticky = NoStickiness, failover = True, environmentFallback = None,
     includedQuotaReservePercent = None, staleState = AllowStale, staleAfterSeconds = 300,
     switchAtUsedPercent = 90, hysteresisPercent = 5, eligibleGrants = [], sharedGrants = None\<rparr>"

definition sample_policy :: access_policy where
  "sample_policy = \<lparr>pol_enabled = True, generation = ''g1'', providers = [], models = None, poolVisible = False,
     tenantId = None, tokenRole = None, monthlyBudgetMicros = Some 100, dailyBudgetMicros = None,
     weeklyBudgetMicros = None, limitHint = None, policyTiers = None, requestCostMicros = None,
     requestCostsMicros = None, budgetScope = None, budgetMode = None, retainRequestContent = False,
     grantRouting = default_routing, budgetOverride = None\<rparr>"

definition sample_identity :: authorized_identity where
  "sample_identity = \<lparr>id_serviceTiers = None, credentialId = Some ''cred'', principalId = None,
     authType = ProxyKey, policyId = ''team'', policy = sample_policy, contentRetentionDisabled = False\<rparr>"

end
