(* ===== verification/Js_Date.thy ===== *)
theory Js_Date
  imports Prelude
begin

section \<open>Dates and text\<close>

text \<open>
  What the worker uses of JavaScript's \<open>Date\<close> (UTC only) and of its string functions. A
  date is its time value, milliseconds since the epoch. The calendar follows the language's
  definition: a year starts at \<open>day_from_year\<close>, months are looked up in the cumulative
  day table. \<open>toISOString\<close> is modelled for the years it writes with four digits.
\<close>

definition ms_per_day :: int where
  "ms_per_day = 86400000"

subsection \<open>The calendar\<close>

definition day_of :: "int \<Rightarrow> int" where
  "day_of t = t div ms_per_day"

definition day_from_year :: "int \<Rightarrow> int" where
  "day_from_year y = 365 * (y - 1970) + (y - 1969) div 4 - (y - 1901) div 100 + (y - 1601) div 400"

definition leap_year :: "int \<Rightarrow> bool" where
  "leap_year y \<longleftrightarrow> y mod 4 = 0 \<and> (y mod 100 \<noteq> 0 \<or> y mod 400 = 0)"

text \<open>The mean year gives an estimate that is off by at most one.\<close>

definition year_from_day :: "int \<Rightarrow> int" where
  "year_from_day d =
     (let e = 1970 + (d * 400) div 146097
      in if d < day_from_year e then e - 1 else if day_from_year (e + 1) \<le> d then e + 1 else e)"

definition days_before :: "bool \<Rightarrow> int \<Rightarrow> int" where
  "days_before lp m = [0, 31, 59, 90, 120, 151, 181, 212, 243, 273, 304, 334, 365] ! nat (m - 1)
     + (if lp \<and> 2 < m then 1 else 0)"

definition month_from_doy :: "bool \<Rightarrow> int \<Rightarrow> int" where
  "month_from_doy lp n = 1 + int (length (takeWhile (\<lambda>m. days_before lp m \<le> n) [2, 3, 4, 5, 6, 7, 8, 9, 10, 11, 12]))"

definition year_of :: "int \<Rightarrow> int" where
  "year_of d = year_from_day d"

definition month_of :: "int \<Rightarrow> int" where
  "month_of d = month_from_doy (leap_year (year_of d)) (d - day_from_year (year_of d))"

definition date_of :: "int \<Rightarrow> int" where
  "date_of d = d - day_from_year (year_of d) - days_before (leap_year (year_of d)) (month_of d) + 1"

text \<open>\<open>getUTCDay\<close>: Sunday is 0, and day 0 was a Thursday.\<close>

definition weekday :: "int \<Rightarrow> int" where
  "weekday d = (d + 4) mod 7"

text \<open>\<open>Date.UTC(y, m, 1)\<close>, with a month past December carried into the next year.\<close>

definition utc_month_start :: "int \<Rightarrow> int \<Rightarrow> int" where
  "utc_month_start y m =
     (let y' = y + (m - 1) div 12; m' = (m - 1) mod 12 + 1
      in (day_from_year y' + days_before (leap_year y') m') * ms_per_day)"

lemma div_step: "(0::int) < n \<Longrightarrow> (x + 1) div n = x div n + (if n dvd x + 1 then 1 else 0)"
proof -
  assume n: "0 < n"
  have split: "x = n * (x div n) + x mod n" "0 \<le> x mod n" "x mod n < n" using n by simp_all
  show ?thesis
  proof (cases "n dvd x + 1")
    case True
    then obtain k where k: "x + 1 = n * k" by blast
    then have "x = n * (k - 1) + (n - 1)" by (simp add: algebra_simps)
    then have "x div n = k - 1" using n by (intro int_div_pos_eq [where r = "n - 1"]) auto
    with k n True show ?thesis by simp
  next
    case False
    have "x mod n + 1 \<noteq> n"
    proof
      assume "x mod n + 1 = n"
      then have "x + 1 = n * (x div n + 1)"
        using mult_div_mod_eq [of n x] unfolding distrib_left by linarith
      with False show False by simp
    qed
    with split have "(x + 1) div n = x div n"
      by (intro int_div_pos_eq [where r = "x mod n + 1"]) auto
    with False show ?thesis by simp
  qed
qed

lemma leap_year_dvd: "leap_year y \<longleftrightarrow> 4 dvd y \<and> (\<not> 100 dvd y \<or> 400 dvd y)"
  by (simp add: leap_year_def mod_eq_0_iff_dvd)

lemma leap_days:
  fixes d e :: int
  assumes "e = d + 365 + (if p then 1 else 0) - (if q then 1 else 0) + (if r then 1 else 0)"
    and "q \<Longrightarrow> p" and "r \<Longrightarrow> q"
  shows "e = d + (if p \<and> (\<not> q \<or> r) then 366 else 365)"
  using assms by (cases p; cases q; cases r) auto

lemma year_length: "day_from_year (y + 1) = day_from_year y + (if leap_year y then 366 else 365)"
proof -
  have "(4::int) dvd (y - 1969) + 1 \<longleftrightarrow> 4 dvd y" "(100::int) dvd (y - 1901) + 1 \<longleftrightarrow> 100 dvd y"
    "(400::int) dvd (y - 1601) + 1 \<longleftrightarrow> 400 dvd y"
    using dvd_diff_left_iff [of "4::int" 1968 y] dvd_diff_left_iff [of "100::int" 1900 y]
      dvd_diff_left_iff [of "400::int" 1600 y] by simp_all
  then have "(y + 1 - 1969) div 4 = (y - 1969) div 4 + (if 4 dvd y then 1 else 0)"
    "(y + 1 - 1901) div 100 = (y - 1901) div 100 + (if 100 dvd y then 1 else 0)"
    "(y + 1 - 1601) div 400 = (y - 1601) div 400 + (if 400 dvd y then 1 else 0)"
    using div_step [of 4 "y - 1969"] div_step [of 100 "y - 1901"] div_step [of 400 "y - 1601"]
    by (simp_all only: add.commute add_diff_eq diff_add_eq zero_less_numeral simp_thms)
  then have "day_from_year (y + 1) = day_from_year y + 365
      + (if 4 dvd y then 1 else 0) - (if 100 dvd y then 1 else 0) + (if 400 dvd y then 1 else 0)"
    unfolding day_from_year_def by (simp only: right_diff_distrib distrib_left)
  moreover have "(100::int) dvd y \<Longrightarrow> 4 dvd y" "(400::int) dvd y \<Longrightarrow> 100 dvd y"
    using dvd_trans [of 4 100 y] dvd_trans [of 100 400 y] by simp_all
  ultimately show ?thesis unfolding leap_year_dvd by (rule leap_days)
qed

lemma div_bounds: "(0::int) < n \<Longrightarrow> n * (x div n) \<le> x" "(0::int) < n \<Longrightarrow> x < n * (x div n) + n"
  using mult_div_mod_eq [of n x] pos_mod_bound [of n x] pos_mod_sign [of n x] by linarith+

text \<open>A year start is within two days of the mean-year line.\<close>

lemma day_from_year_bounds:
  "146097 * (y - 1970) - 800 < 400 * day_from_year y" "400 * day_from_year y < 146097 * (y - 1970) + 800"
proof -
  obtain a b c where q: "a = (y - 1969) div 4" "b = (y - 1901) div 100" "c = (y - 1601) div 400" by blast
  have "4 * a \<le> y - 1969" "y - 1969 < 4 * a + 4" "100 * b \<le> y - 1901" "y - 1901 < 100 * b + 100"
    "400 * c \<le> y - 1601" "y - 1601 < 400 * c + 400"
    unfolding q by (rule div_bounds; simp)+
  then show "146097 * (y - 1970) - 800 < 400 * day_from_year y"
    "400 * day_from_year y < 146097 * (y - 1970) + 800"
    unfolding day_from_year_def q [symmetric] by (simp_all add: algebra_simps)
qed

lemma year_estimate:
  assumes "e = 1970 + (d * 400) div 146097"
  shows "day_from_year (e - 1) \<le> d" and "d < day_from_year (e + 2)"
proof -
  obtain n where n: "n = (d * 400) div 146097" by blast
  have "146097 * n \<le> d * 400" "d * 400 < 146097 * n + 146097"
    unfolding n by (rule div_bounds; simp)+
  then show "day_from_year (e - 1) \<le> d" "d < day_from_year (e + 2)"
    using day_from_year_bounds(2) [of "e - 1"] day_from_year_bounds(1) [of "e + 2"]
    unfolding assms n [symmetric] by (simp_all add: algebra_simps)
qed

lemma year_from_day_bounds:
  "day_from_year (year_from_day d) \<le> d" "d < day_from_year (year_from_day d + 1)"
  using year_estimate [OF refl, of d]
  unfolding year_from_day_def Let_def by (auto simp: add.commute)

lemma date_determines_day:
  "year_of a = year_of b \<Longrightarrow> month_of a = month_of b \<Longrightarrow> date_of a = date_of b \<Longrightarrow> a = b"
  by (simp add: date_of_def)

lemma month_from_doy_bounds:
  assumes "0 \<le> n" and "n < (if lp then 366 else 365)"
  shows "1 \<le> month_from_doy lp n" "month_from_doy lp n \<le> 12"
    "days_before lp (month_from_doy lp n) \<le> n" "n - days_before lp (month_from_doy lp n) \<le> 30"
  using assms by (auto simp: month_from_doy_def days_before_def split: if_splits)

lemma month_bounds: "1 \<le> month_of d" "month_of d \<le> 12"
  and date_bounds: "1 \<le> date_of d" "date_of d \<le> 31"
proof -
  let ?y = "year_of d"
  have n: "0 \<le> d - day_from_year ?y" "d - day_from_year ?y < (if leap_year ?y then 366 else 365)"
    using year_from_day_bounds [of d] year_length [of "year_from_day d"] by (auto simp: year_of_def)
  show "1 \<le> month_of d" "month_of d \<le> 12" "1 \<le> date_of d" "date_of d \<le> 31"
    using month_from_doy_bounds [OF n] by (simp_all add: month_of_def date_of_def)
qed

subsection \<open>Decimal text\<close>

definition digit :: "nat \<Rightarrow> char" where
  "digit n = char_of (48 + n)"

fun show_nat :: "nat \<Rightarrow> string" where
  "show_nat n = (if n < 10 then [digit n] else show_nat (n div 10) @ [digit (n mod 10)])"

declare show_nat.simps [simp del]

definition show_int :: "int \<Rightarrow> string" where
  "show_int n = (if n < 0 then ''-'' @ show_nat (nat (- n)) else show_nat (nat n))"

definition pad_start :: "nat \<Rightarrow> string \<Rightarrow> string" where
  "pad_start n s = replicate (n - length s) (CHR ''0'') @ s"

definition read_digits :: "string \<Rightarrow> nat" where
  "read_digits s = foldl (\<lambda>a c. 10 * a + (of_char c - 48)) 0 s"

lemma read_digits_show: "read_digits (show_nat n) = n"
proof (induction n rule: show_nat.induct)
  case (1 n)
  have d: "of_char (digit k) - 48 = k" if "k < 10" for k :: nat
    using that by (simp add: digit_def)
  show ?case
  proof (cases "n < 10")
    case True
    then show ?thesis by (simp add: show_nat.simps read_digits_def d)
  next
    case False
    with 1 have "read_digits (show_nat (n div 10)) = n div 10" by simp
    with False show ?thesis by (simp add: show_nat.simps [of n] read_digits_def d)
  qed
qed

lemma read_digits_pad: "read_digits (pad_start n s) = read_digits s"
proof -
  have "foldl (\<lambda>a c. 10 * a + (of_char c - 48)) 0 (replicate k (CHR ''0'')) = (0::nat)" for k
    by (induction k) simp_all
  then show ?thesis by (simp add: read_digits_def pad_start_def)
qed

lemma pad_show_inject: "pad_start n (show_nat a) = pad_start m (show_nat b) \<Longrightarrow> a = b"
  by (metis read_digits_pad read_digits_show)

lemma length_show_nat: "n < 10 ^ k \<Longrightarrow> 0 < k \<Longrightarrow> length (show_nat n) \<le> k"
proof (induction k arbitrary: n)
  case 0
  then show ?case by simp
next
  case (Suc k)
  show ?case
  proof (cases "n < 10")
    case True
    then show ?thesis by (simp add: show_nat.simps)
  next
    case False
    with Suc.prems have "0 < k" by (cases k) simp_all
    moreover have "n div 10 < 10 ^ k" using Suc.prems by (simp add: div_less_iff_less_mult)
    ultimately show ?thesis using False Suc.IH by (simp add: show_nat.simps [of n])
  qed
qed

lemma length_pad: "length s \<le> n \<Longrightarrow> length (pad_start n s) = n"
  by (simp add: pad_start_def)

subsection \<open>ISO strings\<close>

definition iso_year :: "int \<Rightarrow> string" where
  "iso_year y =
     (if 0 \<le> y \<and> y \<le> 9999 then pad_start 4 (show_nat (nat y))
      else (if y < 0 then ''-'' else ''+'') @ pad_start 6 (show_nat (nat \<bar>y\<bar>)))"

definition two :: "int \<Rightarrow> string" where
  "two n = pad_start 2 (show_nat (nat n))"

definition iso_string :: "int \<Rightarrow> string" where
  "iso_string t =
     (let d = day_of t; r = t mod ms_per_day
      in iso_year (year_of d) @ ''-'' @ two (month_of d) @ ''-'' @ two (date_of d) @ ''T'' @
         two (r div 3600000) @ '':'' @ two (r div 60000 mod 60) @ '':'' @ two (r div 1000 mod 60) @
         ''.'' @ pad_start 3 (show_nat (nat (r mod 1000))) @ ''Z'')"

text \<open>Times whose year is written with four digits.\<close>

definition civil_time :: "int \<Rightarrow> bool" where
  "civil_time t \<longleftrightarrow> 0 \<le> year_of (day_of t) \<and> year_of (day_of t) \<le> 9999"

lemma two_inject: "0 \<le> a \<Longrightarrow> 0 \<le> b \<Longrightarrow> two a = two b \<longleftrightarrow> a = b"
  by (auto simp: two_def dest: pad_show_inject)

lemma length_two: "0 \<le> n \<Longrightarrow> n < 100 \<Longrightarrow> length (two n) = 2"
  unfolding two_def by (intro length_pad length_show_nat) auto

lemma length_iso_year: "civil_time t \<Longrightarrow> length (iso_year (year_of (day_of t))) = 4"
  unfolding civil_time_def iso_year_def by (simp, intro length_pad length_show_nat) auto

lemma iso_year_inject:
  "civil_time t \<Longrightarrow> civil_time u \<Longrightarrow>
   iso_year (year_of (day_of t)) = iso_year (year_of (day_of u)) \<longleftrightarrow> year_of (day_of t) = year_of (day_of u)"
  by (auto simp: civil_time_def iso_year_def dest: pad_show_inject)

lemma iso_month: "civil_time t \<Longrightarrow>
    take 7 (iso_string t) = iso_year (year_of (day_of t)) @ ''-'' @ two (month_of (day_of t))"
  using length_iso_year [of t] length_two [of "month_of (day_of t)"] month_bounds [of "day_of t"]
  by (simp add: iso_string_def Let_def)

lemma iso_day: "civil_time t \<Longrightarrow>
    take 10 (iso_string t) = iso_year (year_of (day_of t)) @ ''-'' @ two (month_of (day_of t)) @
      ''-'' @ two (date_of (day_of t))"
  using length_iso_year [of t] length_two [of "month_of (day_of t)"] length_two [of "date_of (day_of t)"]
    month_bounds [of "day_of t"] date_bounds [of "day_of t"]
  by (simp add: iso_string_def Let_def)

lemma iso_month_inject:
  assumes "civil_time t" and "civil_time u"
  shows "take 7 (iso_string t) = take 7 (iso_string u) \<longleftrightarrow>
    year_of (day_of t) = year_of (day_of u) \<and> month_of (day_of t) = month_of (day_of u)"
  using assms length_iso_year [of t] length_iso_year [of u] month_bounds [of "day_of t"] month_bounds [of "day_of u"]
  by (simp add: iso_month append_eq_append_conv two_inject iso_year_inject)

lemma iso_day_inject:
  assumes "civil_time t" and "civil_time u"
  shows "take 10 (iso_string t) = take 10 (iso_string u) \<longleftrightarrow> day_of t = day_of u"
proof -
  have "take 10 (iso_string t) = take 10 (iso_string u) \<longleftrightarrow>
      year_of (day_of t) = year_of (day_of u) \<and> month_of (day_of t) = month_of (day_of u) \<and>
      date_of (day_of t) = date_of (day_of u)"
    using assms length_iso_year [of t] length_iso_year [of u]
      length_two [of "month_of (day_of t)"] length_two [of "month_of (day_of u)"]
      month_bounds [of "day_of t"] month_bounds [of "day_of u"]
      date_bounds [of "day_of t"] date_bounds [of "day_of u"]
    by (simp add: iso_day append_eq_append_conv two_inject iso_year_inject)
  then show ?thesis using date_determines_day [of "day_of t" "day_of u"] by auto
qed

end
