(* ===== verification/Js_Text.thy ===== *)
theory Js_Text
  imports Prelude
begin

section \<open>Strings\<close>

text \<open>
  The string functions the worker calls: trimming, lower case and \<open>JSON.stringify\<close> of
  strings and of arrays of strings. White space and letter case are those of ASCII; bytes
  of other characters are left alone.
\<close>

definition is_space :: "char \<Rightarrow> bool" where
  "is_space c \<longleftrightarrow> c = CHR '' '' \<or> (9 \<le> (of_char c :: nat) \<and> (of_char c :: nat) \<le> 13)"

definition trim :: "string \<Rightarrow> string" where
  "trim s = rev (dropWhile is_space (rev (dropWhile is_space s)))"

definition lower_char :: "char \<Rightarrow> char" where
  "lower_char c = (let n = (of_char c :: nat) in if 65 \<le> n \<and> n \<le> 90 then char_of (n + 32) else c)"

definition to_lower :: "string \<Rightarrow> string" where
  "to_lower = map lower_char"

fun starts_with :: "string \<Rightarrow> string \<Rightarrow> bool" where
  "starts_with [] s = True"
| "starts_with (x # xs) (y # ys) = (x = y \<and> starts_with xs ys)"
| "starts_with (x # xs) [] = False"

lemma starts_with_iff: "starts_with p s \<longleftrightarrow> (\<exists>r. s = p @ r)"
  by (induction p s rule: starts_with.induct) auto

fun join :: "string \<Rightarrow> string list \<Rightarrow> string" where
  "join sep [] = []"
| "join sep [x] = x"
| "join sep (x # xs) = x @ sep @ join sep xs"

subsection \<open>JSON text of strings\<close>

definition hex_digit :: "nat \<Rightarrow> char" where
  "hex_digit n = (if n < 10 then char_of (48 + n) else char_of (87 + n))"

definition hex_value :: "char \<Rightarrow> nat" where
  "hex_value c = (let n = of_char c in if n < 58 then n - 48 else n - 87)"

text \<open>One character inside a JSON string: quote, backslash and control characters are escaped.\<close>

definition json_escape :: "char \<Rightarrow> string" where
  "json_escape c =
     (let n = (of_char c :: nat) in
      if n = 34 then [CHR 0x5C, CHR 0x22]
      else if n = 92 then [CHR 0x5C, CHR 0x5C]
      else if n = 8 then [CHR 0x5C, CHR ''b'']
      else if n = 9 then [CHR 0x5C, CHR ''t'']
      else if n = 10 then [CHR 0x5C, CHR ''n'']
      else if n = 12 then [CHR 0x5C, CHR ''f'']
      else if n = 13 then [CHR 0x5C, CHR ''r'']
      else if n < 32 then [CHR 0x5C, CHR ''u'', CHR ''0'', CHR ''0'', hex_digit (n div 16), hex_digit (n mod 16)]
      else [c])"

definition quote_mark :: char where
  "quote_mark = CHR 0x22"

definition json_string :: "string \<Rightarrow> string" where
  "json_string s = [quote_mark] @ concat (map json_escape s) @ [quote_mark]"

definition json_strings :: "string list \<Rightarrow> string" where
  "json_strings xs = ''['' @ join '','' (map json_string xs) @ '']''"

text \<open>Reading one escaped character back; the reader stops at an unescaped quote.\<close>

fun unescape :: "string \<Rightarrow> (char \<times> string) option" where
  "unescape [] = None"
| "unescape (c # s) =
     (if c = quote_mark then None
      else if (of_char c :: nat) \<noteq> 92 then Some (c, s)
      else case s of
          [] \<Rightarrow> None
        | d # r \<Rightarrow>
            if d = CHR ''b'' then Some (CHR 0x08, r)
            else if d = CHR ''t'' then Some (CHR 0x09, r)
            else if d = CHR ''n'' then Some (CHR 0x0A, r)
            else if d = CHR ''f'' then Some (CHR 0x0C, r)
            else if d = CHR ''r'' then Some (CHR 0x0D, r)
            else if d = CHR ''u'' then
              (case r of _ # _ # x # y # r' \<Rightarrow> Some (char_of (16 * hex_value x + hex_value y), r') | _ \<Rightarrow> None)
            else Some (d, r))"

lemma hex_value_digit: "n < 16 \<Longrightarrow> hex_value (hex_digit n) = n"
  by (auto simp: hex_value_def hex_digit_def)

declare unescape.simps [simp del]

lemma unescape_plain: "(of_char c :: nat) \<noteq> 34 \<Longrightarrow> (of_char c :: nat) \<noteq> 92 \<Longrightarrow> unescape (c # s) = Some (c, s)"
  by (auto simp: unescape.simps quote_mark_def)

lemma unescape_short:
  "unescape (CHR 0x5C # CHR 0x22 # s) = Some (CHR 0x22, s)"
  "unescape (CHR 0x5C # CHR 0x5C # s) = Some (CHR 0x5C, s)"
  "unescape (CHR 0x5C # CHR ''b'' # s) = Some (CHR 0x08, s)"
  "unescape (CHR 0x5C # CHR ''t'' # s) = Some (CHR 0x09, s)"
  "unescape (CHR 0x5C # CHR ''n'' # s) = Some (CHR 0x0A, s)"
  "unescape (CHR 0x5C # CHR ''f'' # s) = Some (CHR 0x0C, s)"
  "unescape (CHR 0x5C # CHR ''r'' # s) = Some (CHR 0x0D, s)"
  "unescape (CHR 0x5C # CHR ''u'' # a # b # x # y # s) =
     Some (char_of (16 * hex_value x + hex_value y), s)"
  by (simp_all add: unescape.simps quote_mark_def)

lemma char_codes:
  "char_of (34::nat) = CHR 0x22" "char_of (92::nat) = CHR 0x5C" "char_of (8::nat) = CHR 0x08"
  "char_of (9::nat) = CHR 0x09" "char_of (10::nat) = CHR 0x0A" "char_of (12::nat) = CHR 0x0C"
  "char_of (13::nat) = CHR 0x0D"
  by (simp_all add: char_of_def bit_0)

lemma unescape_escape: "unescape (json_escape c @ s) = Some (c, s)"
proof -
  obtain n :: nat where n: "n = of_char c" by blast
  then have c: "c = char_of n" by simp
  consider "n = 34 \<or> n = 92 \<or> n = 8 \<or> n = 9 \<or> n = 10 \<or> n = 12 \<or> n = 13"
    | "n < 32" "n \<notin> {8, 9, 10, 12, 13}" | "32 \<le> n" "n \<noteq> 34" "n \<noteq> 92" by fastforce
  then show ?thesis
  proof cases
    case 1
    then show ?thesis unfolding json_escape_def n [symmetric] Let_def
      by (elim disjE) (simp_all add: unescape_short c char_codes)
  next
    case 2
    have "char_of (16 * hex_value (hex_digit (n div 16)) + hex_value (hex_digit (n mod 16))) = c"
      using 2 by (simp add: hex_value_digit c)
    with 2 show ?thesis unfolding json_escape_def n [symmetric] Let_def
      by (simp add: unescape_short)
  next
    case 3
    then show ?thesis unfolding json_escape_def n [symmetric] Let_def
      using unescape_plain [of c s] n by simp
  qed
qed

lemma unescape_quote: "unescape (quote_mark # s) = None"
  by (simp add: unescape.simps)

lemma escaped_inject:
  "concat (map json_escape s) @ quote_mark # x = concat (map json_escape t) @ quote_mark # y \<Longrightarrow>
   s = t \<and> x = y"
proof (induction s t rule: list_induct2')
  case 1
  then show ?case by simp
next
  case (2 c s)
  then have "json_escape c @ concat (map json_escape s) @ quote_mark # x = quote_mark # y" by simp
  then have "unescape (quote_mark # y) = Some (c, concat (map json_escape s) @ quote_mark # x)"
    using unescape_escape by metis
  then show ?case by (simp add: unescape_quote)
next
  case (3 d t)
  then have "quote_mark # x = json_escape d @ concat (map json_escape t) @ quote_mark # y" by simp
  then have "unescape (quote_mark # x) = Some (d, concat (map json_escape t) @ quote_mark # y)"
    using unescape_escape by metis
  then show ?case by (simp add: unescape_quote)
next
  case (4 c s d t)
  then have "json_escape c @ concat (map json_escape s) @ quote_mark # x =
      json_escape d @ concat (map json_escape t) @ quote_mark # y" by simp
  then have "Some (c, concat (map json_escape s) @ quote_mark # x) =
      Some (d, concat (map json_escape t) @ quote_mark # y)"
    using unescape_escape by metis
  with 4(1) show ?case by simp
qed

lemma json_string_inject: "json_string s @ x = json_string t @ y \<Longrightarrow> s = t \<and> x = y"
  using escaped_inject [of s x t y] by (simp add: json_string_def)

lemma join_Cons: "xs \<noteq> [] \<Longrightarrow> join sep (x # xs) = x @ sep @ join sep xs"
  by (cases xs) simp_all

text \<open>The text after the first string tells whether another one follows.\<close>

definition json_tail :: "string list \<Rightarrow> string" where
  "json_tail xs = (if xs = [] then '']'' else '','' @ join '','' (map json_string xs) @ '']'')"

lemma join_json_Cons: "join '','' (map json_string (x # xs)) @ '']'' = json_string x @ json_tail xs"
  by (cases "xs = []") (simp_all add: json_tail_def join_Cons)

lemma json_tail_inject: "json_tail xs = json_tail ys \<Longrightarrow> xs = ys"
proof (induction xs ys rule: list_induct2')
  case (4 x xs y ys)
  then have "json_string x @ json_tail xs = json_string y @ json_tail ys"
    by (simp add: json_tail_def [of "_ # _"] join_json_Cons [symmetric] del: list.map)
  with 4(1) show ?case using json_string_inject by blast
qed (simp_all add: json_tail_def)

lemma join_map_json_inject:
  "join '','' (map json_string xs) @ '']'' = join '','' (map json_string ys) @ '']'' \<Longrightarrow> xs = ys"
proof (induction xs ys rule: list_induct2')
  case (4 x xs y ys)
  then show ?case using json_string_inject json_tail_inject by (metis join_json_Cons)
qed (simp_all add: join_json_Cons json_string_def quote_mark_def del: list.map(2))

lemma json_strings_inject: "json_strings xs = json_strings ys \<longleftrightarrow> xs = ys"
  using join_map_json_inject [of xs ys] by (auto simp: json_strings_def)

subsection \<open>Length in UTF-16 units, control characters\<close>

text \<open>
  \<open>s.length\<close> counts UTF-16 code units: one for each character of at most three bytes, two
  for a four-byte one. Continuation bytes count nothing.
\<close>

definition utf16_length :: "string \<Rightarrow> int" where
  "utf16_length s =
     sum_list (map (\<lambda>c. let n = (of_char c :: nat) in if 128 \<le> n \<and> n < 192 then 0 else if 240 \<le> n then 2 else 1) s)"

text \<open>The class \<^verbatim>\<open>[\u0000-\u001f\u007f-\u009f]\<close>; the upper range is two bytes long.\<close>

fun has_control :: "string \<Rightarrow> bool" where
  "has_control [] = False"
| "has_control (c # s) =
     (let n = (of_char c :: nat) in
      n < 32 \<or> n = 127 \<or>
      (n = 194 \<and> (case s of [] \<Rightarrow> False | d # _ \<Rightarrow> 128 \<le> (of_char d :: nat) \<and> (of_char d :: nat) < 160)) \<or>
      has_control s)"

end
