(* ===== verification/Budget_Scope.thy ===== *)
theory Budget_Scope
  imports Access_Types Js_Date Js_Text
begin

section \<open>Budget scopes, windows and caps\<close>

text \<open>
  \<open>worker/budget-scope.ts\<close> (where a budget lives and which window it is in),
  \<open>worker/policy-limits.ts\<close> (resets and hints), \<open>worker/budget-overrides.ts\<close>
  (member caps) and the mutation of \<open>worker/authority-budgets.ts\<close>. The time \<open>at\<close>
  of the source is the argument \<open>t\<close>. An override's \<open>updatedAt\<close> is the time its ISO
  text denotes.
\<close>

subsection \<open>Addresses\<close>

record ledger_address =
  addr_tenant :: string
  addr_scope :: string
  addr_object :: string
  addr_policy :: string
  addr_window :: string

text \<open>A string JavaScript treats as true.\<close>

definition truthy :: "string option \<Rightarrow> string option" where
  "truthy s = (case s of None \<Rightarrow> None | Some x \<Rightarrow> if x = [] then None else Some x)"

definition budget_principal :: "authorized_identity \<Rightarrow> string option result" where
  "budget_principal auth =
     (if budgetScope (policy auth) \<noteq> Some PrincipalScope then Inr None
      else case truthy (case principalId auth of None \<Rightarrow> credentialId auth | Some p \<Rightarrow> Some p) of
          None \<Rightarrow> Inl (Thrown ''principal-scoped budget requires an authenticated principal'')
        | Some p \<Rightarrow> Inr (Some p))"

definition scoped_principal :: "access_policy \<Rightarrow> string option \<Rightarrow> string option" where
  "scoped_principal pol who = (if budgetScope pol = Some PrincipalScope then truthy who else None)"

definition tenant_of :: "access_policy \<Rightarrow> string" where
  "tenant_of pol = (case tenantId pol of None \<Rightarrow> ''default'' | Some t \<Rightarrow> t)"

definition budget_ledger_address :: "string \<Rightarrow> access_policy \<Rightarrow> string option \<Rightarrow> int \<Rightarrow> ledger_address" where
  "budget_ledger_address pid pol who t =
     (let tenant = tenant_of pol;
          scoped = scoped_principal pol who;
          suffix = (case scoped of None \<Rightarrow> [] | Some p \<Rightarrow> '':'' @ p);
          path = (case scoped of None \<Rightarrow> [] | Some p \<Rightarrow> ''/'' @ p)
      in \<lparr>addr_tenant = tenant,
          addr_scope = json_strings (case scoped of
             None \<Rightarrow> [''policy'', tenant, pid] | Some p \<Rightarrow> [''principal'', tenant, pid, p]),
          addr_object = tenant @ '':'' @ pid @ suffix,
          addr_policy = tenant @ ''/'' @ pid @ path,
          addr_window = tenant @ ''/'' @ pid @ path @ ''/'' @ take 7 (iso_string t)\<rparr>)"

definition provider_budget_ledger_address :: "string \<Rightarrow> int \<Rightarrow> ledger_address" where
  "provider_budget_ledger_address prov t =
     \<lparr>addr_tenant = ''default'', addr_scope = json_strings [''provider'', prov],
      addr_object = ''provider:'' @ prov, addr_policy = ''provider/'' @ prov,
      addr_window = ''provider/'' @ prov @ ''/'' @ take 7 (iso_string t)\<rparr>"

definition daily_budget_ledger_address :: "string \<Rightarrow> access_policy \<Rightarrow> string option \<Rightarrow> int \<Rightarrow> ledger_address" where
  "daily_budget_ledger_address pid pol who t =
     (let a = budget_ledger_address pid pol who t
      in a\<lparr>addr_window := addr_policy a @ ''/day/'' @ take 10 (iso_string t)\<rparr>)"

text \<open>\<open>getUTCDay() || 7\<close>: Monday is 1 and Sunday 7.\<close>

definition iso_weekday :: "int \<Rightarrow> int" where
  "iso_weekday d = (if weekday d = 0 then 7 else weekday d)"

definition thursday :: "int \<Rightarrow> int" where
  "thursday d = d + 4 - iso_weekday d"

definition iso_week :: "int \<Rightarrow> int" where
  "iso_week d = (let th = thursday d in ((th - day_from_year (year_of th) + 1) + 6) div 7)"

definition weekly_budget_ledger_address :: "string \<Rightarrow> access_policy \<Rightarrow> string option \<Rightarrow> int \<Rightarrow> ledger_address" where
  "weekly_budget_ledger_address pid pol who t =
     (let a = budget_ledger_address pid pol who t; d = day_of t
      in a\<lparr>addr_window := addr_policy a @ ''/week/'' @ show_int (year_of (thursday d)) @ ''-W'' @ two (iso_week d)\<rparr>)"

subsection \<open>Resets and hints\<close>

definition next_daily_reset :: "int \<Rightarrow> int" where
  "next_daily_reset t = day_of t * ms_per_day + ms_per_day"

definition next_weekly_reset :: "int \<Rightarrow> int" where
  "next_weekly_reset t = (let d = day_of t in (d + 8 - iso_weekday d) * ms_per_day)"

definition next_monthly_reset :: "int \<Rightarrow> int" where
  "next_monthly_reset t = utc_month_start (year_of (day_of t)) (month_of (day_of t) + 1)"

definition with_limit_hint :: "string \<Rightarrow> string option \<Rightarrow> string" where
  "with_limit_hint message hint = (case truthy hint of None \<Rightarrow> message | Some h \<Rightarrow> message @ '' '' @ h)"

text \<open>\<open>undefined\<close> and \<open>null\<close> are both \<open>JNull\<close> here: the check is \<open>value == null\<close>.\<close>

fun normalize_limit_hint :: "json \<Rightarrow> string option result" where
  "normalize_limit_hint JNull = Inr None"
| "normalize_limit_hint (JStr s) =
     (if utf16_length (trim s) > 300 \<or> has_control s then Inl (HttpError 400 ''invalid_policy'')
      else Inr (truthy (Some (trim s))))"
| "normalize_limit_hint _ = Inl (HttpError 400 ''invalid_policy'')"

subsection \<open>Member caps\<close>

definition override_limit :: "int option option \<Rightarrow> int option \<Rightarrow> int option" where
  "override_limit ov base = (case ov of None \<Rightarrow> base | Some v \<Rightarrow> v)"

definition effective_budget_policy :: "string \<Rightarrow> access_policy \<Rightarrow> (string \<times> budget_override) list \<Rightarrow> access_policy" where
  "effective_budget_policy pid pol overrides =
     (case (if budgetScope pol = Some PrincipalScope then map_of overrides pid else None) of
        None \<Rightarrow> pol
      | Some ov \<Rightarrow> pol\<lparr>dailyBudgetMicros := override_limit (ov_daily ov) (dailyBudgetMicros pol),
          weeklyBudgetMicros := override_limit (ov_weekly ov) (weeklyBudgetMicros pol),
          monthlyBudgetMicros := override_limit (ov_monthly ov) (monthlyBudgetMicros pol),
          budgetOverride := Some ov\<rparr>)"

text \<open>One cap of the request: absent, \<open>null\<close>, or a non-negative safe integer.\<close>

definition normalize_cap :: "json option \<Rightarrow> int option option result" where
  "normalize_cap v =
     (case v of
        None \<Rightarrow> Inr None
      | Some JNull \<Rightarrow> Inr (Some None)
      | Some j \<Rightarrow> (case safe_integer j of
          None \<Rightarrow> Inl (HttpError 400 ''invalid_budget_override'')
        | Some n \<Rightarrow> if n < 0 then Inl (HttpError 400 ''invalid_budget_override'') else Inr (Some (Some n))))"

record cap_values =
  cap_daily :: "int option option"
  cap_weekly :: "int option option"
  cap_monthly :: "int option option"

fun normalize_budget_override :: "json \<Rightarrow> cap_values result" where
  "normalize_budget_override (JObj kvs) =
     (if \<exists>k \<in> fst ` set kvs. k \<notin> {''dailyBudgetMicros'', ''weeklyBudgetMicros'', ''monthlyBudgetMicros''}
      then Inl (HttpError 400 ''invalid_budget_override'')
      else rbind (normalize_cap (member ''dailyBudgetMicros'' (JObj kvs))) (\<lambda>d.
        rbind (normalize_cap (member ''weeklyBudgetMicros'' (JObj kvs))) (\<lambda>w.
        rbind (normalize_cap (member ''monthlyBudgetMicros'' (JObj kvs))) (\<lambda>m.
        Inr \<lparr>cap_daily = d, cap_weekly = w, cap_monthly = m\<rparr>))))"
| "normalize_budget_override _ = Inl (HttpError 400 ''invalid_budget_override'')"

subsection \<open>Mutating caps\<close>

text \<open>
  The authority's part of the state that \<open>mutateBudgetCaps\<close> reads and writes: the
  policies and, for each user, the overrides by policy. \<open>expected\<close> is \<open>None\<close> when the
  request carries no version, \<open>Some None\<close> for the version \<open>"absent"\<close>.
\<close>

record caps_state =
  caps_policies :: "string \<rightharpoonup> access_policy"
  caps_users :: "string \<rightharpoonup> (string \<rightharpoonup> budget_override)"

record caps_input =
  in_email :: string
  in_policy :: string
  in_limits :: json
  in_updatedBy :: string
  in_expected :: "int option option"

definition set_policy_caps :: "caps_input \<Rightarrow> caps_state \<Rightarrow> caps_state result" where
  "set_policy_caps q st =
     (case caps_policies st (in_policy q) of
        None \<Rightarrow> Inl (HttpError 404 ''unknown_policy'')
      | Some pol \<Rightarrow> rbind (normalize_budget_override (in_limits q)) (\<lambda>v.
          Inr (st\<lparr>caps_policies := (caps_policies st)(in_policy q \<mapsto>
            pol\<lparr>dailyBudgetMicros := override_limit (cap_daily v) (dailyBudgetMicros pol),
                weeklyBudgetMicros := override_limit (cap_weekly v) (weeklyBudgetMicros pol),
                monthlyBudgetMicros := override_limit (cap_monthly v) (monthlyBudgetMicros pol)\<rparr>)\<rparr>)))"

text \<open>\<open>Math.max(Date.now(), Date.parse(previous) + 1 || 0)\<close>: a clock that never repeats.\<close>

definition next_version :: "int \<Rightarrow> budget_override option \<Rightarrow> int" where
  "next_version now prev = max now (case prev of None \<Rightarrow> 0 | Some ov \<Rightarrow> updatedAt ov + 1)"

definition set_member_caps :: "int \<Rightarrow> caps_input \<Rightarrow> caps_state \<Rightarrow> caps_state result" where
  "set_member_caps now q st =
     (if caps_policies st (in_policy q) = None then Inl (HttpError 404 ''unknown_policy'')
      else rbind (normalize_budget_override (in_limits q)) (\<lambda>v.
        case caps_users st (in_email q) of
          None \<Rightarrow> Inl (HttpError 404 ''budget_override_target_missing'')
        | Some ovs \<Rightarrow>
            (let prev = ovs (in_policy q) in
             if in_expected q \<noteq> None \<and> in_expected q \<noteq> Some (map_option updatedAt prev)
             then Inl (HttpError 409 ''budget_override_changed'')
             else Inr (st\<lparr>caps_users := (caps_users st)(in_email q \<mapsto> ovs(in_policy q \<mapsto>
                \<lparr>ov_daily = cap_daily v, ov_weekly = cap_weekly v, ov_monthly = cap_monthly v,
                 updatedBy = in_updatedBy q, updatedAt = next_version now prev\<rparr>))\<rparr>))))"

subsection \<open>Weeks\<close>

lemma thursday_eq: "thursday d = 7 * ((d + 3) div 7)"
proof -
  obtain q r where qr: "q = (d + 3) div 7" "r = (d + 3) mod 7" by blast
  then have d: "d = 7 * q + (r - 3)" and r: "0 \<le> r" "r < 7"
    using mult_div_mod_eq [of 7 "d + 3"] pos_mod_sign [of 7 "d + 3"] pos_mod_bound [of 7 "d + 3"] by linarith+
  have "d + 4 = (r + 1) + 7 * q" using d by simp
  then have "weekday d = (r + 1) mod 7" unfolding weekday_def by (simp only: mod_mult_self2)
  then have "iso_weekday d = r + 1"
    using r by (cases "r = 6") (simp_all add: iso_weekday_def)
  then show ?thesis using d unfolding qr(1) [symmetric] thursday_def by linarith
qed

lemma thursday_in_year:
  "day_from_year (year_of (thursday d)) \<le> thursday d"
  "thursday d < day_from_year (year_of (thursday d)) + 366"
  using year_from_day_bounds [of "thursday d"] year_length [of "year_from_day (thursday d)"]
  by (simp_all add: year_of_def split: if_splits)

lemma iso_week_bounds: "1 \<le> iso_week d" "iso_week d \<le> 53"
  using thursday_in_year [of d] by (simp_all add: iso_week_def Let_def)

lemma iso_week_determines:
  assumes "year_of (thursday a) = year_of (thursday b)" and "iso_week a = iso_week b"
  shows "thursday a = thursday b"
proof -
  obtain x y where xy: "thursday a = 7 * x" "thursday b = 7 * y" using thursday_eq by blast
  obtain z where "z = day_from_year (year_of (thursday b))" by blast
  with assms xy have "(7 * x - z + 7) div 7 = (7 * y - z + 7) div 7"
    by (simp add: iso_week_def Let_def)
  with div_bounds [of 7 "7 * x - z + 7"] div_bounds [of 7 "7 * y - z + 7"] have "x = y" by simp
  with xy show ?thesis by simp
qed

lemma show_nat_digits: "c \<in> set (show_nat n) \<Longrightarrow> 48 \<le> (of_char c :: nat)"
proof (induction n rule: show_nat.induct)
  case (1 n)
  have "48 \<le> (of_char (digit k) :: nat)" if "k < 10" for k
    using that by (simp add: digit_def)
  with 1 show ?case by (auto simp: show_nat.simps [of n] split: if_splits)
qed

lemma show_nat_then:
  assumes "(of_char c :: nat) < 48" and "show_nat a @ c # x = show_nat b @ c # y"
  shows "a = b \<and> x = y"
proof -
  have tw: "takeWhile (\<lambda>c. 48 \<le> (of_char c :: nat)) (show_nat n @ c # z) = show_nat n" for n z
    using assms(1) by (simp add: takeWhile_tail takeWhile_append2 show_nat_digits)
  have "show_nat a = show_nat b" using tw [of a x] tw [of b y] assms(2) by simp
  with assms(2) read_digits_show show ?thesis by (metis append_same_eq list.inject same_append_eq)
qed

text \<open>The last part of a weekly window key, and the week it names.\<close>

lemma week_text_inject:
  assumes "0 \<le> y" "0 \<le> z" "0 \<le> v" "0 \<le> w"
  shows "show_int y @ ''-W'' @ two v = show_int z @ ''-W'' @ two w \<longleftrightarrow> y = z \<and> v = w"
  using assms show_nat_then [of "CHR ''-''" "nat y" "CHR ''W'' # two v" "nat z" "CHR ''W'' # two w"]
    two_inject [of v w] by (auto simp: show_int_def)

lemma addr_policy_time: "addr_policy (budget_ledger_address pid pol who t) = addr_policy (budget_ledger_address pid pol who u)"
  by (simp add: budget_ledger_address_def Let_def)

lemma weekly_window_eq:
  assumes "0 \<le> year_of (thursday (day_of t))" and "0 \<le> year_of (thursday (day_of u))"
  shows "addr_window (weekly_budget_ledger_address pid pol who t) =
      addr_window (weekly_budget_ledger_address pid pol who u) \<longleftrightarrow>
    thursday (day_of t) = thursday (day_of u)"
proof
  assume "thursday (day_of t) = thursday (day_of u)"
  then show "addr_window (weekly_budget_ledger_address pid pol who t) =
      addr_window (weekly_budget_ledger_address pid pol who u)"
    using addr_policy_time [of pid pol who t u]
    by (simp add: weekly_budget_ledger_address_def Let_def iso_week_def)
next
  assume "addr_window (weekly_budget_ledger_address pid pol who t) =
      addr_window (weekly_budget_ledger_address pid pol who u)"
  then have "show_int (year_of (thursday (day_of t))) @ ''-W'' @ two (iso_week (day_of t)) =
      show_int (year_of (thursday (day_of u))) @ ''-W'' @ two (iso_week (day_of u))"
    using addr_policy_time [of pid pol who t u]
    by (simp add: weekly_budget_ledger_address_def Let_def)
  then have "year_of (thursday (day_of t)) = year_of (thursday (day_of u)) \<and>
      iso_week (day_of t) = iso_week (day_of u)"
    using assms iso_week_bounds [of "day_of t"] iso_week_bounds [of "day_of u"]
    by (subst (asm) week_text_inject) auto
  then show "thursday (day_of t) = thursday (day_of u)" using iso_week_determines by blast
qed

lemma next_weekly_reset_eq: "next_weekly_reset t = (thursday (day_of t) + 4) * ms_per_day"
  by (simp add: next_weekly_reset_def thursday_def Let_def)

lemma day_of_bounds: "day_of t * ms_per_day \<le> t" "t < day_of t * ms_per_day + ms_per_day"
  using div_bounds [of ms_per_day t] by (simp_all add: day_of_def ms_per_day_def)

lemma day_of_less_iff: "t < d * ms_per_day \<longleftrightarrow> day_of t < d" "d * ms_per_day \<le> t \<longleftrightarrow> d \<le> day_of t"
  using day_of_bounds [of t] by (simp_all add: ms_per_day_def) linarith+

subsection \<open>Properties\<close>

text \<open>
  C5. Budget scopes never alias. The scope key of a policy budget determines its tenant, policy and
  scoped principal, and no policy or principal scope is a provider scope, although the shard name
  (\<open>objectName\<close>) of different budgets can be the same text.
\<close>

theorem scope_keys_never_alias:
  "(addr_scope (budget_ledger_address pid pol who t) = addr_scope (budget_ledger_address pid' pol' who' t') \<longleftrightarrow>
     tenant_of pol = tenant_of pol' \<and> pid = pid' \<and> scoped_principal pol who = scoped_principal pol' who') \<and>
   addr_scope (budget_ledger_address pid pol who t) \<noteq> addr_scope (provider_budget_ledger_address prov t')"
  by (auto simp: budget_ledger_address_def provider_budget_ledger_address_def json_strings_inject Let_def
      split: option.splits)

text \<open>
  A weekly window is the ISO week, Monday 00:00 to Monday 00:00 UTC: the announced reset is the
  next Monday midnight, and two times have the same window key exactly when both lie in the seven
  days that end at the reset.
\<close>

theorem weekly_window_is_iso_week:
  assumes "0 \<le> year_of (thursday (day_of t))" and "0 \<le> year_of (thursday (day_of u))"
  shows "weekday (day_of (next_weekly_reset t)) = 1 \<and> next_weekly_reset t mod ms_per_day = 0 \<and>
    t < next_weekly_reset t \<and> next_weekly_reset t - 7 * ms_per_day \<le> t \<and>
    (addr_window (weekly_budget_ledger_address pid pol who u) =
       addr_window (weekly_budget_ledger_address pid pol who t) \<longleftrightarrow>
     next_weekly_reset t - 7 * ms_per_day \<le> u \<and> u < next_weekly_reset t)"
proof -
  let ?d = "day_of t" and ?th = "thursday (day_of t)"
  have r: "next_weekly_reset t = (?th + 4) * ms_per_day" by (rule next_weekly_reset_eq)
  have day: "day_of (next_weekly_reset t) = ?th + 4"
    by (simp add: r day_of_def ms_per_day_def)
  have inweek: "?th - 3 \<le> ?d" "?d < ?th + 4"
    unfolding thursday_eq using div_bounds [of 7 "?d + 3"] by simp_all
  have same: "thursday (day_of u) = ?th \<longleftrightarrow> ?th - 3 \<le> day_of u \<and> day_of u < ?th + 4"
    unfolding thursday_eq by presburger
  have lo: "next_weekly_reset t - 7 * ms_per_day = (?th - 3) * ms_per_day"
    by (simp add: r ms_per_day_def)
  have "weekday (day_of (next_weekly_reset t)) = 1"
    unfolding day thursday_eq weekday_def by presburger
  moreover have "next_weekly_reset t mod ms_per_day = 0" by (simp add: r)
  ultimately show ?thesis
    using inweek same weekly_window_eq [OF assms(2,1)]
    unfolding lo unfolding r day_of_less_iff by simp
qed

lemmas calendar_eval = day_of_def ms_per_day_def thursday_def iso_weekday_def weekday_def year_of_def
  year_from_day_def day_from_year_def Let_def

theorem weekly_window_is_iso_week_witness:
  "next_weekly_reset 1767225600000 = 1767571200000 \<and>
   addr_window (weekly_budget_ledger_address ''p'' sample_policy None 1767484800000) =
     addr_window (weekly_budget_ledger_address ''p'' sample_policy None 1767225600000) \<and>
   addr_window (weekly_budget_ledger_address ''p'' sample_policy None 1767571200000) \<noteq>
     addr_window (weekly_budget_ledger_address ''p'' sample_policy None 1767225600000)"
proof -
  have y: "0 \<le> year_of (thursday (day_of 1767225600000))" "0 \<le> year_of (thursday (day_of 1767484800000))"
    "0 \<le> year_of (thursday (day_of 1767571200000))"
    by (simp_all add: calendar_eval)
  have r: "next_weekly_reset 1767225600000 = 1767571200000"
    by (simp add: next_weekly_reset_def calendar_eval)
  show ?thesis
    using weekly_window_is_iso_week [OF y(1,2), of "''p''" sample_policy None]
      weekly_window_is_iso_week [OF y(1,3), of "''p''" sample_policy None] unfolding r ms_per_day_def by simp
qed

lemma policy_window_eq:
  "addr_window (budget_ledger_address pid pol who t) = addr_window (budget_ledger_address pid pol who u) \<longleftrightarrow>
   take 7 (iso_string t) = take 7 (iso_string u)"
  by (simp add: budget_ledger_address_def Let_def)

lemma daily_window_eq:
  "addr_window (daily_budget_ledger_address pid pol who t) = addr_window (daily_budget_ledger_address pid pol who u) \<longleftrightarrow>
   take 10 (iso_string t) = take 10 (iso_string u)"
  by (simp add: daily_budget_ledger_address_def budget_ledger_address_def Let_def)

text \<open>
  Monthly and daily windows follow the UTC calendar: two times share the monthly key exactly
  when they have the same year and month, and the daily key exactly when they are the same day, up
  to the announced daily reset.
\<close>

theorem calendar_windows:
  assumes "civil_time t" and "civil_time u"
  shows "(addr_window (budget_ledger_address pid pol who t) = addr_window (budget_ledger_address pid pol who u) \<longleftrightarrow>
      year_of (day_of t) = year_of (day_of u) \<and> month_of (day_of t) = month_of (day_of u)) \<and>
    (addr_window (daily_budget_ledger_address pid pol who t) = addr_window (daily_budget_ledger_address pid pol who u) \<longleftrightarrow>
      next_daily_reset t - ms_per_day \<le> u \<and> u < next_daily_reset t)"
proof -
  have "next_daily_reset t - ms_per_day = day_of t * ms_per_day" "next_daily_reset t = (day_of t + 1) * ms_per_day"
    by (simp_all add: next_daily_reset_def algebra_simps)
  then show ?thesis
    using assms unfolding policy_window_eq daily_window_eq
    by (auto simp: iso_month_inject iso_day_inject day_of_less_iff)
qed

theorem calendar_windows_witness:
  "addr_window (daily_budget_ledger_address ''p'' sample_policy None 1767225600000) \<noteq>
     addr_window (daily_budget_ledger_address ''p'' sample_policy None 1767312000000)"
proof -
  have "civil_time 1767225600000" "civil_time 1767312000000"
    by (simp_all add: civil_time_def calendar_eval)
  from calendar_windows [OF this, of "''p''" sample_policy None]
  show ?thesis by (simp add: next_daily_reset_def day_of_def ms_per_day_def)
qed

text \<open>
  C6. Member caps are written with optimistic concurrency: a successful write changes only the
  named member's caps for the named policy, its version is later than the previous one, and a
  writer that still expects the version before it is refused.
\<close>

theorem member_caps_no_lost_update:
  assumes "set_member_caps now q st = Inr st'"
    and "in_email q' = in_email q" "in_policy q' = in_policy q"
    and "normalize_budget_override (in_limits q') = Inr v"
    and "caps_users st (in_email q) = Some ovs"
    and "in_expected q' = Some (map_option updatedAt (ovs (in_policy q)))"
  shows "caps_policies st' = caps_policies st \<and>
    (\<forall>e p. (e, p) \<noteq> (in_email q, in_policy q) \<longrightarrow>
       Option.bind (caps_users st' e) (\<lambda>m. m p) = Option.bind (caps_users st e) (\<lambda>m. m p)) \<and>
    (\<exists>m ov. caps_users st' (in_email q) = Some m \<and> m (in_policy q) = Some ov \<and> updatedBy ov = in_updatedBy q \<and>
       (\<forall>old. ovs (in_policy q) = Some old \<longrightarrow> updatedAt old < updatedAt ov)) \<and>
    set_member_caps later q' st' = Inl (HttpError 409 ''budget_override_changed'')"
proof -
  from assms(1,5) obtain w where w: "normalize_budget_override (in_limits q) = Inr w"
    and pol: "caps_policies st (in_policy q) \<noteq> None"
    and st': "st' = st\<lparr>caps_users := (caps_users st)(in_email q \<mapsto> ovs(in_policy q \<mapsto>
        \<lparr>ov_daily = cap_daily w, ov_weekly = cap_weekly w, ov_monthly = cap_monthly w,
         updatedBy = in_updatedBy q, updatedAt = next_version now (ovs (in_policy q))\<rparr>))\<rparr>"
    by (auto simp: set_member_caps_def Let_def split: if_splits option.splits simp del: normalize_budget_override.simps)
  have later: "updatedAt old < next_version now (ovs (in_policy q))" if "ovs (in_policy q) = Some old" for old
    using that by (simp add: next_version_def)
  then have "map_option updatedAt (ovs (in_policy q)) \<noteq> Some (next_version now (ovs (in_policy q)))"
    by (cases "ovs (in_policy q)") auto
  then have "set_member_caps later q' st' = Inl (HttpError 409 ''budget_override_changed'')"
    using assms(2-6) pol by (auto simp: st' set_member_caps_def Let_def simp del: normalize_budget_override.simps)
  then show ?thesis using later assms(5) by (auto simp: st')
qed

definition sample_caps :: caps_state where
  "sample_caps = \<lparr>caps_policies = [''p'' \<mapsto> sample_policy], caps_users = [''a@b'' \<mapsto> Map.empty]\<rparr>"

definition sample_caps_input :: caps_input where
  "sample_caps_input = \<lparr>in_email = ''a@b'', in_policy = ''p'', in_limits = JObj [(''dailyBudgetMicros'', JNum 5)],
     in_updatedBy = ''admin'', in_expected = Some None\<rparr>"

theorem member_caps_no_lost_update_witness:
  "\<exists>st'. set_member_caps 10 sample_caps_input sample_caps = Inr st' \<and>
     set_member_caps 11 sample_caps_input st' = Inl (HttpError 409 ''budget_override_changed'')"
proof -
  have "\<exists>v. normalize_budget_override (in_limits sample_caps_input) = Inr v"
    by (simp add: sample_caps_input_def normalize_cap_def safe_int_def max_safe_integer_def)
  then obtain v where v: "normalize_budget_override (in_limits sample_caps_input) = Inr v" by blast
  then obtain st' where "set_member_caps 10 sample_caps_input sample_caps = Inr st'"
    by (auto simp: set_member_caps_def sample_caps_def Let_def simp del: normalize_budget_override.simps)
       (auto simp: sample_caps_input_def)
  from member_caps_no_lost_update [OF this refl refl v, of Map.empty 11] this show ?thesis
    by (auto simp: sample_caps_def sample_caps_input_def)
qed

end
