(* ===== verification/Accounting.thy ===== *)
theory Accounting
  imports Budget_Ledger Budget_Scope
begin

section \<open>Reserving and settling a request's budget\<close>

text \<open>
  \<open>worker/accounting.ts\<close> and the callers' side of \<open>worker/ledgers.ts\<close>: planning the
  ledger legs of a request, reserving them, marking them dispatched, and settling or charging
  them, with the queue as the recovery path. The world holds every budget shard and the messages
  accepted by \<open>USAGE_QUEUE\<close>. Each call to a shard happens over a \<open>link\<close>: it is
  delivered, or its reply is lost after the shard acted, or the request never arrives. Legs are
  issued in the plan's order, and the shards answer one request at a time, so \<open>Promise.allSettled\<close>
  is a left-to-right pass that keeps every leg's result. \<open>randomId\<close> is the argument \<open>fresh\<close>.
  The \<open>search\<close> and \<open>cover\<close> transports, which wrap the same calls in other owners,
  are not modelled.
\<close>

subsection \<open>Costs and plans\<close>

record estimated_cost =
  reserveMicros :: int
  basis :: string
  pricingGap :: "pricing_gap option"

text \<open>
  \<open>validateBudgetReservation\<close>, in the order of its checks. A true result means that a
  ledger must be asked.
\<close>

definition validate_budget_reservation ::
    "string \<Rightarrow> estimated_cost \<Rightarrow> int option \<Rightarrow> provider_connection option \<Rightarrow> int option \<Rightarrow> int option \<Rightarrow> bool result" where
  "validate_budget_reservation capability cost policyLimit connection dailyLimit weeklyLimit =
     (let providerLimit = Option.bind connection conn_monthlyBudget in
      if dailyLimit = Some 0 then Inl (HttpError 402 ''daily_budget_exhausted'')
      else if weeklyLimit = Some 0 then Inl (HttpError 402 ''weekly_budget_exhausted'')
      else if capability = ''llm.count_tokens'' then Inr False
      else if policyLimit = None \<and> providerLimit = None \<and> dailyLimit = None \<and> weeklyLimit = None then Inr False
      else if policyLimit = Some 0 then Inl (HttpError 402 ''budget_exhausted'')
      else if providerLimit = Some 0 then Inl (HttpError 402 ''provider_budget_exhausted'')
      else if basis cost = ''unpriced_modifier'' then Inl (HttpError 400 ''pricing_required'')
      else if basis cost = ''unpriced_service_tier'' then Inl (HttpError 400 ''pricing_required'')
      else if pricingGap cost \<noteq> None then Inl (HttpError 400 ''pricing_required'')
      else if basis cost = ''flat_fallback'' then Inl (HttpError 400 ''pricing_required'')
      else Inr True)"

datatype leg_kind = PolicyLeg | DailyLeg | WeeklyLeg | ProviderLeg

record reservation_intent =
  leg_kind :: leg_kind
  leg_object :: string
  leg_request :: reserve_request

record reservation_plan =
  plan_reserved :: int
  legs :: "reservation_intent list"

definition leg :: "string \<Rightarrow> leg_kind \<Rightarrow> ledger_address \<Rightarrow> int \<Rightarrow> int \<Rightarrow> string \<Rightarrow> reservation_intent" where
  "leg cap kind a limit cost rid =
     \<lparr>leg_kind = kind, leg_object = addr_object a,
      leg_request = \<lparr>rq_policy = addr_policy a, rq_window = addr_window a, rq_scope = Some (addr_scope a),
        rq_limit = limit, rq_cost = cost, rq_id = rid, rq_dispatched = False, rq_capability = cap\<rparr>\<rparr>"

text \<open>One configured cap becomes at most one leg; \<open>budgetPrincipal\<close> may throw.\<close>

definition policy_leg ::
    "(leg_kind \<Rightarrow> string) \<Rightarrow> string \<Rightarrow> leg_kind \<Rightarrow> (string \<Rightarrow> access_policy \<Rightarrow> string option \<Rightarrow> int \<Rightarrow> ledger_address) \<Rightarrow>
     authorized_identity \<Rightarrow> int \<Rightarrow> int \<Rightarrow> int option \<Rightarrow> reservation_intent list result" where
  "policy_leg fresh cap kind address auth cost t limit =
     (case limit of
        None \<Rightarrow> Inr []
      | Some lm \<Rightarrow> rbind (budget_principal auth) (\<lambda>who.
          Inr [leg cap kind (address (policyId auth) (policy auth) who t) lm cost (fresh kind)]))"

definition plan_budget_reservation ::
    "(leg_kind \<Rightarrow> string) \<Rightarrow> authorized_identity \<Rightarrow> string \<Rightarrow> estimated_cost \<Rightarrow> provider_connection option \<Rightarrow> int \<Rightarrow> bool \<Rightarrow>
     reservation_plan result" where
  "plan_budget_reservation fresh auth capability cost connection t soft =
     rbind (if soft then Inr (capability \<noteq> ''llm.count_tokens'')
            else validate_budget_reservation capability cost (monthlyBudgetMicros (policy auth)) connection
              (dailyBudgetMicros (policy auth)) (weeklyBudgetMicros (policy auth))) (\<lambda>needed.
       if \<not> needed then Inr \<lparr>plan_reserved = 0, legs = []\<rparr>
       else rbind (policy_leg fresh capability PolicyLeg budget_ledger_address auth (reserveMicros cost) t (monthlyBudgetMicros (policy auth))) (\<lambda>m.
         rbind (policy_leg fresh capability DailyLeg daily_budget_ledger_address auth (reserveMicros cost) t (dailyBudgetMicros (policy auth))) (\<lambda>d.
         rbind (policy_leg fresh capability WeeklyLeg weekly_budget_ledger_address auth (reserveMicros cost) t (weeklyBudgetMicros (policy auth))) (\<lambda>w.
         Inr \<lparr>plan_reserved = reserveMicros cost,
              legs = m @ d @ w @
                (case connection of None \<Rightarrow> [] | Some c \<Rightarrow>
                   (case conn_monthlyBudget c of None \<Rightarrow> []
                    | Some lm \<Rightarrow> [leg capability ProviderLeg (provider_budget_ledger_address (providerId c) t) lm (reserveMicros cost) (fresh ProviderLeg)]))\<rparr>))))"

subsection \<open>Talking to the shards\<close>

datatype link = Delivered | ReplyLost | RequestLost

datatype queue_message =
    BudgetSettlement string string int   \<comment> \<open>shard, reservation, actual cost\<close>
  | BudgetCharge string charge_request

record world =
  shards :: "string \<Rightarrow> ledger"
  usage_queue :: "queue_message list"

definition ask :: "link \<Rightarrow> int \<Rightarrow> string \<Rightarrow> ledger_request \<Rightarrow> world \<Rightarrow> ledger_reply option \<times> world" where
  "ask k now obj q w =
     (if k = RequestLost then (None, w)
      else let (reply, l) = ledger_fetch now q (shards w obj)
           in (if k = Delivered then Some reply else None, w\<lparr>shards := (shards w)(obj := l)\<rparr>))"

record ledger_reservation =
  res_id :: string
  res_object :: string
  res_dispatched :: bool

definition exhausted_code :: "leg_kind \<Rightarrow> string" where
  "exhausted_code k = (case k of WeeklyLeg \<Rightarrow> ''weekly_budget_exhausted'' | DailyLeg \<Rightarrow> ''daily_budget_exhausted''
     | PolicyLeg \<Rightarrow> ''budget_exhausted'' | ProviderLeg \<Rightarrow> ''provider_budget_exhausted'')"

definition reserve_ledger_intent ::
    "link \<Rightarrow> int \<Rightarrow> reservation_intent \<Rightarrow> world \<Rightarrow> ledger_reservation result \<times> world" where
  "reserve_ledger_intent k now i w =
     (let (reply, w') = ask k now (leg_object i) (PostReserve (leg_request i)) w
      in (case reply of
            Some (ReserveReply r) \<Rightarrow>
              if \<not> allowed r then Inl (HttpError 402 (exhausted_code (leg_kind i)))
              else Inr \<lparr>res_id = rq_id (leg_request i), res_object = leg_object i, res_dispatched = rp_dispatched r\<rparr>
          | _ \<Rightarrow> Inl (Thrown ''budget reserve failed''), w'))"

text \<open>
  \<open>settleLedger\<close> and the fallback of \<open>settleReservation\<close>: any failure queues the
  settlement, and only a refused queue makes the task fail.
\<close>

definition settle_ledger :: "link \<Rightarrow> int \<Rightarrow> string \<Rightarrow> string \<Rightarrow> int \<Rightarrow> world \<Rightarrow> bool \<times> world" where
  "settle_ledger k now obj rid actual w =
     (let (reply, w') = ask k now obj (PostSettle rid (JNum (of_int actual))) w
      in (case reply of Some (SettleReply _ _) \<Rightarrow> True | _ \<Rightarrow> False, w'))"

definition settle_reservation :: "link \<Rightarrow> bool \<Rightarrow> int \<Rightarrow> ledger_reservation \<Rightarrow> int \<Rightarrow> world \<Rightarrow> unit result \<times> world" where
  "settle_reservation k queue_up now r actual w =
     (let (ok, w') = settle_ledger k now (res_object r) (res_id r) actual w
      in if ok then (Inr (), w')
         else if queue_up then (Inr (), w'\<lparr>usage_queue := usage_queue w' @ [BudgetSettlement (res_object r) (res_id r) actual]\<rparr>)
         else (Inl (Thrown ''queue rejected''), w'))"

text \<open>All tasks run; the first failure, in order, is what the caller sees.\<close>

fun settle_all :: "(link \<times> bool) list \<Rightarrow> int \<Rightarrow> ledger_reservation list \<Rightarrow> int \<Rightarrow> world \<Rightarrow> unit result \<times> world" where
  "settle_all env now [] actual w = (Inr (), w)"
| "settle_all env now (r # rs) actual w =
     (let (k, q) = (case env of [] \<Rightarrow> (Delivered, True) | e # _ \<Rightarrow> e);
          (x, w1) = settle_reservation k q now r actual w;
          (y, w2) = settle_all (tl env) now rs actual w1
      in (rbind x (\<lambda>_. y), w2))"

fun reserve_all :: "link list \<Rightarrow> int \<Rightarrow> reservation_intent list \<Rightarrow> world \<Rightarrow> ledger_reservation result list \<times> world" where
  "reserve_all env now [] w = ([], w)"
| "reserve_all env now (i # is) w =
     (let k = (case env of [] \<Rightarrow> Delivered | e # _ \<Rightarrow> e);
          (x, w1) = reserve_ledger_intent k now i w;
          (ys, w2) = reserve_all (tl env) now is w1
      in (x # ys, w2))"

fun fulfilled :: "'a result list \<Rightarrow> 'a list" where
  "fulfilled [] = []"
| "fulfilled (Inl e # rs) = fulfilled rs"
| "fulfilled (Inr x # rs) = x # fulfilled rs"

fun first_failure :: "'a result list \<Rightarrow> error option" where
  "first_failure [] = None"
| "first_failure (Inl e # rs) = Some e"
| "first_failure (Inr x # rs) = first_failure rs"

definition reserve_budget ::
    "link list \<Rightarrow> (link \<times> bool) list \<Rightarrow> int \<Rightarrow> bool \<Rightarrow> reservation_plan \<Rightarrow> world \<Rightarrow> ledger_reservation list result \<times> world" where
  "reserve_budget env rollback now dispatched plan w =
     (let is = map (\<lambda>i. if dispatched then i\<lparr>leg_request := (leg_request i)\<lparr>rq_dispatched := True\<rparr>\<rparr> else i) (legs plan);
          (results, w1) = reserve_all env now is w;
          got = fulfilled results
      in case first_failure results of
           None \<Rightarrow> (Inr got, w1)
         | Some e \<Rightarrow>
             if got = [] then (Inl e, w1)
             else (let (undone, w2) = settle_all rollback now got 0 w1
                   in case undone of
                        Inl _ \<Rightarrow> (Inl (HttpError 503 ''accounting_unavailable''), w2)
                      | Inr _ \<Rightarrow> (Inl e, w2)))"

fun mark_budget_dispatched :: "link list \<Rightarrow> int \<Rightarrow> ledger_reservation list \<Rightarrow> world \<Rightarrow> unit result \<times> world" where
  "mark_budget_dispatched env now [] w = (Inr (), w)"
| "mark_budget_dispatched env now (r # rs) w =
     (if res_dispatched r then mark_budget_dispatched env now rs w
      else let k = (case env of [] \<Rightarrow> Delivered | e # _ \<Rightarrow> e);
               (reply, w1) = ask k now (res_object r) (PostDispatch (res_id r)) w;
               (y, w2) = mark_budget_dispatched (tl env) now rs w1
           in (if reply = Some DispatchReply then y else Inl (HttpError 503 ''accounting_unavailable''), w2))"

text \<open>\<open>chargeLedger\<close>: the acknowledgement must name the charge; a failure is queued.\<close>

definition charge_one :: "link \<Rightarrow> bool \<Rightarrow> int \<Rightarrow> string \<Rightarrow> charge_request \<Rightarrow> world \<Rightarrow> unit result \<times> world" where
  "charge_one k queue_up now obj q w =
     (let (reply, w') = ask k now obj (PostCharge q) w
      in if (case reply of Some (ChargeReply i) \<Rightarrow> cq_id q = JStr i | _ \<Rightarrow> False) then (Inr (), w')
         else if queue_up then (Inr (), w'\<lparr>usage_queue := usage_queue w' @ [BudgetCharge obj q]\<rparr>)
         else (Inl (Thrown ''queue rejected''), w'))"

fun charge_all :: "(link \<times> bool) list \<Rightarrow> int \<Rightarrow> (string \<times> charge_request) list \<Rightarrow> world \<Rightarrow> unit result \<times> world" where
  "charge_all env now [] w = (Inr (), w)"
| "charge_all env now ((obj, q) # rs) w =
     (let (k, up) = (case env of [] \<Rightarrow> (Delivered, True) | e # _ \<Rightarrow> e);
          (x, w1) = charge_one k up now obj q w;
          (y, w2) = charge_all (tl env) now rs w1
      in (rbind x (\<lambda>_. y), w2))"

text \<open>The queue consumer: a message that the shard does not acknowledge is retried later.\<close>

definition consume :: "link \<Rightarrow> int \<Rightarrow> queue_message \<Rightarrow> world \<Rightarrow> bool \<times> world" where
  "consume k now m w =
     (case m of
        BudgetSettlement obj rid actual \<Rightarrow> settle_ledger k now obj rid actual w
      | BudgetCharge obj q \<Rightarrow>
          (let (reply, w') = ask k now obj (PostCharge q) w
           in (case reply of Some (ChargeReply i) \<Rightarrow> cq_id q = JStr i | _ \<Rightarrow> False, w')))"

subsection \<open>Ledgers that are up to date\<close>

text \<open>
  Every shard call first brings the shard up to date. At one instant that is idempotent, and
  admissions and releases at that instant leave an up-to-date shard up to date.
\<close>

definition current :: "int \<Rightarrow> ledger \<Rightarrow> bool" where
  "current now l \<longleftrightarrow> (\<forall>r \<in> set (budget_reservations l). maintained now r = Some r)"

lemma maintain_current: "current now l \<Longrightarrow> maintain now l = l"
proof -
  assume "current now l"
  then have "List.map_filter (maintained now) (budget_reservations l) = budget_reservations l"
    unfolding current_def by (induction "budget_reservations l") (auto simp: map_filter_def intro: map_idI)
  then have "budget_reservations (maintain now l) = budget_reservations l" by (simp add: maintain_rows)
  then show ?thesis by (simp add: maintain_def)
qed

lemma maintained_idem: "maintained now r = Some r' \<Longrightarrow> maintained now r' = Some r'"
  by (auto simp: maintained_def Let_def expired_def split: if_splits)

lemma current_maintain: "current now (maintain now l)"
  by (auto simp: current_def maintain_rows map_filter_def intro: maintained_idem)

lemma current_insert: "current now l \<Longrightarrow> current now (schedule_alarm now (insert_reservation (receipt_of now q) l))"
  by (auto simp: current_def insert_reservation_def maintained_def receipt_of_def expired_def
      reservation_lease_ms_def Let_def)

lemma current_reserve: "current now l \<Longrightarrow> current now (snd (reserve now q l))"
  by (simp add: reserve_state current_insert)

lemma current_open: "maintained now r = Some r \<Longrightarrow> settled r = 0 \<Longrightarrow> \<not> expired now r"
  using maintained_Some [of now r r]
  by (auto simp: maintained_def Let_def dest: arg_cong [of _ r settled] split: if_splits)

lemma current_finalize:
  assumes "current now l" and "ledger_inv l" and "lookup_reservation l i = Some r" and "settled r = 0"
  shows "current now (update_reservation i (finalize_at a) l)"
proof -
  have "maintained now (finalize_at a x) = Some (finalize_at a x)"
    if "x \<in> set (budget_reservations l)" "reservation_id x = i" for x
  proof -
    have "x = r" using assms(2,3) that row_at_member [of reservation_id "budget_reservations l" x]
      by (simp add: ledger_inv_def lookup_reservation_def)
    moreover have "maintained now x = Some x" using assms(1) that by (simp add: current_def)
    ultimately have "\<not> expired now x" using assms(4) current_open by blast
    then show ?thesis
      by (simp add: maintained_def finalize_at_def expired_def reservation_lease_ms_def
          charge_retention_ms_def Let_def)
  qed
  with assms(1) show ?thesis by (auto simp: current_def update_reservation_def update_where_def)
qed

subsection \<open>Readings of the world\<close>

definition world_inv :: "world \<Rightarrow> bool" where
  "world_inv w \<longleftrightarrow> (\<forall>obj. ledger_inv (shards w obj))"

definition reading :: "int \<Rightarrow> world \<Rightarrow> string \<Rightarrow> string \<Rightarrow> string option \<Rightarrow> int" where
  "reading now w obj win s = effective_spent (maintain now (shards w obj)) win s"

definition holding :: "int \<Rightarrow> world \<Rightarrow> string \<Rightarrow> string \<Rightarrow> reservation option" where
  "holding now w obj i = lookup_reservation (maintain now (shards w obj)) i"

text \<open>What an admitted leg adds to a reading.\<close>

definition share :: "int \<Rightarrow> reservation_intent \<Rightarrow> string \<Rightarrow> string \<Rightarrow> string option \<Rightarrow> int" where
  "share now i obj win s =
     (if leg_object i = obj \<and> in_scope win s (receipt_of now (leg_request i)) then rq_cost (leg_request i) else 0)"

definition reservation_of :: "reservation_intent \<Rightarrow> ledger_reservation" where
  "reservation_of i =
     \<lparr>res_id = rq_id (leg_request i), res_object = leg_object i, res_dispatched = rq_dispatched (leg_request i)\<rparr>"

lemma reserve_step:
  assumes "world_inv w" and "0 \<le> rq_cost (leg_request i)"
    and "holding now w (leg_object i) (rq_id (leg_request i)) = None"
    and "reserve_ledger_intent Delivered now i w = (x, w')"
  shows "world_inv w'"
    and "x = Inr (reservation_of i) \<or> (\<exists>e. x = Inl e)"
    and "reading now w' obj win s = reading now w obj win s + (if \<exists>e. x = Inl e then 0 else share now i obj win s)"
    and "holding now w' obj j = (if \<not> (\<exists>e. x = Inl e) \<and> obj = leg_object i \<and> j = rq_id (leg_request i)
          then Some (receipt_of now (leg_request i)) else holding now w obj j)"
    and "usage_queue w' = usage_queue w"
proof -
  let ?q = "leg_request i" and ?o = "leg_object i"
  let ?l = "maintain now (shards w ?o)"
  have inv: "ledger_inv ?l" using assms(1) by (simp add: world_inv_def ledger_inv_maintain)
  have cur: "maintain now (snd (reserve now ?q ?l)) = snd (reserve now ?q ?l)"
    by (intro maintain_current current_reserve current_maintain)
  have idem: "maintain now ?l = ?l" by (intro maintain_current current_maintain)
  have none: "lookup_reservation ?l (rq_id ?q) = None" using assms(3) by (simp add: holding_def)
  have w': "w' = w\<lparr>shards := (shards w)(?o := snd (reserve now ?q ?l))\<rparr>"
    using assms(4) by (auto simp: reserve_ledger_intent_def ask_def ledger_fetch_def Let_def split: prod.splits)
  have x: "x = (if affordable ?q ?l then Inr (reservation_of i) else Inl (HttpError 402 (exhausted_code (leg_kind i))))"
    using assms(4) none
    by (auto simp: reserve_ledger_intent_def ask_def ledger_fetch_def Let_def reserve_fresh affordable_def
        reservation_of_def split: prod.splits if_splits)
  show "world_inv w'"
    using assms(1,2) inv by (simp add: w' world_inv_def ledger_inv_reserve)
  show "x = Inr (reservation_of i) \<or> (\<exists>e. x = Inl e)" by (simp add: x)
  have "effective_spent (snd (reserve now ?q ?l)) win s = effective_spent ?l win s +
      (if affordable ?q ?l \<and> in_scope win s (receipt_of now ?q) then rq_cost ?q else 0)"
    using effective_spent_reserve [OF inv assms(2) none, of now win s]
    by (cases "affordable ?q ?l") (simp_all add: reserve_state)
  then show "reading now w' obj win s = reading now w obj win s + (if \<exists>e. x = Inl e then 0 else share now i obj win s)"
    by (simp add: w' reading_def share_def cur x)
  have "lookup_reservation (snd (reserve now ?q ?l)) j =
      (if affordable ?q ?l \<and> j = rq_id ?q then Some (receipt_of now ?q) else lookup_reservation ?l j)"
    using lookup_insert [of ?l "receipt_of now ?q" j] none
    by (cases "affordable ?q ?l") (auto simp: reserve_state)
  then show "holding now w' obj j = (if \<not> (\<exists>e. x = Inl e) \<and> obj = ?o \<and> j = rq_id ?q
      then Some (receipt_of now ?q) else holding now w obj j)"
    by (auto simp: w' holding_def cur x)
  show "usage_queue w' = usage_queue w" by (simp add: w')
qed

lemma release_step:
  assumes "world_inv w" and "holding now w (res_object r) (res_id r) = Some rec" and "settled rec = 0"
    and "settle_reservation Delivered up now r 0 w = (x, w')"
  shows "x = Inr ()" and "world_inv w'"
    and "reading now w' obj win s = reading now w obj win s -
      (if obj = res_object r \<and> in_scope win s rec then reserved_micros rec else 0)"
    and "holding now w' obj j = (if obj = res_object r \<and> j = res_id r
          then Some (finalize_at 0 rec) else holding now w obj j)"
    and "usage_queue w' = usage_queue w"
proof -
  let ?o = "res_object r"
  let ?l = "maintain now (shards w ?o)"
  have inv: "ledger_inv ?l" using assms(1) by (simp add: world_inv_def ledger_inv_maintain)
  have rec: "lookup_reservation ?l (res_id r) = Some rec" using assms(2) by (simp add: holding_def)
  have ok: "settles ?l (res_id r) (JNum (of_int 0)) rec 0"
    using rec assms(3) by (simp add: settles_def safe_int_def max_safe_integer_def)
  let ?l' = "update_reservation (res_id r) (finalize_at 0) ?l"
  have st: "settle (res_id r) (JNum (of_int 0)) ?l = (SettleReply 0
      (max 0 (effective_spent ?l (window_key rec) (budget_scope_key rec) - reserved_micros rec) + 0), ?l')"
    using ok by (cases rule: settle_cases [of "res_id r" "JNum (of_int 0)" ?l]) (auto simp: settles_def)
  have cur: "maintain now ?l' = ?l'"
    using rec assms(3) inv by (intro maintain_current current_finalize current_maintain)
  have xw: "x = Inr ()" "w' = w\<lparr>shards := (shards w)(?o := ?l')\<rparr>"
    using assms(4) st
    by (auto simp: settle_reservation_def settle_ledger_def ask_def ledger_fetch_def Let_def)
  show "x = Inr ()" by (rule xw)
  show "world_inv w'"
    using assms(1) ledger_inv_settled [OF inv ok] by (simp add: xw world_inv_def)
  show "reading now w' obj win s = reading now w obj win s -
      (if obj = ?o \<and> in_scope win s rec then reserved_micros rec else 0)"
    using effective_spent_settled [OF inv ok, of win s] by (simp add: xw reading_def cur)
  show "holding now w' obj j = (if obj = ?o \<and> j = res_id r then Some (finalize_at 0 rec) else holding now w obj j)"
    using rec receipt_ok_lookup [OF inv rec] receipt_ok_lookup [OF inv, of j]
    by (auto simp: xw holding_def cur lookup_update map_option_case split: option.splits)
  show "usage_queue w' = usage_queue w" by (simp add: xw)
qed

text \<open>Over reliable links a pass of reservations adds exactly the shares of the admitted legs.\<close>

lemma reserve_all_reliable:
  assumes "world_inv w" and "\<forall>i \<in> set is. 0 \<le> rq_cost (leg_request i)"
    and "distinct (map (\<lambda>i. rq_id (leg_request i)) is)"
    and "\<forall>i \<in> set is. \<forall>obj. holding now w obj (rq_id (leg_request i)) = None"
    and "reserve_all [] now is w = (xs, w')"
  shows "\<exists>adm. fulfilled xs = map reservation_of adm \<and> set adm \<subseteq> set is \<and>
    (first_failure xs = None \<longrightarrow> adm = is) \<and>
    distinct (map (\<lambda>i. rq_id (leg_request i)) adm) \<and> world_inv w' \<and>
    (\<forall>obj win s. reading now w' obj win s = reading now w obj win s + sum_list (map (\<lambda>i. share now i obj win s) adm)) \<and>
    (\<forall>i \<in> set adm. holding now w' (leg_object i) (rq_id (leg_request i)) = Some (receipt_of now (leg_request i))) \<and>
    (\<forall>obj j. j \<notin> (\<lambda>i. rq_id (leg_request i)) ` set is \<longrightarrow> holding now w' obj j = holding now w obj j) \<and>
    usage_queue w' = usage_queue w"
  using assms
proof (induction "is" arbitrary: w xs)
  case Nil
  then show ?case by (intro exI [of _ "[]"]) auto
next
  case (Cons i "is")
  let ?id = "\<lambda>i. rq_id (leg_request i)"
  obtain x w1 where x: "reserve_ledger_intent Delivered now i w = (x, w1)" by fastforce
  obtain ys where ys: "reserve_all [] now is w1 = (ys, w')" "xs = x # ys"
    using Cons.prems(5) x by (auto split: prod.splits)
  have none: "holding now w (leg_object i) (?id i) = None" and cost: "0 \<le> rq_cost (leg_request i)"
    using Cons.prems by simp_all
  note step = reserve_step [OF Cons.prems(1) cost none x]
  have other: "holding now w1 obj j = holding now w obj j" if "j \<noteq> ?id i" for obj j
    using that by (simp add: step(4))
  have "\<forall>k \<in> set is. \<forall>obj. holding now w1 obj (?id k) = None"
  proof (intro ballI allI)
    fix k obj assume k: "k \<in> set is"
    then have "?id k \<noteq> ?id i" using Cons.prems(3) by (auto simp: image_iff)
    with k Cons.prems(4) other show "holding now w1 obj (?id k) = None" by simp
  qed
  with Cons.IH [OF step(1) _ _ _ ys(1)] Cons.prems(2,3) obtain adm where adm:
    "fulfilled ys = map reservation_of adm" "set adm \<subseteq> set is" "first_failure ys = None \<longrightarrow> adm = is"
    "distinct (map ?id adm)" "world_inv w'"
    "\<forall>obj win s. reading now w' obj win s = reading now w1 obj win s + sum_list (map (\<lambda>i. share now i obj win s) adm)"
    "\<forall>i \<in> set adm. holding now w' (leg_object i) (?id i) = Some (receipt_of now (leg_request i))"
    "\<forall>obj j. j \<notin> ?id ` set is \<longrightarrow> holding now w' obj j = holding now w1 obj j"
    "usage_queue w' = usage_queue w1"
    by auto
  have new: "?id i \<notin> ?id ` set is" using Cons.prems(3) by simp
  show ?case
  proof (cases x)
    case (Inl e)
    with adm step other ys show ?thesis by (intro exI [of _ adm]) auto
  next
    case (Inr v)
    then have v: "v = reservation_of i" using step(2) by auto
    have "?id i \<notin> ?id ` set adm" using new adm(2) by auto
    moreover have "holding now w' (leg_object i) (?id i) = Some (receipt_of now (leg_request i))"
      using adm(8) new step(4) Inr by simp
    ultimately show ?thesis using adm step other ys Inr v
      by (intro exI [of _ "i # adm"]) auto
  qed
qed

text \<open>Releasing the admitted legs over reliable links takes their shares back.\<close>

lemma release_all_reliable:
  assumes "world_inv w" and "distinct (map (\<lambda>i. rq_id (leg_request i)) adm)"
    and "\<forall>i \<in> set adm. holding now w (leg_object i) (rq_id (leg_request i)) = Some (receipt_of now (leg_request i))"
    and "settle_all [] now (map reservation_of adm) 0 w = (x, w')"
  shows "x = Inr () \<and> world_inv w' \<and> usage_queue w' = usage_queue w \<and>
    (\<forall>obj win s. reading now w' obj win s = reading now w obj win s - sum_list (map (\<lambda>i. share now i obj win s) adm))"
  using assms
proof (induction adm arbitrary: w x)
  case Nil
  then show ?case by simp
next
  case (Cons i adm)
  let ?id = "\<lambda>i. rq_id (leg_request i)"
  obtain y w1 where y: "settle_reservation Delivered True now (reservation_of i) 0 w = (y, w1)" by fastforce
  have h: "holding now w (res_object (reservation_of i)) (res_id (reservation_of i)) =
      Some (receipt_of now (leg_request i))"
    using Cons.prems(3) by (simp add: reservation_of_def)
  note step = release_step [OF Cons.prems(1) h receipt_of_simps(5) y]
  obtain z where z: "settle_all [] now (map reservation_of adm) 0 w1 = (z, w')" "x = rbind y (\<lambda>_. z)"
    using Cons.prems(4) y by (auto split: prod.splits)
  have "\<forall>k \<in> set adm. holding now w1 (leg_object k) (?id k) = Some (receipt_of now (leg_request k))"
    using Cons.prems(2,3) by (auto simp: step(4) reservation_of_def image_iff)
  with Cons.IH [OF step(2) _ _ z(1)] Cons.prems(2) step(1,3,5) z(2) show ?case
    by (simp add: reservation_of_def share_def)
qed

subsection \<open>Properties\<close>

text \<open>
  C7. Reserving the budget of a request is all or nothing: over reliable links, either every leg is
  admitted and each reading grows by exactly the legs it counts, or the request fails and every
  reading of every shard is what it was.
\<close>

theorem reserve_all_or_nothing:
  assumes "world_inv w" and "\<forall>i \<in> set (legs plan). 0 \<le> rq_cost (leg_request i)"
    and "distinct (map (\<lambda>i. rq_id (leg_request i)) (legs plan))"
    and "\<forall>i \<in> set (legs plan). \<forall>obj. holding now w obj (rq_id (leg_request i)) = None"
    and "reserve_budget [] [] now False plan w = (x, w')"
  shows "world_inv w' \<and>
    (case x of
       Inr got \<Rightarrow> got = map reservation_of (legs plan) \<and>
         (\<forall>obj win s. reading now w' obj win s =
            reading now w obj win s + sum_list (map (\<lambda>i. share now i obj win s) (legs plan)))
     | Inl e \<Rightarrow> \<forall>obj win s. reading now w' obj win s = reading now w obj win s)"
proof -
  obtain xs w1 where xs: "reserve_all [] now (legs plan) w = (xs, w1)" by fastforce
  from reserve_all_reliable [OF assms(1-4) xs] obtain adm where adm:
    "fulfilled xs = map reservation_of adm" "first_failure xs = None \<longrightarrow> adm = legs plan"
    "distinct (map (\<lambda>i. rq_id (leg_request i)) adm)" "world_inv w1"
    "\<forall>obj win s. reading now w1 obj win s = reading now w obj win s + sum_list (map (\<lambda>i. share now i obj win s) adm)"
    "\<forall>i \<in> set adm. holding now w1 (leg_object i) (rq_id (leg_request i)) = Some (receipt_of now (leg_request i))"
    by auto
  obtain y w2 where y: "settle_all [] now (map reservation_of adm) 0 w1 = (y, w2)" by fastforce
  note undo = release_all_reliable [OF adm(4,3,6) y]
  show ?thesis
  proof (cases "first_failure xs")
    case None
    with assms(5) xs adm show ?thesis by (auto simp: reserve_budget_def Let_def)
  next
    case (Some e)
    with assms(5) xs adm y undo show ?thesis
      by (auto simp: reserve_budget_def Let_def split: if_splits)
  qed
qed

definition empty_world :: world where
  "empty_world = \<lparr>shards = (\<lambda>_. empty_ledger), usage_queue = []\<rparr>"

definition sample_plan :: reservation_plan where
  "sample_plan = \<lparr>plan_reserved = 60, legs =
     [\<lparr>leg_kind = PolicyLeg, leg_object = ''d:p'', leg_request = example_request\<rparr>,
      \<lparr>leg_kind = DailyLeg, leg_object = ''d:p'',
        leg_request = example_request\<lparr>rq_window := ''d/p/day/2026-01-01'', rq_limit := 10, rq_id := ''budget_2''\<rparr>\<rparr>]\<rparr>"

lemma holding_empty: "holding now empty_world obj i = None"
  by (simp add: holding_def empty_world_def empty_ledger_def maintain_def forget_old_def park_expired_def
      release_expired_def update_where_def delete_where_def lookup_reservation_def)

lemma empty_world_inv: "world_inv empty_world"
  by (simp add: world_inv_def empty_world_def)

theorem reserve_all_or_nothing_witness:
  "world_inv (snd (reserve_budget [] [] 5 False sample_plan empty_world)) \<and>
   (case fst (reserve_budget [] [] 5 False sample_plan empty_world) of
      Inr got \<Rightarrow> got = map reservation_of (legs sample_plan) \<and>
        (\<forall>obj win s. reading 5 (snd (reserve_budget [] [] 5 False sample_plan empty_world)) obj win s =
           reading 5 empty_world obj win s + sum_list (map (\<lambda>i. share 5 i obj win s) (legs sample_plan)))
    | Inl e \<Rightarrow> \<forall>obj win s. reading 5 (snd (reserve_budget [] [] 5 False sample_plan empty_world)) obj win s =
        reading 5 empty_world obj win s)"
  by (rule reserve_all_or_nothing)
    (simp_all add: sample_plan_def example_request_def holding_empty empty_world_inv)

subsection \<open>Recovery\<close>

lemma maintained_retained:
  assumes "receipt_ok r" and "later \<le> created_at_ms r + charge_retention_ms"
  shows "\<exists>r'. maintained later r = Some r' \<and> (settled r = 1 \<longrightarrow> r' = r) \<and>
    (dispatch_started r \<and> settled r \<noteq> 1 \<longrightarrow> finalize_at a r' = finalize_at a r \<and> settled r' \<noteq> 1)"
  using assms by (auto simp: maintained_def finalize_at_def Let_def)

lemma holding_retained:
  assumes "world_inv w" and "lookup_reservation (shards w obj) i = Some r"
    and "later \<le> created_at_ms r + charge_retention_ms"
  shows "\<exists>r'. holding later w obj i = Some r' \<and> receipt_ok r' \<and> dispatch_started r' = dispatch_started r \<and>
    created_at_ms r' = created_at_ms r \<and> (settled r = 1 \<longrightarrow> r' = r) \<and>
    (dispatch_started r \<and> settled r \<noteq> 1 \<longrightarrow> finalize_at a r' = finalize_at a r \<and> settled r' \<noteq> 1)"
proof -
  have inv: "ledger_inv (shards w obj)" using assms(1) by (simp add: world_inv_def)
  then have ok: "receipt_ok r" using assms(2) receipt_ok_lookup by blast
  from maintained_retained [OF ok assms(3), of a] obtain r' where r': "maintained later r = Some r'"
    "settled r = 1 \<longrightarrow> r' = r"
    "dispatch_started r \<and> settled r \<noteq> 1 \<longrightarrow> finalize_at a r' = finalize_at a r \<and> settled r' \<noteq> 1" by blast
  with maintained_Some [OF r'(1)] ok inv assms(2) show ?thesis by (simp add: holding_def lookup_maintain)
qed

text \<open>A delivered settlement of dispatched work, open, parked or already final with that amount.\<close>

lemma settle_step:
  assumes "world_inv w" and "holding now w obj i = Some r" and "safe_int a" and "0 \<le> a"
    and "dispatch_started r" and "settled r = 1 \<longrightarrow> reserved_micros r = a"
  shows "\<exists>n. ask Delivered now obj (PostSettle i (JNum (of_int a))) w =
      (Some (SettleReply a n), snd (ask Delivered now obj (PostSettle i (JNum (of_int a))) w))"
    and "world_inv (snd (ask Delivered now obj (PostSettle i (JNum (of_int a))) w))"
    and "lookup_reservation (shards (snd (ask Delivered now obj (PostSettle i (JNum (of_int a))) w)) obj) i =
      Some (finalize_at a r)"
proof -
  let ?l = "maintain now (shards w obj)"
  have inv: "ledger_inv ?l" using assms(1) by (simp add: world_inv_def ledger_inv_maintain)
  have r: "lookup_reservation ?l i = Some r" using assms(2) by (simp add: holding_def)
  have ok: "settles ?l i (JNum (of_int a)) r a" using assms r by (simp add: settles_def)
  obtain n where st: "settle i (JNum (of_int a)) ?l = (SettleReply a n, update_reservation i (finalize_at a) ?l)"
    using ok by (cases rule: settle_cases [of i "JNum (of_int a)" ?l]) (auto simp: settles_def)
  then show "\<exists>n. ask Delivered now obj (PostSettle i (JNum (of_int a))) w =
      (Some (SettleReply a n), snd (ask Delivered now obj (PostSettle i (JNum (of_int a))) w))"
    by (simp add: ask_def ledger_fetch_def Let_def)
  show "world_inv (snd (ask Delivered now obj (PostSettle i (JNum (of_int a))) w))"
    using assms(1) st ledger_inv_settled [OF inv ok] by (simp add: ask_def ledger_fetch_def Let_def world_inv_def)
  show "lookup_reservation (shards (snd (ask Delivered now obj (PostSettle i (JNum (of_int a))) w)) obj) i =
      Some (finalize_at a r)"
    using st r receipt_ok_lookup [OF inv r] by (simp add: ask_def ledger_fetch_def Let_def lookup_update)
qed

lemma ask_reply_lost: "snd (ask ReplyLost now obj q w) = snd (ask Delivered now obj q w)"
  "fst (ask ReplyLost now obj q w) = None"
  by (simp_all add: ask_def split: prod.splits)

lemma ask_queue [simp]: "usage_queue (snd (ask k now obj q w)) = usage_queue w"
  by (simp add: ask_def split: prod.splits)

lemma ask_queue_eq: "ask k now obj q w = (x, w') \<Longrightarrow> usage_queue w' = usage_queue w"
  using ask_queue [of k now obj q w] by simp

lemma finalize_twice [simp]: "finalize_at a (finalize_at a r) = finalize_at a r"
  by (simp add: finalize_at_def)

text \<open>
  C8. A settlement survives a lost request or a lost acknowledgement without being applied twice:
  whatever the link did, the settling task succeeds with the queue up, and after the queued
  message (if any) is consumed the receipt is final at exactly the actual amount.
\<close>

theorem settlement_recovers_exactly_once:
  assumes "world_inv w" and "lookup_reservation (shards w (res_object r)) (res_id r) = Some rec"
    and "dispatch_started rec" and "settled rec \<noteq> 1" and "safe_int a" and "0 \<le> a"
    and "now \<le> created_at_ms rec + charge_retention_ms" and "later \<le> created_at_ms rec + charge_retention_ms"
    and "settle_reservation k True now r a w = (x, w1)"
  shows "x = Inr () \<and>
    (usage_queue w1 = usage_queue w \<and>
       lookup_reservation (shards w1 (res_object r)) (res_id r) = Some (finalize_at a rec) \<or>
     (\<exists>m. usage_queue w1 = usage_queue w @ [m] \<and> fst (consume Delivered later m w1) \<and>
       lookup_reservation (shards (snd (consume Delivered later m w1)) (res_object r)) (res_id r) =
         Some (finalize_at a rec)))"
proof -
  let ?o = "res_object r" and ?i = "res_id r" and ?m = "BudgetSettlement (res_object r) (res_id r) a"
  let ?q = "PostSettle (res_id r) (JNum (of_int a))"
  from holding_retained [OF assms(1,2,7), of a] assms(3,4) obtain r1 where r1:
    "holding now w ?o ?i = Some r1" "dispatch_started r1" "settled r1 \<noteq> 1" "finalize_at a r1 = finalize_at a rec" by auto
  note now = settle_step [OF assms(1) r1(1) assms(5,6) r1(2)]
  show ?thesis
  proof (cases k)
    case Delivered
    with now r1 assms(9) show ?thesis
      by (auto dest!: ask_queue_eq simp: settle_reservation_def settle_ledger_def Let_def split: prod.splits)
  next
    case ReplyLost
    define v where "v = (snd (ask Delivered now ?o ?q w))\<lparr>usage_queue := usage_queue w @ [?m]\<rparr>"
    have w1: "x = Inr ()" "w1 = v"
      using ReplyLost assms(9) ask_reply_lost [of now ?o ?q w] ask_queue [of Delivered now ?o ?q w]
      by (auto simp: settle_reservation_def settle_ledger_def v_def Let_def split: prod.splits)
    have inv1: "world_inv v" and l1: "lookup_reservation (shards v ?o) ?i = Some (finalize_at a rec)"
      using now r1 by (auto simp: v_def world_inv_def)
    have "created_at_ms (finalize_at a rec) = created_at_ms rec" by (simp add: finalize_at_def)
    with holding_retained [OF inv1 l1, of later a] assms(8)
    have "holding later v ?o ?i = Some (finalize_at a rec)" by auto
    from settle_step [OF inv1 this assms(5,6)] assms(3) w1 show ?thesis
      by (auto simp: consume_def settle_ledger_def v_def Let_def split: prod.splits)
  next
    case RequestLost
    define v where "v = w\<lparr>usage_queue := usage_queue w @ [?m]\<rparr>"
    have w1: "x = Inr ()" "w1 = v"
      using RequestLost assms(9) by (auto simp: settle_reservation_def settle_ledger_def v_def ask_def Let_def)
    have inv1: "world_inv v" and l1: "lookup_reservation (shards v ?o) ?i = Some rec"
      using assms(1,2) by (auto simp: v_def world_inv_def)
    from holding_retained [OF inv1 l1 assms(8), of a] assms(3,4) obtain r2 where
      r2: "holding later v ?o ?i = Some r2" "dispatch_started r2" "settled r2 \<noteq> 1" "finalize_at a r2 = finalize_at a rec"
      by auto
    from settle_step [OF inv1 r2(1) assms(5,6) r2(2)] r2 w1 show ?thesis
      by (auto simp: consume_def settle_ledger_def v_def Let_def split: prod.splits)
  qed
qed

definition dispatched_world :: world where
  "dispatched_world = empty_world\<lparr>shards := (\<lambda>_. dispatched_ledger)\<rparr>"

theorem settlement_recovers_exactly_once_witness:
  "fst (settle_reservation ReplyLost True 10 \<lparr>res_id = ''budget_1'', res_object = ''t:p'', res_dispatched = True\<rparr> 42 dispatched_world) = Inr ()"
proof -
  let ?r = "\<lparr>res_id = ''budget_1'', res_object = ''t:p'', res_dispatched = True\<rparr>"
  obtain x w1 where s: "settle_reservation ReplyLost True 10 ?r 42 dispatched_world = (x, w1)" by fastforce
  have "world_inv dispatched_world" by (simp add: dispatched_world_def world_inv_def dispatched_ledger_inv)
  moreover have "lookup_reservation (shards dispatched_world (res_object ?r)) (res_id ?r) =
      Some (start_dispatch (receipt_of 5 example_request))"
    by (simp add: dispatched_world_def dispatched_ledger_eq lookup_reservation_def row_at_Cons example_request_def)
  ultimately show ?thesis
    using settlement_recovers_exactly_once [OF _ _ _ _ _ _ _ _ s, of "start_dispatch (receipt_of 5 example_request)" 20] s
    by (simp add: safe_int_def max_safe_integer_def charge_retention_ms_def receipt_of_def)
qed

subsection \<open>The plan\<close>

definition cap_of :: "leg_kind \<Rightarrow> int option \<Rightarrow> (leg_kind \<times> int) list" where
  "cap_of k limit = (case limit of None \<Rightarrow> [] | Some lm \<Rightarrow> [(k, lm)])"

definition configured_caps :: "authorized_identity \<Rightarrow> provider_connection option \<Rightarrow> (leg_kind \<times> int) list" where
  "configured_caps auth connection =
     cap_of PolicyLeg (monthlyBudgetMicros (policy auth)) @ cap_of DailyLeg (dailyBudgetMicros (policy auth)) @
     cap_of WeeklyLeg (weeklyBudgetMicros (policy auth)) @
     cap_of ProviderLeg (Option.bind connection conn_monthlyBudget)"

text \<open>The legs made for one cap, and what a plan is made of.\<close>

definition legs_for :: "(leg_kind \<Rightarrow> string) \<Rightarrow> int \<Rightarrow> (leg_kind \<times> int) list \<Rightarrow> reservation_intent list \<Rightarrow> bool" where
  "legs_for fresh cost caps ls \<longleftrightarrow> map (\<lambda>i. (leg_kind i, rq_limit (leg_request i))) ls = caps \<and>
     (\<forall>i \<in> set ls. rq_cost (leg_request i) = cost \<and> rq_id (leg_request i) = fresh (leg_kind i))"

lemma legs_for_append:
  "legs_for fresh cost c ls \<Longrightarrow> legs_for fresh cost d ms \<Longrightarrow> legs_for fresh cost (c @ d) (ls @ ms)"
  by (auto simp: legs_for_def)

lemma legs_for_empty: "legs_for fresh cost c ls \<Longrightarrow> ls = [] \<longleftrightarrow> c = []"
  by (auto simp: legs_for_def)

lemma leg_simps [simp]:
  "leg_kind (leg cp k a lm c i) = k" "leg_object (leg cp k a lm c i) = addr_object a"
  "leg_request (leg cp k a lm c i) = \<lparr>rq_policy = addr_policy a, rq_window = addr_window a, rq_scope = Some (addr_scope a),
     rq_limit = lm, rq_cost = c, rq_id = i, rq_dispatched = False, rq_capability = cp\<rparr>"
  by (simp_all add: leg_def)

lemma legs_for_policy_leg:
  "policy_leg fresh cap kind address auth cost t limit = Inr ls \<Longrightarrow> legs_for fresh cost (cap_of kind limit) ls"
  by (auto simp: policy_leg_def legs_for_def cap_of_def split: option.splits)

lemma validate_priced:
  "validate_budget_reservation capability cost pl connection dl wl = Inr True \<Longrightarrow>
     pricingGap cost = None \<and>
     basis cost \<notin> {''unpriced_modifier'', ''unpriced_service_tier'', ''flat_fallback''} \<and>
     pl \<noteq> Some 0 \<and> dl \<noteq> Some 0 \<and> wl \<noteq> Some 0 \<and> Option.bind connection conn_monthlyBudget \<noteq> Some 0"
  by (auto simp: validate_budget_reservation_def Let_def split: if_splits)

lemma plan_legs:
  assumes "plan_budget_reservation fresh auth capability cost connection t False = Inr p"
  shows "plan_reserved p = 0 \<and> legs p = [] \<and> (capability = ''llm.count_tokens'' \<or> configured_caps auth connection = []) \<or>
    plan_reserved p = reserveMicros cost \<and> legs_for fresh (reserveMicros cost) (configured_caps auth connection) (legs p) \<and>
    validate_budget_reservation capability cost (monthlyBudgetMicros (policy auth)) connection
      (dailyBudgetMicros (policy auth)) (weeklyBudgetMicros (policy auth)) = Inr True"
proof (cases "validate_budget_reservation capability cost (monthlyBudgetMicros (policy auth)) connection
      (dailyBudgetMicros (policy auth)) (weeklyBudgetMicros (policy auth)) = Inr True")
  case True
  let ?prov = "case connection of None \<Rightarrow> [] | Some c \<Rightarrow> (case conn_monthlyBudget c of None \<Rightarrow> []
      | Some lm \<Rightarrow> [leg capability ProviderLeg (provider_budget_ledger_address (providerId c) t) lm (reserveMicros cost) (fresh ProviderLeg)])"
  from True assms obtain m d w where parts:
    "policy_leg fresh capability PolicyLeg budget_ledger_address auth (reserveMicros cost) t (monthlyBudgetMicros (policy auth)) = Inr m"
    "policy_leg fresh capability DailyLeg daily_budget_ledger_address auth (reserveMicros cost) t (dailyBudgetMicros (policy auth)) = Inr d"
    "policy_leg fresh capability WeeklyLeg weekly_budget_ledger_address auth (reserveMicros cost) t (weeklyBudgetMicros (policy auth)) = Inr w"
    and p: "p = \<lparr>plan_reserved = reserveMicros cost, legs = m @ d @ w @ ?prov\<rparr>"
    by (auto simp: plan_budget_reservation_def)
  have "legs_for fresh (reserveMicros cost) (cap_of ProviderLeg (Option.bind connection conn_monthlyBudget)) ?prov"
    by (auto simp: legs_for_def cap_of_def split: option.splits)
  with parts [THEN legs_for_policy_leg] have "legs_for fresh (reserveMicros cost) (configured_caps auth connection) (legs p)"
    by (simp add: p configured_caps_def legs_for_append)
  with True p show ?thesis by simp
next
  case False
  with assms show ?thesis
    by (auto simp: plan_budget_reservation_def validate_budget_reservation_def configured_caps_def cap_of_def
        Let_def split: if_splits)
qed


definition sample_fresh :: "leg_kind \<Rightarrow> string" where
  "sample_fresh k = (case k of PolicyLeg \<Rightarrow> ''budget_a'' | DailyLeg \<Rightarrow> ''budget_b'' | WeeklyLeg \<Rightarrow> ''budget_c'' | ProviderLeg \<Rightarrow> ''budget_d'')"

lemma inj_sample_fresh: "inj sample_fresh"
  by (rule injI) (auto simp: sample_fresh_def split: leg_kind.splits)

definition sample_cost :: estimated_cost where
  "sample_cost = \<lparr>reserveMicros = 60, basis = ''manifest_pricing'', pricingGap = None\<rparr>"


end
