(* ===== verification/Http_Utils.thy ===== *)
theory Http_Utils
  imports Js_Text
begin

section \<open>Request helpers\<close>

text \<open>
  The pure helpers of \<open>worker/utils.ts\<close>: which paths are open to browsers, canonical and
  legacy paths, bearer tokens and proxy keys, constant-time comparison, identifiers, e-mail
  addresses and comma lists. A regular expression of the source is the test or the scan that it
  denotes. \<open>charCodeAt\<close> reads bytes here; both operands of \<open>safeEqual\<close> are ASCII digests
  and secrets.
\<close>

unbundle bit_operations_syntax

subsection \<open>Paths\<close>

definition cors_enabled :: "string \<Rightarrow> bool" where
  "cors_enabled path \<longleftrightarrow> path = ''/v1'' \<or> starts_with ''/v1/'' path \<or> starts_with ''/api/'' path"

definition canonical_path :: "string \<Rightarrow> string" where
  "canonical_path path =
     (if path = ''/api/route'' \<or> path = ''/api/routes'' then ''/v1/routes''
      else if path = ''/api/session'' then ''/v1/session''
      else if path = ''/api/entitlements'' then ''/v1/entitlements''
      else if path = ''/api/me'' then ''/v1/me''
      else if path = ''/api/usage'' then ''/v1/usage''
      else if starts_with ''/api/admin/'' path then ''/v1'' @ drop 4 path
      else path)"

definition legacy_redirect :: "string \<Rightarrow> string option" where
  "legacy_redirect path = map_of
     [(''/access'', ''/dashboard/access''), (''/admin'', ''/dashboard/access''), (''/policies'', ''/dashboard/access''),
      (''/account'', ''/dashboard/users''), (''/users'', ''/dashboard/users''), (''/catalog'', ''/dashboard/catalog''),
      (''/console'', ''/dashboard/catalog''), (''/routes'', ''/dashboard/catalog''), (''/playground'', ''/dashboard/playground''),
      (''/usage'', ''/dashboard/usage'')] path"

subsection \<open>Credentials in headers\<close>

text \<open>\<open>/^Bearer[ \t]+(.+)$/i\<close>, trimmed; the header has one line.\<close>

definition parse_bearer :: "string option \<Rightarrow> string option" where
  "parse_bearer header =
     (case header of
        None \<Rightarrow> None
      | Some v \<Rightarrow>
          if to_lower (take 6 v) = ''bearer'' \<and> drop 6 v \<noteq> [] \<and> hd (drop 6 v) \<in> {CHR '' '', CHR 0x09} \<and> drop 7 v \<noteq> []
          then (let t = trim (drop 7 v) in if t = [] then None else Some t)
          else None)"

definition word_char :: "char \<Rightarrow> bool" where
  "word_char c \<longleftrightarrow> (let n = (of_char c :: nat) in
     48 \<le> n \<and> n \<le> 57 \<or> 65 \<le> n \<and> n \<le> 90 \<or> 97 \<le> n \<and> n \<le> 122 \<or> n = 95)"

definition tokenish :: "string \<Rightarrow> bool" where
  "tokenish s \<longleftrightarrow> s \<noteq> [] \<and> list_all (\<lambda>c. word_char c \<or> c = CHR ''-'') s"

datatype key_mode = Live | Test

record proxy_key =
  mode :: key_mode
  kid :: string
  secret :: string

definition key_patterns :: "(string \<times> key_mode \<times> char) list" where
  "key_patterns = [(''clawrouter-live-'', Live, CHR ''-''), (''clawrouter-test-'', Test, CHR ''-''),
     (''ocpk_live_'', Live, CHR ''_''), (''ocpk_test_'', Test, CHR ''_'')]"

text \<open>The part after the prefix: the key identifier up to the first delimiter, then the secret.\<close>

definition parse_key_rest :: "key_mode \<Rightarrow> char \<Rightarrow> string \<Rightarrow> proxy_key option" where
  "parse_key_rest m d rest =
     (let k = takeWhile (\<lambda>c. c \<noteq> d) rest; after = dropWhile (\<lambda>c. c \<noteq> d) rest
      in if after = [] then None
         else (let s = tl after in
           if length k < 4 \<or> length s < 8 \<or> \<not> tokenish k \<or> \<not> tokenish s \<or> d \<in> set k then None
           else Some \<lparr>mode = m, kid = k, secret = s\<rparr>))"

fun parse_key_with :: "(string \<times> key_mode \<times> char) list \<Rightarrow> string \<Rightarrow> proxy_key option" where
  "parse_key_with [] input = None"
| "parse_key_with ((p, m, d) # ps) input =
     (if \<not> starts_with p input then parse_key_with ps input
      else parse_key_rest m d (drop (length p) input))"

definition parse_proxy_key :: "string \<Rightarrow> proxy_key option" where
  "parse_proxy_key = parse_key_with key_patterns"

text \<open>The loop of \<open>safeEqual\<close> accumulates the differences of all positions.\<close>

fun differences :: "string \<Rightarrow> string \<Rightarrow> nat \<Rightarrow> nat" where
  "differences (x # xs) (y # ys) d = differences xs ys (d OR (of_char x XOR of_char y))"
| "differences _ _ d = d"

definition safe_equal :: "string \<Rightarrow> string \<Rightarrow> bool" where
  "safe_equal l r = (if length l \<noteq> length r then False else differences l r 0 = 0)"

subsection \<open>Identifiers, addresses, lists\<close>

definition clean_id :: "string \<Rightarrow> string option" where
  "clean_id v = (let s = trim v in
     if 1 \<le> length s \<and> length s \<le> 128 \<and> list_all word_char s then Some s else None)"

text \<open>\<open>/^[^\s@]+@[^\s@]+$/\<close>.\<close>

definition email_shape :: "string \<Rightarrow> bool" where
  "email_shape s \<longleftrightarrow>
     (let a = takeWhile (\<lambda>c. c \<noteq> CHR ''@'') s; b = drop (Suc (length a)) s
      in length a < length s \<and> a \<noteq> [] \<and> b \<noteq> [] \<and> CHR ''@'' \<notin> set b \<and> \<not> list_ex is_space s)"

definition normalize_email :: "string \<Rightarrow> string option" where
  "normalize_email v = (let e = to_lower (trim v) in
     if utf16_length e \<le> 320 \<and> email_shape e then Some e else None)"

fun env_value :: "json option \<Rightarrow> string option" where
  "env_value (Some (JStr s)) = (if trim s \<noteq> [] then Some s else None)"
| "env_value _ = None"

fun split_on :: "char \<Rightarrow> string \<Rightarrow> string list" where
  "split_on d [] = [[]]"
| "split_on d (c # s) =
     (if c = d then [] # split_on d s
      else (case split_on d s of [] \<Rightarrow> [[c]] | w # ws \<Rightarrow> (c # w) # ws))"

definition comma_set :: "string option \<Rightarrow> string set" where
  "comma_set v = set (filter (\<lambda>s. s \<noteq> [])
     (map (to_lower \<circ> trim) (split_on (CHR '','') (case v of None \<Rightarrow> [] | Some s \<Rightarrow> s))))"

subsection \<open>Lemmas\<close>

lemma drop_starts_with: "starts_with p (p @ s)"
  by (simp add: starts_with_iff)

lemma differences_zero: "length xs = length ys \<Longrightarrow> differences xs ys d = 0 \<longleftrightarrow> d = 0 \<and> xs = ys"
proof (induction xs ys d rule: differences.induct)
  case (1 x xs y ys d)
  have "(d OR (of_char x XOR of_char y)) = 0 \<longleftrightarrow> d = 0 \<and> (of_char x XOR of_char y :: nat) = 0"
    by (auto simp: or_eq_0_iff)
  moreover have "(of_char x XOR of_char y :: nat) = 0 \<longleftrightarrow> x = y"
    by (metis of_char_eq_iff xor.right_neutral xor.assoc xor.left_neutral bit.xor_self xor_self_eq)
  ultimately show ?case using 1 by auto
qed auto

lemma parse_key_rest_Some:
  "parse_key_rest m d rest = Some k \<longleftrightarrow>
     rest = kid k @ [d] @ secret k \<and> mode k = m \<and> d \<notin> set (kid k) \<and>
     4 \<le> length (kid k) \<and> 8 \<le> length (secret k) \<and> tokenish (kid k) \<and> tokenish (secret k)"
proof
  assume *: "parse_key_rest m d rest = Some k"
  let ?k = "takeWhile (\<lambda>c. c \<noteq> d) rest" and ?a = "dropWhile (\<lambda>c. c \<noteq> d) rest"
  from * have a: "?a \<noteq> []" and k: "k = \<lparr>mode = m, kid = ?k, secret = tl ?a\<rparr>"
    and ok: "\<not> length ?k < 4" "\<not> length (tl ?a) < 8" "tokenish ?k" "tokenish (tl ?a)" "d \<notin> set ?k"
    by (auto simp: parse_key_rest_def Let_def split: if_splits)
  have "hd ?a = d" using hd_dropWhile [OF a] by simp
  then have "?a = d # tl ?a" using a by (metis list.collapse)
  then have "rest = ?k @ [d] @ tl ?a" by (metis append_Cons append_Nil takeWhile_dropWhile_id)
  with k ok show "rest = kid k @ [d] @ secret k \<and> mode k = m \<and> d \<notin> set (kid k) \<and>
     4 \<le> length (kid k) \<and> 8 \<le> length (secret k) \<and> tokenish (kid k) \<and> tokenish (secret k)" by simp
next
  assume *: "rest = kid k @ [d] @ secret k \<and> mode k = m \<and> d \<notin> set (kid k) \<and>
     4 \<le> length (kid k) \<and> 8 \<le> length (secret k) \<and> tokenish (kid k) \<and> tokenish (secret k)"
  then have "takeWhile (\<lambda>c. c \<noteq> d) rest = kid k" "dropWhile (\<lambda>c. c \<noteq> d) rest = d # secret k"
    by (auto simp: takeWhile_append dropWhile_append)
  with * show "parse_key_rest m d rest = Some k" by (simp add: parse_key_rest_def Let_def)
qed

lemma prefixes_differ:
  "(p, m, d) \<in> set key_patterns \<Longrightarrow> (p', m', d') \<in> set key_patterns \<Longrightarrow> starts_with p (p' @ s) \<Longrightarrow>
   p = p' \<and> m = m' \<and> d = d'"
  by (auto simp: key_patterns_def)

subsection \<open>Properties\<close>

text \<open>
  Proxy keys parse unambiguously: a key is accepted exactly when it is one of the four prefixes, an
  identifier of at least four characters without the delimiter, the delimiter, and a secret of at
  least eight characters, all of them token characters; the parts are then read back as written.
\<close>

theorem proxy_key_roundtrip:
  "parse_proxy_key input = Some k \<longleftrightarrow>
     (\<exists>(p, m, d) \<in> set key_patterns. input = p @ kid k @ [d] @ secret k \<and> mode k = m \<and> d \<notin> set (kid k) \<and>
        4 \<le> length (kid k) \<and> 8 \<le> length (secret k) \<and> tokenish (kid k) \<and> tokenish (secret k))"
proof -
  have step: "parse_key_with ps input = Some k \<longleftrightarrow>
      (\<exists>(p, m, d) \<in> set ps. \<exists>s. input = p @ s \<and> parse_key_rest m d s = Some k)"
    if "set ps \<subseteq> set key_patterns" "distinct (map fst ps)" for ps
    using that
  proof (induction ps)
    case (Cons q ps)
    obtain p m d where q: "q = (p, m, d)" by (cases q)
    show ?case
    proof (cases "starts_with p input")
      case True
      then obtain s where s: "input = p @ s" by (auto simp: starts_with_iff)
      have "p' = p" if "(p', m', d') \<in> set ps" "input = p' @ s'" for p' m' d' s'
        using prefixes_differ [of p m d p' m' d' s'] that Cons.prems True q by auto
      then have "\<not> (\<exists>(p', m', d') \<in> set ps. \<exists>s'. input = p' @ s')"
        using Cons.prems(2) q by (auto simp: image_iff)
      then show ?thesis using True s q by auto
    next
      case False
      then have "\<not> (\<exists>s. input = p @ s)" by (simp add: starts_with_iff)
      then show ?thesis using Cons False q by auto
    qed
  qed simp
  have "distinct (map fst key_patterns)" by (simp add: key_patterns_def)
  with step [of key_patterns] show ?thesis
    by (simp add: parse_proxy_key_def parse_key_rest_Some case_prod_unfold)
qed

text \<open>
  Comparing secrets without an early exit decides equality: the accumulated difference is zero
  exactly for equal strings.
\<close>

theorem safe_equal_is_equality: "safe_equal l r \<longleftrightarrow> l = r"
  by (auto simp: safe_equal_def differences_zero)

end
