(* ===== verification/Usage_Event.thy ===== *)
theory Usage_Event
  imports Http_Utils
begin

section \<open>Usage events and their personal projection\<close>

text \<open>
  \<open>UsageEvent\<close> of \<open>worker/types.ts\<close>, the personal projection of
  \<open>worker/usage-report-store.ts\<close> and the cost classification of
  \<open>worker/usage-report-cost.ts\<close>. An absent optional field is \<open>None\<close>. Principal,
  credential and cost basis are JSON values, because the ledger checks their type: history can
  hold other values than text.
\<close>

subsection \<open>Events\<close>

datatype grant_lane = Subscription | ApiKey | Environment

datatype event_status = Success | ProviderError | ClientError | Denied | Timeout

datatype compound_stage = FusionAdviser | FusionSynthesizer

record realtime_usage =
  rt_item_id :: "string option"
  rt_unit_id :: string
  rt_response_id :: "string option"
  rt_output_cap :: int
  rt_text_input_tokens :: "int option"
  rt_audio_input_tokens :: "int option"
  rt_cached_text_input_tokens :: "int option"
  rt_cached_audio_input_tokens :: "int option"
  rt_text_output_tokens :: "int option"
  rt_audio_output_tokens :: "int option"

record image_usage =
  im_text_input_tokens :: int
  im_image_input_tokens :: int
  im_image_output_tokens :: int

record usage_event =
  request_format :: "string option"
  reporting_known_cost_micros :: "int option"
  reporting_estimated_cost_micros :: "int option"
  reporting_estimate_reason :: "string option"
  reasoning_output_tokens :: "int option"
  ev_realtime_usage :: "realtime_usage option"
  hosted_tool_calls :: "int option"
  hosted_tool_calls_complete :: "bool option"
  hosted_tool_cost_micros :: "int option"
  hosted_tool_pricing_ref :: "string option"
  ev_image_usage :: "image_usage option"
  ev_id :: string
  occurred_at_ms :: int
  tenant_id :: string
  policy_id :: string
  credential_id :: json
  grant_key :: "string option"
  grant_lane :: "grant_lane option"
  principal_id :: json
  auth_type :: string
  session_id :: "string option"
  agent_id :: "string option"
  parent_agent_id :: "string option"
  project_id :: "string option"
  ev_client :: "string option"
  key_id :: string
  request_id :: string
  trace_id :: "string option"
  span_id :: "string option"
  compound_request_id :: "string option"
  compound_request_stage :: "compound_stage option"
  compound_request_index :: "int option"
  compound_request_size :: "int option"
  compound_request_started_at_ms :: "int option"
  provider :: string
  capability :: string
  ev_model :: "string option"
  input_tokens :: "int option"
  output_tokens :: "int option"
  total_tokens :: "int option"
  cached_input_tokens :: "int option"
  cache_write_input_tokens :: "int option"
  reserved_cost_micros :: int
  actual_cost_micros :: int
  reserved_input_tokens :: "int option"
  reserved_output_tokens :: "int option"
  pricing_ref :: "string option"
  pricing_effective_at :: "string option"
  cost_basis :: json
  requested_service_tier :: "string option"
  served_service_tier :: "string option"
  status_code :: "int option"
  duration_ms :: "int option"
  content_retained :: bool
  content_ref :: "string option"
  ev_status :: event_status

fun text_of :: "json \<Rightarrow> string option" where
  "text_of (JStr s) = Some s"
| "text_of _ = None"

subsection \<open>Reporting cost\<close>

datatype cost_class = Calculated | Fixed | Estimated | UpperBound | Partial | Unknown | NoCharge

datatype cost_lane = ApiLane | SubscriptionLane | Unattributed

definition known_basis_classes :: "(string \<times> cost_class) list" where
  "known_basis_classes =
     [(''none'', NoCharge), (''policy_fixed'', Fixed), (''request_character_estimate'', Estimated),
      (''manifest_reservation'', Estimated), (''manifest_rate_upper_bound'', UpperBound),
      (''realtime_full_context_bound'', UpperBound), (''manifest_pricing'', Calculated),
      (''realtime_modality_usage'', Calculated), (''realtime_input_transcription_usage'', Calculated)]"

definition usage_counter :: "int option \<Rightarrow> int option" where
  "usage_counter v = (case v of None \<Rightarrow> None | Some n \<Rightarrow> if safe_int n \<and> 0 \<le> n then Some n else None)"

record cost_report =
  rc_lane :: cost_lane
  rc_class :: cost_class
  rc_amount :: "int option"

definition event_lane :: "usage_event \<Rightarrow> cost_lane" where
  "event_lane e = (case grant_lane e of Some Subscription \<Rightarrow> SubscriptionLane
     | Some ApiKey \<Rightarrow> ApiLane | Some Environment \<Rightarrow> ApiLane | None \<Rightarrow> Unattributed)"

definition canonical_class :: "usage_event \<Rightarrow> cost_class" where
  "canonical_class e = (case Option.bind (text_of (cost_basis e)) (map_of known_basis_classes) of
     None \<Rightarrow> Unknown | Some c \<Rightarrow> c)"

text \<open>The class before the partial and estimate rules, and the condition of each rule.\<close>

definition base_class :: "usage_event \<Rightarrow> cost_class" where
  "base_class e = (case usage_counter (Some (actual_cost_micros e)) of
     None \<Rightarrow> Unknown
   | Some a \<Rightarrow> if canonical_class e = NoCharge \<and> a \<noteq> 0 then Unknown else canonical_class e)"

definition partial_amount :: "usage_event \<Rightarrow> int option" where
  "partial_amount e =
     (case (usage_counter (Some (actual_cost_micros e)), usage_counter (reporting_known_cost_micros e), text_of (cost_basis e)) of
        (Some a, Some k, Some b) \<Rightarrow> if starts_with ''unpriced_'' b \<and> 0 < k \<and> k \<le> a then Some k else None
      | _ \<Rightarrow> None)"

definition estimated_amount :: "usage_event \<Rightarrow> int option" where
  "estimated_amount e =
     (case (usage_counter (reporting_estimated_cost_micros e), reporting_estimate_reason e) of
        (Some n, Some r) \<Rightarrow> if usage_counter (Some (actual_cost_micros e)) = Some 0 \<and> r \<noteq> [] then Some n else None
      | _ \<Rightarrow> None)"

definition reporting_cost :: "usage_event \<Rightarrow> cost_report" where
  "reporting_cost e =
     (if base_class e \<noteq> Unknown
      then \<lparr>rc_lane = event_lane e, rc_class = base_class e, rc_amount = usage_counter (Some (actual_cost_micros e))\<rparr>
      else case partial_amount e of
        Some k \<Rightarrow> \<lparr>rc_lane = event_lane e, rc_class = Partial, rc_amount = Some k\<rparr>
      | None \<Rightarrow> (case estimated_amount e of
          Some n \<Rightarrow> \<lparr>rc_lane = event_lane e, rc_class = Estimated, rc_amount = Some n\<rparr>
        | None \<Rightarrow> \<lparr>rc_lane = event_lane e, rc_class = Unknown, rc_amount = None\<rparr>))"

subsection \<open>The personal projection\<close>

datatype call_kind = Generation | Utility

record personal_usage_event =
  pu_id :: string
  pu_occurredAt :: int
  pu_provider :: string
  pu_model :: "string option"
  pu_keyId :: "string option"
  pu_capability :: string
  pu_callKind :: call_kind
  pu_status :: event_status
  pu_statusCode :: "int option"
  pu_durationMs :: "int option"
  pu_inputTokens :: "int option"
  pu_outputTokens :: "int option"
  pu_cachedInputTokens :: "int option"
  pu_cacheWriteInputTokens :: "int option"
  pu_reasoningOutputTokens :: "int option"
  pu_lane :: cost_lane
  pu_costClass :: cost_class
  pu_reportingCostMicros :: "int option"
  pu_estimateReason :: "string option"
  pu_recordedChargeMicros :: int
  pu_costBasis :: "string option"
  pu_pricingRef :: "string option"
  pu_requestedTier :: "string option"
  pu_servedTier :: "string option"
  pu_compoundRequestId :: "string option"
  pu_compoundStage :: "compound_stage option"

definition utility_formats :: "string list" where
  "utility_formats = [''openai.models'', ''anthropic.models'', ''openai.responses_input_tokens'',
     ''anthropic.count_tokens'', ''openai.moderations'']"

definition subset_counter :: "int option \<Rightarrow> int option \<Rightarrow> int option" where
  "subset_counter v inclusive = (case (usage_counter v, inclusive) of
     (Some n, Some m) \<Rightarrow> if n \<le> m then Some n else None | _ \<Rightarrow> None)"

definition cache_conflict :: "int option \<Rightarrow> int option \<Rightarrow> int option \<Rightarrow> bool" where
  "cache_conflict cached written inclusive = (case (cached, written, inclusive) of
     (Some c, Some w, Some i) \<Rightarrow> c > i - w | _ \<Rightarrow> False)"

definition project_usage_event :: "usage_event \<Rightarrow> personal_usage_event" where
  "project_usage_event e =
     (let cost = reporting_cost e;
          inp = usage_counter (input_tokens e); out = usage_counter (output_tokens e);
          cached = subset_counter (cached_input_tokens e) inp;
          written = subset_counter (cache_write_input_tokens e) inp;
          clash = cache_conflict cached written inp
      in \<lparr>pu_id = ev_id e, pu_occurredAt = occurred_at_ms e, pu_provider = provider e, pu_model = ev_model e,
          pu_keyId = text_of (credential_id e), pu_capability = capability e,
          pu_callKind = (if (case request_format e of None \<Rightarrow> False | Some f \<Rightarrow> f \<in> set utility_formats) \<or>
              request_format e = Some ''anthropic.messages'' \<and> capability e = ''llm.count_tokens''
            then Utility else Generation),
          pu_status = ev_status e, pu_statusCode = usage_counter (status_code e), pu_durationMs = usage_counter (duration_ms e),
          pu_inputTokens = inp, pu_outputTokens = out,
          pu_cachedInputTokens = (if clash then None else cached),
          pu_cacheWriteInputTokens = (if clash then None else written),
          pu_reasoningOutputTokens = subset_counter (reasoning_output_tokens e) out,
          pu_lane = rc_lane cost, pu_costClass = rc_class cost, pu_reportingCostMicros = rc_amount cost,
          pu_estimateReason = (if rc_class cost = Estimated then reporting_estimate_reason e else None),
          pu_recordedChargeMicros = (case usage_counter (Some (actual_cost_micros e)) of None \<Rightarrow> 0 | Some n \<Rightarrow> n),
          pu_costBasis = text_of (cost_basis e), pu_pricingRef = pricing_ref e,
          pu_requestedTier = requested_service_tier e, pu_servedTier = served_service_tier e,
          pu_compoundRequestId = compound_request_id e, pu_compoundStage = compound_request_stage e\<rparr>)"

subsection \<open>Lemmas\<close>

lemma usage_counter_Some: "usage_counter v = Some n \<longleftrightarrow> v = Some n \<and> safe_int n \<and> 0 \<le> n"
  by (auto simp: usage_counter_def split: option.splits if_splits)

lemma subset_counter_Some:
  "subset_counter v inclusive = Some n \<longleftrightarrow> usage_counter v = Some n \<and> (\<exists>m. inclusive = Some m \<and> n \<le> m)"
  by (auto simp: subset_counter_def split: option.splits if_splits)

lemma known_basis_no_Partial: "map_of known_basis_classes b \<noteq> Some Partial" "map_of known_basis_classes b \<noteq> Some Unknown"
  by (auto simp: known_basis_classes_def split: if_splits)

lemma canonical_class_not_Partial: "canonical_class e \<noteq> Partial"
  by (auto simp: canonical_class_def known_basis_no_Partial split: option.splits Option.bind_splits)

lemma base_class_known:
  "base_class e \<noteq> Unknown \<Longrightarrow> usage_counter (Some (actual_cost_micros e)) = Some (actual_cost_micros e) \<and>
     base_class e = canonical_class e \<and> base_class e \<noteq> Partial \<and> (base_class e = NoCharge \<longrightarrow> actual_cost_micros e = 0)"
  using canonical_class_not_Partial [of e]
  by (auto simp: base_class_def usage_counter_def split: if_splits)

lemma partial_amount_Some: "partial_amount e = Some k \<Longrightarrow>
    reporting_known_cost_micros e = Some k \<and> 0 < k \<and> k \<le> actual_cost_micros e"
  by (auto simp: partial_amount_def usage_counter_Some split: option.splits if_splits)

lemma estimated_amount_Some: "estimated_amount e = Some n \<Longrightarrow>
    reporting_estimated_cost_micros e = Some n \<and> 0 \<le> n \<and> actual_cost_micros e = 0"
  by (auto simp: estimated_amount_def usage_counter_Some split: option.splits if_splits)

lemma cache_parts_fit:
  assumes "subset_counter a inp = Some c" and "\<not> cache_conflict (subset_counter a inp) (subset_counter b inp) inp"
  shows "\<exists>i. inp = Some i \<and> c + (case subset_counter b inp of None \<Rightarrow> 0 | Some w \<Rightarrow> w) \<le> i"
proof -
  from assms(1) obtain i where i: "inp = Some i" "c \<le> i" by (auto simp: subset_counter_Some)
  show ?thesis
  proof (cases "subset_counter b inp")
    case None
    with i show ?thesis by simp
  next
    case (Some w)
    with assms i show ?thesis by (simp add: cache_conflict_def)
  qed
qed

subsection \<open>Properties\<close>

text \<open>
  A reported amount is always evidence the event holds: unknown cost has no amount and every
  other class has one; it is never negative; it exceeds the recorded charge only as an estimate of
  an unrecorded one; a free call costs zero; a partial amount is the measured component.
\<close>

theorem reported_cost_is_evidence:
  "(rc_class (reporting_cost e) = Unknown \<longleftrightarrow> rc_amount (reporting_cost e) = None) \<and>
   (\<forall>a. rc_amount (reporting_cost e) = Some a \<longrightarrow>
      0 \<le> a \<and> (rc_class (reporting_cost e) \<noteq> Estimated \<longrightarrow> a \<le> actual_cost_micros e) \<and>
      (rc_class (reporting_cost e) = NoCharge \<longrightarrow> a = 0) \<and>
      (rc_class (reporting_cost e) = Partial \<longrightarrow> reporting_known_cost_micros e = Some a) \<and>
      (a > actual_cost_micros e \<longrightarrow> actual_cost_micros e = 0 \<and> reporting_estimated_cost_micros e = Some a))"
proof (cases "base_class e = Unknown")
  case True
  then show ?thesis
    by (auto simp: reporting_cost_def split: option.splits dest: partial_amount_Some estimated_amount_Some)
next
  case False
  then show ?thesis using base_class_known [OF False]
    by (auto simp: reporting_cost_def usage_counter_Some)
qed

definition sample_event :: usage_event where
  "sample_event = \<lparr>request_format = None, reporting_known_cost_micros = Some 4, reporting_estimated_cost_micros = None,
     reporting_estimate_reason = None, reasoning_output_tokens = Some 2, ev_realtime_usage = None, hosted_tool_calls = None,
     hosted_tool_calls_complete = None, hosted_tool_cost_micros = None, hosted_tool_pricing_ref = None,
     ev_image_usage = None, ev_id = ''event_1'', occurred_at_ms = 86400005, tenant_id = ''default'', policy_id = ''team'',
     credential_id = JStr ''cred'', grant_key = None, grant_lane = Some ApiKey, principal_id = JStr ''A@b.c'',
     auth_type = ''proxy_key'', session_id = None, agent_id = None, parent_agent_id = None, project_id = None,
     ev_client = None, key_id = ''team'', request_id = ''req'', trace_id = None, span_id = None,
     compound_request_id = None, compound_request_stage = None, compound_request_index = None,
     compound_request_size = None, compound_request_started_at_ms = None, provider = ''openai'',
     capability = ''llm.chat'', ev_model = Some ''m'', input_tokens = Some 10, output_tokens = Some 5,
     total_tokens = Some 15, cached_input_tokens = Some 7, cache_write_input_tokens = Some 4,
     reserved_cost_micros = 60, actual_cost_micros = 42, reserved_input_tokens = None,
     reserved_output_tokens = None, pricing_ref = None, pricing_effective_at = None,
     cost_basis = JStr ''unpriced_usage'', requested_service_tier = None, served_service_tier = None,
     status_code = Some 200, duration_ms = Some 3, content_retained = False, content_ref = None, ev_status = Success\<rparr>"

theorem reported_cost_is_evidence_witness:
  "rc_class (reporting_cost sample_event) = Partial \<and> rc_amount (reporting_cost sample_event) = Some 4 \<and>
   reporting_known_cost_micros sample_event = Some 4"
proof -
  have "rc_class (reporting_cost sample_event) = Partial" "rc_amount (reporting_cost sample_event) = Some 4"
    by (simp_all add: sample_event_def reporting_cost_def base_class_def canonical_class_def known_basis_classes_def
        partial_amount_def usage_counter_def safe_int_def max_safe_integer_def)
  with reported_cost_is_evidence [of sample_event] show ?thesis by simp
qed

text \<open>
  The personal projection never shows an allocation larger than its total: cache reads and writes
  are disjoint parts of the input tokens, and reasoning tokens are part of the output tokens.
\<close>

theorem projection_allocations_fit:
  "(\<forall>c. pu_cachedInputTokens (project_usage_event e) = Some c \<longrightarrow>
      (\<exists>i. pu_inputTokens (project_usage_event e) = Some i \<and>
         c + (case pu_cacheWriteInputTokens (project_usage_event e) of None \<Rightarrow> 0 | Some w \<Rightarrow> w) \<le> i)) \<and>
   (\<forall>r. pu_reasoningOutputTokens (project_usage_event e) = Some r \<longrightarrow>
      (\<exists>out. pu_outputTokens (project_usage_event e) = Some out \<and> 0 \<le> r \<and> r \<le> out))"
proof (intro conjI allI impI)
  fix c
  assume "pu_cachedInputTokens (project_usage_event e) = Some c"
  then show "\<exists>i. pu_inputTokens (project_usage_event e) = Some i \<and>
      c + (case pu_cacheWriteInputTokens (project_usage_event e) of None \<Rightarrow> 0 | Some w \<Rightarrow> w) \<le> i"
    by (auto simp: project_usage_event_def Let_def intro: cache_parts_fit split: if_splits)
next
  fix r
  assume "pu_reasoningOutputTokens (project_usage_event e) = Some r"
  then show "\<exists>out. pu_outputTokens (project_usage_event e) = Some out \<and> 0 \<le> r \<and> r \<le> out"
    by (auto simp: project_usage_event_def Let_def subset_counter_Some usage_counter_Some)
qed

theorem projection_allocations_fit_witness:
  "pu_cachedInputTokens (project_usage_event sample_event) = None \<and>
   (\<exists>out. pu_outputTokens (project_usage_event sample_event) = Some out \<and> 2 \<le> out)"
proof -
  have "pu_cachedInputTokens (project_usage_event sample_event) = None"
    "pu_reasoningOutputTokens (project_usage_event sample_event) = Some 2"
    by (simp_all add: sample_event_def project_usage_event_def Let_def cache_conflict_def subset_counter_def
        usage_counter_def safe_int_def max_safe_integer_def)
  with projection_allocations_fit [of sample_event] show ?thesis by auto
qed

end
