(* ===== verification/Usage_Ledger.thy ===== *)
theory Usage_Ledger
  imports Usage_Event
begin

section \<open>The usage ledger and its rollups\<close>

text \<open>
  \<open>UsageLedgerObject\<close> of \<open>worker/ledgers.ts\<close> with the rollup triggers of
  \<open>worker/usage-rollups.ts\<close> and the paired report rows of
  \<open>worker/usage-report-store.ts\<close>. Tables are lists in rowid order; a trigger is part of the
  statement that fires it. A rollup key keeps principals and credentials as options where the
  table keeps their JSON text (\<open>json_quote\<close> tells \<open>null\<close> from the empty string).
  A reading of the ledger after history without attribution columns goes through the \<open>pending\<close>
  range of the attribution migration.
\<close>

subsection \<open>Rows and progress\<close>

record usage_row =
  rowid :: int
  event_json :: usage_event
  principal_col :: "string option"
  principal_key :: "string option"
  credential_col :: "string option"
  basis_col :: "string option"
  principal_nontext :: bool

record progress =
  last_rowid :: int
  upper_rowid :: int
  complete :: bool

definition usage_day_ms :: int where
  "usage_day_ms = 86400000"

definition usage_retention_ms :: int where
  "usage_retention_ms = 30 * usage_day_ms"

definition pending :: "progress \<Rightarrow> int \<Rightarrow> bool" where
  "pending m i \<longleftrightarrow> \<not> complete m \<and> last_rowid m < i \<and> i \<le> upper_rowid m"

definition counted :: "progress \<Rightarrow> int \<Rightarrow> bool" where
  "counted m i \<longleftrightarrow> complete m \<or> i \<le> last_rowid m \<or> upper_rowid m < i"

text \<open>\<open>usageAttribution\<close>, as an update of the row's columns.\<close>

definition usage_attribution :: "usage_row \<Rightarrow> usage_row" where
  "usage_attribution r =
     (let e = event_json r; p = text_of (principal_id e)
      in r\<lparr>principal_col := p, principal_key := Option.bind p normalize_email,
           credential_col := text_of (credential_id e), basis_col := text_of (cost_basis e),
           principal_nontext := (principal_id e \<noteq> JNull \<and> p = None)\<rparr>)"

subsection \<open>Rollup keys and counters\<close>

record rollup_key =
  rk_policy :: string
  rk_day :: int
  rk_provider :: string
  rk_principal :: "string option"
  rk_credential :: "string option"
  rk_nontext :: bool

datatype counter = RequestCount | SuccessCount | ErrorCount | TotalTokens | ActualCost | UnpricedCount | InputTokens | OutputTokens

fun first_some :: "'a option list \<Rightarrow> 'a option" where
  "first_some [] = None"
| "first_some (Some x # xs) = Some x"
| "first_some (None # xs) = first_some xs"

definition key_values :: "progress \<Rightarrow> usage_row \<Rightarrow> rollup_key" where
  "key_values att r =
     (let e = event_json r; pend = pending att (rowid r)
      in \<lparr>rk_policy = policy_id e, rk_day = occurred_at_ms e div usage_day_ms * usage_day_ms, rk_provider = provider e,
          rk_principal = first_some [principal_key r, principal_col r, if pend then text_of (principal_id e) else None],
          rk_credential = first_some [credential_col r, if pend then text_of (credential_id e) else None],
          rk_nontext = (if pend then principal_id e \<noteq> JNull \<and> text_of (principal_id e) = None else principal_nontext r)\<rparr>)"

definition or_zero :: "int option \<Rightarrow> int" where
  "or_zero v = (case v of None \<Rightarrow> 0 | Some n \<Rightarrow> n)"

definition counter_values :: "progress \<Rightarrow> usage_row \<Rightarrow> counter \<Rightarrow> int" where
  "counter_values att r c =
     (let e = event_json r in
      case c of
        RequestCount \<Rightarrow> 1
      | SuccessCount \<Rightarrow> if ev_status e = Success then 1 else 0
      | ErrorCount \<Rightarrow> if ev_status e \<noteq> Success then 1 else 0
      | TotalTokens \<Rightarrow> or_zero (total_tokens e)
      | ActualCost \<Rightarrow> actual_cost_micros e
      | UnpricedCount \<Rightarrow> if (if pending att (rowid r) then text_of (cost_basis e) else basis_col r) = Some ''unpriced_usage'' then 1 else 0
      | InputTokens \<Rightarrow> or_zero (input_tokens e)
      | OutputTokens \<Rightarrow> or_zero (output_tokens e))"

type_synonym rollups = "(rollup_key \<times> (counter \<Rightarrow> int)) list"

definition add_rollup :: "rollup_key \<Rightarrow> (counter \<Rightarrow> int) \<Rightarrow> rollups \<Rightarrow> rollups" where
  "add_rollup k v t =
     (if k \<in> fst ` set t then update_where (\<lambda>e. fst e = k) (\<lambda>e. (fst e, \<lambda>c. snd e c + v c)) t
      else t @ [(k, v)])"

definition subtract_rollup :: "rollup_key \<Rightarrow> (counter \<Rightarrow> int) \<Rightarrow> rollups \<Rightarrow> rollups" where
  "subtract_rollup k v t = update_where (\<lambda>e. fst e = k) (\<lambda>e. (fst e, \<lambda>c. snd e c - v c)) t"

definition drop_empty :: "rollup_key \<Rightarrow> rollups \<Rightarrow> rollups" where
  "drop_empty k t = delete_where (\<lambda>e. fst e = k \<and> snd e RequestCount = 0) t"

definition rollup_insert :: "progress \<Rightarrow> progress \<Rightarrow> usage_row \<Rightarrow> rollups \<Rightarrow> rollups" where
  "rollup_insert att m r t =
     (if counted m (rowid r) then add_rollup (key_values att r) (counter_values att r) t else t)"

definition rollup_delete :: "progress \<Rightarrow> progress \<Rightarrow> usage_row \<Rightarrow> rollups \<Rightarrow> rollups" where
  "rollup_delete att m r t =
     drop_empty (key_values att r)
       (if counted m (rowid r) then subtract_rollup (key_values att r) (counter_values att r) t else t)"

subsection \<open>The ledger\<close>

record coverage =
  generation :: int
  verified_generation :: int
  round_generation :: int

record usage_ledger =
  usage_events :: "usage_row list"
  usage_report_events :: "personal_usage_event list"
  attribution :: progress
  rollup_migration :: progress
  usage_coverage :: coverage
  usage_rollups :: rollups

definition bump :: "coverage \<Rightarrow> coverage" where
  "bump c = c\<lparr>generation := generation c + 1\<rparr>"

definition next_rowid :: "usage_row list \<Rightarrow> int" where
  "next_rowid t = (if t = [] then 1 else rowid (last t) + 1)"

text \<open>Inserting, deleting and updating a canonical row, with the triggers of both projections.\<close>

definition insert_row :: "usage_row \<Rightarrow> usage_ledger \<Rightarrow> usage_ledger" where
  "insert_row r L = L\<lparr>usage_events := usage_events L @ [r],
     usage_rollups := rollup_insert (attribution L) (rollup_migration L) r (usage_rollups L),
     usage_coverage := bump (usage_coverage L)\<rparr>"

definition delete_row :: "usage_row \<Rightarrow> usage_ledger \<Rightarrow> usage_ledger" where
  "delete_row r L = L\<lparr>usage_events := delete_where (\<lambda>x. rowid x = rowid r) (usage_events L),
     usage_report_events := delete_where (\<lambda>x. pu_id x = ev_id (event_json r)) (usage_report_events L),
     usage_rollups := rollup_delete (attribution L) (rollup_migration L) r (usage_rollups L),
     usage_coverage := bump (usage_coverage L)\<rparr>"

definition update_row :: "usage_row \<Rightarrow> usage_ledger \<Rightarrow> usage_ledger" where
  "update_row r L = L\<lparr>usage_events := update_where (\<lambda>x. rowid x = rowid r) usage_attribution (usage_events L),
     usage_report_events := delete_where (\<lambda>x. pu_id x = ev_id (event_json r)) (usage_report_events L),
     usage_rollups := rollup_insert (attribution L) (rollup_migration L) (usage_attribution r)
       (rollup_delete (attribution L) (rollup_migration L) r (usage_rollups L)),
     usage_coverage := bump (usage_coverage L)\<rparr>"

definition with_usage_report_pair :: "(usage_ledger \<Rightarrow> usage_ledger) \<Rightarrow> usage_ledger \<Rightarrow> usage_ledger" where
  "with_usage_report_pair write L =
     (let g = generation (usage_coverage L); L' = write L; c = usage_coverage L'
      in L'\<lparr>usage_coverage := c\<lparr>
           verified_generation := (if verified_generation c = g then generation c else verified_generation c),
           round_generation := (if round_generation c = g then generation c else round_generation c)\<rparr>\<rparr>)"

definition cleanup :: "int \<Rightarrow> usage_ledger \<Rightarrow> usage_ledger" where
  "cleanup cutoff L = with_usage_report_pair (\<lambda>L0.
     (let old = filter (\<lambda>r. occurred_at_ms (event_json r) < cutoff) (usage_events L0);
          L1 = fold delete_row old L0
      in L1\<lparr>usage_report_events := delete_where (\<lambda>x. pu_occurredAt x < cutoff) (usage_report_events L1)\<rparr>)) L"

datatype ingest_outcome = Stored | Duplicate | ExpiredByRetention

text \<open>
  The event keeps its identifier's first payload. \<open>policy_id ||= key_id\<close> fills a missing policy.
  A report row left behind under the same identifier makes the transaction fail as a whole.
\<close>

definition ingest :: "usage_event \<Rightarrow> int \<Rightarrow> usage_ledger \<Rightarrow> ingest_outcome result \<times> usage_ledger" where
  "ingest event now L =
     (let cutoff = now - usage_retention_ms; L0 = cleanup cutoff L
      in if \<exists>r \<in> set (usage_events L0). ev_id (event_json r) = ev_id event then (Inr Duplicate, L0)
         else if occurred_at_ms event < cutoff then (Inr ExpiredByRetention, L0)
         else (let e = (if policy_id event = [] then event\<lparr>policy_id := key_id event\<rparr> else event);
                   row = usage_attribution \<lparr>rowid = next_rowid (usage_events L0), event_json = e, principal_col = None,
                     principal_key = None, credential_col = None, basis_col = None, principal_nontext = False\<rparr>
               in if \<exists>x \<in> set (usage_report_events L0). pu_id x = ev_id e
                  then (Inl (Thrown ''usage ledger did not confirm reporting projection''), L0)
                  else (Inr Stored, with_usage_report_pair (\<lambda>L1.
                    (insert_row row L1)\<lparr>usage_report_events := usage_report_events L1 @ [project_usage_event e]\<rparr>) L0)))"

definition ingest_request :: "usage_event \<Rightarrow> int \<Rightarrow> usage_ledger \<Rightarrow> ingest_outcome result \<times> usage_ledger" where
  "ingest_request event now L =
     (if ev_id event = [] \<or> \<not> safe_int (occurred_at_ms event) \<or> occurred_at_ms event < 0
      then (Inl (HttpError 400 ''invalid_usage_event''), L)
      else ingest event now L)"

subsection \<open>Migrations\<close>

definition usage_attribution_batch_size :: nat where
  "usage_attribution_batch_size = 250"

definition usage_rollup_batch_size :: nat where
  "usage_rollup_batch_size = 2000"

text \<open>The next rows of a migration, and where its watermark moves.\<close>

definition batch :: "nat \<Rightarrow> progress \<Rightarrow> usage_row list \<Rightarrow> usage_row list" where
  "batch n m t = take n (filter (\<lambda>r. last_rowid m < rowid r \<and> rowid r \<le> upper_rowid m) t)"

definition batch_last :: "progress \<Rightarrow> usage_row list \<Rightarrow> int" where
  "batch_last m b = (if b = [] then upper_rowid m else rowid (last b))"

definition backfill_attribution :: "usage_ledger \<Rightarrow> usage_ledger" where
  "backfill_attribution L =
     (let m = attribution L in
      if complete m then L
      else (let b = batch usage_attribution_batch_size m (usage_events L); lst = batch_last m b;
                fin = (length b < usage_attribution_batch_size \<or> lst = upper_rowid m);
                L1 = fold update_row b L
            in L1\<lparr>attribution := m\<lparr>last_rowid := lst, complete := fin\<rparr>\<rparr>))"

text \<open>The grouped insert of one batch: one sum per key.\<close>

definition batch_sums :: "progress \<Rightarrow> usage_row list \<Rightarrow> (rollup_key \<times> (counter \<Rightarrow> int)) list" where
  "batch_sums att b = map (\<lambda>k. (k, \<lambda>c. sum_where (\<lambda>r. key_values att r = k) (\<lambda>r. counter_values att r c) b))
     (remdups (map (key_values att) b))"

definition backfill_rollups :: "usage_ledger \<Rightarrow> usage_ledger" where
  "backfill_rollups L =
     (let m = rollup_migration L in
      if complete m then L
      else (let b = batch usage_rollup_batch_size m (usage_events L); lst = batch_last m b;
                covered = (length b < usage_rollup_batch_size \<or> lst = upper_rowid m)
            in L\<lparr>usage_rollups := fold (\<lambda>(k, v). add_rollup k v) (batch_sums (attribution L) b) (usage_rollups L),
                 rollup_migration := m\<lparr>last_rowid := lst, complete := (covered \<and> complete (attribution L))\<rparr>\<rparr>))"

definition usage_alarm :: "int \<Rightarrow> usage_ledger \<Rightarrow> usage_ledger" where
  "usage_alarm now L = backfill_rollups (backfill_attribution (cleanup (now - usage_retention_ms) L))"

text \<open>When the next alarm is due: half a second while a migration runs, else a day.\<close>

definition schedule_usage_alarm :: "int \<Rightarrow> int option \<Rightarrow> usage_ledger \<Rightarrow> int option" where
  "schedule_usage_alarm now alarm L =
     (let due = now + (if \<not> complete (rollup_migration L) \<or> \<not> complete (attribution L) then 500 else 86400000)
      in case alarm of None \<Rightarrow> Some due | Some a \<Rightarrow> if a > due then Some due else Some a)"

text \<open>The object's constructor on a table of earlier rows, none of them attributed or projected.\<close>

definition ensure_usage_schema :: "(int \<times> usage_event) list \<Rightarrow> usage_ledger" where
  "ensure_usage_schema legacy =
     (let t = map (\<lambda>(i, e). \<lparr>rowid = i, event_json = e, principal_col = None, principal_key = None,
            credential_col = None, basis_col = None, principal_nontext = False\<rparr>) legacy;
          m = \<lparr>last_rowid = 0, upper_rowid = (if t = [] then 0 else rowid (last t)), complete = (t = [])\<rparr>
      in \<lparr>usage_events = t, usage_report_events = [], attribution = m, rollup_migration = m,
          usage_coverage = \<lparr>generation = 0, verified_generation = (if t = [] then 0 else -1), round_generation = -1\<rparr>,
          usage_rollups = []\<rparr>)"

subsection \<open>Reading totals\<close>

text \<open>
  The summary over all events of the policies, from the events themselves and from the rollups;
  \<open>sel\<close> is the policy condition.
\<close>

definition event_total :: "(string \<Rightarrow> bool) \<Rightarrow> counter \<Rightarrow> usage_ledger \<Rightarrow> int" where
  "event_total sel c L = sum_where (\<lambda>r. sel (policy_id (event_json r))) (\<lambda>r. counter_values (attribution L) r c) (usage_events L)"

definition rollup_total :: "(string \<Rightarrow> bool) \<Rightarrow> counter \<Rightarrow> usage_ledger \<Rightarrow> int" where
  "rollup_total sel c L = sum_where (\<lambda>e. sel (rk_policy (fst e))) (\<lambda>e. snd e c) (usage_rollups L)"

subsection \<open>Tables of sums\<close>

text \<open>
  What the triggers rely on, for any key and any counters in which every row counts once as a
  request: a table of sums agrees with the rows that it covers.
\<close>

definition rolled :: "rollups \<Rightarrow> rollup_key \<Rightarrow> counter \<Rightarrow> int" where
  "rolled R k c = (case map_of R k of None \<Rightarrow> 0 | Some v \<Rightarrow> v c)"

lemma map_of_update_where:
  "map_of (update_where (\<lambda>e. fst e = k) (\<lambda>e. (fst e, g (snd e))) R) j =
     (if j = k then map_option g (map_of R j) else map_of R j)"
  by (induction R) (auto simp: update_where_def)

lemma rolled_add: "rolled (add_rollup k v R) j c = rolled R j c + (if j = k then v c else 0)"
proof (cases "k \<in> fst ` set R")
  case True
  then have "map_of R k \<noteq> None" by (simp add: map_of_eq_None_iff)
  with True show ?thesis
    by (auto simp: rolled_def add_rollup_def map_of_update_where [where g = "\<lambda>u c. u c + v c"])
next
  case False
  then have "map_of R k = None" by (simp add: map_of_eq_None_iff)
  with False show ?thesis by (auto simp: rolled_def add_rollup_def map_add_def split: option.splits)
qed

lemma keyed_add: "keyed fst R \<Longrightarrow> keyed fst (add_rollup k v R)"
  by (auto simp: add_rollup_def keyed_update_where keyed_append keyed_Cons)

lemma rolled_subtract: "rolled (subtract_rollup k v R) j c =
    (if j = k \<and> map_of R k \<noteq> None then rolled R j c - v c else rolled R j c)"
  by (auto simp: rolled_def subtract_rollup_def map_of_update_where [where g = "\<lambda>u c. u c - v c"])

lemma map_of_drop_empty: "keyed fst R \<Longrightarrow> map_of (drop_empty k R) j =
    (if j = k \<and> rolled R k RequestCount = 0 then None else map_of R j)"
proof (induction R)
  case (Cons e R)
  obtain i u where e: "e = (i, u)" by (cases e)
  have "map_of R i = None" using Cons.prems e by (simp add: keyed_Cons map_of_eq_None_iff)
  with Cons e show ?case by (auto simp: drop_empty_def delete_where_def keyed_Cons rolled_def split: if_splits)
qed (simp add: drop_empty_def delete_where_def)

lemma keyed_drop_empty: "keyed fst R \<Longrightarrow> keyed fst (drop_empty k R)"
  by (simp add: drop_empty_def keyed_delete_where)

lemma keyed_subtract: "keyed fst (subtract_rollup k v R) = keyed fst R"
  by (simp add: subtract_rollup_def keyed_update_where)

locale row_sums =
  fixes key :: "usage_row \<Rightarrow> rollup_key" and val :: "usage_row \<Rightarrow> counter \<Rightarrow> int"
  assumes counts_once: "val r RequestCount = 1"
begin

definition row_sum :: "(usage_row \<Rightarrow> bool) \<Rightarrow> usage_row list \<Rightarrow> rollup_key \<Rightarrow> counter \<Rightarrow> int" where
  "row_sum P t k c = sum_where (\<lambda>r. P r \<and> key r = k) (\<lambda>r. val r c) t"

definition agrees :: "(usage_row \<Rightarrow> bool) \<Rightarrow> usage_row list \<Rightarrow> rollups \<Rightarrow> bool" where
  "agrees P t R \<longleftrightarrow> keyed fst R \<and> (\<forall>k. map_of R k \<noteq> None \<longrightarrow> row_sum P t k RequestCount \<noteq> 0) \<and>
     (\<forall>k c. rolled R k c = row_sum P t k c)"

lemma row_sum_zero: "row_sum P t k RequestCount = 0 \<Longrightarrow> row_sum P t k c = 0"
proof -
  assume zero: "row_sum P t k RequestCount = 0"
  have "filter (\<lambda>r. P r \<and> key r = k) t = []"
  proof (rule ccontr)
    assume "filter (\<lambda>r. P r \<and> key r = k) t \<noteq> []"
    moreover have "row_sum P t k RequestCount = int (length (filter (\<lambda>r. P r \<and> key r = k) t))"
      unfolding row_sum_def sum_where_def by (induction t) (auto simp: counts_once)
    ultimately show False using zero by simp
  qed
  then show ?thesis by (simp add: row_sum_def sum_where_def)
qed

lemma row_sum_pos: "r \<in> set t \<Longrightarrow> P r \<Longrightarrow> 0 < row_sum P t (key r) RequestCount"
proof -
  assume "r \<in> set t" "P r"
  then have "val r RequestCount \<le> row_sum P t (key r) RequestCount"
    unfolding row_sum_def by (intro sum_where_member [where f = "\<lambda>r. val r RequestCount"]) (auto simp: counts_once)
  then show ?thesis by (simp add: counts_once)
qed

lemma agrees_cong: "agrees P t R \<Longrightarrow> (\<And>k c. row_sum P t k c = row_sum Q u k c) \<Longrightarrow> agrees Q u R"
  by (simp add: agrees_def)

lemma agrees_present: "agrees P t R \<Longrightarrow> r \<in> set t \<Longrightarrow> P r \<Longrightarrow> map_of R (key r) \<noteq> None"
proof
  assume "agrees P t R" "r \<in> set t" "P r" "map_of R (key r) = None"
  then have "row_sum P t (key r) RequestCount = 0"
    by (auto simp: agrees_def rolled_def dest: spec [of _ "key r"])
  with row_sum_pos [of r t P] \<open>r \<in> set t\<close> \<open>P r\<close> show False by simp
qed

lemma agrees_insert:
  assumes "agrees P t R"
  shows "agrees P (t @ [r]) (if P r then add_rollup (key r) (val r) R else R)"
proof (cases "P r")
  case True
  have rolled: "rolled (add_rollup (key r) (val r) R) k c = row_sum P (t @ [r]) k c" for k c
    using assms True by (simp add: rolled_add agrees_def row_sum_def sum_where_append sum_where_Cons)
  have "row_sum P (t @ [r]) k RequestCount \<noteq> 0"
    if "map_of (add_rollup (key r) (val r) R) k \<noteq> None" for k
  proof (cases "k = key r")
    case True
    with row_sum_pos [of r "t @ [r]" P] \<open>P r\<close> show ?thesis by simp
  next
    case False
    with that have "map_of R k \<noteq> None"
      by (auto simp: add_rollup_def map_of_update_where [where g = "\<lambda>u c. u c + val r c"] map_add_def split: if_splits)
    with False assms show ?thesis by (simp add: row_sum_def sum_where_append sum_where_Cons agrees_def)
  qed
  with rolled assms True show ?thesis by (simp add: agrees_def keyed_add)
next
  case False
  with assms show ?thesis by (simp add: agrees_def row_sum_def sum_where_append sum_where_Cons)
qed

lemma agrees_delete:
  assumes "agrees P t R" and "r \<in> set t" and "\<And>k c. row_sum P u k c = row_sum P t k c - (if P r \<and> k = key r then val r c else 0)"
  shows "agrees P u (drop_empty (key r) (if P r then subtract_rollup (key r) (val r) R else R))"
proof -
  let ?S = "if P r then subtract_rollup (key r) (val r) R else R"
  have keyed: "keyed fst ?S" using assms(1) by (simp add: agrees_def keyed_subtract)
  have S: "rolled ?S k c = row_sum P u k c" for k c
    using assms(1,3) agrees_present [OF assms(1,2)] by (auto simp: rolled_subtract agrees_def)
  have D: "map_of (drop_empty (key r) ?S) k = (if k = key r \<and> row_sum P u (key r) RequestCount = 0 then None else map_of ?S k)" for k
    by (simp add: map_of_drop_empty [OF keyed] S)
  have "rolled (drop_empty (key r) ?S) k c = row_sum P u k c" for k c
    using S [of k c] row_sum_zero [of P u "key r" c] by (auto simp: rolled_def D)
  moreover have "row_sum P u k RequestCount \<noteq> 0" if "map_of (drop_empty (key r) ?S) k \<noteq> None" for k
  proof (cases "k = key r")
    case True
    with that show ?thesis by (auto simp: D)
  next
    case False
    with that have "map_of R k \<noteq> None"
      by (auto simp: D subtract_rollup_def map_of_update_where [where g = "\<lambda>u c. u c - val r c"] split: if_splits)
    with False assms(1) assms(3) [of k RequestCount] show ?thesis by (auto simp: agrees_def)
  qed
  ultimately show ?thesis by (simp add: agrees_def keyed_drop_empty [OF keyed])
qed

text \<open>Adding the grouped sums of a batch makes the table cover the batch as well.\<close>

lemma fold_add_groups:
  assumes "distinct ks"
  shows "rolled (fold (\<lambda>(k, v). add_rollup k v) (map (\<lambda>k. (k, f k)) ks) R) j c =
      rolled R j c + (if j \<in> set ks then f j c else 0)"
    and "map_of (fold (\<lambda>(k, v). add_rollup k v) (map (\<lambda>k. (k, f k)) ks) R) j \<noteq> None \<longleftrightarrow>
      map_of R j \<noteq> None \<or> j \<in> set ks"
    and "keyed fst R \<Longrightarrow> keyed fst (fold (\<lambda>(k, v). add_rollup k v) (map (\<lambda>k. (k, f k)) ks) R)"
proof -
  have some: "map_of (add_rollup k v S) j \<noteq> None \<longleftrightarrow> map_of S j \<noteq> None \<or> j = k" for k v S
    by (cases "map_of S k")
      (auto simp: add_rollup_def map_of_update_where [where g = "\<lambda>u c. u c + v c"] map_add_def
        simp flip: map_of_eq_None_iff split: option.splits)
  show "rolled (fold (\<lambda>(k, v). add_rollup k v) (map (\<lambda>k. (k, f k)) ks) R) j c =
      rolled R j c + (if j \<in> set ks then f j c else 0)"
    using assms by (induction ks arbitrary: R) (auto simp: rolled_add)
  show "map_of (fold (\<lambda>(k, v). add_rollup k v) (map (\<lambda>k. (k, f k)) ks) R) j \<noteq> None \<longleftrightarrow>
      map_of R j \<noteq> None \<or> j \<in> set ks"
  proof (induction ks arbitrary: R)
    case (Cons k ks)
    show ?case using Cons [of "add_rollup k (f k) R"] some [of k "f k" R] by auto
  qed simp
  show "keyed fst R \<Longrightarrow> keyed fst (fold (\<lambda>(k, v). add_rollup k v) (map (\<lambda>k. (k, f k)) ks) R)"
    by (induction ks arbitrary: R) (auto simp: keyed_add)
qed

lemma agrees_group:
  assumes "agrees P t R" and "\<And>k c. row_sum Q t k c = row_sum P t k c + row_sum (\<lambda>_. True) b k c"
  shows "agrees Q t (fold (\<lambda>(k, v). add_rollup k v)
    (map (\<lambda>k. (k, \<lambda>c. sum_where (\<lambda>r. key r = k) (\<lambda>r. val r c) b)) (remdups (map key b))) R)"
proof -
  have absent: "row_sum (\<lambda>_. True) b j c = 0" if "j \<notin> key ` set b" for j c
  proof -
    have none: "filter (\<lambda>r. key r = j) b = []" using that by (auto simp: filter_empty_conv)
    show ?thesis by (simp add: row_sum_def sum_where_def none)
  qed
  have nonneg: "0 \<le> row_sum P' u k RequestCount" for P' u k
    by (auto simp: row_sum_def counts_once intro: sum_where_nonneg)
  have "row_sum Q t k RequestCount \<noteq> 0" if "map_of R k \<noteq> None \<or> k \<in> key ` set b" for k
    using that
  proof
    assume "map_of R k \<noteq> None"
    then have "row_sum P t k RequestCount \<noteq> 0" using assms(1) by (simp add: agrees_def)
    with nonneg [of P t k] nonneg [of "\<lambda>_. True" b k] show ?thesis by (simp add: assms(2))
  next
    assume "k \<in> key ` set b"
    then obtain r where "r \<in> set b" "k = key r" by blast
    with row_sum_pos [of r b "\<lambda>_. True"] nonneg [of P t k] show ?thesis by (simp add: assms(2))
  qed
  moreover have "rolled R j c + (if j \<in> key ` set b then sum_where (\<lambda>r. key r = j) (\<lambda>r. val r c) b else 0) =
      row_sum Q t j c" for j c
    using assms(1) absent [of j c] by (simp add: agrees_def assms(2)) (simp add: row_sum_def)
  ultimately show ?thesis
    using assms(1)
    by (simp add: agrees_def fold_add_groups [OF distinct_remdups] del: not_None_eq)
qed

text \<open>Summing the table over a selection of keys is summing the rows with those keys.\<close>

lemma sums_over_keys:
  "finite K \<Longrightarrow> (\<Sum>k \<in> K. row_sum P t k c) = sum_where (\<lambda>r. P r \<and> key r \<in> K) (\<lambda>r. val r c) t"
proof (induction t)
  case (Cons r t)
  have "(\<Sum>k \<in> K. if P r \<and> key r = k then val r c else 0) = (if P r \<and> key r \<in> K then val r c else 0)"
    using Cons.prems by (cases "P r") (auto simp: sum.delta)
  with Cons show ?case by (simp add: row_sum_def sum_where_Cons sum.distrib)
qed (simp add: row_sum_def)

lemma total_agrees:
  assumes "agrees P t R"
  shows "sum_where (\<lambda>e. sel (fst e)) (\<lambda>e. snd e c) R = sum_where (\<lambda>r. P r \<and> sel (key r)) (\<lambda>r. val r c) t"
proof -
  let ?K = "{k \<in> fst ` set R. sel k}"
  have keyed: "keyed fst R" using assms by (simp add: agrees_def)
  have "sum_where (\<lambda>e. sel (fst e)) (\<lambda>e. snd e c) S = (\<Sum>k \<in> {k \<in> fst ` set S. sel k}. rolled S k c)"
    if "keyed fst S" for S
    using that
  proof (induction S)
    case (Cons e S)
    obtain i u where e: "e = (i, u)" by (cases e)
    have new: "i \<notin> fst ` set S" using Cons.prems e by (simp add: keyed_Cons)
    then have same: "rolled (e # S) k c = rolled S k c" if "k \<in> {k \<in> fst ` set S. sel k}" for k
      using that e by (auto simp: rolled_def)
    have "{k \<in> fst ` set (e # S). sel k} =
        (if sel i then insert i {k \<in> fst ` set S. sel k} else {k \<in> fst ` set S. sel k})"
      using e by auto
    with Cons same new e show ?case
      by (simp add: sum_where_Cons keyed_Cons rolled_def)
  qed simp
  from this [OF keyed] have "sum_where (\<lambda>e. sel (fst e)) (\<lambda>e. snd e c) R = (\<Sum>k \<in> ?K. row_sum P t k c)"
    using assms by (simp add: agrees_def)
  also have "\<dots> = sum_where (\<lambda>r. P r \<and> key r \<in> ?K) (\<lambda>r. val r c) t"
    by (rule sums_over_keys) simp
  also have "\<dots> = sum_where (\<lambda>r. P r \<and> sel (key r)) (\<lambda>r. val r c) t"
  proof -
    have "key r \<in> fst ` set R" if "r \<in> set t" "P r" for r
      using agrees_present [OF assms that] by (metis map_of_eq_None_iff)
    then show ?thesis unfolding sum_where_def by (intro arg_cong [where f = sum_list] arg_cong [where f = "map _"] filter_cong) auto
  qed
  finally show ?thesis .
qed

end

interpretation agg: row_sums "key_values att" "counter_values att" for att
  by unfold_locales (simp add: counter_values_def)

subsection \<open>The rollups agree with the events\<close>

definition in_order :: "usage_row list \<Rightarrow> bool" where
  "in_order t \<longleftrightarrow> sorted_wrt (<) (map rowid t)"

definition rollups_ok :: "usage_ledger \<Rightarrow> bool" where
  "rollups_ok L \<longleftrightarrow> in_order (usage_events L) \<and>
     row_sums.agrees (key_values (attribution L)) (counter_values (attribution L))
       (\<lambda>r. counted (rollup_migration L) (rowid r)) (usage_events L) (usage_rollups L)"

lemma in_order_rowid: "in_order t \<Longrightarrow> r \<in> set t \<Longrightarrow> x \<in> set t \<Longrightarrow> rowid x = rowid r \<longleftrightarrow> x = r"
  unfolding in_order_def by (induction t) (auto simp: order_less_imp_not_eq2)

lemma in_order_append: "in_order (t @ u) \<longleftrightarrow> in_order t \<and> in_order u \<and> (\<forall>x \<in> set t. \<forall>y \<in> set u. rowid x < rowid y)"
  by (auto simp: in_order_def sorted_wrt_append)

lemma in_order_filter: "in_order t \<Longrightarrow> in_order (filter p t)"
  unfolding in_order_def by (induction t) auto

lemma next_rowid_above: "in_order t \<Longrightarrow> x \<in> set t \<Longrightarrow> rowid x < next_rowid t"
proof (cases t rule: rev_cases)
  case (snoc ys y)
  assume "in_order t" "x \<in> set t"
  with snoc show ?thesis by (auto simp: next_rowid_def in_order_append)
qed simp

lemma sum_where_remove:
  assumes "in_order t" and "r \<in> set t"
  shows "sum_where p f t = sum_where p f (delete_where (\<lambda>x. rowid x = rowid r) t) + (if p r then f r else (0::int))"
  using assms
proof (induction t)
  case (Cons y t)
  then have y: "rowid y < rowid x" if "x \<in> set t" for x using that by (auto simp: in_order_def)
  show ?case
  proof (cases "y = r")
    case True
    then have "delete_where (\<lambda>x. rowid x = rowid r) t = t"
      using y by (fastforce simp: delete_where_def filter_id_conv)
    with True show ?thesis by (simp add: sum_where_Cons delete_where_def)
  next
    case False
    with Cons.prems have "r \<in> set t" "in_order t" by (auto simp: in_order_def)
    moreover from this y have "rowid y \<noteq> rowid r" by fastforce
    ultimately show ?thesis using Cons.IH by (simp add: sum_where_Cons delete_where_def)
  qed
qed simp

lemma rollups_ok_insert:
  assumes "rollups_ok L" and "rowid r = next_rowid (usage_events L)"
  shows "rollups_ok (insert_row r L)"
  using assms agg.agrees_insert [of "attribution L" "\<lambda>r. counted (rollup_migration L) (rowid r)" "usage_events L" "usage_rollups L" r]
    in_order_append [of "usage_events L" "[r]"] next_rowid_above [of "usage_events L"]
  by (auto simp: rollups_ok_def insert_row_def rollup_insert_def in_order_def [of "[r]"] split: if_splits)

lemma rollups_ok_delete:
  assumes "rollups_ok L" and "r \<in> set (usage_events L)"
  shows "rollups_ok (delete_row r L)"
proof -
  let ?t = "usage_events L" and ?P = "\<lambda>r. counted (rollup_migration L) (rowid r)"
  have ord: "in_order ?t" using assms(1) by (simp add: rollups_ok_def)
  have "row_sums.agrees (key_values (attribution L)) (counter_values (attribution L)) ?P
      (delete_where (\<lambda>x. rowid x = rowid r) ?t) (rollup_delete (attribution L) (rollup_migration L) r (usage_rollups L))"
    unfolding rollup_delete_def
    by (rule agg.agrees_delete [of _ ?P ?t]) (use assms sum_where_remove [OF ord assms(2)] in
      \<open>simp_all add: rollups_ok_def agg.row_sum_def\<close>)
  with ord show ?thesis by (simp add: rollups_ok_def delete_row_def delete_where_def in_order_filter)
qed

lemma attribution_rowid [simp]: "rowid (usage_attribution r) = rowid r" "event_json (usage_attribution r) = event_json r"
  by (simp_all add: usage_attribution_def Let_def)

lemma sum_where_update_row:
  assumes "in_order t" and "r \<in> set t"
  shows "sum_where p f (update_where (\<lambda>x. rowid x = rowid r) usage_attribution t) =
    sum_where p f (delete_where (\<lambda>x. rowid x = rowid r) t @ [usage_attribution r])"
proof -
  have keyed: "keyed rowid t" using assms(1) unfolding keyed_def in_order_def
    by (simp add: strict_sorted_iff)
  have "row_at rowid (rowid r) t = Some r" using keyed assms(2) by (rule row_at_member)
  from sum_where_update_key [OF keyed this, of p f usage_attribution] sum_where_remove [OF assms, of p f]
  show ?thesis by (simp add: sum_where_append sum_where_Cons)
qed

lemma in_order_update: "in_order (update_where p usage_attribution t) = in_order t"
proof -
  have "map rowid (update_where p usage_attribution t) = map rowid t" by (simp add: update_where_def)
  then show ?thesis by (simp add: in_order_def)
qed

lemma rollups_ok_update:
  assumes "rollups_ok L" and "r \<in> set (usage_events L)"
  shows "rollups_ok (update_row r L)"
proof -
  let ?P = "\<lambda>r. counted (rollup_migration L) (rowid r)"
  let ?u = "delete_where (\<lambda>x. rowid x = rowid r) (usage_events L)"
  have ord: "in_order (usage_events L)" using assms(1) by (simp add: rollups_ok_def)
  have "row_sums.agrees (key_values (attribution L)) (counter_values (attribution L)) ?P ?u
      (rollup_delete (attribution L) (rollup_migration L) r (usage_rollups L))"
    using rollups_ok_delete [OF assms] by (simp add: rollups_ok_def delete_row_def)
  from agg.agrees_insert [OF this, of "usage_attribution r"]
  have "row_sums.agrees (key_values (attribution L)) (counter_values (attribution L)) ?P
      (update_where (\<lambda>x. rowid x = rowid r) usage_attribution (usage_events L))
      (rollup_insert (attribution L) (rollup_migration L) (usage_attribution r)
        (rollup_delete (attribution L) (rollup_migration L) r (usage_rollups L)))"
    unfolding rollup_insert_def
    by (rule agg.agrees_cong) (simp add: agg.row_sum_def sum_where_update_row [OF ord assms(2)])
  with ord show ?thesis by (simp add: rollups_ok_def update_row_def in_order_update)
qed

lemma delete_row_simps [simp]:
  "usage_events (delete_row r L) = delete_where (\<lambda>x. rowid x = rowid r) (usage_events L)"
  "attribution (delete_row r L) = attribution L" "rollup_migration (delete_row r L) = rollup_migration L"
  by (simp_all add: delete_row_def)

lemma update_row_simps [simp]:
  "usage_events (update_row r L) = update_where (\<lambda>x. rowid x = rowid r) usage_attribution (usage_events L)"
  "attribution (update_row r L) = attribution L" "rollup_migration (update_row r L) = rollup_migration L"
  by (simp_all add: update_row_def)

lemma fold_delete:
  assumes "rollups_ok L" and "set old \<subseteq> set (usage_events L)" and "distinct (map rowid old)"
  shows "rollups_ok (fold delete_row old L) \<and>
    usage_events (fold delete_row old L) = filter (\<lambda>x. rowid x \<notin> rowid ` set old) (usage_events L) \<and>
    attribution (fold delete_row old L) = attribution L \<and> rollup_migration (fold delete_row old L) = rollup_migration L"
  using assms
proof (induction old arbitrary: L)
  case (Cons r old)
  have "set old \<subseteq> set (usage_events (delete_row r L))"
    using Cons.prems(2,3) by (auto simp: delete_where_def image_iff)
  with Cons.IH [of "delete_row r L"] Cons.prems rollups_ok_delete [of L r] show ?case
    by (auto simp: delete_where_def intro: filter_cong)
qed simp

lemma fold_update:
  assumes "rollups_ok L" and "set b \<subseteq> set (usage_events L)" and "distinct (map rowid b)"
  shows "rollups_ok (fold update_row b L) \<and>
    usage_events (fold update_row b L) = update_where (\<lambda>x. rowid x \<in> rowid ` set b) usage_attribution (usage_events L) \<and>
    attribution (fold update_row b L) = attribution L \<and> rollup_migration (fold update_row b L) = rollup_migration L"
  using assms
proof (induction b arbitrary: L)
  case (Cons r b)
  have "set b \<subseteq> set (usage_events (update_row r L))"
    using Cons.prems(2,3) by (force simp: update_where_def image_iff)
  with Cons.IH [of "update_row r L"] Cons.prems rollups_ok_update [of L r] show ?case
    by (auto simp: update_where_def)
qed (simp add: update_where_def)

lemma with_pair_simps [simp]:
  "usage_events (with_usage_report_pair w L) = usage_events (w L)"
  "attribution (with_usage_report_pair w L) = attribution (w L)"
  "rollup_migration (with_usage_report_pair w L) = rollup_migration (w L)"
  "usage_rollups (with_usage_report_pair w L) = usage_rollups (w L)"
  "usage_report_events (with_usage_report_pair w L) = usage_report_events (w L)"
  by (simp_all add: with_usage_report_pair_def Let_def)

lemma distinct_rowid: "in_order t \<Longrightarrow> distinct (map rowid t)"
  by (simp add: in_order_def strict_sorted_iff)

lemma cleanup_facts:
  assumes "rollups_ok L"
  shows "rollups_ok (cleanup cutoff L)"
    and "usage_events (cleanup cutoff L) = filter (\<lambda>r. \<not> occurred_at_ms (event_json r) < cutoff) (usage_events L)"
    and "attribution (cleanup cutoff L) = attribution L" and "rollup_migration (cleanup cutoff L) = rollup_migration L"
proof -
  let ?old = "filter (\<lambda>r. occurred_at_ms (event_json r) < cutoff) (usage_events L)"
  have ord: "in_order (usage_events L)" using assms by (simp add: rollups_ok_def)
  note del = fold_delete [OF assms, of ?old]
  have d: "distinct (map rowid ?old)" using ord in_order_filter distinct_rowid by blast
  have "filter (\<lambda>x. rowid x \<notin> rowid ` set ?old) (usage_events L) =
      filter (\<lambda>r. \<not> occurred_at_ms (event_json r) < cutoff) (usage_events L)"
    using in_order_rowid [OF ord] by (intro filter_cong) (auto simp: image_iff)
  with del d show "rollups_ok (cleanup cutoff L)"
    and "usage_events (cleanup cutoff L) = filter (\<lambda>r. \<not> occurred_at_ms (event_json r) < cutoff) (usage_events L)"
    and "attribution (cleanup cutoff L) = attribution L" and "rollup_migration (cleanup cutoff L) = rollup_migration L"
    by (auto simp: cleanup_def Let_def rollups_ok_def)
qed

text \<open>A batch holds the next rows of its range; when it is not full it holds all of them.\<close>

lemma batch_subset: "r \<in> set (batch n m t) \<Longrightarrow> r \<in> set t \<and> last_rowid m < rowid r \<and> rowid r \<le> upper_rowid m"
  by (auto simp: batch_def dest: in_set_takeD)

lemma batch_in_order: "in_order t \<Longrightarrow> in_order (batch n m t)"
  using in_order_filter [of t] in_order_append
  by (metis append_take_drop_id batch_def)

lemma batch_up_to_last:
  assumes "in_order t" and "r \<in> set (batch n m t)"
  shows "rowid r \<le> batch_last m (batch n m t)"
proof (cases "batch n m t" rule: rev_cases)
  case (snoc ys y)
  with assms batch_in_order [OF assms(1), of n m] show ?thesis by (auto simp: batch_last_def in_order_append)
qed (use assms in simp)

lemma batch_covers:
  assumes "in_order t" and "r \<in> set t" and "last_rowid m < rowid r" and "rowid r \<le> upper_rowid m"
  shows "r \<in> set (batch n m t) \<or> length (batch n m t) = n \<and> (0 < n \<longrightarrow> batch_last m (batch n m t) < rowid r)"
proof (cases "r \<in> set (batch n m t)")
  case False
  define F where "F = filter (\<lambda>r. last_rowid m < rowid r \<and> rowid r \<le> upper_rowid m) t"
  have b: "batch n m t = take n F" by (simp add: batch_def F_def)
  have "r \<in> set F" using assms by (simp add: F_def)
  then have "r \<in> set (take n F) \<or> r \<in> set (drop n F)" by (metis Un_iff append_take_drop_id set_append)
  with False b have r: "r \<in> set (drop n F)" by simp
  then have len: "length (take n F) = n" by (cases "n \<le> length F") auto
  have "in_order (take n F @ drop n F)" using assms(1) by (simp add: F_def in_order_filter)
  with r have "\<forall>x \<in> set (take n F). rowid x < rowid r" unfolding in_order_append by blast
  moreover have "0 < n \<Longrightarrow> last (take n F) \<in> set (take n F)" using len
    by (intro last_in_set) auto
  ultimately show ?thesis using len by (auto simp: b batch_last_def)
qed simp

lemma batch_last_bounds:
  "last_rowid m \<le> batch_last m (batch n m t) \<or> upper_rowid m = batch_last m (batch n m t)"
proof (cases "batch n m t = []")
  case False
  with batch_subset [OF last_in_set [OF False]] show ?thesis by (simp add: batch_last_def)
qed (simp add: batch_last_def)

lemma batch_filter: "in_order t \<Longrightarrow> filter (\<lambda>r. r \<in> set (batch n m t)) t = batch n m t"
proof -
  assume ord: "in_order t"
  define F where "F = filter (\<lambda>r. last_rowid m < rowid r \<and> rowid r \<le> upper_rowid m) t"
  have b: "batch n m t = take n F" by (simp add: batch_def F_def)
  have "distinct (map rowid F)" using ord by (simp add: F_def in_order_filter distinct_rowid)
  then have "set (take n F) \<inter> set (drop n F) = {}" by (simp add: distinct_map set_take_disj_set_drop_if_distinct)
  then have "filter (\<lambda>r. r \<in> set (take n F)) (take n F @ drop n F) = take n F"
    by (simp only: filter_append) (auto simp: filter_empty_conv)
  moreover have "filter (\<lambda>r. r \<in> set (take n F)) t = filter (\<lambda>r. r \<in> set (take n F)) F"
    unfolding F_def by (auto intro!: filter_cong dest: in_set_takeD)
  ultimately show ?thesis by (simp add: b)
qed

text \<open>An attributed row has the same key and counters whether or not it counts as pending.\<close>

lemma attributed_stable:
  "key_values att (usage_attribution r) = key_values att' (usage_attribution r)"
  "counter_values att (usage_attribution r) = counter_values att' (usage_attribution r)"
  by (cases "text_of (principal_id (event_json r))"; cases "text_of (credential_id (event_json r))";
      cases "Option.bind (text_of (principal_id (event_json r))) normalize_email";
      simp add: key_values_def usage_attribution_def Let_def)
    (rule ext; simp add: counter_values_def usage_attribution_def Let_def split: counter.splits)

lemma same_pending:
  "pending att (rowid r) = pending att' (rowid r) \<Longrightarrow>
     key_values att r = key_values att' r \<and> counter_values att r = counter_values att' r"
  by (auto simp: key_values_def counter_values_def Let_def split: counter.splits)

lemma rollups_ok_attribution:
  assumes "rollups_ok L"
    and "\<And>r. r \<in> set (usage_events L) \<Longrightarrow>
      key_values att r = key_values (attribution L) r \<and> counter_values att r = counter_values (attribution L) r"
  shows "rollups_ok (L\<lparr>attribution := att\<rparr>)"
proof -
  have "row_sums.row_sum (key_values att) (counter_values att) P t k c =
      row_sums.row_sum (key_values (attribution L)) (counter_values (attribution L)) P t k c"
    if "set t \<subseteq> set (usage_events L)" for P t k c
    using that assms(2) by (induction t) (auto simp: agg.row_sum_def sum_where_Cons)
  with assms(1) show ?thesis by (simp add: rollups_ok_def agg.agrees_def)
qed

text \<open>Moving a watermark over a batch, as arithmetic on one row identifier.\<close>

lemma pending_step:
  assumes "\<not> complete m" and "last_rowid m < i \<Longrightarrow> i \<le> upper_rowid m \<Longrightarrow> n = (N::nat) \<and> w < i"
    and "last_rowid m \<le> w \<or> upper_rowid m = w"
  shows "pending (m\<lparr>last_rowid := w, complete := (n < N \<or> w = upper_rowid m)\<rparr>) i = pending m i"
  using assms by (cases "last_rowid m < i"; cases "i \<le> upper_rowid m") (auto simp: pending_def)

lemma counted_step:
  assumes "\<not> complete m" and "inb \<Longrightarrow> last_rowid m < i \<and> i \<le> upper_rowid m \<and> i \<le> w"
    and "\<not> inb \<Longrightarrow> last_rowid m < i \<Longrightarrow> i \<le> upper_rowid m \<Longrightarrow> n = (N::nat) \<and> w < i"
    and "last_rowid m \<le> w \<or> upper_rowid m = w"
  shows "counted (m\<lparr>last_rowid := w, complete := ((n < N \<or> w = upper_rowid m) \<and> A)\<rparr>) i = (counted m i \<or> inb) \<and>
    \<not> (counted m i \<and> inb)"
  using assms by (cases inb; cases "last_rowid m < i"; cases "i \<le> upper_rowid m") (auto simp: counted_def)

lemma rollups_ok_backfill_attribution:
  assumes "rollups_ok L"
  shows "rollups_ok (backfill_attribution L)"
proof (cases "complete (attribution L)")
  case False
  let ?m = "attribution L" and ?t = "usage_events L"
  define b where "b = batch usage_attribution_batch_size ?m ?t"
  have ord: "in_order ?t" using assms by (simp add: rollups_ok_def)
  have sub: "set b \<subseteq> set ?t" using batch_subset by (auto simp: b_def)
  have "distinct (map rowid b)" using ord by (simp add: b_def batch_in_order distinct_rowid)
  note f = fold_update [OF assms sub this]
  define att where "att = ?m\<lparr>last_rowid := batch_last ?m b,
    complete := (length b < usage_attribution_batch_size \<or> batch_last ?m b = upper_rowid ?m)\<rparr>"
  have "key_values att r = key_values ?m r \<and> counter_values att r = counter_values ?m r"
    if "r \<in> set (usage_events (fold update_row b L))" for r
  proof -
    from that f obtain x where x: "x \<in> set ?t" "r = (if rowid x \<in> rowid ` set b then usage_attribution x else x)"
      by (auto simp: update_where_def)
    show ?thesis
    proof (cases "rowid x \<in> rowid ` set b")
      case True
      with x attributed_stable show ?thesis by simp
    next
      case False
      then have notin: "x \<notin> set b" by auto
      have lo: "last_rowid ?m \<le> batch_last ?m b \<or> upper_rowid ?m = batch_last ?m b"
        unfolding b_def by (rule batch_last_bounds)
      have "pending att (rowid x) = pending ?m (rowid x)"
        using batch_covers [OF ord x(1), of ?m usage_attribution_batch_size] notin \<open>\<not> complete ?m\<close> lo
        unfolding att_def b_def usage_attribution_batch_size_def by (intro pending_step) auto
      with same_pending [of att x ?m] x(2) False show ?thesis by simp
    qed
  qed
  with f rollups_ok_attribution [of "fold update_row b L" att] False show ?thesis
    by (simp add: backfill_attribution_def Let_def att_def b_def)
qed (simp add: backfill_attribution_def assms)

lemma rollups_ok_backfill_rollups:
  assumes "rollups_ok L"
  shows "rollups_ok (backfill_rollups L)"
proof (cases "complete (rollup_migration L)")
  case False
  let ?m = "rollup_migration L" and ?t = "usage_events L" and ?key = "key_values (attribution L)"
  define b where "b = batch usage_rollup_batch_size ?m ?t"
  define m' where "m' = ?m\<lparr>last_rowid := batch_last ?m b, complete :=
    ((length b < usage_rollup_batch_size \<or> batch_last ?m b = upper_rowid ?m) \<and> complete (attribution L))\<rparr>"
  have ord: "in_order ?t" using assms by (simp add: rollups_ok_def)
  have "counted m' (rowid r) = (counted ?m (rowid r) \<or> r \<in> set b) \<and> \<not> (counted ?m (rowid r) \<and> r \<in> set b)"
    if r: "r \<in> set ?t" for r
  proof -
    have lo: "last_rowid ?m \<le> batch_last ?m b \<or> upper_rowid ?m = batch_last ?m b"
      unfolding b_def by (rule batch_last_bounds)
    show ?thesis
      using batch_covers [OF ord r, of ?m usage_rollup_batch_size] batch_subset [of r usage_rollup_batch_size ?m ?t]
        batch_up_to_last [OF ord, of r usage_rollup_batch_size ?m] lo False
      unfolding m'_def b_def usage_rollup_batch_size_def by (intro counted_step) auto
  qed
  note split = this
  have bt: "filter (\<lambda>r. r \<in> set b) ?t = b" unfolding b_def by (rule batch_filter [OF ord])
  have "row_sums.row_sum ?key (counter_values (attribution L)) (\<lambda>r. counted m' (rowid r)) ?t k c =
      row_sums.row_sum ?key (counter_values (attribution L)) (\<lambda>r. counted ?m (rowid r)) ?t k c +
      row_sums.row_sum ?key (counter_values (attribution L)) (\<lambda>_. True) b k c" for k c
  proof -
    have "sum_where (\<lambda>r. counted m' (rowid r) \<and> ?key r = k) f u =
        sum_where (\<lambda>r. counted ?m (rowid r) \<and> ?key r = k) f u + sum_where (\<lambda>r. ?key r = k) f (filter (\<lambda>r. r \<in> set b) u)"
      if "set u \<subseteq> set ?t" for u and f :: "usage_row \<Rightarrow> int"
      using that split by (induction u) (auto simp: sum_where_Cons)
    from this [of ?t] bt show ?thesis by (simp add: agg.row_sum_def)
  qed
  from agg.agrees_group [OF _ this] assms False ord show ?thesis
    by (simp add: rollups_ok_def backfill_rollups_def Let_def m'_def b_def batch_sums_def)
qed (simp add: backfill_rollups_def assms)

subsection \<open>Reachable ledgers\<close>

text \<open>
  Everything that happens to a ledger: it opens on earlier rows, ingests, is cleaned up, runs its
  alarm or a read's backfill, and is written by an earlier deployment, which fills no
  columns the current one relies on and no report row.
\<close>

inductive usage_reachable :: "usage_ledger \<Rightarrow> bool" where
  opened: "sorted_wrt (<) (map fst legacy) \<Longrightarrow> \<forall>i \<in> fst ` set legacy. 0 < i \<Longrightarrow> usage_reachable (ensure_usage_schema legacy)"
| ingested: "usage_reachable L \<Longrightarrow> usage_reachable (snd (ingest_request e now L))"
| cleaned: "usage_reachable L \<Longrightarrow> usage_reachable (cleanup cutoff L)"
| alarmed: "usage_reachable L \<Longrightarrow> usage_reachable (usage_alarm now L)"
| read: "usage_reachable L \<Longrightarrow> usage_reachable (backfill_attribution L)"
| earlier_writer: "usage_reachable L \<Longrightarrow> rowid r = next_rowid (usage_events L) \<Longrightarrow> usage_reachable (insert_row r L)"

lemma rollups_ok_open:
  assumes "sorted_wrt (<) (map fst legacy)" and "\<forall>i \<in> fst ` set legacy. 0 < i"
  shows "rollups_ok (ensure_usage_schema legacy)"
proof -
  let ?L = "ensure_usage_schema legacy" and ?t = "usage_events (ensure_usage_schema legacy)"
  have ids: "map rowid ?t = map fst legacy"
    by (auto simp: ensure_usage_schema_def Let_def)
  then have ord: "in_order ?t" using assms(1) by (simp add: in_order_def)
  have "rowid r \<le> rowid (last ?t)" if "r \<in> set ?t" for r
  proof (cases ?t rule: rev_cases)
    case (snoc ys y)
    with ord that show ?thesis by (auto simp: in_order_append)
  qed (use that in simp)
  moreover have "0 < rowid r" if "r \<in> set ?t" for r
  proof -
    have "rowid ` set ?t = fst ` set legacy" using arg_cong [OF ids, of set] by simp
    with that assms(2) show ?thesis by blast
  qed
  moreover have "rollup_migration ?L = \<lparr>last_rowid = 0, upper_rowid = (if ?t = [] then 0 else rowid (last ?t)),
      complete = (?t = [])\<rparr>"
    by (simp add: ensure_usage_schema_def Let_def)
  ultimately have none: "\<not> counted (rollup_migration ?L) (rowid r)" if "r \<in> set ?t" for r
    using that by (auto simp: counted_def not_le not_less)
  have "row_sums.row_sum (key_values (attribution ?L)) (counter_values (attribution ?L))
      (\<lambda>r. counted (rollup_migration ?L) (rowid r)) ?t k c = 0" for k c
  proof -
    have "filter (\<lambda>r. counted (rollup_migration ?L) (rowid r) \<and> key_values (attribution ?L) r = k) ?t = []"
      using none by (auto simp: filter_empty_conv)
    then show ?thesis by (simp only: agg.row_sum_def sum_where_def) simp
  qed
  moreover have "usage_rollups ?L = []" by (simp add: ensure_usage_schema_def Let_def)
  ultimately show ?thesis using ord by (simp add: rollups_ok_def agg.agrees_def rolled_def)
qed

lemma rollups_ok_ingest:
  assumes "rollups_ok L"
  shows "rollups_ok (snd (ingest e now L))"
proof -
  let ?L0 = "cleanup (now - usage_retention_ms) L"
  have ok: "rollups_ok ?L0" using assms by (rule cleanup_facts)
  have "rollups_ok (with_usage_report_pair (\<lambda>L1. (insert_row row L1)\<lparr>usage_report_events := x L1\<rparr>) ?L0)"
    if "rowid row = next_rowid (usage_events ?L0)" for row x
    using rollups_ok_insert [OF ok that] by (simp add: rollups_ok_def)
  with ok show ?thesis by (simp add: ingest_def Let_def)
qed

lemma reachable_ok: "usage_reachable L \<Longrightarrow> rollups_ok L"
proof (induction rule: usage_reachable.induct)
  case (ingested L e now)
  then show ?case by (simp add: ingest_request_def rollups_ok_ingest)
next
  case (alarmed L now)
  then show ?case
    by (simp add: usage_alarm_def rollups_ok_backfill_rollups rollups_ok_backfill_attribution cleanup_facts(1))
qed (simp_all add: rollups_ok_open cleanup_facts(1) rollups_ok_backfill_attribution rollups_ok_insert)

lemma key_policy: "rk_policy (key_values att r) = policy_id (event_json r)"
  by (simp add: key_values_def Let_def)

subsection \<open>Properties\<close>

text \<open>
  C10. The rollups are exact. In every reachable ledger, whatever the interleaving of writes, retention,
  migrations, reads and writers of earlier deployments, each total read from the rollups is the
  total over the events that the rollup migration has reached; once it is complete it is the
  total over all events of the selected policies.
\<close>

theorem rollups_are_exact:
  assumes "usage_reachable L"
  shows "rollup_total sel c L =
      sum_where (\<lambda>r. counted (rollup_migration L) (rowid r) \<and> sel (policy_id (event_json r)))
        (\<lambda>r. counter_values (attribution L) r c) (usage_events L) \<and>
    (complete (rollup_migration L) \<longrightarrow> rollup_total sel c L = event_total sel c L)"
proof -
  have "row_sums.agrees (key_values (attribution L)) (counter_values (attribution L))
      (\<lambda>r. counted (rollup_migration L) (rowid r)) (usage_events L) (usage_rollups L)"
    using reachable_ok [OF assms] by (simp add: rollups_ok_def)
  from agg.total_agrees [OF this, of "\<lambda>k. sel (rk_policy k)" c]
  have "rollup_total sel c L = sum_where (\<lambda>r. counted (rollup_migration L) (rowid r) \<and> sel (policy_id (event_json r)))
        (\<lambda>r. counter_values (attribution L) r c) (usage_events L)"
    by (simp add: rollup_total_def key_policy)
  then show ?thesis by (simp add: event_total_def counted_def)
qed

text \<open>What a stored event leaves behind.\<close>

definition retained :: "int \<Rightarrow> usage_row list \<Rightarrow> usage_row list" where
  "retained now t = filter (\<lambda>r. \<not> occurred_at_ms (event_json r) < now - usage_retention_ms) t"

definition filled :: "usage_event \<Rightarrow> usage_event" where
  "filled e = (if policy_id e = [] then e\<lparr>policy_id := key_id e\<rparr> else e)"

lemma filled_simps [simp]: "ev_id (filled e) = ev_id e" "occurred_at_ms (filled e) = occurred_at_ms e"
  by (simp_all add: filled_def)

definition fresh_row :: "int \<Rightarrow> usage_event \<Rightarrow> usage_row" where
  "fresh_row i e = usage_attribution \<lparr>rowid = i, event_json = filled e, principal_col = None,
     principal_key = None, credential_col = None, basis_col = None, principal_nontext = False\<rparr>"

lemma ingest_cases:
  assumes "rollups_ok L"
  shows "ingest e now L = (x, L') \<Longrightarrow>
    attribution L' = attribution L \<and> rollup_migration L' = rollup_migration L \<and>
    (x = Inr Stored \<and> \<not> (\<exists>r \<in> set (retained now (usage_events L)). ev_id (event_json r) = ev_id e) \<and>
       now - usage_retention_ms \<le> occurred_at_ms e \<and>
       usage_events L' = retained now (usage_events L) @ [fresh_row (next_rowid (retained now (usage_events L))) e] \<or>
     x \<noteq> Inr Stored \<and> usage_events L' = retained now (usage_events L) \<and>
     (x = Inr Duplicate \<longleftrightarrow> (\<exists>r \<in> set (retained now (usage_events L)). ev_id (event_json r) = ev_id e)))"
  using cleanup_facts [OF assms, of "now - usage_retention_ms"]
  by (auto simp: ingest_def Let_def insert_row_def retained_def fresh_row_def filled_def split: if_splits)

theorem rollups_are_exact_witness:
  "rollup_total (\<lambda>p. p = ''team'') ActualCost (snd (ingest_request sample_event 86400010 (ensure_usage_schema []))) = 42"
proof -
  let ?L = "snd (ingest_request sample_event 86400010 (ensure_usage_schema []))"
  have "usage_reachable ?L" by (intro usage_reachable.ingested usage_reachable.opened) simp_all
  note exact = rollups_are_exact [OF this, of "\<lambda>p. p = ''team''" ActualCost, THEN conjunct2]
  obtain x L' where i: "ingest sample_event 86400010 (ensure_usage_schema []) = (x, L')" by fastforce
  have ids: "ev_id sample_event = ''event_1''" "occurred_at_ms sample_event = 86400005"
    by (simp_all add: sample_event_def)
  have eq: "?L = L'" using i by (simp add: ingest_request_def ids safe_int_def max_safe_integer_def)
  have old: "usage_events (ensure_usage_schema []) = []" "complete (rollup_migration (ensure_usage_schema []))"
    "usage_report_events (ensure_usage_schema []) = []"
    by (simp_all add: ensure_usage_schema_def Let_def)
  have stored: "x = Inr Stored"
    using i by (auto simp: ingest_def Let_def cleanup_def old ids usage_retention_ms_def usage_day_ms_def delete_where_def
        split: if_splits)
  from ingest_cases [OF rollups_ok_open i] old stored
  have "usage_events L' = [fresh_row 1 sample_event]" "complete (rollup_migration L')"
    by (auto simp: retained_def next_rowid_def)
  moreover have "policy_id (event_json (fresh_row 1 sample_event)) = ''team''"
    "counter_values att (fresh_row 1 sample_event) ActualCost = 42" for att
    by (simp_all add: fresh_row_def filled_def counter_values_def sample_event_def)
  ultimately show ?thesis using exact by (simp add: eq event_total_def sum_where_Cons)
qed



subsection \<open>The migrations end\<close>

definition work :: "progress \<Rightarrow> int list \<Rightarrow> nat" where
  "work m ids = (if complete m then 0 else Suc (length (filter (\<lambda>i. last_rowid m < i \<and> i \<le> upper_rowid m) ids)))"

definition total_work :: "usage_ledger \<Rightarrow> nat" where
  "total_work L = work (attribution L) (map rowid (usage_events L)) + work (rollup_migration L) (map rowid (usage_events L))"

lemma work_filter: "work m (map rowid (filter p t)) \<le> work m (map rowid t)"
  by (induction t) (auto simp: work_def)

lemma filter_length_le: "(\<And>x. p x \<Longrightarrow> q x) \<Longrightarrow> length (filter p xs) \<le> length (filter q xs)"
  by (induction xs) (auto intro: le_SucI)

lemma filter_length_less:
  "(\<And>x. p x \<Longrightarrow> q x) \<Longrightarrow> y \<in> set xs \<Longrightarrow> q y \<Longrightarrow> \<not> p y \<Longrightarrow> length (filter p xs) < length (filter q xs)"
proof (induction xs)
  case (Cons x xs)
  then show ?case using filter_length_le [of p q xs] by (auto simp: less_Suc_eq_le)
qed simp

text \<open>
  Moving the watermark over a batch never adds work, and removes some when the migration may finish.
\<close>

lemma work_step:
  fixes N :: nat
  assumes ord: "in_order t" and "\<not> complete m" and "0 < N" and b: "b = batch N m t"
    and m': "m' = m\<lparr>last_rowid := batch_last m b, complete := ((length b < N \<or> batch_last m b = upper_rowid m) \<and> A)\<rparr>"
  shows "work m' (map rowid t) \<le> work m (map rowid t)" and "A \<Longrightarrow> work m' (map rowid t) < work m (map rowid t)"
proof -
  have sub: "last_rowid m < i" if "last_rowid m' < i" "i \<le> upper_rowid m" for i
    using that batch_last_bounds [of m N t] by (auto simp: m' b)
  have le: "length (filter (\<lambda>i. last_rowid m' < i \<and> i \<le> upper_rowid m) (map rowid t)) \<le>
      length (filter (\<lambda>i. last_rowid m < i \<and> i \<le> upper_rowid m) (map rowid t))"
    by (rule filter_length_le) (use sub in auto)
  then show "work m' (map rowid t) \<le> work m (map rowid t)" using assms(2) by (simp add: work_def m')
  assume A
  show "work m' (map rowid t) < work m (map rowid t)"
  proof (cases "complete m'")
    case True
    then show ?thesis using assms(2) by (simp add: work_def)
  next
    case False
    then have "b \<noteq> []" using \<open>A\<close> assms(3) by (auto simp: m')
    then have l: "last b \<in> set b" by simp
    then have "rowid (last b) \<in> set (map rowid t)" "last_rowid m < rowid (last b)" "rowid (last b) \<le> upper_rowid m"
      using batch_subset [of "last b" N m t] b by auto
    moreover have "\<not> last_rowid m' < rowid (last b)" using \<open>b \<noteq> []\<close> by (simp add: m' batch_last_def)
    ultimately have "length (filter (\<lambda>i. last_rowid m' < i \<and> i \<le> upper_rowid m) (map rowid t)) <
        length (filter (\<lambda>i. last_rowid m < i \<and> i \<le> upper_rowid m) (map rowid t))"
      by (intro filter_length_less [where y = "rowid (last b)"]) (use sub in auto)
    then show ?thesis using False assms(2) by (simp add: work_def m')
  qed
qed

lemma backfill_attribution_work:
  assumes "rollups_ok L"
  shows "map rowid (usage_events (backfill_attribution L)) = map rowid (usage_events L) \<and>
    rollup_migration (backfill_attribution L) = rollup_migration L \<and>
    work (attribution (backfill_attribution L)) (map rowid (usage_events L)) \<le> work (attribution L) (map rowid (usage_events L)) \<and>
    (\<not> complete (attribution L) \<longrightarrow>
      work (attribution (backfill_attribution L)) (map rowid (usage_events L)) < work (attribution L) (map rowid (usage_events L))) \<and>
    (complete (attribution L) \<longrightarrow> complete (attribution (backfill_attribution L)))"
proof (cases "complete (attribution L)")
  case False
  let ?m = "attribution L"
  define b where "b = batch usage_attribution_batch_size ?m (usage_events L)"
  have ord: "in_order (usage_events L)" using assms by (simp add: rollups_ok_def)
  have sub: "set b \<subseteq> set (usage_events L)" using batch_subset by (auto simp: b_def)
  have "distinct (map rowid b)" using ord by (simp add: b_def batch_in_order distinct_rowid)
  note f = fold_update [OF assms sub this]
  have "0 < usage_attribution_batch_size" by (simp add: usage_attribution_batch_size_def)
  note w = work_step [OF ord False this b_def refl, where A = True]
  have ids: "map rowid (update_where p usage_attribution (usage_events L)) = map rowid (usage_events L)" for p
    by (simp add: update_where_def)
  show ?thesis using False f w by (simp add: backfill_attribution_def Let_def b_def [symmetric] ids)
qed (simp add: backfill_attribution_def)

lemma backfill_rollups_work:
  assumes "rollups_ok L"
  shows "usage_events (backfill_rollups L) = usage_events L \<and> attribution (backfill_rollups L) = attribution L \<and>
    work (rollup_migration (backfill_rollups L)) (map rowid (usage_events L)) \<le> work (rollup_migration L) (map rowid (usage_events L)) \<and>
    (\<not> complete (rollup_migration L) \<and> complete (attribution L) \<longrightarrow>
      work (rollup_migration (backfill_rollups L)) (map rowid (usage_events L)) < work (rollup_migration L) (map rowid (usage_events L)))"
proof (cases "complete (rollup_migration L)")
  case False
  define b where "b = batch usage_rollup_batch_size (rollup_migration L) (usage_events L)"
  have ord: "in_order (usage_events L)" using assms by (simp add: rollups_ok_def)
  have "0 < usage_rollup_batch_size" by (simp add: usage_rollup_batch_size_def)
  note w = work_step [OF ord False this b_def refl, where A = "complete (attribution L)"]
  show ?thesis using False w by (simp add: backfill_rollups_def Let_def b_def [symmetric])
qed (simp add: backfill_rollups_def)

lemma alarm_work:
  assumes "rollups_ok L"
  shows "total_work (usage_alarm now L) < total_work L \<or> total_work (usage_alarm now L) = 0"
proof -
  define L1 where "L1 = cleanup (now - usage_retention_ms) L"
  define L2 where "L2 = backfill_attribution L1"
  define L3 where "L3 = backfill_rollups L2"
  have ok1: "rollups_ok L1" using assms by (simp add: L1_def cleanup_facts(1))
  have ok2: "rollups_ok L2" using ok1 by (simp add: L2_def rollups_ok_backfill_attribution)
  have c: "total_work L1 \<le> total_work L"
    using cleanup_facts [OF assms, of "now - usage_retention_ms"] by (simp add: L1_def total_work_def add_mono work_filter)
  note a = backfill_attribution_work [OF ok1, folded L2_def]
  note r = backfill_rollups_work [OF ok2, folded L3_def]
  have "total_work L3 < total_work L1 \<or> total_work L3 = 0"
    using a r by (cases "complete (attribution L1)"; cases "complete (rollup_migration L2)")
      (auto simp: total_work_def work_def)
  with c show ?thesis by (auto simp: usage_alarm_def L1_def [symmetric] L2_def [symmetric] L3_def [symmetric])
qed

text \<open>
  The migrations end: running the alarm often enough, with nothing else happening, completes both
  the attribution and the rollup migration.
\<close>

theorem migrations_finish:
  assumes "usage_reachable L"
  shows "\<exists>n. complete (attribution ((usage_alarm now ^^ n) L)) \<and> complete (rollup_migration ((usage_alarm now ^^ n) L))"
  using assms
proof (induction "total_work L" arbitrary: L rule: less_induct)
  case less
  have ok: "rollups_ok L" using less.prems by (rule reachable_ok)
  have reach: "usage_reachable (usage_alarm now L)" using less.prems by (rule usage_reachable.alarmed)
  show ?case
  proof (cases "total_work (usage_alarm now L) = 0")
    case True
    then have "complete (attribution ((usage_alarm now ^^ 1) L)) \<and> complete (rollup_migration ((usage_alarm now ^^ 1) L))"
      by (simp add: total_work_def work_def split: if_splits)
    then show ?thesis by blast
  next
    case False
    with alarm_work [OF ok, of now] have "total_work (usage_alarm now L) < total_work L" by blast
    from less.hyps [OF this reach] obtain n where
      "complete (attribution ((usage_alarm now ^^ n) (usage_alarm now L)))"
      "complete (rollup_migration ((usage_alarm now ^^ n) (usage_alarm now L)))" by blast
    then have "complete (attribution ((usage_alarm now ^^ Suc n) L)) \<and> complete (rollup_migration ((usage_alarm now ^^ Suc n) L))"
      by (simp add: funpow_Suc_right del: funpow.simps)
    then show ?thesis by blast
  qed
qed

theorem migrations_finish_witness:
  "\<exists>n. complete (attribution ((usage_alarm 86400010 ^^ n) (ensure_usage_schema [(1, sample_event), (7, sample_event\<lparr>ev_id := ''event_2''\<rparr>)]))) \<and>
     complete (rollup_migration ((usage_alarm 86400010 ^^ n) (ensure_usage_schema [(1, sample_event), (7, sample_event\<lparr>ev_id := ''event_2''\<rparr>)])))"
  by (intro migrations_finish usage_reachable.opened) simp_all

end
