(* ===== verification/Grant_Quota.thy ===== *)
theory Grant_Quota
  imports Http_Utils
begin

section \<open>Quota observations of upstream grants\<close>

text \<open>
  \<open>shared/grant-quota.ts\<close> (reading a runtime state), \<open>worker/grant-quota.ts\<close> (making one
  from response headers or a probe payload) and \<open>worker/grant-runtime.ts\<close> (merging two).
  An ISO time of the source is the instant it denotes, in milliseconds; \<open>date_parse\<close> stands
  for \<open>Date.parse\<close> on text that is not a number or a duration. Metrics are rationals: the
  rounding of double arithmetic is not modelled. A header list is an association list with
  lower-case names.
\<close>

subsection \<open>States\<close>

datatype quota_kind = Requests | Tokens | InputTokensKind | OutputTokensKind | Credits | SubscriptionKind | Generic

record quota_window =
  w_observedAt :: "int option"
  w_models :: "string list option"
  w_id :: string
  w_kind :: quota_kind
  w_unit :: "string option"
  w_window :: "string option"
  remaining :: "rat option"
  limit :: "rat option"
  resetAt :: "int option"

datatype runtime_status = Available | Limited | Cooldown
datatype runtime_source = ProviderResponse | ProviderProbe
datatype runtime_signal = QuotaSignal | RateLimited | AuthenticationSignal

type_synonym facts = "(string \<times> json) list option"

record runtime_state =
  rs_status :: runtime_status
  rs_observedAt :: int
  rs_source :: runtime_source
  cooldownUntil :: "int option"
  lastSignal :: runtime_signal
  grantRevision :: "int option"
  windows :: "quota_window list"
  windowSnapshots :: "(string \<times> (int \<times> string list)) list option"
  account :: facts
  extraUsage :: facts

subsection \<open>Reading a state\<close>

fun contains :: "string \<Rightarrow> string \<Rightarrow> bool" where
  "contains [] t = starts_with t []"
| "contains (c # s) t = (starts_with t (c # s) \<or> contains s t)"

definition window_applies :: "quota_window \<Rightarrow> string option \<Rightarrow> bool" where
  "window_applies w model =
     (case w_models w of
        None \<Rightarrow> True
      | Some [] \<Rightarrow> True
      | Some ms \<Rightarrow> (case model of None \<Rightarrow> False | Some m \<Rightarrow> m \<noteq> [] \<and> list_ex (contains (to_lower m)) ms))"

definition live :: "int \<Rightarrow> quota_window \<Rightarrow> bool" where
  "live now w = (case resetAt w of None \<Rightarrow> True | Some t \<Rightarrow> now < t)"

definition fresh_at :: "rat \<Rightarrow> int \<Rightarrow> int \<Rightarrow> bool" where
  "fresh_at staleAfter now t = (of_int t + staleAfter > of_int now)"

definition grant_runtime_fresh :: "runtime_state option \<Rightarrow> rat \<Rightarrow> int \<Rightarrow> string option \<Rightarrow> bool" where
  "grant_runtime_fresh state staleAfter now model =
     (case state of
        None \<Rightarrow> False
      | Some s \<Rightarrow>
          fresh_at staleAfter now (rs_observedAt s) \<and>
          (let applicable = filter (\<lambda>w. window_applies w model \<and> live now w) (windows s)
           in applicable \<noteq> [] \<and>
              list_all (\<lambda>w. fresh_at staleAfter now (case w_observedAt w of None \<Rightarrow> rs_observedAt s | Some t \<Rightarrow> t)) applicable))"

definition window_ratio :: "quota_window \<Rightarrow> rat option" where
  "window_ratio w = (case (limit w, remaining w) of
     (Some l, Some r) \<Rightarrow> if l = 0 then None else Some (min 1 (r / l)) | _ \<Rightarrow> None)"

definition minimum :: "'a::linorder list \<Rightarrow> 'a option" where
  "minimum xs = (case xs of [] \<Rightarrow> None | y # ys \<Rightarrow> Some (fold min ys y))"

definition grant_quota_ratio :: "runtime_state option \<Rightarrow> int \<Rightarrow> rat \<Rightarrow> string option \<Rightarrow> rat option" where
  "grant_quota_ratio state now staleAfter model =
     (case state of
        None \<Rightarrow> None
      | Some s \<Rightarrow> if \<not> grant_runtime_fresh state staleAfter now model then None
          else minimum (List.map_filter window_ratio (filter (\<lambda>w. window_applies w model \<and> live now w) (windows s))))"

definition used_up :: "rat \<Rightarrow> quota_window \<Rightarrow> bool" where
  "used_up reserve w = (remaining w = Some 0 \<or>
     (case (limit w, remaining w) of (Some l, Some r) \<Rightarrow> l \<noteq> 0 \<and> r / l * 100 \<le> reserve | _ \<Rightarrow> False))"

definition exhausting_windows :: "runtime_state option \<Rightarrow> string option \<Rightarrow> rat \<Rightarrow> bool \<Rightarrow> int \<Rightarrow> quota_window list" where
  "exhausting_windows state model reserve includeUnscoped now =
     (case state of
        None \<Rightarrow> []
      | Some s \<Rightarrow> filter (\<lambda>w. (includeUnscoped \<or> (case w_models w of None \<Rightarrow> False | Some ms \<Rightarrow> ms \<noteq> [])) \<and>
          window_applies w model \<and> live now w \<and> used_up reserve w) (windows s))"

definition grant_quota_exhausted :: "runtime_state option \<Rightarrow> string option \<Rightarrow> rat \<Rightarrow> bool \<Rightarrow> int \<Rightarrow> bool" where
  "grant_quota_exhausted state model reserve includeUnscoped now =
     (exhausting_windows state model reserve includeUnscoped now \<noteq> [])"

definition maximum :: "'a::linorder list \<Rightarrow> 'a option" where
  "maximum xs = (case xs of [] \<Rightarrow> None | y # ys \<Rightarrow> Some (fold max ys y))"

definition grant_quota_reset_at :: "runtime_state option \<Rightarrow> string option \<Rightarrow> rat \<Rightarrow> bool \<Rightarrow> int \<Rightarrow> int option" where
  "grant_quota_reset_at state model reserve includeUnscoped now =
     (let ws = exhausting_windows state model reserve includeUnscoped now
      in if ws = [] \<or> list_ex (\<lambda>w. resetAt w = None) ws then None
         else maximum (List.map_filter resetAt ws))"

definition grant_cooling_down :: "runtime_state option \<Rightarrow> int \<Rightarrow> bool" where
  "grant_cooling_down state now =
     (case Option.bind state cooldownUntil of None \<Rightarrow> False | Some t \<Rightarrow> now < t)"

subsection \<open>Numbers and times in text\<close>

definition is_digit :: "char \<Rightarrow> bool" where
  "is_digit c \<longleftrightarrow> 48 \<le> (of_char c :: nat) \<and> (of_char c :: nat) \<le> 57"

definition digits_value :: "string \<Rightarrow> nat" where
  "digits_value = foldl (\<lambda>n c. 10 * n + (of_char c - 48)) 0"

text \<open>\<open>\d+(?:\.\d+)?\<close> at the start of the text, with what follows.\<close>

definition decimal_token :: "string \<Rightarrow> (rat \<times> string) option" where
  "decimal_token s =
     (let ds = takeWhile is_digit s; r = dropWhile is_digit s
      in if ds = [] then None
         else (case r of
             c # r' \<Rightarrow>
               if c = CHR ''.'' \<and> takeWhile is_digit r' \<noteq> []
               then Some (of_nat (digits_value ds) +
                   of_nat (digits_value (takeWhile is_digit r')) / 10 ^ length (takeWhile is_digit r'), dropWhile is_digit r')
               else Some (of_nat (digits_value ds), r)
           | [] \<Rightarrow> Some (of_nat (digits_value ds), [])))"

definition parse_decimal :: "string \<Rightarrow> rat option" where
  "parse_decimal s = (case decimal_token s of Some (q, []) \<Rightarrow> Some q | _ \<Rightarrow> None)"

definition unit_token :: "string \<Rightarrow> (rat \<times> string) option" where
  "unit_token s =
     (if starts_with ''ms'' s then Some (1, drop 2 s)
      else if starts_with ''s'' s then Some (1000, drop 1 s)
      else if starts_with ''m'' s then Some (60000, drop 1 s)
      else if starts_with ''h'' s then Some (3600000, drop 1 s)
      else None)"

lemma decimal_token_shorter: "decimal_token s = Some (q, r) \<Longrightarrow> length r < length s"
proof -
  assume *: "decimal_token s = Some (q, r)"
  let ?ds = "takeWhile is_digit s" and ?r = "dropWhile is_digit s"
  have len: "length s = length ?ds + length ?r" by (metis length_append takeWhile_dropWhile_id)
  from * have "?ds \<noteq> []" by (auto simp: decimal_token_def Let_def)
  moreover have "length r \<le> length ?r"
  proof (cases ?r)
    case Nil
    with * show ?thesis by (simp add: decimal_token_def Let_def split: if_splits)
  next
    case (Cons c r')
    have "length (dropWhile is_digit r') \<le> length r'" by (rule length_dropWhile_le)
    moreover have "length ?r = Suc (length r')" by (simp add: Cons)
    moreover have "r = ?r \<or> r = dropWhile is_digit r'"
      using * by (auto simp: decimal_token_def Let_def Cons split: if_splits)
    ultimately show ?thesis by auto
  qed
  ultimately show ?thesis using len by (cases ?ds) auto
qed

lemma unit_token_shorter: "unit_token s = Some (q, r) \<Longrightarrow> length r \<le> length s"
  by (auto simp: unit_token_def split: if_splits)

text \<open>\<open>(?:\d+(?:\.\d+)?(?:ms|s|m|h))+\<close>, summed in milliseconds.\<close>

function durations :: "string \<Rightarrow> rat option" where
  "durations s =
     (case decimal_token s of
        None \<Rightarrow> None
      | Some (q, r) \<Rightarrow> (case unit_token r of
          None \<Rightarrow> None
        | Some (u, t) \<Rightarrow> if t = [] then Some (q * u)
            else (case durations t of None \<Rightarrow> None | Some d \<Rightarrow> Some (q * u + d))))"
  by pat_completeness auto
termination
  by (relation "measure length") (auto dest!: decimal_token_shorter unit_token_shorter)

declare durations.simps [simp del]

definition max_safe :: rat where
  "max_safe = 9007199254740991"

fun metric :: "json \<Rightarrow> rat option" where
  "metric (JNum q) = (if 0 \<le> q \<and> q \<le> max_safe then Some q else None)"
| "metric (JStr s) = (case parse_decimal (trim s) of
     None \<Rightarrow> None | Some q \<Rightarrow> if 0 \<le> q \<and> q \<le> max_safe then Some q else None)"
| "metric _ = None"

definition scaled_metric :: "rat option \<Rightarrow> rat \<Rightarrow> rat option" where
  "scaled_metric v scale = (case v of None \<Rightarrow> None | Some q \<Rightarrow> metric (JNum (q * scale)))"

definition finite_reset :: "rat \<Rightarrow> int \<Rightarrow> rat option" where
  "finite_reset q now =
     (if q < 0 \<or> q > max_safe then None
      else Some (if q \<ge> 1000000000000 then q else if q \<ge> 1000000000 then q * 1000 else of_int now + q * 1000))"

fun parse_reset :: "(string \<Rightarrow> int option) \<Rightarrow> json \<Rightarrow> int \<Rightarrow> rat option" where
  "parse_reset date_parse (JNum q) now = finite_reset q now"
| "parse_reset date_parse (JStr s) now =
     (let t = to_lower (trim s) in
      if t = [] then None
      else case parse_decimal t of
          Some q \<Rightarrow> finite_reset q now
        | None \<Rightarrow> (case durations t of
            Some d \<Rightarrow> Some (of_int now + d)
          | None \<Rightarrow> map_option of_int (date_parse t)))"
| "parse_reset date_parse _ now = None"

text \<open>\<open>new Date(t)\<close> keeps whole milliseconds and is invalid beyond its range.\<close>

definition date_of_ms :: "rat \<Rightarrow> int option" where
  "date_of_ms q = (let t = (if q < 0 then \<lceil>q\<rceil> else \<lfloor>q\<rfloor>)
     in if \<bar>q\<bar> \<le> 8640000000000000 then Some t else None)"

definition retry_after :: "(string \<Rightarrow> int option) \<Rightarrow> string option \<Rightarrow> int \<Rightarrow> rat option" where
  "retry_after date_parse v now =
     (case v of
        None \<Rightarrow> None
      | Some [] \<Rightarrow> None
      | Some s \<Rightarrow> (case parse_decimal (trim s) of
          Some q \<Rightarrow> Some (of_int now + q * 1000)
        | None \<Rightarrow> map_option of_int (date_parse (trim s))))"

subsection \<open>Response headers\<close>

record quota_header =
  hw_id :: string
  hw_kind :: quota_kind
  hw_unit :: "string option"
  hw_window :: "string option"
  limitHeaders :: "string list"
  remainingHeaders :: "string list"
  usedHeaders :: "string list"
  resetHeaders :: "string list"
  hw_fixedLimit :: "rat option"
  hw_metricScale :: rat

type_synonym headers = "(string \<times> string) list"

fun first_of :: "('a \<Rightarrow> 'b option) \<Rightarrow> 'a list \<Rightarrow> 'b option" where
  "first_of f [] = None"
| "first_of f (x # xs) = (case f x of None \<Rightarrow> first_of f xs | Some y \<Rightarrow> Some y)"

definition header_number :: "headers \<Rightarrow> string list \<Rightarrow> rat option" where
  "header_number hs names = first_of (\<lambda>n. Option.bind (map_of hs n) (\<lambda>v. metric (JStr v))) names"

definition header_reset :: "(string \<Rightarrow> int option) \<Rightarrow> headers \<Rightarrow> string list \<Rightarrow> int \<Rightarrow> int option" where
  "header_reset date_parse hs names now =
     first_of (\<lambda>n. Option.bind (Option.bind (map_of hs n) (\<lambda>v. parse_reset date_parse (JStr v) now)) date_of_ms) names"

text \<open>The common end of both readers: a fixed limit wins, and used complements remaining.\<close>

definition reading :: "rat option \<Rightarrow> rat option \<Rightarrow> rat option \<Rightarrow> rat option \<Rightarrow> rat option \<times> rat option" where
  "reading fixed reported rem used =
     (let l = (case fixed of Some f \<Rightarrow> Some f | None \<Rightarrow> reported)
      in (l, case (rem, l, used) of (None, Some a, Some u) \<Rightarrow> Some (max 0 (a - u)) | _ \<Rightarrow> rem))"

definition window_from_headers :: "(string \<Rightarrow> int option) \<Rightarrow> headers \<Rightarrow> int \<Rightarrow> quota_header \<Rightarrow> quota_window list" where
  "window_from_headers date_parse hs now d =
     (let reported = scaled_metric (header_number hs (limitHeaders d)) (hw_metricScale d);
          rem = scaled_metric (header_number hs (remainingHeaders d)) (hw_metricScale d);
          used = scaled_metric (header_number hs (usedHeaders d)) (hw_metricScale d);
          reset = header_reset date_parse hs (resetHeaders d) now;
          (l, r) = reading (hw_fixedLimit d) reported rem used
      in if reported = None \<and> rem = None \<and> used = None \<and> reset = None then []
         else [\<lparr>w_observedAt = Some now, w_models = None, w_id = hw_id d, w_kind = hw_kind d, w_unit = hw_unit d,
                w_window = hw_window d, remaining = r, limit = l, resetAt = reset\<rparr>])"

definition quota_windows_from_headers :: "(string \<Rightarrow> int option) \<Rightarrow> headers \<Rightarrow> quota_header list \<Rightarrow> int \<Rightarrow> quota_window list" where
  "quota_windows_from_headers date_parse hs ds now = concat (map (window_from_headers date_parse hs now) ds)"

definition header_window :: "string \<Rightarrow> quota_kind \<Rightarrow> string list \<Rightarrow> string list \<Rightarrow> string list \<Rightarrow> quota_header" where
  "header_window i k lh rh sh = \<lparr>hw_id = i, hw_kind = k, hw_unit = None, hw_window = None, limitHeaders = lh,
     remainingHeaders = rh, usedHeaders = [], resetHeaders = sh, hw_fixedLimit = None, hw_metricScale = 1\<rparr>"

definition default_quota :: "quota_header list" where
  "default_quota =
     [header_window ''requests'' Requests
        [''ratelimit-limit-requests'', ''x-ratelimit-limit-requests'', ''anthropic-ratelimit-requests-limit'']
        [''ratelimit-remaining-requests'', ''x-ratelimit-remaining-requests'', ''anthropic-ratelimit-requests-remaining'']
        [''ratelimit-reset-requests'', ''x-ratelimit-reset-requests'', ''anthropic-ratelimit-requests-reset''],
      header_window ''tokens'' Tokens
        [''ratelimit-limit-tokens'', ''x-ratelimit-limit-tokens'', ''anthropic-ratelimit-tokens-limit'']
        [''ratelimit-remaining-tokens'', ''x-ratelimit-remaining-tokens'', ''anthropic-ratelimit-tokens-remaining'']
        [''ratelimit-reset-tokens'', ''x-ratelimit-reset-tokens'', ''anthropic-ratelimit-tokens-reset''],
      header_window ''generic'' Generic
        [''ratelimit-limit'', ''x-ratelimit-limit''] [''ratelimit-remaining'', ''x-ratelimit-remaining'']
        [''ratelimit-reset'', ''x-ratelimit-reset'']]"

subsection \<open>States from windows\<close>

definition auth_cooldown_ms :: int where "auth_cooldown_ms = 300000"
definition default_rate_limit_cooldown_ms :: int where "default_rate_limit_cooldown_ms = 60000"
definition max_cooldown_ms :: int where "max_cooldown_ms = 86400000"

definition latest_future_reset :: "quota_window list \<Rightarrow> int \<Rightarrow> int option" where
  "latest_future_reset ws now = maximum (filter (\<lambda>t. t > now) (List.map_filter resetAt ws))"

definition bounded_cooldown :: "rat \<Rightarrow> int \<Rightarrow> int" where
  "bounded_cooldown v now = \<lfloor>max (of_int now) (min v (of_int (now + max_cooldown_ms)))\<rfloor>"

definition blank_state :: "int \<Rightarrow> runtime_source \<Rightarrow> quota_window list \<Rightarrow> runtime_state" where
  "blank_state now src ws = \<lparr>rs_status = Available, rs_observedAt = now, rs_source = src, cooldownUntil = None,
     lastSignal = QuotaSignal, grantRevision = None, windows = ws, windowSnapshots = None, account = None, extraUsage = None\<rparr>"

definition quota_runtime :: "quota_window list \<Rightarrow> runtime_source \<Rightarrow> int \<Rightarrow> runtime_state" where
  "quota_runtime ws src now =
     (let exhausted = filter (\<lambda>w. (case w_models w of None \<Rightarrow> True | Some ms \<Rightarrow> ms = []) \<and> remaining w = Some 0 \<and> live now w) ws;
          ratios = List.map_filter (\<lambda>w. case (limit w, remaining w) of
            (Some l, Some r) \<Rightarrow> if l = 0 then None else Some (r / l) | _ \<Rightarrow> None) ws
      in (blank_state now src ws)\<lparr>
           rs_status := (if exhausted \<noteq> [] then Cooldown
             else case minimum ratios of Some q \<Rightarrow> if q \<le> 1 / 10 then Limited else Available | None \<Rightarrow> Available),
           cooldownUntil := (if exhausted = [] then None
             else Some (bounded_cooldown (of_int (case latest_future_reset exhausted now of
               Some t \<Rightarrow> t | None \<Rightarrow> now + default_rate_limit_cooldown_ms)) now))\<rparr>)"

definition observe_grant_quota :: "(string \<Rightarrow> int option) \<Rightarrow> int \<Rightarrow> headers \<Rightarrow> quota_header list \<Rightarrow> int \<Rightarrow> runtime_state option" where
  "observe_grant_quota date_parse status hs config now =
     (let ws = quota_windows_from_headers date_parse hs config now;
          retryAt = retry_after date_parse (map_of hs ''retry-after'') now;
          exhaustedReset = latest_future_reset (filter (\<lambda>w. remaining w = Some 0) ws) now
      in if status = 401 \<or> status = 403
         then Some ((blank_state now ProviderResponse ws)\<lparr>rs_status := Cooldown, lastSignal := AuthenticationSignal,
           cooldownUntil := Some (now + auth_cooldown_ms)\<rparr>)
         else if status = 429
         then Some ((blank_state now ProviderResponse ws)\<lparr>rs_status := Cooldown, lastSignal := RateLimited,
           cooldownUntil := Some (bounded_cooldown (case retryAt of Some t \<Rightarrow> t
             | None \<Rightarrow> of_int (case exhaustedReset of Some t \<Rightarrow> t | None \<Rightarrow> now + default_rate_limit_cooldown_ms)) now)\<rparr>)
         else if ws \<noteq> [] then Some (quota_runtime ws ProviderResponse now) else None)"

definition to_upper :: "string \<Rightarrow> string" where
  "to_upper = map (\<lambda>c. let n = (of_char c :: nat) in if 97 \<le> n \<and> n \<le> 122 then char_of (n - 32) else c)"

definition should_failover_grant :: "int \<Rightarrow> string \<Rightarrow> string \<Rightarrow> string option \<Rightarrow> bool \<Rightarrow> bool" where
  "should_failover_grant status method capability grantKey enabled \<longleftrightarrow>
     enabled \<and> (case grantKey of None \<Rightarrow> False | Some k \<Rightarrow> k \<noteq> []) \<and> status \<in> {401, 403, 429} \<and>
     (to_upper method \<in> {''GET'', ''HEAD''} \<or> starts_with ''llm.'' capability)"

subsection \<open>Probe payloads\<close>

fun replace_pair :: "char \<Rightarrow> char \<Rightarrow> char \<Rightarrow> string \<Rightarrow> string" where
  "replace_pair a b c (x # y # s) =
     (if x = a \<and> y = b then c # replace_pair a b c s else x # replace_pair a b c (y # s))"
| "replace_pair a b c s = s"

definition pointer_part :: "string \<Rightarrow> string" where
  "pointer_part s = replace_pair (CHR ''~'') (CHR ''0'') (CHR ''~'') (replace_pair (CHR ''~'') (CHR ''1'') (CHR ''/'') s)"

text \<open>\<open>None\<close> is the malformed ancestor: a scalar or an array that blocks the path.\<close>

fun walk :: "string list \<Rightarrow> json \<Rightarrow> json option" where
  "walk [] v = Some v"
| "walk (p # ps) JNull = Some JNull"
| "walk (p # ps) (JObj kvs) = walk ps (case member p (JObj kvs) of None \<Rightarrow> JNull | Some v \<Rightarrow> v)"
| "walk (p # ps) v = None"

definition json_pointer :: "json \<Rightarrow> string option \<Rightarrow> json option" where
  "json_pointer v pointer =
     (case pointer of
        None \<Rightarrow> Some JNull
      | Some p \<Rightarrow> if \<not> starts_with ''/'' p then Some JNull
          else walk (map pointer_part (split_on (CHR ''/'') (tl p))) v)"

definition pointed :: "json \<Rightarrow> string option \<Rightarrow> json" where
  "pointed v p = (case json_pointer v p of None \<Rightarrow> JNull | Some j \<Rightarrow> j)"

definition pointer_number :: "json \<Rightarrow> string option \<Rightarrow> rat option" where
  "pointer_number v p = metric (pointed v p)"

definition pointer_reset :: "(string \<Rightarrow> int option) \<Rightarrow> json \<Rightarrow> string option \<Rightarrow> int \<Rightarrow> int option" where
  "pointer_reset date_parse v p now = Option.bind (parse_reset date_parse (pointed v p) now) date_of_ms"

record collection =
  col_pointer :: string
  filter_pointer :: string
  filter_equals :: string
  modelPointer :: "string option"

record probe_window =
  pw_models :: "string list option"
  pw_collection :: "collection option"
  pw_id :: string
  pw_kind :: quota_kind
  pw_unit :: "string option"
  pw_window :: "string option"
  limitPointer :: "string option"
  remainingPointer :: "string option"
  usedPointer :: "string option"
  resetPointer :: "string option"
  pw_fixedLimit :: "rat option"
  pw_metricScale :: rat

definition scalar_window :: "(string \<Rightarrow> int option) \<Rightarrow> json \<Rightarrow> probe_window \<Rightarrow> int \<Rightarrow> quota_window list" where
  "scalar_window date_parse v d now =
     (let reported = scaled_metric (pointer_number v (limitPointer d)) (pw_metricScale d);
          rem = scaled_metric (pointer_number v (remainingPointer d)) (pw_metricScale d);
          used = scaled_metric (pointer_number v (usedPointer d)) (pw_metricScale d);
          reset = pointer_reset date_parse v (resetPointer d) now;
          (l, r) = reading (pw_fixedLimit d) reported rem used
      in if reported = None \<and> rem = None \<and> used = None \<and> reset = None then []
         else [\<lparr>w_observedAt = Some now, w_models = pw_models d, w_id = pw_id d, w_kind = pw_kind d, w_unit = pw_unit d,
                w_window = pw_window d, remaining = r, limit = l, resetAt = reset\<rparr>])"

text \<open>\<open>/^[a-z0-9][a-z0-9_-]{0,n}$/\<close>.\<close>

definition slug :: "nat \<Rightarrow> string \<Rightarrow> bool" where
  "slug n s \<longleftrightarrow> s \<noteq> [] \<and> length s \<le> n \<and>
     list_all (\<lambda>c. word_char c \<and> \<not> (65 \<le> (of_char c :: nat) \<and> (of_char c :: nat) \<le> 90) \<or> c = CHR ''-'') s \<and>
     hd s \<noteq> CHR ''_'' \<and> hd s \<noteq> CHR ''-''"

definition window_from_entry :: "(string \<Rightarrow> int option) \<Rightarrow> probe_window \<Rightarrow> collection \<Rightarrow> int \<Rightarrow> json \<Rightarrow> quota_window list" where
  "window_from_entry date_parse d c now v =
     (if pointed v (Some (filter_pointer c)) \<noteq> JStr (filter_equals c) then []
      else case modelPointer c of
        None \<Rightarrow> scalar_window date_parse v d now
      | Some p \<Rightarrow>
          (let family = (case pointed v (Some p) of JStr s \<Rightarrow> to_lower s | _ \<Rightarrow> []);
               name = pw_id d @ ''-'' @ family
           in if \<not> slug 32 family \<or> length name > 64 then []
              else scalar_window date_parse v (d\<lparr>pw_id := name, pw_models := Some [family]\<rparr>) now))"

definition quota_window_from_payload :: "(string \<Rightarrow> int option) \<Rightarrow> json \<Rightarrow> probe_window \<Rightarrow> int \<Rightarrow> quota_window list" where
  "quota_window_from_payload date_parse v d now =
     (case pw_collection d of
        None \<Rightarrow> scalar_window date_parse v d now
      | Some c \<Rightarrow> (case pointed v (Some (col_pointer c)) of
          JArr es \<Rightarrow> concat (map (window_from_entry date_parse d c now) (take 64 es))
        | _ \<Rightarrow> []))"

text \<open>A map keyed by identifier: a later entry replaces an earlier one in its place.\<close>

fun upsert :: "'k \<Rightarrow> 'v \<Rightarrow> ('k \<times> 'v) list \<Rightarrow> ('k \<times> 'v) list" where
  "upsert k v [] = [(k, v)]"
| "upsert k v ((j, u) # t) = (if j = k then (k, v) # t else (j, u) # upsert k v t)"

definition by_id :: "quota_window list \<Rightarrow> quota_window list" where
  "by_id ws = map snd (fold (\<lambda>w. upsert (w_id w) w) ws [])"

definition fact_fields :: "(string \<times> (string \<times> string) list) list" where
  "fact_fields =
     [(''account'', [(''email'', ''string''), (''displayName'', ''string''), (''rateLimitTier'', ''string''),
        (''subscriptionStatus'', ''string''), (''extraUsageEnabled'', ''boolean'')]),
      (''extraUsage'', [(''enabled'', ''boolean''), (''usedCredits'', ''number''), (''monthlyLimit'', ''number''),
        (''utilization'', ''number''), (''currency'', ''string''), (''spendLimitReached'', ''boolean'')])]"

fun fact_ok :: "string \<Rightarrow> json \<Rightarrow> bool" where
  "fact_ok t (JStr s) = (t = ''string'' \<and> utf16_length s \<le> 320 \<and> \<not> has_control s)"
| "fact_ok t (JNum q) = (t = ''number'' \<and> 0 \<le> q \<and> q \<le> max_safe)"
| "fact_ok t (JBool b) = (t = ''boolean'')"
| "fact_ok t _ = False"

definition clean_group :: "json \<Rightarrow> (string \<times> string) list \<Rightarrow> facts" where
  "clean_group src fl =
     (let clean = List.map_filter (\<lambda>(k, t). case member k src of
            Some v \<Rightarrow> if fact_ok t v then Some (k, v) else None | None \<Rightarrow> None) fl
      in if clean = [] then None else Some clean)"

definition sanitize_grant_facts :: "json \<Rightarrow> facts \<times> facts" where
  "sanitize_grant_facts v =
     (let grp = (\<lambda>g. case (member g v, map_of fact_fields g) of
            (Some src, Some fl) \<Rightarrow> clean_group src fl | _ \<Rightarrow> None)
      in (grp ''account'', grp ''extraUsage''))"

text \<open>\<open>facts\<close> of the probe gives, per group, the pointers of its members.\<close>

definition observe_grant_quota_probe ::
    "(string \<Rightarrow> int option) \<Rightarrow> json \<Rightarrow> probe_window list \<Rightarrow> (string \<times> (string \<times> string) list) list \<Rightarrow> int \<Rightarrow> runtime_state option" where
  "observe_grant_quota_probe date_parse v ds fs now =
     (let ws = by_id (concat (map (\<lambda>d. quota_window_from_payload date_parse v d now) ds));
          (acc, extra) = sanitize_grant_facts (JObj (map (\<lambda>(g, fl). (g, JObj (map (\<lambda>(n, p). (n, pointed v (Some p))) fl))) fs))
      in if ws \<noteq> [] \<or> acc \<noteq> None \<or> extra \<noteq> None
         then Some ((quota_runtime ws ProviderProbe now)\<lparr>account := acc, extraUsage := extra\<rparr>) else None)"

text \<open>Whether a payload may retire windows: nothing that is present is malformed.\<close>

definition parent_pointer :: "string \<Rightarrow> string option" where
  "parent_pointer p = (let up = rev (dropWhile (\<lambda>c. c \<noteq> CHR ''/'') (rev p))
     in if length up > 1 then Some (butlast up) else None)"

definition valid_scalar :: "(string \<Rightarrow> int option) \<Rightarrow> json \<Rightarrow> probe_window \<Rightarrow> int \<Rightarrow> bool" where
  "valid_scalar date_parse v d now =
     (let pointers = [limitPointer d, remainingPointer d, usedPointer d, resetPointer d];
          given = List.map_filter (\<lambda>p. case p of Some s \<Rightarrow> if s = [] then None else Some s | None \<Rightarrow> None);
          metrics = given [limitPointer d, remainingPointer d, usedPointer d];
          present = list_ex (\<lambda>p. pointed v (Some p) \<noteq> JNull \<or>
            (case parent_pointer p of None \<Rightarrow> False | Some up \<Rightarrow> pointed v (Some up) \<noteq> JNull)) (given pointers)
      in \<not> list_ex (\<lambda>p. json_pointer v p = None) pointers \<and>
         \<not> list_ex (\<lambda>p. pointed v (Some p) \<noteq> JNull \<and> pointer_number v (Some p) = None) metrics \<and>
         \<not> list_ex (\<lambda>p. pointed v (Some p) \<noteq> JNull \<and> pointer_reset date_parse v (Some p) now = None) (given [resetPointer d]) \<and>
         (\<not> present \<or> list_ex (\<lambda>w. remaining w \<noteq> None) (scalar_window date_parse v d now)))"

definition valid_entry :: "(string \<Rightarrow> int option) \<Rightarrow> probe_window \<Rightarrow> collection \<Rightarrow> int \<Rightarrow> json \<Rightarrow> bool" where
  "valid_entry date_parse d c now v =
     (case json_pointer v (Some (filter_pointer c)) of
        None \<Rightarrow> False
      | Some kind \<Rightarrow> kind \<noteq> JStr (filter_equals c) \<or>
          (case modelPointer c of None \<Rightarrow> True
           | Some p \<Rightarrow> (case pointed v (Some p) of
               JStr f \<Rightarrow> slug 32 (to_lower f) \<and> length (pw_id d) + 1 + length f \<le> 64 | _ \<Rightarrow> False)) \<and>
          valid_scalar date_parse v d now \<and> list_ex (\<lambda>w. remaining w \<noteq> None) (scalar_window date_parse v d now))"

definition valid_grant_quota_snapshot :: "(string \<Rightarrow> int option) \<Rightarrow> json \<Rightarrow> probe_window list \<Rightarrow> int \<Rightarrow> bool" where
  "valid_grant_quota_snapshot date_parse v ds now =
     list_all (\<lambda>d. case pw_collection d of
        None \<Rightarrow> valid_scalar date_parse v d now
      | Some c \<Rightarrow> (case json_pointer v (Some (col_pointer c)) of
          None \<Rightarrow> False
        | Some JNull \<Rightarrow> True
        | Some (JArr es) \<Rightarrow> length es \<le> 64 \<and> list_all (valid_entry date_parse d c now) es
        | _ \<Rightarrow> False)) ds"

subsection \<open>Merging observations\<close>

definition snapshot_applies :: "string \<Rightarrow> string \<Rightarrow> bool" where
  "snapshot_applies scope i =
     (if scope \<noteq> [] \<and> last scope = CHR ''*'' then starts_with (butlast scope) i else i = scope)"

definition observed_in :: "runtime_state \<Rightarrow> quota_window \<Rightarrow> int" where
  "observed_in s w = (case w_observedAt w of None \<Rightarrow> rs_observedAt s | Some t \<Rightarrow> t)"

text \<open>One reading of the loop over both states: the newest observation of each identifier stays.\<close>

definition keep_newest :: "runtime_state \<Rightarrow> quota_window \<Rightarrow> (string \<times> quota_window) list \<Rightarrow> (string \<times> quota_window) list" where
  "keep_newest s w m =
     (let t = observed_in s w
      in case map_of m (w_id w) of
           None \<Rightarrow> upsert (w_id w) (w\<lparr>w_observedAt := Some t\<rparr>) m
         | Some old \<Rightarrow> if (case w_observedAt old of None \<Rightarrow> True | Some u \<Rightarrow> u \<le> t)
             then upsert (w_id w) (w\<lparr>w_observedAt := Some t\<rparr>) m else m)"

definition merged_windows :: "runtime_state \<Rightarrow> runtime_state \<Rightarrow> (string \<times> quota_window) list" where
  "merged_windows previous incoming =
     fold (keep_newest incoming) (windows incoming) (fold (keep_newest previous) (windows previous) [])"

definition keep_snapshot :: "string \<times> (int \<times> string list) \<Rightarrow> (string \<times> (int \<times> string list)) list \<Rightarrow> (string \<times> (int \<times> string list)) list" where
  "keep_snapshot e m = (case map_of m (fst e) of
     None \<Rightarrow> upsert (fst e) (snd e) m
   | Some old \<Rightarrow> if fst old \<le> fst (snd e) then upsert (fst e) (snd e) m else m)"

definition snapshots_of :: "runtime_state \<Rightarrow> (string \<times> (int \<times> string list)) list" where
  "snapshots_of s = (case windowSnapshots s of None \<Rightarrow> [] | Some xs \<Rightarrow> xs)"

definition merged_snapshots :: "runtime_state \<Rightarrow> runtime_state \<Rightarrow> (string \<times> (int \<times> string list)) list" where
  "merged_snapshots previous incoming = fold keep_snapshot (snapshots_of incoming) (fold keep_snapshot (snapshots_of previous) [])"

definition retired :: "(string \<times> (int \<times> string list)) list \<Rightarrow> quota_window \<Rightarrow> bool" where
  "retired snaps w = list_ex (\<lambda>(scope, t, ids). snapshot_applies scope (w_id w) \<and>
     (case w_observedAt w of None \<Rightarrow> False | Some u \<Rightarrow> u \<le> t) \<and> w_id w \<notin> set ids) snaps"

text \<open>The newer of two signals that still hold; the previous one on a tie, as the stable sort leaves it.\<close>

definition holding_signal :: "int \<Rightarrow> runtime_state \<Rightarrow> runtime_state \<Rightarrow> runtime_state option" where
  "holding_signal now previous incoming =
     (let holds = (\<lambda>s. lastSignal s \<noteq> QuotaSignal \<and> (case cooldownUntil s of None \<Rightarrow> False | Some t \<Rightarrow> t > now))
      in if holds previous \<and> holds incoming
         then Some (if rs_observedAt incoming > rs_observedAt previous then incoming else previous)
         else if holds previous then Some previous else if holds incoming then Some incoming else None)"

definition merge_same_revision :: "runtime_state \<Rightarrow> runtime_state \<Rightarrow> int \<Rightarrow> runtime_state result" where
  "merge_same_revision previous incoming now =
     (let latest = (if rs_observedAt incoming \<ge> rs_observedAt previous then incoming else previous);
          ws = merged_windows previous incoming; snaps = merged_snapshots previous incoming;
          merged = filter (\<lambda>w. \<not> retired snaps w) (map snd ws);
          quota = quota_runtime merged (rs_source latest) (rs_observedAt latest);
          sig = holding_signal now previous incoming
      in if length ws > 128 \<or> length snaps > 128 then Inl (HttpError 400 ''invalid_authority_request'')
         else Inr (latest\<lparr>windows := merged, windowSnapshots := (if snaps = [] then windowSnapshots latest else Some snaps),
           rs_status := (case sig of None \<Rightarrow> rs_status quota | Some _ \<Rightarrow> Cooldown),
           cooldownUntil := (case sig of None \<Rightarrow> cooldownUntil quota | Some s \<Rightarrow> cooldownUntil s),
           lastSignal := (case sig of None \<Rightarrow> QuotaSignal | Some s \<Rightarrow> lastSignal s),
           account := (case account incoming of None \<Rightarrow> account previous | Some x \<Rightarrow> Some x),
           extraUsage := (case extraUsage incoming of None \<Rightarrow> extraUsage previous | Some x \<Rightarrow> Some x)\<rparr>))"

definition merge_grant_runtime_state :: "runtime_state option \<Rightarrow> runtime_state \<Rightarrow> int \<Rightarrow> runtime_state result" where
  "merge_grant_runtime_state previous incoming now =
     (case previous of
        None \<Rightarrow> Inr incoming
      | Some p \<Rightarrow>
          if grantRevision p \<noteq> grantRevision incoming
          then (case (grantRevision p, grantRevision incoming) of
              (Some _, None) \<Rightarrow> Inr p
            | (Some a, Some b) \<Rightarrow> Inr (if a > b then p else incoming)
            | _ \<Rightarrow> Inr incoming)
          else merge_same_revision p incoming now)"

subsection \<open>Lemmas\<close>

lemma map_of_upsert: "map_of (upsert k v m) j = (if j = k then Some v else map_of m j)"
  by (induction k v m rule: upsert.induct) auto

lemma keys_upsert: "fst ` set (upsert k v m) = insert k (fst ` set m)"
  by (induction k v m rule: upsert.induct) auto

lemma distinct_upsert: "distinct (map fst m) \<Longrightarrow> distinct (map fst (upsert k v m))"
proof (induction k v m rule: upsert.induct)
  case (2 k v j u t)
  then show ?case using keys_upsert [of k v t] by auto
qed simp

text \<open>What the loop has kept of the observations it has read: for each identifier, a newest one.\<close>

definition newest_for :: "(runtime_state \<times> quota_window) list \<Rightarrow> string \<Rightarrow> quota_window \<Rightarrow> bool" where
  "newest_for all k e \<longleftrightarrow> w_id e = k \<and>
     (\<exists>(s, w) \<in> set all. e = w\<lparr>w_observedAt := Some (observed_in s w)\<rparr>) \<and>
     (\<exists>t. w_observedAt e = Some t \<and> (\<forall>(s, w) \<in> set all. w_id w = k \<longrightarrow> observed_in s w \<le> t))"

definition newest :: "(runtime_state \<times> quota_window) list \<Rightarrow> (string \<times> quota_window) list \<Rightarrow> bool" where
  "newest all m \<longleftrightarrow> distinct (map fst m) \<and>
     (\<forall>k. map_of m k = None \<longrightarrow> (\<forall>(s, w) \<in> set all. w_id w \<noteq> k)) \<and>
     (\<forall>k e. map_of m k = Some e \<longrightarrow> newest_for all k e)"

lemma newest_for_append:
  assumes "newest_for all k e" and "\<And>t. w_observedAt e = Some t \<Longrightarrow> w_id w = k \<Longrightarrow> observed_in s w \<le> t"
  shows "newest_for (all @ [(s, w)]) k e"
  using assms unfolding newest_for_def by auto

lemma newest_for_last:
  assumes "\<And>s' w'. (s', w') \<in> set all \<Longrightarrow> w_id w' = w_id w \<Longrightarrow> observed_in s' w' \<le> observed_in s w"
  shows "newest_for (all @ [(s, w)]) (w_id w) (w\<lparr>w_observedAt := Some (observed_in s w)\<rparr>)"
  using assms unfolding newest_for_def by auto

lemma newest_upsert:
  assumes "newest all m"
    and le: "\<And>s' w'. (s', w') \<in> set all \<Longrightarrow> w_id w' = w_id w \<Longrightarrow> observed_in s' w' \<le> observed_in s w"
  shows "newest (all @ [(s, w)]) (upsert (w_id w) (w\<lparr>w_observedAt := Some (observed_in s w)\<rparr>) m)"
  unfolding newest_def
proof (intro conjI allI impI)
  show "distinct (map fst (upsert (w_id w) (w\<lparr>w_observedAt := Some (observed_in s w)\<rparr>) m))"
    using assms(1) by (simp add: newest_def distinct_upsert)
next
  fix k
  assume "map_of (upsert (w_id w) (w\<lparr>w_observedAt := Some (observed_in s w)\<rparr>) m) k = None"
  then have "k \<noteq> w_id w" "map_of m k = None" by (auto simp: map_of_upsert split: if_splits)
  then show "\<forall>(s, w) \<in> set (all @ [(s, w)]). w_id w \<noteq> k"
    using assms(1) unfolding newest_def by auto
next
  fix k e
  assume e: "map_of (upsert (w_id w) (w\<lparr>w_observedAt := Some (observed_in s w)\<rparr>) m) k = Some e"
  show "newest_for (all @ [(s, w)]) k e"
  proof (cases "k = w_id w")
    case True
    with e le show ?thesis by (auto simp: map_of_upsert intro!: newest_for_last)
  next
    case False
    with e have "map_of m k = Some e" by (simp add: map_of_upsert)
    with assms(1) have "newest_for all k e" by (simp add: newest_def)
    with False show ?thesis by (auto intro: newest_for_append)
  qed
qed

lemma newest_keep:
  assumes "newest all m" and "map_of m (w_id w) = Some e" and "w_observedAt e = Some u" and "observed_in s w \<le> u"
  shows "newest (all @ [(s, w)]) m"
  unfolding newest_def
proof (intro conjI allI impI)
  fix k
  assume "map_of m k = None"
  with assms(1,2) show "\<forall>(s, w) \<in> set (all @ [(s, w)]). w_id w \<noteq> k" unfolding newest_def by auto
next
  fix k x
  assume x: "map_of m k = Some x"
  with assms(1) have "newest_for all k x" by (simp add: newest_def)
  with x assms(2-4) show "newest_for (all @ [(s, w)]) k x" by (auto intro!: newest_for_append)
qed (use assms(1) in \<open>simp add: newest_def\<close>)

lemma newest_step:
  assumes "newest all m"
  shows "newest (all @ [(s, w)]) (keep_newest s w m)"
proof (cases "map_of m (w_id w)")
  case None
  with assms have "w_id w' \<noteq> w_id w" if "(s', w') \<in> set all" for s' w'
    using that unfolding newest_def by auto
  with newest_upsert [OF assms, of w s] None show ?thesis by (auto simp: keep_newest_def)
next
  case (Some e)
  with assms have "newest_for all (w_id w) e" by (simp add: newest_def)
  then obtain u where u: "w_observedAt e = Some u"
    and le: "\<And>s' w'. (s', w') \<in> set all \<Longrightarrow> w_id w' = w_id w \<Longrightarrow> observed_in s' w' \<le> u"
    unfolding newest_for_def by auto
  show ?thesis
  proof (cases "u \<le> observed_in s w")
    case True
    with le have "\<And>s' w'. (s', w') \<in> set all \<Longrightarrow> w_id w' = w_id w \<Longrightarrow> observed_in s' w' \<le> observed_in s w"
      using order_trans by blast
    from newest_upsert [OF assms this] Some u True show ?thesis by (simp add: keep_newest_def)
  next
    case False
    with newest_keep [OF assms Some u, of s] Some u show ?thesis by (simp add: keep_newest_def)
  qed
qed

lemma newest_fold: "newest all m \<Longrightarrow> newest (all @ map (Pair s) ws) (fold (keep_newest s) ws m)"
proof (induction ws arbitrary: all m)
  case (Cons w ws)
  from Cons.IH [OF newest_step [OF Cons.prems, of s w]] show ?case by simp
qed simp

lemma newest_merged: "newest (map (Pair p) (windows p) @ map (Pair i) (windows i)) (merged_windows p i)"
proof -
  have "newest [] []" by (simp add: newest_def)
  from newest_fold [OF newest_fold [OF this, of p "windows p"], of i "windows i"]
  show ?thesis by (simp add: merged_windows_def)
qed

lemma merge_same_windows:
  "merge_same_revision p i now = Inr m \<Longrightarrow>
     windows m = filter (\<lambda>w. \<not> retired (merged_snapshots p i) w) (map snd (merged_windows p i))"
  by (auto simp: merge_same_revision_def Let_def split: if_splits)

subsection \<open>Properties\<close>

text \<open>
  Observations that finish out of order converge on the newest evidence: a merge of two states of one
  grant revision keeps, of every quota window, an observation at least as new as each one that either
  state holds; it loses no window except one that a recorded snapshot retires, and it never
  brings a retired window back.
\<close>

theorem merge_keeps_newest:
  assumes "merge_grant_runtime_state (Some p) i now = Inr m" and "grantRevision p = grantRevision i"
  shows "(\<forall>w \<in> set (windows m). \<not> retired (merged_snapshots p i) w \<and>
      (\<exists>s \<in> {p, i}. \<exists>v \<in> set (windows s). w = v\<lparr>w_observedAt := Some (observed_in s v)\<rparr>) \<and>
      (\<forall>s \<in> {p, i}. \<forall>v \<in> set (windows s). w_id v = w_id w \<longrightarrow> observed_in s v \<le> observed_in m w)) \<and>
    (\<forall>s \<in> {p, i}. \<forall>v \<in> set (windows s). \<exists>w. w_id w = w_id v \<and>
      (w \<in> set (windows m) \<or> retired (merged_snapshots p i) w))"
proof -
  let ?all = "map (Pair p) (windows p) @ map (Pair i) (windows i)" and ?m = "merged_windows p i"
  have nw: "newest ?all ?m" by (rule newest_merged)
  have ws: "windows m = filter (\<lambda>w. \<not> retired (merged_snapshots p i) w) (map snd ?m)"
    using assms merge_same_windows by (simp add: merge_grant_runtime_state_def)
  have look: "map_of ?m k = Some w" if "(k, w) \<in> set ?m" for k w
    using nw that by (simp add: newest_def)
  have kept: "(\<exists>s \<in> {p, i}. \<exists>v \<in> set (windows s). w = v\<lparr>w_observedAt := Some (observed_in s v)\<rparr>) \<and>
      (\<forall>s \<in> {p, i}. \<forall>v \<in> set (windows s). w_id v = w_id w \<longrightarrow> observed_in s v \<le> observed_in m w)"
    if "(k, w) \<in> set ?m" for k w
  proof -
    from nw look [OF that] have "newest_for ?all k w" by (simp add: newest_def)
    then show ?thesis unfolding newest_for_def by (auto simp: observed_in_def)
  qed
  have "\<exists>w. w_id w = w_id v \<and> (w \<in> set (windows m) \<or> retired (merged_snapshots p i) w)"
    if "s \<in> {p, i}" "v \<in> set (windows s)" for s v
  proof -
    have mem: "(s, v) \<in> set ?all" using that by auto
    obtain w where w: "map_of ?m (w_id v) = Some w"
      using nw mem unfolding newest_def by (cases "map_of ?m (w_id v)") auto
    with nw have "w_id w = w_id v" by (simp add: newest_def newest_for_def)
    moreover have "w \<in> set (map snd ?m)" using map_of_SomeD [OF w] by force
    ultimately show ?thesis using ws by auto
  qed
  moreover have "\<exists>k. (k, w) \<in> set ?m" "\<not> retired (merged_snapshots p i) w" if "w \<in> set (windows m)" for w
    using that ws by auto
  ultimately show ?thesis using kept by meson
qed

lemma bounded_cooldown_bounds: "now \<le> bounded_cooldown v now" "bounded_cooldown v now \<le> now + max_cooldown_ms"
proof -
  show "now \<le> bounded_cooldown v now" by (simp add: bounded_cooldown_def le_floor_iff)
  have "max (of_int now) (min v (of_int (now + max_cooldown_ms))) \<le> (of_int (now + max_cooldown_ms) :: rat)"
    by (simp add: max_cooldown_ms_def)
  then have "max (of_int now) (min v (of_int (now + max_cooldown_ms))) < (of_int (now + max_cooldown_ms) + 1 :: rat)"
    by (rule le_less_trans) simp
  then show "bounded_cooldown v now \<le> now + max_cooldown_ms"
    unfolding bounded_cooldown_def floor_le_iff .
qed

lemma quota_runtime_cooldown:
  "rs_status (quota_runtime ws src now) = Cooldown \<longleftrightarrow> cooldownUntil (quota_runtime ws src now) \<noteq> None"
  "cooldownUntil (quota_runtime ws src now) = Some t \<Longrightarrow> now \<le> t \<and> t \<le> now + max_cooldown_ms"
  by (auto simp: quota_runtime_def Let_def blank_state_def bounded_cooldown_bounds split: option.splits if_splits)

text \<open>
  A cooldown is always bounded: whatever a provider's headers say, the state made from a response
  cools the grant down for at most a day and never into the past, refused credentials for five
  minutes, and a rate-limited response always cools it down.
\<close>

theorem cooldown_is_bounded:
  assumes "observe_grant_quota date_parse status hs config now = Some s"
  shows "(rs_status s = Cooldown \<longleftrightarrow> cooldownUntil s \<noteq> None) \<and>
    (\<forall>t. cooldownUntil s = Some t \<longrightarrow> now \<le> t \<and> t \<le> now + max_cooldown_ms) \<and>
    (status \<in> {401, 403} \<longrightarrow> cooldownUntil s = Some (now + auth_cooldown_ms) \<and> lastSignal s = AuthenticationSignal) \<and>
    (status = 429 \<longrightarrow> rs_status s = Cooldown \<and> lastSignal s = RateLimited)"
proof -
  consider (refused) "status = 401 \<or> status = 403" | (limited) "status = 429" | (other) "status \<notin> {401, 403, 429}" by auto
  then show ?thesis
  proof cases
    case refused
    with assms show ?thesis by (auto simp: observe_grant_quota_def Let_def blank_state_def auth_cooldown_ms_def max_cooldown_ms_def)
  next
    case limited
    with assms show ?thesis by (auto simp: observe_grant_quota_def Let_def blank_state_def bounded_cooldown_bounds)
  next
    case other
    with assms obtain ws where "s = quota_runtime ws ProviderResponse now"
      by (auto simp: observe_grant_quota_def Let_def split: if_splits)
    with other quota_runtime_cooldown show ?thesis by simp
  qed
qed

theorem cooldown_is_bounded_witness:
  "\<exists>s t. observe_grant_quota (\<lambda>_. None) 429 [(''retry-after'', ''99999999'')] default_quota 1000 = Some s \<and>
     cooldownUntil s = Some t \<and> t \<le> 1000 + max_cooldown_ms"
proof -
  obtain s where s: "observe_grant_quota (\<lambda>_. None) 429 [(''retry-after'', ''99999999'')] default_quota 1000 = Some s"
    by (simp add: observe_grant_quota_def Let_def)
  from cooldown_is_bounded [OF s] have "cooldownUntil s \<noteq> None" by auto
  with cooldown_is_bounded [OF s] s show ?thesis by auto
qed

definition sample_window :: "string \<Rightarrow> int \<Rightarrow> rat \<Rightarrow> quota_window" where
  "sample_window i t r = \<lparr>w_observedAt = Some t, w_models = None, w_id = i, w_kind = Requests, w_unit = None,
     w_window = None, remaining = Some r, limit = Some 10, resetAt = None\<rparr>"

lemma sample_window_simps: "w_id (sample_window i t r) = i" "w_observedAt (sample_window i t r) = Some t"
  by (simp_all add: sample_window_def)

theorem merge_keeps_newest_witness:
  "\<exists>m. merge_grant_runtime_state (Some (quota_runtime [sample_window ''requests'' 5 3] ProviderResponse 5))
        (quota_runtime [sample_window ''requests'' 9 2] ProviderProbe 9) 10 = Inr m \<and>
      (\<forall>w \<in> set (windows m). 9 \<le> observed_in m w)"
proof -
  let ?p = "quota_runtime [sample_window ''requests'' 5 3] ProviderResponse 5"
  let ?i = "quota_runtime [sample_window ''requests'' 9 2] ProviderProbe 9"
  have ws: "windows ?p = [sample_window ''requests'' 5 3]" "windows ?i = [sample_window ''requests'' 9 2]"
    "grantRevision ?p = None" "grantRevision ?i = None" "snapshots_of ?p = []" "snapshots_of ?i = []"
    by (simp_all add: quota_runtime_def Let_def blank_state_def snapshots_of_def)
  obtain m where m: "merge_grant_runtime_state (Some ?p) ?i 10 = Inr m"
    by (simp add: merge_grant_runtime_state_def merge_same_revision_def Let_def ws merged_windows_def merged_snapshots_def
        keep_newest_def sample_window_simps observed_in_def)
  have "w_id w = ''requests''" if "w \<in> set (windows m)" for w
    using merge_keeps_newest [OF m] ws that by (auto simp: sample_window_simps)
  with merge_keeps_newest [OF m] ws m show ?thesis
    by (auto simp: sample_window_simps observed_in_def)
qed

end
