(* ===== verification/Grant_Selection.thy ===== *)
theory Grant_Selection
  imports Grant_Quota Access_Types "HOL-Library.Word"
begin

section \<open>Choosing an upstream grant\<close>

text \<open>
  \<open>worker/grant-routing.ts\<close> (the routing policy), \<open>worker/grant-eligibility.ts\<close>
  (which grants may serve), \<open>worker/grant-selection-strategies.ts\<close> (which one is chosen),
  \<open>worker/grant-scope.ts\<close> and the candidate resolution of
  \<open>worker/grant-selection.ts\<close>. Three functions of other components are arguments:
  \<open>supports\<close> and \<open>opconf\<close> (\<open>grantSupports\<close> and
  \<open>assertOperationConfiguration\<close> of \<open>provider-auth.ts\<close> for the requirement at hand) and
  \<open>vertex_signing\<close> (\<open>vertexSigningCredentialPresent\<close>). \<open>lc\<close> is
  \<open>localeCompare\<close>. Opaque binding records are JSON values.
\<close>

subsection \<open>Grants\<close>

datatype grant_kind = ApiKeyGrant | OauthGrant | SubscriptionGrant

datatype credential_status = Active | ReauthRequired

text \<open>\<open>credentialRefreshBlockedUntil\<close>: absent, \<open>false\<close>, \<open>null\<close> or a time.\<close>

datatype refresh_block = NoBlock | RefreshReady | RefreshUncertain | BlockedUntil int

record upstream_grant =
  minimaxSearchBinding :: json
  minimaxVideoBinding :: json
  minimaxImageBinding :: json
  vertexAnthropicBinding :: json
  minimaxAnthropicBinding :: json
  nativeMediaBinding :: json
  g_version :: "int option"
  g_enabled :: "bool option"
  g_priority :: "rat option"
  g_weight :: "rat option"
  g_kind :: "grant_kind option"
  g_provider :: "string option"
  g_label :: "string option"
  g_credential :: json
  g_credentials :: json
  g_accessToken :: json
  g_refreshToken :: json
  g_tokenType :: "string option"
  g_expiresAt :: "int option"
  g_refreshTokenExpiresAt :: "int option"
  g_lastManualAuthorizationAt :: "int option"
  g_scopes :: "string list"
  g_accountId :: "string option"
  g_subscription :: json
  g_maintenance :: json
  durableStore :: bool
  credentialGeneration :: "int option"
  credentialLineage :: "string option"
  credentialStatus :: "credential_status option"
  credentialRefreshBlockedUntil :: refresh_block
  credentialProvenance :: "string option"
  refreshDiagnosis :: json
  hasCredential :: bool
  credentialFields :: "string list"
  hasAccessToken :: bool
  hasRefreshToken :: bool
  g_refresh :: json
  createdAt :: "int option"
  g_updatedAt :: "int option"
  revokedAt :: "int option"

record selected_grant =
  sg_key :: string
  sg_grant :: upstream_grant
  sg_runtime :: "runtime_state option"

subsection \<open>Routing policy\<close>

definition bounded_percent :: "json option \<Rightarrow> rat \<Rightarrow> rat" where
  "bounded_percent v fallback =
     (case v of Some (JNum q) \<Rightarrow> if 0 \<le> q \<and> q \<le> 100 then q else fallback | _ \<Rightarrow> fallback)"

definition valid_grant_segment :: "string \<Rightarrow> bool" where
  "valid_grant_segment s \<longleftrightarrow> s \<noteq> [] \<and> utf16_length s \<le> 256 \<and> CHR ''/'' \<notin> set s \<and> \<not> has_control s"

definition valid_grant_key :: "string \<Rightarrow> bool" where
  "valid_grant_key v =
     (let parts = split_on (CHR ''/'') v
      in hd parts = ''oauth'' \<and>
         (if length parts > 1 \<and> parts ! 1 = ''tenants'' then length parts = 4 else length parts = 3) \<and>
         list_all valid_grant_segment (tl parts))"

definition strategies :: "(string \<times> selection_strategy) list" where
  "strategies = [(''priority'', Priority), (''round_robin'', RoundRobin), (''least_used'', LeastUsed),
     (''most_remaining'', MostRemaining), (''threshold'', Threshold), (''weighted_random'', WeightedRandom)]"

definition default_grant_routing :: routing_policy where
  "default_grant_routing = \<lparr>strategy = MostRemaining, sticky = NoStickiness, failover = True,
     environmentFallback = Some False, includedQuotaReservePercent = Some 0, staleState = AllowStale,
     staleAfterSeconds = 300, switchAtUsedPercent = 90, hysteresisPercent = 10, eligibleGrants = [], sharedGrants = None\<rparr>"

fun strings_of :: "json \<Rightarrow> string list option" where
  "strings_of (JArr xs) = Some (List.map_filter (\<lambda>j. case j of JStr s \<Rightarrow> Some s | _ \<Rightarrow> None) xs)"
| "strings_of _ = None"

text \<open>\<open>.sort()\<close> orders by code units; \<open>new Set\<close> keeps first occurrences.\<close>

fun lex_less :: "string \<Rightarrow> string \<Rightarrow> bool" where
  "lex_less [] [] = False"
| "lex_less [] (y # ys) = True"
| "lex_less (x # xs) [] = False"
| "lex_less (x # xs) (y # ys) =
     ((of_char x :: nat) < of_char y \<or> x = y \<and> lex_less xs ys)"

fun insert_by :: "('a \<Rightarrow> 'a \<Rightarrow> bool) \<Rightarrow> 'a \<Rightarrow> 'a list \<Rightarrow> 'a list" where
  "insert_by lt x [] = [x]"
| "insert_by lt x (y # ys) = (if lt x y then x # y # ys else y # insert_by lt x ys)"

text \<open>A stable sort: an element goes behind the equal ones that came before it.\<close>

definition sort_by :: "('a \<Rightarrow> 'a \<Rightarrow> bool) \<Rightarrow> 'a list \<Rightarrow> 'a list" where
  "sort_by lt xs = fold (insert_by lt) xs []"

fun first_unique :: "'a list \<Rightarrow> 'a list" where
  "first_unique [] = []"
| "first_unique (x # xs) = x # filter (\<lambda>y. y \<noteq> x) (first_unique xs)"

fun shared_entries :: "nat \<Rightarrow> (string \<times> json) list \<Rightarrow> (string \<times> string list) list" where
  "shared_entries n [] = []"
| "shared_entries n ((p, ks) # r) =
     (if \<not> valid_grant_segment p then shared_entries n r
      else case strings_of ks of
        None \<Rightarrow> shared_entries n r
      | Some xs \<Rightarrow> (let chosen = take (32 - n) (first_unique (filter valid_grant_key xs))
          in (p, sort_by lex_less chosen) # shared_entries (n + length chosen) r))"

definition eligible_entries :: "(string \<times> json) list \<Rightarrow> (string \<times> string list) list" where
  "eligible_entries kvs = List.map_filter (\<lambda>(p, refs).
     if \<not> valid_grant_segment p then None
     else map_option (\<lambda>xs. (p, sort_by lex_less (take 32 (first_unique (filter valid_grant_segment xs))))) (strings_of refs)) kvs"

definition object_entries :: "json option \<Rightarrow> (string \<times> json) list" where
  "object_entries v = (case v of Some (JObj kvs) \<Rightarrow> kvs | _ \<Rightarrow> [])"

definition int_between :: "json option \<Rightarrow> int \<Rightarrow> int \<Rightarrow> int \<Rightarrow> rat" where
  "int_between v lo hi fallback =
     (case v of Some (JNum q) \<Rightarrow> if of_int \<lfloor>q\<rfloor> = q \<and> lo \<le> \<lfloor>q\<rfloor> \<and> \<lfloor>q\<rfloor> \<le> hi then q else of_int fallback
      | _ \<Rightarrow> of_int fallback)"

definition grant_routing_policy :: "json \<Rightarrow> routing_policy" where
  "grant_routing_policy input =
     (let field = (\<lambda>k. member k input);
          st = (case field ''strategy'' of Some (JStr s) \<Rightarrow> (case map_of strategies s of Some x \<Rightarrow> x | None \<Rightarrow> MostRemaining)
                | _ \<Rightarrow> MostRemaining);
          shared = shared_entries 0 (object_entries (field ''sharedGrants''))
      in \<lparr>strategy = st,
          sticky = (if st = Threshold then NoStickiness
            else if field ''stickiness'' = Some (JStr ''identity'') then IdentitySticky
            else if field ''stickiness'' = Some (JStr ''session'') then SessionSticky else NoStickiness),
          failover = (field ''failover'' \<noteq> Some (JBool False)),
          environmentFallback = Some (field ''environmentFallback'' = Some (JBool True)),
          includedQuotaReservePercent = Some (int_between (field ''includedQuotaReservePercent'') 0 50 0),
          staleState = (if field ''staleState'' = Some (JStr ''deny'') then DenyStale else AllowStale),
          staleAfterSeconds = int_between (field ''staleAfterSeconds'') 30 86400 300,
          switchAtUsedPercent = bounded_percent (field ''switchAtUsedPercent'') 90,
          hysteresisPercent = bounded_percent (field ''hysteresisPercent'') 10,
          eligibleGrants = eligible_entries (object_entries (field ''eligibleGrants'')),
          sharedGrants = (if shared = [] then None else Some shared)\<rparr>)"

subsection \<open>Eligibility\<close>

definition refresh_margin_ms :: int where "refresh_margin_ms = 300000"

definition blank_text :: "json \<Rightarrow> bool" where
  "blank_text v = (case v of JNull \<Rightarrow> False | JStr s \<Rightarrow> trim s = [] | _ \<Rightarrow> True)"

definition secret_text :: "json \<Rightarrow> bool" where
  "secret_text v = (case v of JStr s \<Rightarrow> trim s \<noteq> [] | _ \<Rightarrow> False)"

definition bundle_name :: "string \<Rightarrow> bool" where
  "bundle_name s \<longleftrightarrow> 1 \<le> length s \<and> length s \<le> 128 \<and> list_all (\<lambda>c. word_char c \<or> c = CHR ''.'' \<or> c = CHR ''-'') s"

fun valid_credential_bundle :: "json \<Rightarrow> bool" where
  "valid_credential_bundle JNull = True"
| "valid_credential_bundle (JObj kvs) = list_all (\<lambda>(n, v). bundle_name n \<and> secret_text v) kvs"
| "valid_credential_bundle _ = False"

definition bundle_values :: "json \<Rightarrow> json list" where
  "bundle_values v = (case v of JObj kvs \<Rightarrow> map snd kvs | _ \<Rightarrow> [])"

definition grant_credential_present :: "(upstream_grant \<Rightarrow> bool) \<Rightarrow> upstream_grant \<Rightarrow> bool" where
  "grant_credential_present vertex_signing g =
     (if durableStore g
      then credentialStatus g \<noteq> Some ReauthRequired \<and> (hasCredential g \<or> hasAccessToken g \<or> vertex_signing g)
      else if list_ex blank_text [g_credential g, g_accessToken g, g_refreshToken g] \<or> \<not> valid_credential_bundle (g_credentials g)
      then False
      else list_ex secret_text ([g_credential g, g_accessToken g] @ bundle_values (g_credentials g)))"

definition grant_refresh_blocked :: "upstream_grant \<Rightarrow> int \<Rightarrow> bool" where
  "grant_refresh_blocked g now \<longleftrightarrow> durableStore g \<and>
     (credentialRefreshBlockedUntil g = RefreshUncertain \<or>
      hasRefreshToken g \<and> (case g_expiresAt g of None \<Rightarrow> False | Some e \<Rightarrow> e \<le> now + refresh_margin_ms) \<and>
      (case credentialRefreshBlockedUntil g of BlockedUntil t \<Rightarrow> t > now | _ \<Rightarrow> False))"

definition grant_usable :: "(upstream_grant \<Rightarrow> bool) \<Rightarrow> upstream_grant \<Rightarrow> int \<Rightarrow> bool" where
  "grant_usable vertex_signing g now \<longleftrightarrow> grant_credential_present vertex_signing g \<and> \<not> grant_refresh_blocked g now"

definition lineage_shape :: "string \<Rightarrow> bool" where
  "lineage_shape s \<longleftrightarrow> 16 \<le> length s \<and> length s \<le> 128 \<and> list_all (\<lambda>c. word_char c \<or> c = CHR ''-'') s"

text \<open>A falsy JSON value.\<close>

definition falsy :: "json \<Rightarrow> bool" where
  "falsy v = (case v of JNull \<Rightarrow> True | JBool b \<Rightarrow> \<not> b | JNum q \<Rightarrow> q = 0 | JStr s \<Rightarrow> s = [] | _ \<Rightarrow> False)"

definition copilot_private_candidate :: "upstream_grant \<Rightarrow> bool" where
  "copilot_private_candidate g \<longleftrightarrow>
     g_provider g = Some ''github-copilot'' \<and> g_enabled g = Some True \<and> g_kind g = Some OauthGrant \<and>
     durableStore g \<and> credentialStatus g = Some ReauthRequired \<and>
     (case credentialGeneration g of None \<Rightarrow> False | Some n \<Rightarrow> safe_int n \<and> n > 0) \<and>
     (case credentialLineage g of None \<Rightarrow> False | Some s \<Rightarrow> lineage_shape s) \<and>
     falsy (g_credential g) \<and> falsy (g_credentials g) \<and> falsy (g_accessToken g) \<and> falsy (g_refreshToken g) \<and>
     \<not> hasCredential g \<and> \<not> hasAccessToken g \<and> \<not> hasRefreshToken g"

definition grant_revision :: "upstream_grant \<Rightarrow> int option" where
  "grant_revision g = (case g_updatedAt g of Some t \<Rightarrow> Some t | None \<Rightarrow> createdAt g)"

definition current_grant_runtime :: "upstream_grant \<Rightarrow> runtime_state option \<Rightarrow> runtime_state option" where
  "current_grant_runtime g state =
     (case state of None \<Rightarrow> None | Some s \<Rightarrow> if grantRevision s = grant_revision g then Some s else None)"

definition grant_priority :: "upstream_grant \<Rightarrow> rat" where
  "grant_priority g = (case g_priority g of
     Some q \<Rightarrow> if of_int \<lfloor>q\<rfloor> = q \<and> 0 \<le> q \<and> q \<le> 1000000 then q else 100 | None \<Rightarrow> 100)"

definition grant_weight :: "upstream_grant \<Rightarrow> rat" where
  "grant_weight g = (case g_weight g of Some q \<Rightarrow> if 0 < q \<and> q \<le> 1000000 then q else 1 | None \<Rightarrow> 1)"

text \<open>The token reference of a policy-scoped or tenant-scoped key.\<close>

definition parse_grant_scope :: "string \<Rightarrow> (bool \<times> string \<times> string) option" where
  "parse_grant_scope key =
     (case split_on (CHR ''/'') key of
        [a, b, c] \<Rightarrow>
          if a = ''oauth'' \<and> valid_grant_segment b \<and> valid_grant_segment c then Some (False, b, c) else None
      | [a, b, c, d] \<Rightarrow>
          if a = ''oauth'' \<and> b = ''tenants'' \<and> valid_grant_segment c \<and> valid_grant_segment d then Some (True, c, d) else None
      | _ \<Rightarrow> None)"

record grant_candidates =
  available :: "selected_grant list"
  recovering :: "(selected_grant \<times> int) list"
  hasConfiguredGrant :: bool

text \<open>
  What the filter asks of its context: the provider, the routing policy, the pinned key (absent,
  \<open>null\<close> or a key), the excluded keys, the required model and the functions of other components.
\<close>

record filter_context =
  fc_provider :: string
  fc_excluded :: "string list"
  fc_routing :: routing_policy
  fc_pinned :: "string option option"
  fc_model :: "string option"
  fc_supports :: "upstream_grant \<Rightarrow> bool"
  fc_vertex :: "upstream_grant \<Rightarrow> bool"
  fc_private :: bool

definition configured :: "filter_context \<Rightarrow> (string \<times> upstream_grant option \<times> runtime_state option) list \<Rightarrow> selected_grant list" where
  "configured c cands = List.map_filter (\<lambda>(k, g, s). case g of
     None \<Rightarrow> None
   | Some gr \<Rightarrow>
       if g_enabled gr \<noteq> Some False \<and> (case g_provider gr of None \<Rightarrow> True | Some p \<Rightarrow> p = [] \<or> p = fc_provider c) \<and>
          (if fc_private c then fc_provider c = ''github-copilot'' \<and> copilot_private_candidate gr
           else grant_credential_present (fc_vertex c) gr)
       then Some \<lparr>sg_key = k, sg_grant = gr, sg_runtime = s\<rparr> else None) cands"

definition reserve_of :: "filter_context \<Rightarrow> upstream_grant \<Rightarrow> rat" where
  "reserve_of c g = (if g_kind g = Some SubscriptionGrant
     then (case includedQuotaReservePercent (fc_routing c) of None \<Rightarrow> 0 | Some q \<Rightarrow> q) else 0)"

definition eligibility_restricted :: "filter_context \<Rightarrow> bool" where
  "eligibility_restricted c \<longleftrightarrow> map_of (eligibleGrants (fc_routing c)) (fc_provider c) \<noteq> None"

definition stale_ms :: "filter_context \<Rightarrow> rat" where
  "stale_ms c = staleAfterSeconds (fc_routing c) * 1000"

text \<open>The exclusions that time does not lift.\<close>

definition admissible :: "filter_context \<Rightarrow> int \<Rightarrow> selected_grant \<Rightarrow> bool" where
  "admissible c now e \<longleftrightarrow>
     \<not> (\<not> fc_private c \<and> fc_pinned c = None \<and> grant_refresh_blocked (sg_grant e) now) \<and>
     fc_supports c (sg_grant e) \<and>
     (case fc_pinned c of None \<Rightarrow> True | Some p \<Rightarrow> p = Some (sg_key e)) \<and>
     sg_key e \<notin> set (fc_excluded c) \<and>
     (eligibility_restricted c \<longrightarrow>
        (case parse_grant_scope (sg_key e) of None \<Rightarrow> False
         | Some (_, _, ref) \<Rightarrow> ref \<in> set (the (map_of (eligibleGrants (fc_routing c)) (fc_provider c))))) \<and>
     (staleState (fc_routing c) = DenyStale \<longrightarrow>
        grant_runtime_fresh (sg_runtime e) (stale_ms c) now (fc_model c))"

definition entry_exhausted :: "filter_context \<Rightarrow> int \<Rightarrow> selected_grant \<Rightarrow> bool" where
  "entry_exhausted c now e = grant_quota_exhausted (sg_runtime e) (fc_model c) (reserve_of c (sg_grant e))
     (g_kind (sg_grant e) = Some SubscriptionGrant) now"

text \<open>When the last of the exclusions that time lifts ends, if that is known.\<close>

definition recovery_at :: "filter_context \<Rightarrow> int \<Rightarrow> selected_grant \<Rightarrow> int option" where
  "recovery_at c now e =
     (let cooling = grant_cooling_down (sg_runtime e) now; exhausted = entry_exhausted c now e;
          reset = (if exhausted then grant_quota_reset_at (sg_runtime e) (fc_model c) (reserve_of c (sg_grant e))
            (g_kind (sg_grant e) = Some SubscriptionGrant) now else Some 0);
          until = (case Option.bind (sg_runtime e) cooldownUntil of None \<Rightarrow> 0 | Some t \<Rightarrow> t)
      in if cooling \<and> map_option lastSignal (sg_runtime e) = Some AuthenticationSignal then None
         else case reset of None \<Rightarrow> None
           | Some r \<Rightarrow> (let t = max r (if cooling then until else 0)
               in if staleState (fc_routing c) \<noteq> DenyStale \<or> grant_runtime_fresh (sg_runtime e) (stale_ms c) t (fc_model c)
                  then Some t else None))"

definition filter_grant_candidates ::
    "filter_context \<Rightarrow> (string \<times> upstream_grant option \<times> runtime_state option) list \<Rightarrow> int \<Rightarrow> grant_candidates" where
  "filter_grant_candidates c cands now =
     (let conf = configured c cands;
          fit = filter (admissible c now) conf;
          blocked = (\<lambda>e. grant_cooling_down (sg_runtime e) now \<or> entry_exhausted c now e)
      in \<lparr>available = filter (\<lambda>e. \<not> blocked e) fit,
          recovering = List.map_filter (\<lambda>e. map_option (Pair e) (recovery_at c now e)) (filter blocked fit),
          hasConfiguredGrant = (conf \<noteq> [] \<or>
            (case Option.bind (sharedGrants (fc_routing c)) (\<lambda>m. map_of m (fc_provider c)) of None \<Rightarrow> False | Some ks \<Rightarrow> ks \<noteq> []) \<or>
            eligibility_restricted c \<or> staleState (fc_routing c) = DenyStale \<or>
            (case fc_pinned c of Some (Some _) \<Rightarrow> True | _ \<Rightarrow> False))\<rparr>)"

definition active_operation_candidates :: "(upstream_grant \<Rightarrow> bool) \<Rightarrow> selected_grant list \<Rightarrow> selected_grant list" where
  "active_operation_candidates opconf avail =
     (let conf = filter (\<lambda>e. opconf (sg_grant e)) avail
      in case minimum (map (\<lambda>e. grant_priority (sg_grant e)) conf) of
           None \<Rightarrow> []
         | Some p \<Rightarrow> filter (\<lambda>e. grant_priority (sg_grant e) = p) conf)"

definition pool_retry_at :: "(upstream_grant \<Rightarrow> bool) \<Rightarrow> grant_candidates \<Rightarrow> int option" where
  "pool_retry_at opconf cs = minimum (map snd (filter (\<lambda>(e, t). opconf (sg_grant e)) (recovering cs)))"

text \<open>\<open>grantsVisibleToPolicies\<close>: grants in a policy's or tenant's scope, or shared with it.\<close>

definition grants_visible_to_policies ::
    "(string \<times> upstream_grant) list \<Rightarrow> (string \<times> access_policy) list \<Rightarrow> (string \<times> upstream_grant) list" where
  "grants_visible_to_policies gs pols =
     (let prefixes = concat (map (\<lambda>(pid, pol). [''oauth/'' @ pid @ ''/'',
            ''oauth/tenants/'' @ (case tenantId pol of None \<Rightarrow> ''default'' | Some t \<Rightarrow> t) @ ''/'']) pols)
      in filter (\<lambda>(k, g). list_ex (\<lambda>p. starts_with p k) prefixes \<or>
           g_kind g = Some SubscriptionGrant \<and>
           (case g_provider g of None \<Rightarrow> False | Some p \<Rightarrow> p \<noteq> [] \<and>
              list_ex (\<lambda>(_, pol). case Option.bind (sharedGrants (grantRouting pol)) (\<lambda>m. map_of m p) of
                 None \<Rightarrow> False | Some ks \<Rightarrow> k \<in> set ks) pols)) gs)"

subsection \<open>Strategies\<close>

record choice_candidate =
  cc_key :: string
  cc_weight :: rat
  cc_ratio :: "rat option"

record choice_input =
  ci_strategy :: string
  stickyHash :: "string option"
  ci_switchAt :: "json option"
  ci_hysteresis :: "json option"

record choice_state =
  cursorKey :: "string option"
  counts :: "(string \<times> (int \<times> int)) list"

text \<open>The 32-bit FNV-1a hash of \<open>stickyScore\<close>, and the weighted rendezvous score made from it.\<close>

definition sticky_hash :: "string \<Rightarrow> 32 word" where
  "sticky_hash = foldl (\<lambda>v c. (xor v (of_nat (of_char c))) * 16777619) 2166136261"

definition sticky_score :: "string \<Rightarrow> choice_candidate \<Rightarrow> real" where
  "sticky_score h c = - ln ((of_int (uint (sticky_hash (h @ '':'' @ cc_key c))) + 1) / 4294967296) / of_rat (cc_weight c)"

fun pick_weighted :: "rat \<Rightarrow> rat \<Rightarrow> choice_candidate list \<Rightarrow> choice_candidate option" where
  "pick_weighted r cursor [] = None"
| "pick_weighted r cursor (c # cs) =
     (if r < cursor + cc_weight c then Some c else pick_weighted r (cursor + cc_weight c) cs)"

text \<open>\<open>random\<close> is the 32-bit random number divided by \<open>2^32\<close>.\<close>

definition weighted_random :: "rat \<Rightarrow> choice_candidate list \<Rightarrow> choice_candidate" where
  "weighted_random random cs =
     (case pick_weighted (random * sum_list (map cc_weight cs)) 0 cs of Some c \<Rightarrow> c | None \<Rightarrow> last cs)"

definition ratio_or :: "choice_candidate \<Rightarrow> rat" where
  "ratio_or c = (case cc_ratio c of None \<Rightarrow> -1 | Some q \<Rightarrow> q)"

definition most_remaining_before :: "(string \<Rightarrow> string \<Rightarrow> int) \<Rightarrow> choice_candidate \<Rightarrow> choice_candidate \<Rightarrow> bool" where
  "most_remaining_before lc a b \<longleftrightarrow> ratio_or b < ratio_or a \<or> ratio_or a = ratio_or b \<and> lc (cc_key a) (cc_key b) < 0"

definition sticky_before :: "(string \<Rightarrow> string \<Rightarrow> int) \<Rightarrow> string \<Rightarrow> choice_candidate \<Rightarrow> choice_candidate \<Rightarrow> bool" where
  "sticky_before lc h a b \<longleftrightarrow> sticky_score h a < sticky_score h b \<or>
     sticky_score h a = sticky_score h b \<and> lc (cc_key a) (cc_key b) < 0"

definition used_of :: "choice_state \<Rightarrow> choice_candidate \<Rightarrow> int \<times> int" where
  "used_of st c = (case map_of (counts st) (cc_key c) of None \<Rightarrow> (0, 0) | Some x \<Rightarrow> x)"

definition least_used_before :: "(string \<Rightarrow> string \<Rightarrow> int) \<Rightarrow> choice_state \<Rightarrow> choice_candidate \<Rightarrow> choice_candidate \<Rightarrow> bool" where
  "least_used_before lc st a b \<longleftrightarrow>
     (let (na, ta) = used_of st a; (nb, tb) = used_of st b
      in na < nb \<or> na = nb \<and> (ta < tb \<or> ta = tb \<and> lc (cc_key a) (cc_key b) < 0))"

definition epsilon :: rat where "epsilon = 1 / 1000000000"

definition percent_or :: "rat \<Rightarrow> rat \<Rightarrow> rat" where
  "percent_or q d = (if 0 \<le> q \<and> q \<le> 100 then q else d)"

text \<open>
  The empty candidate list raises in the source; the callers return before the call when no candidate
  is left, and the lemmas below speak of non-empty lists.
\<close>

definition select_threshold_grant_key ::
    "(string \<Rightarrow> string \<Rightarrow> int) \<Rightarrow> choice_candidate list \<Rightarrow> string option \<Rightarrow> rat \<Rightarrow> rat \<Rightarrow> string" where
  "select_threshold_grant_key lc cs current switchAt hyst =
     (let healthiest = hd (sort_by (most_remaining_before lc) cs)
      in case find (\<lambda>c. Some (cc_key c) = current) cs of
           None \<Rightarrow> cc_key healthiest
         | Some cur \<Rightarrow> (case cc_ratio cur of
             None \<Rightarrow> cc_key cur
           | Some r \<Rightarrow>
               (let cutoff = 1 - percent_or switchAt 90 / 100
                in if r > cutoff + epsilon then cc_key cur
                   else case sort_by (most_remaining_before lc) (filter (\<lambda>c. cc_key c \<noteq> cc_key cur \<and>
                          (case cc_ratio c of None \<Rightarrow> False | Some q \<Rightarrow> q > cutoff + epsilon \<and> q + epsilon \<ge> r + percent_or hyst 10 / 100)) cs) of
                       [] \<Rightarrow> cc_key cur | c # _ \<Rightarrow> cc_key c)))"

text \<open>A request's candidate: key, weight and ratio as received.\<close>

definition normalized_choice :: "string \<times> json option \<times> json option \<Rightarrow> choice_candidate" where
  "normalized_choice c = (case c of (k, w, r) \<Rightarrow>
     \<lparr>cc_key = k,
      cc_weight = (case w of Some (JNum q) \<Rightarrow> if 0 < q \<and> q \<le> 1000000 then q else 1 | _ \<Rightarrow> 1),
      cc_ratio = (case r of Some (JNum q) \<Rightarrow> if 0 \<le> q \<and> q \<le> 1 then Some q else None | _ \<Rightarrow> None)\<rparr>)"

definition normalized_choice_candidates ::
    "(string \<Rightarrow> string \<Rightarrow> int) \<Rightarrow> (string \<times> json option \<times> json option) list \<Rightarrow> choice_candidate list" where
  "normalized_choice_candidates lc cs =
     sort_by (\<lambda>a b. lc (cc_key a) (cc_key b) < 0)
       (map snd (fold (\<lambda>c. upsert (fst c) (normalized_choice c)) cs []))"

definition hex64 :: "string \<Rightarrow> bool" where
  "hex64 s \<longleftrightarrow> length s = 64 \<and> list_all (\<lambda>c. is_digit c \<or> 97 \<le> (of_char c :: nat) \<and> (of_char c :: nat) \<le> 102) s"

text \<open>The chosen key and, for strategies that keep one, the new cursor.\<close>

definition choose_grant_key ::
    "(string \<Rightarrow> string \<Rightarrow> int) \<Rightarrow> rat \<Rightarrow> choice_input \<Rightarrow> choice_candidate list \<Rightarrow> choice_state \<Rightarrow> string \<times> string option" where
  "choose_grant_key lc random input cs st =
     (let strat = (case map_of strategies (ci_strategy input) of Some x \<Rightarrow> x | None \<Rightarrow> MostRemaining);
          hash = (case stickyHash input of Some h \<Rightarrow> if hex64 h then Some h else None | None \<Rightarrow> None)
      in case hash of
           Some h \<Rightarrow> (cc_key (hd (sort_by (sticky_before lc h) cs)), None)
         | None \<Rightarrow> (case strat of
             RoundRobin \<Rightarrow>
               (let sel = (case find (\<lambda>c. lex_less (case cursorKey st of None \<Rightarrow> [] | Some k \<Rightarrow> k) (cc_key c)) cs of
                      Some c \<Rightarrow> c | None \<Rightarrow> hd cs)
                in (cc_key sel, Some (cc_key sel)))
           | LeastUsed \<Rightarrow> (cc_key (hd (sort_by (least_used_before lc st) cs)), None)
           | MostRemaining \<Rightarrow> (cc_key (hd (sort_by (most_remaining_before lc) cs)), None)
           | Threshold \<Rightarrow>
               (let k = select_threshold_grant_key lc cs (cursorKey st) (bounded_percent (ci_switchAt input) 90)
                     (bounded_percent (ci_hysteresis input) 10)
                in (k, Some k))
           | WeightedRandom \<Rightarrow> (cc_key (weighted_random random cs), None)
           | Priority \<Rightarrow> (cc_key (hd cs), None)))"

subsection \<open>Sorting\<close>

lemma first_unique_props [simp]: "set (first_unique xs) = set xs" "distinct (first_unique xs)"
  by (induction xs) auto

lemma set_insert_by [simp]: "set (insert_by lt x xs) = insert x (set xs)"
  by (induction xs) auto

lemma set_sort_by [simp]: "set (sort_by lt xs) = set xs"
proof -
  have "set (fold (insert_by lt) xs ys) = set xs \<union> set ys" for ys
    by (induction xs arbitrary: ys) auto
  then show ?thesis by (simp add: sort_by_def)
qed

lemma sort_by_Nil [simp]: "sort_by lt xs = [] \<longleftrightarrow> xs = []"
  by (metis set_empty set_sort_by)

lemma hd_sort_by_in: "xs \<noteq> [] \<Longrightarrow> hd (sort_by lt xs) \<in> set xs"
  by (metis hd_in_set set_sort_by sort_by_Nil)

text \<open>
  A strict order that is total on the elements at hand has one least element, and sorting puts it
  first; removing others does not change that.
\<close>

locale strict_choice =
  fixes lt :: "'a \<Rightarrow> 'a \<Rightarrow> bool" and dom :: "'a set"
  assumes irrefl: "x \<in> dom \<Longrightarrow> \<not> lt x x"
    and trans: "x \<in> dom \<Longrightarrow> y \<in> dom \<Longrightarrow> z \<in> dom \<Longrightarrow> lt x y \<Longrightarrow> lt y z \<Longrightarrow> lt x z"
    and total: "x \<in> dom \<Longrightarrow> y \<in> dom \<Longrightarrow> x \<noteq> y \<Longrightarrow> lt x y \<or> lt y x"
begin

lemma hd_insert_by:
  assumes "x \<in> dom" "set xs \<subseteq> dom" "\<forall>y \<in> set xs. y = hd xs \<or> lt (hd xs) y"
  shows "\<forall>y \<in> set (insert_by lt x xs). y = hd (insert_by lt x xs) \<or> lt (hd (insert_by lt x xs)) y"
proof (cases xs)
  case (Cons z zs)
  have z: "z \<in> dom" using assms(2) Cons by simp
  show ?thesis
  proof (cases "lt x z")
    case True
    have "lt x y" if "y \<in> set xs" for y
    proof -
      have "y \<in> dom" "y = z \<or> lt z y" using assms that Cons by auto
      then show ?thesis using trans [OF assms(1) z, of y] True by auto
    qed
    then show ?thesis using Cons True by auto
  next
    case False
    then have "x = z \<or> lt z x" using total [OF assms(1) z] by blast
    then show ?thesis using assms(3) Cons False by auto
  qed
qed simp

lemma hd_least: "set xs \<subseteq> dom \<Longrightarrow> \<forall>y \<in> set (sort_by lt xs). y = hd (sort_by lt xs) \<or> lt (hd (sort_by lt xs)) y"
proof -
  have "set xs \<subseteq> dom \<Longrightarrow> set ys \<subseteq> dom \<Longrightarrow> \<forall>y \<in> set ys. y = hd ys \<or> lt (hd ys) y \<Longrightarrow>
      \<forall>y \<in> set (fold (insert_by lt) xs ys). y = hd (fold (insert_by lt) xs ys) \<or> lt (hd (fold (insert_by lt) xs ys)) y" for ys
  proof (induction xs arbitrary: ys)
    case (Cons x xs)
    from Cons.IH [of "insert_by lt x ys"] Cons.prems hd_insert_by [of x ys] show ?case by simp
  qed simp
  from this [of "[]"] show "set xs \<subseteq> dom \<Longrightarrow> ?thesis" by (simp add: sort_by_def)
qed

lemma hd_unique:
  assumes "set xs \<subseteq> dom" and "x \<in> set xs" and "\<forall>y \<in> set xs. y = x \<or> lt x y"
  shows "hd (sort_by lt xs) = x"
proof (rule ccontr)
  assume ne: "hd (sort_by lt xs) \<noteq> x"
  have "xs \<noteq> []" using assms(2) by auto
  then have h: "hd (sort_by lt xs) \<in> set xs" by (rule hd_sort_by_in)
  then have "lt x (hd (sort_by lt xs))" using assms(3) ne by auto
  moreover have "lt (hd (sort_by lt xs)) x" using hd_least [OF assms(1)] assms(2) ne by auto
  ultimately have "lt x x" using trans [of x "hd (sort_by lt xs)" x] assms(1,2) h by auto
  with irrefl assms(1,2) show False by auto
qed

lemma hd_stable:
  assumes "set xs \<subseteq> dom" and "set ys \<subseteq> set xs" and "hd (sort_by lt xs) \<in> set ys"
  shows "hd (sort_by lt ys) = hd (sort_by lt xs)"
  using assms hd_least [OF assms(1)] by (intro hd_unique) auto

end

lemma lex_less_irrefl: "\<not> lex_less x x"
  by (induction x) auto

lemma lex_less_trans: "lex_less x y \<Longrightarrow> lex_less y z \<Longrightarrow> lex_less x z"
proof (induction x y arbitrary: z rule: lex_less.induct)
  case (4 x xs y ys)
  then show ?case by (cases z) auto
qed (auto elim: lex_less.elims)

lemma lex_less_total: "x \<noteq> y \<Longrightarrow> lex_less x y \<or> lex_less y x"
proof (induction x y rule: lex_less.induct)
  case (4 x xs y ys)
  then show ?case by (metis lex_less.simps(4) linorder_neqE_nat of_char_eq_iff)
qed auto

interpretation code_order: strict_choice lex_less UNIV
  by unfold_locales (use lex_less_irrefl lex_less_trans lex_less_total in blast)+

text \<open>The laws of \<open>localeCompare\<close> that the choices rely on: on the keys at hand it is a strict order.\<close>

definition collates :: "(string \<Rightarrow> string \<Rightarrow> int) \<Rightarrow> string set \<Rightarrow> bool" where
  "collates lc ks \<longleftrightarrow> (\<forall>a \<in> ks. \<not> lc a a < 0) \<and> (\<forall>a \<in> ks. \<forall>b \<in> ks. \<forall>c \<in> ks. lc a b < 0 \<longrightarrow> lc b c < 0 \<longrightarrow> lc a c < 0) \<and>
     (\<forall>a \<in> ks. \<forall>b \<in> ks. a \<noteq> b \<longrightarrow> lc a b < 0 \<or> lc b a < 0)"

text \<open>An order by a number, ties broken by key, is strict on candidates with distinct keys.\<close>

lemma scored_choice:
  fixes f :: "choice_candidate \<Rightarrow> 'b::linorder"
  assumes "collates lc (cc_key ` set cs)" and "inj_on cc_key (set cs)"
  shows "strict_choice (\<lambda>a b. f a < f b \<or> f a = f b \<and> lc (cc_key a) (cc_key b) < 0) (set cs)"
proof
  fix x assume "x \<in> set cs"
  then show "\<not> (f x < f x \<or> f x = f x \<and> lc (cc_key x) (cc_key x) < 0)" using assms(1) by (simp add: collates_def)
next
  fix x y z
  assume "x \<in> set cs" "y \<in> set cs" "z \<in> set cs"
    and "f x < f y \<or> f x = f y \<and> lc (cc_key x) (cc_key y) < 0"
    and "f y < f z \<or> f y = f z \<and> lc (cc_key y) (cc_key z) < 0"
  moreover from this(1-3) assms(1) have
    "lc (cc_key x) (cc_key y) < 0 \<longrightarrow> lc (cc_key y) (cc_key z) < 0 \<longrightarrow> lc (cc_key x) (cc_key z) < 0"
    unfolding collates_def by blast
  ultimately show "f x < f z \<or> f x = f z \<and> lc (cc_key x) (cc_key z) < 0" by auto
next
  fix x y
  assume xy: "x \<in> set cs" "y \<in> set cs" "x \<noteq> y"
  then have "cc_key x \<noteq> cc_key y" using assms(2) by (auto simp: inj_on_def)
  then have "lc (cc_key x) (cc_key y) < 0 \<or> lc (cc_key y) (cc_key x) < 0"
    using xy assms(1) unfolding collates_def by blast
  then show "(f x < f y \<or> f x = f y \<and> lc (cc_key x) (cc_key y) < 0) \<or>
      (f y < f x \<or> f y = f x \<and> lc (cc_key y) (cc_key x) < 0)"
    by (cases "f x" "f y" rule: linorder_cases) auto
qed

lemma sticky_choice:
  assumes "collates lc (cc_key ` set cs)" and "inj_on cc_key (set cs)"
  shows "strict_choice (sticky_before lc h) (set cs)"
  using scored_choice [OF assms, of "sticky_score h"] by (simp add: sticky_before_def [abs_def])

subsection \<open>Recovery times\<close>

lemma maximum_eq: "maximum xs = (if xs = [] then None else Some (Max (set xs)))"
  by (cases xs) (simp_all add: maximum_def Max.set_eq_fold [symmetric])

lemma minimum_eq: "minimum xs = (if xs = [] then None else Some (Min (set xs)))"
  by (cases xs) (simp_all add: minimum_def Min.set_eq_fold [symmetric])

lemma set_map_filter: "set (List.map_filter f xs) = {y. \<exists>x \<in> set xs. f x = Some y}"
  by (induction xs) (auto simp: map_filter_simps split: option.splits)

text \<open>Windows only stop exhausting as time passes.\<close>

lemma exhausting_later:
  "now \<le> u \<Longrightarrow> exhausting_windows s m r b u = filter (live u) (exhausting_windows s m r b now)"
  by (auto simp: exhausting_windows_def live_def split: option.splits intro!: filter_cong)

lemma exhausted_until:
  assumes "grant_quota_reset_at s m r b now = Some t" and "now \<le> u"
  shows "grant_quota_exhausted s m r b u \<longleftrightarrow> u < t"
proof -
  let ?W = "exhausting_windows s m r b now"
  have W: "?W \<noteq> []" "\<forall>w \<in> set ?W. resetAt w \<noteq> None"
    and t: "maximum (List.map_filter resetAt ?W) = Some t"
    using assms(1) by (auto simp: grant_quota_reset_at_def Let_def list_ex_iff split: if_splits)
  from t have tmax: "t = Max (set (List.map_filter resetAt ?W))" "List.map_filter resetAt ?W \<noteq> []"
    by (auto simp: maximum_eq split: if_splits)
  have set: "set (List.map_filter resetAt ?W) = (\<lambda>w. the (resetAt w)) ` set ?W"
    using W(2) by (auto simp: set_map_filter image_iff) force
  have "grant_quota_exhausted s m r b u \<longleftrightarrow> (\<exists>w \<in> set ?W. live u w)"
    using exhausting_later [OF assms(2), of s m r b] by (simp add: grant_quota_exhausted_def filter_empty_conv)
  also have "\<dots> \<longleftrightarrow> (\<exists>x \<in> set (List.map_filter resetAt ?W). u < x)"
  proof -
    have "live u w \<longleftrightarrow> u < the (resetAt w)" if "w \<in> set ?W" for w
      using W(2) that by (auto simp: live_def)
    then show ?thesis by (auto simp: set)
  qed
  also have "\<dots> \<longleftrightarrow> u < t" using tmax by (simp add: Max_gr_iff)
  finally show ?thesis .
qed

lemma exhausted_never:
  "\<not> grant_quota_exhausted s m r b now \<Longrightarrow> now \<le> u \<Longrightarrow> \<not> grant_quota_exhausted s m r b u"
  using exhausting_later [of now u s m r b] by (simp add: grant_quota_exhausted_def)

lemma cooling_until:
  "grant_cooling_down s u \<longleftrightarrow> (\<exists>t. Option.bind s cooldownUntil = Some t \<and> u < t)"
  by (auto simp: grant_cooling_down_def split: option.splits)

lemma recovering_entry:
  "(e, t) \<in> set (recovering (filter_grant_candidates c cands now)) \<longleftrightarrow>
     e \<in> set (configured c cands) \<and> admissible c now e \<and>
     (grant_cooling_down (sg_runtime e) now \<or> entry_exhausted c now e) \<and> recovery_at c now e = Some t"
  by (auto simp: filter_grant_candidates_def Let_def set_map_filter)

subsection \<open>Properties\<close>

text \<open>
  The announced recovery of a grant is exact: a grant reported as recovering at a time is not available
  now, and from now on it is cooling down or out of quota precisely until that time.
\<close>

theorem recovery_time_is_exact:
  assumes "(e, t) \<in> set (recovering (filter_grant_candidates c cands now))" and "0 \<le> now" and "now \<le> u"
  shows "e \<notin> set (available (filter_grant_candidates c cands now)) \<and> now < t \<and>
    ((grant_cooling_down (sg_runtime e) u \<or> entry_exhausted c u e) \<longleftrightarrow> u < t)"
proof -
  let ?cool = "grant_cooling_down (sg_runtime e)" and ?out = "\<lambda>u. entry_exhausted c u e"
  let ?reset = "grant_quota_reset_at (sg_runtime e) (fc_model c) (reserve_of c (sg_grant e))
    (g_kind (sg_grant e) = Some SubscriptionGrant) now"
  from assms(1) have blocked: "?cool now \<or> ?out now" and at: "recovery_at c now e = Some t"
    unfolding recovering_entry by auto
  define r where "r = (if ?out now then the ?reset else 0)"
  define till where "till = (if ?cool now then the (Option.bind (sg_runtime e) cooldownUntil) else 0)"
  have t: "t = max r till" and reset: "?out now \<Longrightarrow> ?reset = Some r"
    using at by (auto simp: recovery_at_def Let_def r_def till_def cooling_until split: if_splits option.splits)
  have out: "?out v \<longleftrightarrow> v < r" if "now \<le> v" for v
  proof (cases "?out now")
    case True
    from exhausted_until [OF reset [OF True] that] show ?thesis by (simp add: entry_exhausted_def)
  next
    case False
    with exhausted_never [OF False [unfolded entry_exhausted_def] that] that assms(2) show ?thesis
      by (simp add: r_def entry_exhausted_def)
  qed
  have cool: "?cool v \<longleftrightarrow> v < till" if "now \<le> v" for v
    using that assms(2) by (cases "Option.bind (sg_runtime e) cooldownUntil") (auto simp: cooling_until till_def)
  have "now < t" using blocked out [of now] cool [of now] t by auto
  moreover have "e \<notin> set (available (filter_grant_candidates c cands now))"
    using blocked by (auto simp: filter_grant_candidates_def Let_def)
  ultimately show ?thesis using out [OF assms(3)] cool [OF assms(3)] t by auto
qed

definition sample_grant :: upstream_grant where
  "sample_grant = \<lparr>minimaxSearchBinding = JNull, minimaxVideoBinding = JNull, minimaxImageBinding = JNull,
     vertexAnthropicBinding = JNull, minimaxAnthropicBinding = JNull, nativeMediaBinding = JNull, g_version = None,
     g_enabled = Some True, g_priority = None, g_weight = None, g_kind = Some SubscriptionGrant, g_provider = Some ''openai'',
     g_label = None, g_credential = JNull, g_credentials = JNull, g_accessToken = JNull, g_refreshToken = JNull,
     g_tokenType = None, g_expiresAt = None, g_refreshTokenExpiresAt = None, g_lastManualAuthorizationAt = None,
     g_scopes = [], g_accountId = None, g_subscription = JNull, g_maintenance = JNull, durableStore = True,
     credentialGeneration = Some 1, credentialLineage = None, credentialStatus = Some Active,
     credentialRefreshBlockedUntil = NoBlock, credentialProvenance = None, refreshDiagnosis = JNull,
     hasCredential = True, credentialFields = [], hasAccessToken = False, hasRefreshToken = False, g_refresh = JNull,
     createdAt = None, g_updatedAt = None, revokedAt = None\<rparr>"

definition sample_context :: filter_context where
  "sample_context = \<lparr>fc_provider = ''openai'', fc_excluded = [], fc_routing = default_grant_routing, fc_pinned = None,
     fc_model = None, fc_supports = (\<lambda>_. True), fc_vertex = (\<lambda>_. False), fc_private = False\<rparr>"

definition spent_state :: runtime_state where
  "spent_state = (blank_state 5 ProviderResponse [\<lparr>w_observedAt = Some 5, w_models = None, w_id = ''requests'',
     w_kind = Requests, w_unit = None, w_window = None, remaining = Some 0, limit = Some 10, resetAt = Some 900\<rparr>])"

theorem recovery_time_is_exact_witness:
  "\<exists>e. (e, 900) \<in> set (recovering (filter_grant_candidates sample_context [(''oauth/team/main'', Some sample_grant, Some spent_state)] 10)) \<and>
     entry_exhausted sample_context 899 e \<and> \<not> entry_exhausted sample_context 900 e \<and> \<not> grant_cooling_down (sg_runtime e) 900"
proof -
  let ?e = "\<lparr>sg_key = ''oauth/team/main'', sg_grant = sample_grant, sg_runtime = Some spent_state\<rparr>"
  let ?cs = "[(''oauth/team/main'', Some sample_grant, Some spent_state)]"
  have cool: "\<not> grant_cooling_down (Some spent_state) v" for v
    by (simp add: cooling_until spent_state_def blank_state_def)
  have ex: "exhausting_windows (Some spent_state) None 0 True 10 = windows spent_state"
    by (simp add: exhausting_windows_def spent_state_def blank_state_def window_applies_def live_def used_up_def)
  have e: "(?e, 900) \<in> set (recovering (filter_grant_candidates sample_context ?cs 10))"
    by (simp add: recovering_entry configured_def map_filter_simps sample_context_def sample_grant_def
        grant_credential_present_def admissible_def grant_refresh_blocked_def eligibility_restricted_def
        default_grant_routing_def entry_exhausted_def grant_quota_exhausted_def reserve_of_def recovery_at_def Let_def
        grant_quota_reset_at_def cool ex)
      (simp add: spent_state_def blank_state_def map_filter_simps maximum_def)
  from recovery_time_is_exact [OF e, of 899] recovery_time_is_exact [OF e, of 900] cool e show ?thesis
    by (intro exI [of _ ?e]) simp
qed


definition code_compare :: "string \<Rightarrow> string \<Rightarrow> int" where
  "code_compare a b = (if lex_less a b then -1 else if a = b then 0 else 1)"

lemma code_compare_collates: "collates code_compare ks"
proof -
  have "\<not> (lex_less a b \<and> lex_less b a)" for a b using lex_less_irrefl lex_less_trans by blast
  moreover have "lex_less a b \<or> lex_less b a \<or> a = b" for a b using lex_less_total by blast
  ultimately show ?thesis
    by (fastforce simp: collates_def code_compare_def lex_less_irrefl intro: lex_less_trans)
qed


text \<open>
  Round robin is fair when the keys are ordered the way the cursor compares them: after each
  candidate comes the next one, and after the last the first.
\<close>

theorem round_robin_cycles:
  assumes "sorted_wrt (\<lambda>a b. lex_less (cc_key a) (cc_key b)) cs" and "i < length cs"
    and "ci_strategy input = ''round_robin''" and "stickyHash input = None"
    and "cursorKey st = Some (cc_key (cs ! i))"
  shows "choose_grant_key lc random input cs st =
    (cc_key (cs ! (Suc i mod length cs)), Some (cc_key (cs ! (Suc i mod length cs))))"
proof -
  let ?p = "\<lambda>c. lex_less (cc_key (cs ! i)) (cc_key c)"
  have before: "\<not> ?p (cs ! j)" if "j \<le> i" for j
  proof (cases "j = i")
    case False
    with that assms(1,2) have "lex_less (cc_key (cs ! j)) (cc_key (cs ! i))"
      by (simp add: sorted_wrt_iff_nth_less)
    then show ?thesis using lex_less_irrefl lex_less_trans by blast
  qed (simp add: lex_less_irrefl)
  have after: "?p (cs ! j)" if "i < j" "j < length cs" for j
    using that assms(1) by (simp add: sorted_wrt_iff_nth_less)
  have rr: "choose_grant_key lc random input cs st =
      (let sel = (case find ?p cs of Some c \<Rightarrow> c | None \<Rightarrow> hd cs) in (cc_key sel, Some (cc_key sel)))"
    using assms(3-5) by (simp add: choose_grant_key_def strategies_def Let_def)
  show ?thesis
  proof (cases "Suc i < length cs")
    case True
    have "find ?p cs = Some (cs ! Suc i)"
      unfolding find_Some_iff using True before after by (intro exI [of _ "Suc i"]) auto
    with True show ?thesis by (simp add: rr Let_def)
  next
    case False
    then have last: "Suc i = length cs" using assms(2) by simp
    have "find ?p cs = None"
      unfolding find_None_iff using before last by (auto simp: in_set_conv_nth)
    moreover have "hd cs = cs ! 0" using assms(2) by (intro hd_conv_nth) auto
    ultimately show ?thesis using last by (simp add: rr Let_def)
  qed
qed

theorem round_robin_cycles_witness:
  "let a = \<lparr>cc_key = ''oauth/team/a'', cc_weight = 1, cc_ratio = None\<rparr>; b = \<lparr>cc_key = ''oauth/team/b'', cc_weight = 1, cc_ratio = None\<rparr>
   in choose_grant_key code_compare 0 \<lparr>ci_strategy = ''round_robin'', stickyHash = None, ci_switchAt = None, ci_hysteresis = None\<rparr>
        [a, b] \<lparr>cursorKey = Some ''oauth/team/a'', counts = []\<rparr> = (''oauth/team/b'', Some ''oauth/team/b'')"
  unfolding Let_def by (subst round_robin_cycles [where i = 0]) simp_all

text \<open>
  The candidates come sorted by \<open>localeCompare\<close>, while the cursor compares code units. Where
  the two disagree, as for \<open>a\<close> and \<open>B\<close>, round robin starves a candidate: with the
  order \<open>[a, B]\<close> both the first choice and every later one is \<open>a\<close>.
\<close>

lemma round_robin_starves:
  assumes "lc ''oauth/team/B'' ''oauth/team/a'' \<ge> 0" and "lc ''oauth/team/a'' ''oauth/team/B'' < 0"
    and "cursorKey st \<in> {None, Some ''oauth/team/a''}"
  shows "choose_grant_key lc random \<lparr>ci_strategy = ''round_robin'', stickyHash = None, ci_switchAt = None, ci_hysteresis = None\<rparr>
      (normalized_choice_candidates lc [(''oauth/team/B'', None, None), (''oauth/team/a'', None, None)]) st =
    (''oauth/team/a'', Some ''oauth/team/a'')"
proof -
  have cs: "normalized_choice_candidates lc [(''oauth/team/B'', None, None), (''oauth/team/a'', None, None)] =
      [\<lparr>cc_key = ''oauth/team/a'', cc_weight = 1, cc_ratio = None\<rparr>, \<lparr>cc_key = ''oauth/team/B'', cc_weight = 1, cc_ratio = None\<rparr>]"
    using assms(1,2) by (simp add: normalized_choice_candidates_def normalized_choice_def sort_by_def)
  show ?thesis unfolding cs using assms(3) by (auto simp: choose_grant_key_def strategies_def Let_def)
qed

text \<open>
  The threshold strategy does not flap: it leaves a measured current grant only when that grant's
  remaining share is at the switching point, for a grant above that point and better by the
  hysteresis; an unmeasured current grant stays.
\<close>

theorem threshold_does_not_flap:
  assumes "find (\<lambda>c. Some (cc_key c) = current) cs = Some cur"
    and "select_threshold_grant_key lc cs current switchAt hyst = k" and "k \<noteq> cc_key cur"
  shows "\<exists>r d q. cc_ratio cur = Some r \<and> r \<le> 1 - percent_or switchAt 90 / 100 + epsilon \<and> d \<in> set cs \<and> cc_key d = k \<and>
    cc_ratio d = Some q \<and> 1 - percent_or switchAt 90 / 100 + epsilon < q \<and> r + percent_or hyst 10 / 100 \<le> q + epsilon"
proof -
  note sel = assms(2) [unfolded select_threshold_grant_key_def Let_def assms(1) option.case]
  from sel assms(3) obtain r where r: "cc_ratio cur = Some r" by (cases "cc_ratio cur") simp_all
  let ?ok = "\<lambda>c. cc_key c \<noteq> cc_key cur \<and> (case cc_ratio c of None \<Rightarrow> False
    | Some q \<Rightarrow> q > 1 - percent_or switchAt 90 / 100 + epsilon \<and> q + epsilon \<ge> r + percent_or hyst 10 / 100)"
  note sel = sel [unfolded r option.case]
  from sel assms(3) have low: "\<not> r > 1 - percent_or switchAt 90 / 100 + epsilon" by (cases "1 - percent_or switchAt 90 / 100 + epsilon < r") simp_all
  with sel have pick: "(case sort_by (most_remaining_before lc) (filter ?ok cs) of [] \<Rightarrow> cc_key cur | c # _ \<Rightarrow> cc_key c) = k"
    by (simp only: if_False)
  obtain d ds where d: "sort_by (most_remaining_before lc) (filter ?ok cs) = d # ds" "cc_key d = k"
    using pick assms(3) by (cases "sort_by (most_remaining_before lc) (filter ?ok cs)") simp_all
  have "set (d # ds) = set (filter ?ok cs)" unfolding d(1) [symmetric] by (rule set_sort_by)
  then have "d \<in> set (filter ?ok cs)" by (rule subst) simp
  then have "d \<in> set cs" "case cc_ratio d of None \<Rightarrow> False
    | Some q \<Rightarrow> q > 1 - percent_or switchAt 90 / 100 + epsilon \<and> q + epsilon \<ge> r + percent_or hyst 10 / 100" by simp_all
  with d(2) r low show ?thesis by (cases "cc_ratio d") (simp, force simp: not_less)
qed

theorem threshold_does_not_flap_witness:
  "\<exists>r. cc_ratio \<lparr>cc_key = ''k1'', cc_weight = 1, cc_ratio = Some (1 / 20)\<rparr> = Some r \<and> r \<le> 1 - 90 / 100 + epsilon"
proof -
  let ?a = "\<lparr>cc_key = ''k1'', cc_weight = 1, cc_ratio = Some (1 / 20)\<rparr>" and ?b = "\<lparr>cc_key = ''k2'', cc_weight = 1, cc_ratio = Some (1 / 2)\<rparr>"
  have "select_threshold_grant_key code_compare [?a, ?b] (Some ''k1'') 90 10 = ''k2''"
    by (simp add: select_threshold_grant_key_def epsilon_def sort_by_def percent_or_def)
  from threshold_does_not_flap [OF _ this, of ?a] show ?thesis by (auto simp: percent_or_def)
qed

end
