(* ===== verification/Json_Access.thy ===== *)
theory Json_Access
  imports Grant_Quota
begin

section \<open>Reading JSON values\<close>

text \<open>
  What the worker's readers share: a property that may be absent (\<^term>\<open>None\<close>, the JavaScript
  \<open>undefined\<close>), nullish coalescing, object and array tests, and the ProtoJSON conventions of
  \<open>google-protocol.ts\<close>. The members of a \<^term>\<open>JObj\<close> are the own properties of the parsed
  object in order, one per name, as \<open>JSON.parse\<close> builds it.
\<close>

subsection \<open>Properties\<close>

definition get :: "string \<Rightarrow> json option \<Rightarrow> json option" where
  "get k j = (case j of None \<Rightarrow> None | Some v \<Rightarrow> member k v)"

definition has :: "string \<Rightarrow> json \<Rightarrow> bool" where
  "has k j \<longleftrightarrow> member k j \<noteq> None"

definition nullish :: "json option \<Rightarrow> bool" where
  "nullish j \<longleftrightarrow> j = None \<or> j = Some JNull"

definition coalesce :: "json option \<Rightarrow> json option \<Rightarrow> json option" where
  "coalesce a b = (if nullish a then b else a)"

fun is_object :: "json option \<Rightarrow> bool" where
  "is_object (Some (JObj _)) = True"
| "is_object _ = False"

text \<open>\<open>record\<close>: the value when it is an object, absent otherwise.\<close>

definition as_record :: "json option \<Rightarrow> json option" where
  "as_record j = (if is_object j then j else None)"

fun entries :: "json \<Rightarrow> (string \<times> json) list" where
  "entries (JObj kvs) = kvs"
| "entries _ = []"

fun elements :: "json option \<Rightarrow> json list" where
  "elements (Some (JArr xs)) = xs"
| "elements _ = []"

fun is_array :: "json option \<Rightarrow> bool" where
  "is_array (Some (JArr _)) = True"
| "is_array _ = False"

fun text_of :: "json option \<Rightarrow> string option" where
  "text_of (Some (JStr s)) = Some s"
| "text_of _ = None"

definition text_is :: "json option \<Rightarrow> string \<Rightarrow> bool" where
  "text_is j s \<longleftrightarrow> j = Some (JStr s)"

definition text_in :: "json option \<Rightarrow> string list \<Rightarrow> bool" where
  "text_in j xs \<longleftrightarrow> (case text_of j of None \<Rightarrow> False | Some s \<Rightarrow> s \<in> set xs)"

fun truthy :: "json option \<Rightarrow> bool" where
  "truthy None = False"
| "truthy (Some JNull) = False"
| "truthy (Some (JBool b)) = b"
| "truthy (Some (JNum q)) = (q \<noteq> 0)"
| "truthy (Some (JStr s)) = (s \<noteq> [])"
| "truthy (Some (JArr _)) = True"
| "truthy (Some (JObj _)) = True"

text \<open>\<open>Number.isSafeInteger(value) && value >= 0\<close>, the counter it accepts.\<close>

definition safe_count :: "json option \<Rightarrow> int option" where
  "safe_count j = (case j of None \<Rightarrow> None | Some v \<Rightarrow>
     (case safe_integer v of None \<Rightarrow> None | Some n \<Rightarrow> if 0 \<le> n then Some n else None))"

lemma as_record_simps [simp]:
  "as_record None = None" "as_record (Some (JObj kvs)) = Some (JObj kvs)"
  "as_record (Some JNull) = None" "as_record (Some (JArr xs)) = None"
  "as_record (Some (JStr s)) = None" "as_record (Some (JNum r)) = None" "as_record (Some (JBool b)) = None"
  by (simp_all add: as_record_def)

lemma as_record_Some: "as_record j = Some v \<longleftrightarrow> j = Some v \<and> is_object (Some v)"
  by (auto simp: as_record_def split: if_splits)

lemma get_simps [simp]: "get k None = None" "get k (Some v) = member k v"
  by (simp_all add: get_def)

lemma safe_count_Some: "safe_count j = Some n \<longleftrightarrow> j = Some (JNum (of_int n)) \<and> 0 \<le> n \<and> safe_int n"
  by (auto simp: safe_count_def safe_integer_Some split: option.splits if_splits)

lemma safe_count_bounds: "safe_count j = Some n \<Longrightarrow> 0 \<le> n \<and> n \<le> max_safe_integer"
  by (auto simp: safe_count_Some safe_int_def)

subsection \<open>ProtoJSON\<close>

text \<open>Of two spellings of a field the last one written counts.\<close>

definition google_field :: "json option \<Rightarrow> string \<Rightarrow> string \<Rightarrow> json option" where
  "google_field j camel proto = (case j of None \<Rightarrow> None | Some v \<Rightarrow>
     fold (\<lambda>(k, field) found. if k = camel \<or> k = proto then Some field else found) (entries v) None)"

definition strip_sign :: "string \<Rightarrow> int \<times> string" where
  "strip_sign s = (case s of c # r \<Rightarrow> if c = CHR ''-'' then (-1, r) else if c = CHR ''+'' then (1, r) else (1, s)
     | [] \<Rightarrow> (1, []))"

definition exponent :: "string \<Rightarrow> int option" where
  "exponent s = (let (g, ds) = strip_sign s in
     if ds \<noteq> [] \<and> list_all is_digit ds then Some (g * int (digits_value ds)) else None)"

text \<open>
  The pattern \<^verbatim>\<open>^[+-]?(?:\d+(?:\.\d*)?|\.\d+)(?:e[+-]?\d+)?$\<close> with the number it denotes: whole
  digits, an optional fraction (one of the two non-empty) and an optional exponent.
\<close>

definition scientific :: "string \<Rightarrow> rat option" where
  "scientific s =
     (let (g, r) = strip_sign s;
          whole = takeWhile is_digit r; r1 = dropWhile is_digit r;
          dot = (case r1 of c # _ \<Rightarrow> c = CHR ''.'' | [] \<Rightarrow> False);
          frac = (if dot then takeWhile is_digit (tl r1) else []);
          r2 = (if dot then dropWhile is_digit (tl r1) else r1);
          mantissa = of_nat (digits_value (whole @ frac)) / 10 ^ length frac
      in if whole = [] \<and> frac = [] then None
         else case r2 of
             [] \<Rightarrow> Some (of_int g * mantissa)
           | c # e \<Rightarrow> if c = CHR ''e'' \<or> c = CHR ''E''
               then (case exponent e of None \<Rightarrow> None
                 | Some n \<Rightarrow> Some (of_int g * mantissa * (if 0 \<le> n then 10 ^ nat n else inverse (10 ^ nat (- n)))))
               else None)"

definition int32 :: "rat \<Rightarrow> int option" where
  "int32 q = (if of_int \<lfloor>q\<rfloor> = q \<and> 0 \<le> q \<and> q \<le> 2147483647 then Some \<lfloor>q\<rfloor> else None)"

fun google_int32 :: "json option \<Rightarrow> int option" where
  "google_int32 (Some (JNum q)) = int32 q"
| "google_int32 (Some (JStr s)) = (case scientific s of None \<Rightarrow> None | Some q \<Rightarrow> int32 q)"
| "google_int32 _ = None"

lemma int32_bounds: "int32 q = Some n \<Longrightarrow> 0 \<le> n \<and> n \<le> 2147483647"
proof -
  assume a: "int32 q = Some n"
  then have n: "n = \<lfloor>q\<rfloor>" "of_int \<lfloor>q\<rfloor> = q" "0 \<le> q" "q \<le> 2147483647" by (auto simp: int32_def split: if_splits)
  then show ?thesis by (simp add: floor_le_iff)
qed

lemma google_int32_bounds: "google_int32 j = Some n \<Longrightarrow> 0 \<le> n \<and> n \<le> 2147483647"
  by (induction j rule: google_int32.induct) (auto split: option.splits dest: int32_bounds)

fun google_service_tier :: "json option \<Rightarrow> string option" where
  "google_service_tier (Some (JStr s)) =
     (if s = ''unspecified'' then Some ''standard''
      else if s \<in> {''standard'', ''flex'', ''priority''} then Some s else None)"
| "google_service_tier _ = None"

definition google_request_service_tier :: "json option \<Rightarrow> string option" where
  "google_request_service_tier body =
     (let v = google_field body ''serviceTier'' ''service_tier''
      in if nullish v then Some ''standard'' else google_service_tier v)"

text \<open>
  The tier a response was served at: the usage metadata's tier may be absent or explicitly
  invalid (\<^term>\<open>Some None\<close>), the header may be absent; bad or conflicting evidence gives none.
\<close>

definition google_response_service_tier :: "string option \<Rightarrow> string option option \<Rightarrow> string option \<Rightarrow> string option" where
  "google_response_service_tier requested usage header =
     (let metadata = map_option (\<lambda>u. google_service_tier (map_option JStr u)) usage;
          head = map_option (\<lambda>h. google_service_tier (Some (JStr h))) header
      in if metadata = Some None \<or> head = Some None then None
         else if metadata \<noteq> None \<and> head \<noteq> None \<and> metadata \<noteq> head then None
         else case head of Some t \<Rightarrow> t
           | None \<Rightarrow> (case metadata of Some t \<Rightarrow> t
             | None \<Rightarrow> if requested = Some ''standard'' \<or> requested = Some ''flex'' then requested else None))"

end
