(* ===== verification/Token_Usage.thy ===== *)
theory Token_Usage
  imports Json_Access
begin

section \<open>Token usage of provider responses\<close>

text \<open>
  \<open>worker/token-usage.ts\<close>: the counters read from a response document, the outcome of a
  document, the splitting of an event stream into frames and the accumulator that derives tokens and
  outcome from the frames. \<open>JSON.parse\<close> and \<open>TextDecoder.decode\<close> are arguments, so that
  the results hold for every decoder.
\<close>

subsection \<open>Counters\<close>

record modifiers =
  m_speed :: "string option option"
  m_geo :: "string option option"
  m_tier :: "string option option"

text \<open>
  Optional members of \<open>UsageTokens\<close> that may also be null are options of options: absent is
  \<^term>\<open>None\<close>, null is \<^term>\<open>Some None\<close>.
\<close>

record usage_tokens =
  reasoning :: "int option option"
  web_searches :: "int option option"
  image_tokens :: "(int \<times> int \<times> int) option"
  service_tier :: "string option option"
  anthropic :: "modifiers option"
  input_tokens :: "int option"
  output_tokens :: "int option"
  total_tokens :: "int option"
  cached_tokens :: "int option"
  cache_write :: "int option"
  cache_write5m :: "int option"
  cache_write1h :: "int option"
  unbilled :: bool
  billed_tokens :: "(int option \<times> int option) option"

record token_context =
  cx_provider :: string
  cx_request_format :: string
  cx_response_format :: string

text \<open>\<open>numeric\<close>: a non-negative number, rounded down.\<close>

fun numeric :: "json option \<Rightarrow> int option" where
  "numeric (Some (JNum q)) = (if 0 \<le> q then Some \<lfloor>q\<rfloor> else None)"
| "numeric _ = None"

fun pick_number :: "json option \<Rightarrow> string list \<Rightarrow> int option" where
  "pick_number j [] = None"
| "pick_number j (k # ks) = (case numeric (get k j) of Some n \<Rightarrow> Some n | None \<Rightarrow> pick_number j ks)"

definition usage_subset :: "json option \<Rightarrow> int option \<Rightarrow> int option" where
  "usage_subset j inclusive = (case (safe_count j, inclusive) of
     (Some n, Some m) \<Rightarrow> if n \<le> m then Some n else None | _ \<Rightarrow> None)"

definition search_requests :: "json option \<Rightarrow> int option" where
  "search_requests j = safe_count j"

definition modifier_value :: "json option \<Rightarrow> string option option" where
  "modifier_value j = (case j of
     None \<Rightarrow> None
   | Some JNull \<Rightarrow> Some None
   | Some (JStr s) \<Rightarrow> Some (Some (if utf16_length s \<le> 64 then s else ''invalid''))
   | Some _ \<Rightarrow> Some (Some ''invalid''))"

definition anthropic_modifiers :: "json option \<Rightarrow> modifiers" where
  "anthropic_modifiers usage = \<lparr>m_speed = modifier_value (get ''speed'' usage),
     m_geo = modifier_value (get ''inference_geo'' usage), m_tier = modifier_value (get ''service_tier'' usage)\<rparr>"

definition no_modifiers :: modifiers where
  "no_modifiers = \<lparr>m_speed = None, m_geo = None, m_tier = None\<rparr>"

definition tier_name :: "string \<Rightarrow> bool" where
  "tier_name s \<longleftrightarrow> (case s of [] \<Rightarrow> False | c # r \<Rightarrow>
     97 \<le> (of_char c :: nat) \<and> (of_char c :: nat) \<le> 122 \<and> length r \<le> 63 \<and>
     list_all (\<lambda>c. is_digit c \<or> 97 \<le> (of_char c :: nat) \<and> (of_char c :: nat) \<le> 122 \<or> c = CHR ''_'' \<or> c = CHR ''-'') r)"

definition extract_service_tier :: "json option \<Rightarrow> string option" where
  "extract_service_tier doc = (case text_of (get ''service_tier'' doc) of
     Some s \<Rightarrow> if tier_name s then Some s else None | None \<Rightarrow> None)"

definition usage_record :: "json option \<Rightarrow> json option" where
  "usage_record doc = as_record (coalesce (get ''usage'' doc)
     (coalesce (get ''usage'' (as_record (get ''response'' doc)))
       (coalesce (get ''usage'' (as_record (get ''message'' doc))) (get ''meta'' doc))))"

definition cohere_usage_tokens :: "json option \<Rightarrow> usage_tokens" where
  "cohere_usage_tokens usage =
     (let observed = as_record (get ''tokens'' usage); billed = as_record (get ''billed_units'' usage);
          inp = safe_count (get ''input_tokens'' observed); outp = safe_count (get ''output_tokens'' observed);
          tot = (case (inp, outp) of (Some a, Some b) \<Rightarrow> if safe_int (a + b) then Some (a + b) else None | _ \<Rightarrow> None)
      in \<lparr>reasoning = None, web_searches = None, image_tokens = None, service_tier = None, anthropic = None,
          input_tokens = inp, output_tokens = outp, total_tokens = tot, cached_tokens = None,
          cache_write = None, cache_write5m = None, cache_write1h = None, unbilled = False,
          billed_tokens = Some (safe_count (get ''input_tokens'' billed), safe_count (get ''output_tokens'' billed))\<rparr>)"

definition stepfun_chat :: "token_context option \<Rightarrow> bool" where
  "stepfun_chat ctx = (case ctx of None \<Rightarrow> False | Some c \<Rightarrow>
     (cx_provider c = ''stepfun'' \<or> cx_provider c = ''stepfun-cn'') \<and>
     cx_request_format c = ''openai.chat_completions'' \<and> cx_response_format c = ''openai.chat_completions'')"

text \<open>
  Cache hits inside an inclusive prompt count: every reported spelling must agree, fit the
  prompt, and match a reported miss count; otherwise no discount is established.
\<close>

definition cache_hits :: "json option \<Rightarrow> json option \<Rightarrow> token_context option \<Rightarrow> json list" where
  "cache_hits usage details ctx = List.map_filter (\<lambda>j. j)
     ([get ''cached_tokens'' details, get ''cache_read_input_tokens'' details, get ''prompt_cache_hit_tokens'' usage]
      @ (if stepfun_chat ctx then [get ''cached_tokens'' usage] else []))"

definition prompt_cached_tokens ::
    "json option \<Rightarrow> json option \<Rightarrow> int option \<Rightarrow> token_context option \<Rightarrow> int option" where
  "prompt_cached_tokens usage details inp ctx =
     (case (inp, cache_hits usage details ctx) of
        (Some n, h # hs) \<Rightarrow>
          (if safe_count (get ''prompt_tokens'' usage) \<noteq> Some n then None
           else case safe_count (Some h) of
               None \<Rightarrow> None
             | Some hit \<Rightarrow>
                 if n < hit \<or> \<not> list_all (\<lambda>x. x = h) hs then None
                 else case get ''prompt_cache_miss_tokens'' usage of
                     None \<Rightarrow> Some hit
                   | miss \<Rightarrow> if safe_count miss = Some (n - hit) then Some hit else None)
      | _ \<Rightarrow> None)"

definition google_counter :: "json option \<Rightarrow> string \<Rightarrow> string \<Rightarrow> int option" where
  "google_counter j camel proto = google_int32 (coalesce (google_field j camel proto) (Some (JNum 0)))"

definition google_usage_tokens :: "json option \<Rightarrow> usage_tokens option" where
  "google_usage_tokens value = (if \<not> is_object value then None else
     case (google_counter value ''promptTokenCount'' ''prompt_token_count'',
           google_counter value ''cachedContentTokenCount'' ''cached_content_token_count'',
           google_counter value ''candidatesTokenCount'' ''candidates_token_count'',
           google_counter value ''thoughtsTokenCount'' ''thoughts_token_count'',
           google_counter value ''totalTokenCount'' ''total_token_count'') of
       (Some inp, Some cached, Some candidates, Some thoughts, Some tot) \<Rightarrow>
         (let tier = google_field value ''serviceTier'' ''service_tier''
          in Some \<lparr>reasoning = Some (Some thoughts), web_searches = None, image_tokens = None,
             service_tier = (if nullish tier then None else Some (google_service_tier tier)), anthropic = None,
             input_tokens = Some inp, output_tokens = Some (candidates + thoughts), total_tokens = Some tot,
             cached_tokens = Some cached, cache_write = None, cache_write5m = None, cache_write1h = None,
             unbilled = False, billed_tokens = None\<rparr>)
     | _ \<Rightarrow> None)"

definition or_zero :: "int option \<Rightarrow> int" where
  "or_zero x = (case x of None \<Rightarrow> 0 | Some n \<Rightarrow> n)"

definition orelse :: "'a option \<Rightarrow> 'a option \<Rightarrow> 'a option" where
  "orelse x y = (case x of None \<Rightarrow> y | Some v \<Rightarrow> Some v)"

definition either_sum :: "int option \<Rightarrow> int option \<Rightarrow> int option" where
  "either_sum x y = (if x \<noteq> None \<or> y \<noteq> None then Some (or_zero x + or_zero y) else None)"

text \<open>The body of \<open>extractUsageTokens\<close> once the usage object is found.\<close>

definition ordinary_usage_tokens :: "json option \<Rightarrow> json option \<Rightarrow> token_context option \<Rightarrow> usage_tokens" where
  "ordinary_usage_tokens doc usage ctx =
     (let reported = pick_number usage [''input_tokens'', ''prompt_tokens'', ''inputTokens''];
          outp = pick_number usage [''output_tokens'', ''completion_tokens'', ''outputTokens''];
          details = as_record (coalesce (get ''prompt_tokens_details'' usage) (get ''input_tokens_details'' usage));
          outputDetails = as_record (coalesce (get ''output_tokens_details'' usage) (get ''completion_tokens_details'' usage));
          inclusive = get ''prompt_tokens'' usage \<noteq> None;
          cached = (if inclusive then prompt_cached_tokens usage details reported ctx
            else if details \<noteq> None then pick_number details [''cached_tokens'', ''cache_read_input_tokens'']
            else pick_number usage [''cache_read_input_tokens'']);
          creation = as_record (get ''cache_creation'' usage);
          w5 = (if creation \<noteq> None then pick_number creation [''ephemeral_5m_input_tokens'']
            else pick_number usage [''cache_creation_ephemeral_5m_input_tokens'']);
          w1 = (if creation \<noteq> None then pick_number creation [''ephemeral_1h_input_tokens'']
            else pick_number usage [''cache_creation_ephemeral_1h_input_tokens'']);
          write = orelse (orelse (if details \<noteq> None then pick_number details [''cache_write_tokens''] else None)
            (pick_number usage [''cache_creation_input_tokens''])) (either_sum w5 w1);
          inp = map_option (\<lambda>n. n + (if details \<noteq> None \<or> inclusive then 0 else or_zero cached + or_zero write)) reported;
          mods = anthropic_modifiers usage
      in \<lparr>reasoning = map_option (\<lambda>v. usage_subset (Some v) outp) (get ''reasoning_tokens'' outputDetails),
          web_searches = (if text_is (get ''type'' doc) ''message'' \<and> get ''server_tool_use'' usage \<noteq> None
            then Some (search_requests (get ''web_search_requests'' (as_record (get ''server_tool_use'' usage)))) else None),
          image_tokens = None,
          service_tier = (case m_tier mods of Some t \<Rightarrow> Some t
            | None \<Rightarrow> map_option Some (extract_service_tier (orelse (as_record (get ''response'' doc)) doc))),
          anthropic = (if mods = no_modifiers then None else Some mods),
          input_tokens = inp, output_tokens = outp,
          total_tokens = orelse (pick_number usage [''total_tokens'', ''totalTokens'']) (either_sum inp outp),
          cached_tokens = cached, cache_write = write, cache_write5m = w5, cache_write1h = w1,
          unbilled = (text_is (get ''type'' doc) ''message'' \<and> text_is (get ''stop_reason'' doc) ''refusal'' \<and>
            get ''content'' doc = Some (JArr []) \<and> outp = Some 0),
          billed_tokens = None\<rparr>)"

definition extract_usage_tokens :: "json option \<Rightarrow> token_context option \<Rightarrow> usage_tokens option" where
  "extract_usage_tokens value ctx =
     (let doc = as_record value
      in if get ''usageMetadata'' doc \<noteq> None \<or> get ''usage_metadata'' doc \<noteq> None
         then google_usage_tokens (google_field doc ''usageMetadata'' ''usage_metadata'')
         else let usage = (if text_is (get ''type'' doc) ''message-end''
                then as_record (get ''usage'' (as_record (get ''delta'' doc))) else usage_record doc)
              in if get ''tokens'' usage \<noteq> None \<or> get ''billed_units'' usage \<noteq> None then Some (cohere_usage_tokens usage)
                 else if usage = None then None
                 else Some (ordinary_usage_tokens doc usage ctx))"

subsection \<open>Outcome of a document\<close>

datatype response_outcome = Success | ProviderError

definition response_outcome_of :: "json option \<Rightarrow> response_outcome option" where
  "response_outcome_of value =
     (let doc = as_record value; ty = get ''type'' doc
      in if doc = None then None
         else if truthy (get ''error'' doc) \<or> text_in ty [''error'', ''response.failed'', ''response.cancelled''] then Some ProviderError
         else if text_is ty ''message-end'' then
           Some (if text_in (get ''finish_reason'' (as_record (get ''delta'' doc))) [''COMPLETE'', ''STOP_SEQUENCE'', ''MAX_TOKENS'', ''TOOL_CALL'']
             then Success else ProviderError)
         else if text_in ty [''response.completed'', ''response.incomplete''] then Some Success
         else let response = orelse (as_record (get ''response'' doc))
                    (if text_is (get ''object'' doc) ''response'' then doc else None);
                  status = get ''status'' response
              in if text_in status [''failed'', ''cancelled''] then Some ProviderError
                 else if text_in status [''completed'', ''incomplete''] then Some Success else None)"

record responses_observation =
  ob_id :: string
  ob_status :: string
  ob_terminal :: bool
  ob_tokens :: "usage_tokens option"

definition response_statuses :: "string list" where
  "response_statuses = [''queued'', ''in_progress'', ''completed'', ''incomplete'', ''failed'', ''cancelled'']"

definition responses_observation_of :: "json option \<Rightarrow> responses_observation option" where
  "responses_observation_of value =
     (let doc = as_record value;
          event = (case text_of (get ''type'' doc) of
            Some s \<Rightarrow> if starts_with ''response.'' s then Some (drop 9 s) else None | None \<Rightarrow> None);
          response = (if event \<noteq> None \<and> event \<noteq> Some [] then as_record (get ''response'' doc)
            else if text_is (get ''object'' doc) ''response'' then doc else None)
      in case (text_of (get ''id'' response), text_of (get ''status'' response)) of
           (Some i, Some st) \<Rightarrow>
             if i = [] \<or> 256 < length i \<or> st \<notin> set response_statuses then None
             else if (case event of Some e \<Rightarrow> e \<in> set response_statuses \<and> e \<noteq> st | None \<Rightarrow> False) then None
             else Some \<lparr>ob_id = i, ob_status = st, ob_terminal = (st \<noteq> ''queued'' \<and> st \<noteq> ''in_progress''),
               ob_tokens = extract_usage_tokens doc None\<rparr>
         | _ \<Rightarrow> None)"

subsection \<open>Frames of an event stream\<close>

text \<open>
  \<open>createSseFrames\<close>: bytes are appended line by line to a bounded buffer; a blank line
  hands the buffered text to the consumer, \<^term>\<open>None\<close> when the frame did not fit. The bytes of
  the current line that the running \<open>push\<close> has not appended yet are its local slice.
\<close>

definition usage_inspection_limit :: nat where
  "usage_inspection_limit = 2097152"

record sse_frames =
  fr_buffer :: string
  fr_line :: nat
  fr_overflow :: bool
  fr_skip_lf :: bool

definition new_frames :: sse_frames where
  "new_frames = \<lparr>fr_buffer = [], fr_line = 0, fr_overflow = False, fr_skip_lf = False\<rparr>"

definition append_bytes :: "nat \<Rightarrow> string \<Rightarrow> sse_frames \<Rightarrow> sse_frames" where
  "append_bytes cap bs s =
     (if fr_overflow s then s
      else if cap < length (fr_buffer s) + length bs then s\<lparr>fr_overflow := True, fr_buffer := []\<rparr>
      else s\<lparr>fr_buffer := fr_buffer s @ bs\<rparr>)"

definition frame_out :: "(string \<Rightarrow> string option) \<Rightarrow> sse_frames \<Rightarrow> string option" where
  "frame_out decode s = (if fr_overflow s then None else decode (fr_buffer s))"

definition line_feed :: char where "line_feed = CHR 0x0A"
definition carriage_return :: char where "carriage_return = CHR 0x0D"

text \<open>
  A line end: the rest of the line is appended, a blank line hands out the frame and empties the
  buffer, any other line is ended by LF.
\<close>

definition end_line :: "(string \<Rightarrow> string option) \<Rightarrow> nat \<Rightarrow> string \<Rightarrow> char \<Rightarrow> sse_frames \<Rightarrow> sse_frames \<times> string option list" where
  "end_line decode cap slice b s =
     (let s1 = append_bytes cap slice s;
          blank = (fr_line s1 + length slice = 0);
          s2 = (if blank then s1\<lparr>fr_buffer := [], fr_overflow := False\<rparr> else append_bytes cap [line_feed] s1)
      in (s2\<lparr>fr_line := 0, fr_skip_lf := (b = carriage_return)\<rparr>, if blank then [frame_out decode s1] else []))"

text \<open>
  The loop of \<open>push\<close>: \<open>slice\<close> is \<open>bytes.subarray(start, index)\<close>, the result is the
  new state with the frames handed out, in order.
\<close>

fun push_loop ::
    "(string \<Rightarrow> string option) \<Rightarrow> nat \<Rightarrow> string \<Rightarrow> string \<Rightarrow> sse_frames \<Rightarrow> sse_frames \<times> string option list" where
  "push_loop decode cap slice [] s =
     (let s' = append_bytes cap slice s in (s'\<lparr>fr_line := fr_line s' + length slice\<rparr>, []))"
| "push_loop decode cap slice (b # bs) s =
     (if fr_skip_lf s \<and> b = line_feed then push_loop decode cap [] bs (s\<lparr>fr_skip_lf := False\<rparr>)
      else if b \<noteq> line_feed \<and> b \<noteq> carriage_return then push_loop decode cap (slice @ [b]) bs (s\<lparr>fr_skip_lf := False\<rparr>)
      else let (s2, out1) = end_line decode cap slice b (s\<lparr>fr_skip_lf := False\<rparr>);
               (s3, out2) = push_loop decode cap [] bs s2
           in (s3, out1 @ out2))"

definition push :: "(string \<Rightarrow> string option) \<Rightarrow> nat \<Rightarrow> string \<Rightarrow> sse_frames \<Rightarrow> sse_frames \<times> string option list" where
  "push decode cap bs s = push_loop decode cap [] bs s"

definition pending_frame :: "(string \<Rightarrow> string option) \<Rightarrow> sse_frames \<Rightarrow> string option" where
  "pending_frame decode s = frame_out decode s"

text \<open>Pushing chunk after chunk, as the reader of a body does.\<close>

fun push_chunks ::
    "(string \<Rightarrow> string option) \<Rightarrow> nat \<Rightarrow> string list \<Rightarrow> sse_frames \<Rightarrow> sse_frames \<times> string option list" where
  "push_chunks decode cap [] s = (s, [])"
| "push_chunks decode cap (c # cs) s =
     (let (s1, out1) = push decode cap c s; (s2, out2) = push_chunks decode cap cs s1 in (s2, out1 @ out2))"

text \<open>
  The reference reading of a stream: line ends are LF, CR or CRLF; the lines before a blank line
  are a frame, each ended by LF, and a frame longer than the cap is unavailable.
\<close>

fun split_lines :: "string \<Rightarrow> string \<Rightarrow> string list" where
  "split_lines l [] = []"
| "split_lines l (b # bs) =
     (if b = line_feed then l # split_lines [] bs
      else if b = carriage_return then
        l # (case bs of c # cs \<Rightarrow> if c = line_feed then split_lines [] cs else split_lines [] bs | [] \<Rightarrow> split_lines [] bs)
      else split_lines (l @ [b]) bs)"

definition frame_text :: "string list \<Rightarrow> string" where
  "frame_text ls = concat (map (\<lambda>l. l @ [line_feed]) ls)"

definition frame_of :: "(string \<Rightarrow> string option) \<Rightarrow> nat \<Rightarrow> string list \<Rightarrow> string option" where
  "frame_of decode cap ls = (let t = frame_text ls in if cap < length t then None else decode t)"

fun frames_of :: "(string \<Rightarrow> string option) \<Rightarrow> nat \<Rightarrow> string list \<Rightarrow> string list \<Rightarrow> string option list" where
  "frames_of decode cap ls [] = []"
| "frames_of decode cap ls (l # rest) =
     (if l = [] then frame_of decode cap ls # frames_of decode cap [] rest else frames_of decode cap (ls @ [l]) rest)"

subsection \<open>Evidence from the frames of a stream\<close>

datatype sse_evidence = DataEv json | DoneEv | ErrorEv "json option" | InvalidEv | UnavailableEv

datatype stream_protocol = MessageProtocol | ResponseProtocol | ChatProtocol | CohereProtocol

text \<open>
  The accounting state of one stream. \<open>ac_revoking\<close> says that the caller passed a callback to
  revoke a provisional rejection, \<open>ac_revoked\<close> that it has been called.
\<close>

record accumulator =
  ac_revoking :: bool
  ac_revoked :: bool
  ac_provisional :: bool
  ac_found :: "usage_tokens option"
  ac_terminal :: "usage_tokens option"
  ac_message :: "json option"
  ac_usage :: "json option"
  ac_delta_seen :: bool
  ac_uncertain :: bool
  ac_protocol :: "stream_protocol option"
  ac_outcome :: "response_outcome option"
  ac_chat_tier :: "string option"

definition new_accumulator :: "bool \<Rightarrow> accumulator" where
  "new_accumulator revoking = \<lparr>ac_revoking = revoking, ac_revoked = False, ac_provisional = revoking, ac_found = None,
     ac_terminal = None, ac_message = None, ac_usage = None, ac_delta_seen = False, ac_uncertain = False,
     ac_protocol = None, ac_outcome = None, ac_chat_tier = None\<rparr>"

definition assign :: "string \<Rightarrow> json \<Rightarrow> json \<Rightarrow> json" where
  "assign k v obj = JObj (upsert k v (entries obj))"

definition without_key :: "string \<Rightarrow> json \<Rightarrow> json" where
  "without_key k obj = JObj (filter (\<lambda>kv. fst kv \<noteq> k) (entries obj))"

definition assign_all :: "(string \<times> json) list \<Rightarrow> json \<Rightarrow> json" where
  "assign_all kvs obj = fold (\<lambda>(k, v). assign k v) kvs obj"

fun evidence_root :: "sse_evidence \<Rightarrow> json option" where
  "evidence_root (DataEv v) = as_record (Some v)"
| "evidence_root (ErrorEv v) = as_record v"
| "evidence_root _ = None"

definition has_output :: "json option \<Rightarrow> bool" where
  "has_output j = (case j of Some (JArr xs) \<Rightarrow> xs \<noteq> [] | _ \<Rightarrow> \<not> nullish j)"

definition rejection_only_evidence :: "sse_evidence \<Rightarrow> token_context option \<Rightarrow> bool" where
  "rejection_only_evidence e ctx =
     (let doc = evidence_root e
      in if doc \<noteq> None \<and> (extract_usage_tokens doc ctx \<noteq> None \<or> has_output (get ''output'' doc) \<or>
              has_output (get ''output'' (as_record (get ''response'' doc)))) then False
         else (case e of ErrorEv _ \<Rightarrow> True | _ \<Rightarrow> False) \<or> e = DoneEv \<or> text_is (get ''type'' doc) ''message_stop'' \<or>
           response_outcome_of doc = Some ProviderError)"

definition counter_keys :: "string list" where
  "counter_keys = [''input_tokens'', ''output_tokens'', ''cache_read_input_tokens'', ''cache_creation_input_tokens'',
     ''cache_creation_ephemeral_5m_input_tokens'', ''cache_creation_ephemeral_1h_input_tokens'']"

definition numeric_members :: "string list \<Rightarrow> json option \<Rightarrow> (string \<times> json) list" where
  "numeric_members ks j = List.map_filter (\<lambda>k. if numeric (get k j) = None then None else map_option (Pair k) (get k j)) ks"

definition modifier_json :: "json \<Rightarrow> json" where
  "modifier_json v = (case v of JNull \<Rightarrow> JNull | JStr s \<Rightarrow> if utf16_length s \<le> 64 then JStr s else JStr ''invalid'' | _ \<Rightarrow> JStr ''invalid'')"

text \<open>\<open>messageCounters\<close>: the finite set of counters a message stream retains.\<close>

definition message_counters :: "json option \<Rightarrow> json option" where
  "message_counters usage = (if usage = None then None else
     let counters = numeric_members counter_keys usage;
         tools = get ''server_tool_use'' usage;
         searches = (if tools \<noteq> None \<and> (as_record tools = None \<or> get ''web_search_requests'' (as_record tools) \<noteq> None)
           then [(''server_tool_use'', JObj [(''web_search_requests'',
             case search_requests (get ''web_search_requests'' (as_record tools)) of None \<Rightarrow> JNull | Some n \<Rightarrow> JNum (of_int n))])] else []);
         mods = List.map_filter (\<lambda>k. map_option (\<lambda>v. (k, modifier_json v)) (get k usage)) [''speed'', ''inference_geo'', ''service_tier''];
         creation = as_record (get ''cache_creation'' usage);
         writes = (if creation = None then [] else [(''cache_creation'',
           JObj (numeric_members [''ephemeral_5m_input_tokens'', ''ephemeral_1h_input_tokens''] creation))])
     in Some (JObj (counters @ searches @ mods @ writes)))"

definition continued_work :: "accumulator \<Rightarrow> accumulator" where
  "continued_work s = (if ac_provisional s
     then s\<lparr>ac_provisional := False, ac_revoked := True, ac_outcome := None, ac_terminal := None\<rparr> else s)"

text \<open>Merging a cumulative delta: omitted and null counters keep their value, cache writes merge by bucket.\<close>

definition merge_delta :: "json \<Rightarrow> json \<Rightarrow> json" where
  "merge_delta usage delta =
     (let updates = filter (\<lambda>(k, v). v \<noteq> JNull \<and> \<not> (k = ''inference_geo'' \<and> v = JStr ''not_available'')) (entries delta);
          merged = map (\<lambda>(k, v). if k = ''cache_creation'' \<and> is_object (Some v)
            then (k, assign_all (entries v) (case as_record (member ''cache_creation'' usage) of None \<Rightarrow> JObj [] | Some c \<Rightarrow> c)) else (k, v)) updates
      in assign_all merged usage)"

definition message_start :: "json option \<Rightarrow> accumulator \<Rightarrow> accumulator" where
  "message_start doc s =
     (let initial = as_record (get ''message'' doc)
      in s\<lparr>ac_protocol := Some MessageProtocol,
           ac_message := Some (JObj ([(''type'', JStr ''message'')]
             @ (case get ''stop_reason'' initial of None \<Rightarrow> [] | Some v \<Rightarrow> [(''stop_reason'', v)])
             @ (if get ''content'' initial = Some (JArr []) then [(''content'', JArr [])] else []))),
           ac_usage := message_counters (usage_record doc), ac_delta_seen := False\<rparr>)"

definition message_delta :: "json option \<Rightarrow> accumulator \<Rightarrow> accumulator" where
  "message_delta doc s = (case ac_usage s of None \<Rightarrow> s | Some usage \<Rightarrow>
     let stop = get ''stop_reason'' (as_record (get ''delta'' doc));
         delta = message_counters (usage_record doc)
     in s\<lparr>ac_message := (case (ac_message s, stop) of (Some m, Some v) \<Rightarrow> Some (assign ''stop_reason'' v m) | (m, _) \<Rightarrow> m),
          ac_delta_seen := (delta \<noteq> None \<and> pick_number delta [''output_tokens''] \<noteq> None),
          ac_usage := (case delta of None \<Rightarrow> Some usage | Some d \<Rightarrow> Some (merge_delta usage d))\<rparr>)"

definition message_stop :: "token_context option \<Rightarrow> accumulator \<Rightarrow> accumulator" where
  "message_stop ctx s = s\<lparr>ac_outcome := Some Success,
     ac_terminal := (case ac_usage s of
       Some usage \<Rightarrow> if ac_delta_seen s
         then extract_usage_tokens (Some (JObj ((case ac_message s of None \<Rightarrow> [] | Some m \<Rightarrow> entries m) @ [(''usage'', usage)]))) ctx
         else None
     | None \<Rightarrow> None)\<rparr>"

definition cohere_event :: "string \<Rightarrow> bool" where
  "cohere_event s \<longleftrightarrow> list_ex (\<lambda>p. starts_with p s) [''message-'', ''content-'', ''tool-call-'', ''tool-plan-'', ''citation-'']"

definition note_protocol :: "json option \<Rightarrow> accumulator \<Rightarrow> accumulator" where
  "note_protocol doc s =
     (let s1 = (case text_of (get ''type'' doc) of None \<Rightarrow> s | Some t \<Rightarrow>
            if cohere_event t then s\<lparr>ac_protocol := Some CohereProtocol\<rparr>
            else if starts_with ''response.'' t then s\<lparr>ac_protocol := Some ResponseProtocol\<rparr> else s)
      in if text_is (get ''object'' doc) ''chat.completion.chunk''
         then s1\<lparr>ac_protocol := Some ChatProtocol, ac_chat_tier := orelse (extract_service_tier doc) (ac_chat_tier s1)\<rparr> else s1)"

text \<open>A data document after the terminal checks.\<close>

definition accept_document :: "token_context option \<Rightarrow> json option \<Rightarrow> accumulator \<Rightarrow> accumulator" where
  "accept_document ctx doc s0 =
     (let s = note_protocol doc s0; ty = get ''type'' doc
      in if text_is ty ''message_start'' then message_start doc s
         else if text_is ty ''message_delta'' then message_delta doc s
         else if text_in ty [''content_block_start'', ''content_block_delta''] then s\<lparr>ac_message := map_option (without_key ''content'') (ac_message s)\<rparr>
         else if text_is ty ''message_stop'' then message_stop ctx s
         else let tokens = extract_usage_tokens doc ctx
              in s\<lparr>ac_found := (if get ''usageMetadata'' doc \<noteq> None \<or> get ''usage_metadata'' doc \<noteq> None
                then tokens else orelse tokens (ac_found s))\<rparr>)"

definition accept_evidence :: "token_context option \<Rightarrow> sse_evidence \<Rightarrow> accumulator \<Rightarrow> accumulator" where
  "accept_evidence ctx e s0 =
     (let doc = evidence_root e;
          s = (if ac_provisional s0 \<and> \<not> rejection_only_evidence e ctx then continued_work s0 else s0)
      in case e of
           UnavailableEv \<Rightarrow> s\<lparr>ac_uncertain := True, ac_found := None, ac_usage := None\<rparr>
         | ErrorEv _ \<Rightarrow>
             (let s1 = (if ac_revoking s \<and> \<not> ac_provisional s \<and> ac_outcome s = None
                then s\<lparr>ac_terminal := extract_usage_tokens doc ctx\<rparr> else s)
              in s1\<lparr>ac_outcome := Some ProviderError\<rparr>)
         | _ \<Rightarrow>
             if ac_outcome s \<noteq> None then s
             else (case e of
                 DoneEv \<Rightarrow>
                   if ac_protocol s \<in> {Some MessageProtocol, Some ResponseProtocol, Some CohereProtocol}
                   then s\<lparr>ac_outcome := Some ProviderError\<rparr>
                   else s\<lparr>ac_outcome := Some Success, ac_terminal := (case ac_chat_tier s of
                     None \<Rightarrow> ac_found s | Some t \<Rightarrow> map_option (service_tier_update (\<lambda>_. Some (Some t))) (ac_found s))\<rparr>
               | DataEv _ \<Rightarrow>
                   if doc = None then s\<lparr>ac_outcome := (if ac_protocol s \<noteq> None then Some ProviderError else None), ac_found := None\<rparr>
                   else (case response_outcome_of doc of
                       Some r \<Rightarrow> s\<lparr>ac_outcome := Some r, ac_terminal := extract_usage_tokens doc ctx\<rparr>
                     | None \<Rightarrow> accept_document ctx doc s)
               | _ \<Rightarrow> s\<lparr>ac_outcome := (if ac_protocol s \<noteq> None then Some ProviderError else None), ac_found := None\<rparr>))"

definition unfinished :: "token_context option \<Rightarrow> sse_evidence option \<Rightarrow> accumulator \<Rightarrow> accumulator" where
  "unfinished ctx e s = (case e of None \<Rightarrow> s | Some ev \<Rightarrow>
     if ac_provisional s \<and> \<not> rejection_only_evidence ev ctx
     then (continued_work s)\<lparr>ac_uncertain := True, ac_found := None, ac_usage := None\<rparr> else s)"

definition accumulator_result :: "bool \<Rightarrow> bool \<Rightarrow> accumulator \<Rightarrow> usage_tokens option \<times> response_outcome option" where
  "accumulator_result ended overflowed s0 =
     (let s = (if overflowed then continued_work s0 else s0)
      in (if ac_outcome s \<noteq> None then ac_terminal s else if ac_protocol s \<noteq> None \<or> \<not> ended then None else ac_found s,
          case ac_outcome s of Some r \<Rightarrow> Some r
          | None \<Rightarrow> if ended \<and> ac_protocol s \<noteq> None \<and> \<not> ac_uncertain s \<and> \<not> overflowed then Some ProviderError else None))"

text \<open>\<open>createSseUsageInspector\<close>: the evidence of one frame.\<close>

definition error_line :: "string \<Rightarrow> bool" where
  "error_line l \<longleftrightarrow> starts_with ''event:'' l \<and> trim (drop 6 l) = ''error''"

definition frame_data :: "string \<Rightarrow> string" where
  "frame_data frame = join [line_feed] (map (\<lambda>l. trim (drop 5 l)) (filter (starts_with ''data:'') (split_on line_feed frame)))"

definition frame_evidence :: "(string \<Rightarrow> json option) \<Rightarrow> string option \<Rightarrow> sse_evidence option" where
  "frame_evidence parse frame = (case frame of None \<Rightarrow> Some UnavailableEv | Some f \<Rightarrow>
     (let d = frame_data f
      in if list_ex error_line (split_on line_feed f) then Some (ErrorEv (parse d))
         else if d = [] then None
         else if d = ''[DONE]'' then Some DoneEv
         else case parse d of Some v \<Rightarrow> Some (DataEv v) | None \<Rightarrow> Some InvalidEv))"

definition accept_frame :: "(string \<Rightarrow> json option) \<Rightarrow> token_context option \<Rightarrow> string option \<Rightarrow> accumulator \<Rightarrow> accumulator" where
  "accept_frame parse ctx frame s = (case frame_evidence parse frame of None \<Rightarrow> s | Some e \<Rightarrow> accept_evidence ctx e s)"

text \<open>Inspecting a whole stream: push the chunks, accept the frames, read the result.\<close>

definition inspect_stream ::
    "(string \<Rightarrow> string option) \<Rightarrow> (string \<Rightarrow> json option) \<Rightarrow> token_context option \<Rightarrow> bool \<Rightarrow> bool \<Rightarrow> string list \<Rightarrow>
     usage_tokens option \<times> response_outcome option" where
  "inspect_stream decode parse ctx revoking ended cs =
     (let (fr, frames) = push_chunks decode usage_inspection_limit cs new_frames;
          s = fold (accept_frame parse ctx) frames (new_accumulator revoking);
          s' = (if revoking then unfinished ctx (frame_evidence parse (pending_frame decode fr)) s else s)
      in accumulator_result ended (fr_overflow fr) s')"

definition extract_sse_usage_tokens ::
    "(string \<Rightarrow> string option) \<Rightarrow> (string \<Rightarrow> json option) \<Rightarrow> token_context option \<Rightarrow> string \<Rightarrow> usage_tokens option" where
  "extract_sse_usage_tokens decode parse ctx text = fst (inspect_stream decode parse ctx False True [text])"

subsubsection \<open>The frames do not depend on how the bytes arrive\<close>

definition moved :: "nat \<Rightarrow> string \<Rightarrow> sse_frames \<Rightarrow> sse_frames" where
  "moved cap slice s = (let s' = append_bytes cap slice s in s'\<lparr>fr_line := fr_line s' + length slice\<rparr>)"

lemma append_bytes_line [simp]:
  "fr_line (append_bytes cap bs s) = fr_line s" "fr_skip_lf (append_bytes cap bs s) = fr_skip_lf s"
  by (simp_all add: append_bytes_def)

lemma append_bytes_commute:
  "append_bytes cap bs (s\<lparr>fr_line := n\<rparr>) = (append_bytes cap bs s)\<lparr>fr_line := n\<rparr>"
  "append_bytes cap bs (s\<lparr>fr_skip_lf := f\<rparr>) = (append_bytes cap bs s)\<lparr>fr_skip_lf := f\<rparr>"
  by (simp_all add: append_bytes_def)

lemma append_append: "append_bytes cap b (append_bytes cap a s) = append_bytes cap (a @ b) s"
  by (auto simp: append_bytes_def)

lemma moved_line [simp]: "fr_line (moved cap slice s) = fr_line s + length slice" "fr_skip_lf (moved cap slice s) = fr_skip_lf s"
  by (simp_all add: moved_def Let_def)

lemma append_moved: "append_bytes cap b (moved cap a s) = (append_bytes cap (a @ b) s)\<lparr>fr_line := fr_line s + length a\<rparr>"
  by (simp add: moved_def Let_def append_bytes_commute append_append)

lemma moved_skip: "moved cap a (s\<lparr>fr_skip_lf := f\<rparr>) = (moved cap a s)\<lparr>fr_skip_lf := f\<rparr>"
  by (simp add: moved_def Let_def append_bytes_commute)

lemma end_line_moved: "end_line decode cap (slice @ rest) b s = end_line decode cap rest b (moved cap slice s)"
  by (auto simp: end_line_def Let_def append_moved append_bytes_commute frame_out_def)

text \<open>Bytes still in the slice may as well have been appended before.\<close>

lemma push_loop_moved:
  assumes "fr_skip_lf s \<Longrightarrow> slice = [] \<and> rest = []" and "length (fr_buffer s) \<le> cap"
  shows "push_loop decode cap (slice @ rest) bs s = push_loop decode cap rest bs (moved cap slice s)"
  using assms
proof (induction bs arbitrary: rest s)
  case Nil
  then show ?case by (simp add: Let_def append_moved)
next
  case (Cons b bs)
  have skip: "fr_skip_lf s \<and> b = line_feed \<Longrightarrow> moved cap slice s = s"
    using Cons.prems by (simp add: moved_def append_bytes_def)
  consider "fr_skip_lf s \<and> b = line_feed" | "\<not> (fr_skip_lf s \<and> b = line_feed)" "b \<noteq> line_feed" "b \<noteq> carriage_return"
    | "\<not> (fr_skip_lf s \<and> b = line_feed)" "b = line_feed \<or> b = carriage_return" by blast
  then show ?case
  proof cases
    case 1
    then show ?thesis using skip by simp
  next
    case 2
    with Cons.IH [of "s\<lparr>fr_skip_lf := False\<rparr>" "rest @ [b]"] Cons.prems show ?thesis by (simp add: moved_skip)
  next
    case 3
    have "\<not> (b \<noteq> line_feed \<and> b \<noteq> carriage_return)" using 3 by blast
    with 3(1) show ?thesis by (simp only: push_loop.simps moved_line if_False end_line_moved moved_skip)
  qed
qed

lemma fits_append [simp]: "length (fr_buffer s) \<le> cap \<Longrightarrow> length (fr_buffer (append_bytes cap bs s)) \<le> cap"
  by (simp add: append_bytes_def)

lemma fits_end_line: "length (fr_buffer s) \<le> cap \<Longrightarrow> length (fr_buffer (fst (end_line decode cap slice b s))) \<le> cap"
  by (simp add: end_line_def Let_def)

lemma fits_push: "length (fr_buffer s) \<le> cap \<Longrightarrow> length (fr_buffer (fst (push_loop decode cap slice bs s))) \<le> cap"
proof (induction bs arbitrary: slice s)
  case (Cons b bs)
  then show ?case
    using fits_end_line [of "s\<lparr>fr_skip_lf := False\<rparr>" cap decode slice b]
    by (simp split: prod.split) (metis fst_conv)
qed (simp add: Let_def)

lemma push_loop_append:
  assumes "fr_skip_lf s \<Longrightarrow> slice = []" and "length (fr_buffer s) \<le> cap"
  shows "push_loop decode cap slice (xs @ ys) s =
    (let (s1, out1) = push_loop decode cap slice xs s; (s2, out2) = push_loop decode cap [] ys s1 in (s2, out1 @ out2))"
  using assms
proof (induction xs arbitrary: slice s)
  case Nil
  then have "push_loop decode cap (slice @ []) ys s = push_loop decode cap [] ys (moved cap slice s)"
    by (intro push_loop_moved) simp_all
  then show ?case by (simp add: moved_def Let_def split: prod.split)
next
  case (Cons b xs)
  let ?s = "s\<lparr>fr_skip_lf := False\<rparr>"
  obtain s2 out where e: "end_line decode cap slice b ?s = (s2, out)" by fastforce
  then have fits: "length (fr_buffer s2) \<le> cap" using fits_end_line [of ?s cap decode slice b] Cons.prems by simp
  consider "fr_skip_lf s \<and> b = line_feed" | "\<not> (fr_skip_lf s \<and> b = line_feed)" "b \<noteq> line_feed" "b \<noteq> carriage_return"
    | "\<not> (fr_skip_lf s \<and> b = line_feed)" "\<not> (b \<noteq> line_feed \<and> b \<noteq> carriage_return)" by blast
  then show ?case
  proof cases
    case 1
    with Cons.IH [of ?s "[]"] Cons.prems show ?thesis by simp
  next
    case 2
    with Cons.IH [of ?s "slice @ [b]"] Cons.prems show ?thesis by simp
  next
    case 3
    obtain s3 out3 where x: "push_loop decode cap [] xs s2 = (s3, out3)" by fastforce
    obtain s4 out4 where y: "push_loop decode cap [] ys s3 = (s4, out4)" by fastforce
    have "push_loop decode cap [] (xs @ ys) s2 = (s4, out3 @ out4)"
      using Cons.IH [of s2 "[]"] fits by (simp add: x y)
    then show ?thesis unfolding append_Cons push_loop.simps if_not_P [OF 3(1)] if_not_P [OF 3(2)] by (simp add: e x y)
  qed
qed

lemma push_chunks_eq:
  "length (fr_buffer s) \<le> cap \<Longrightarrow> push_chunks decode cap cs s = push decode cap (concat cs) s"
proof (induction cs arbitrary: s)
  case Nil
  then show ?case by (simp add: push_def append_bytes_def)
next
  case (Cons c cs)
  obtain s2 out where e: "push_loop decode cap [] c s = (s2, out)" by fastforce
  then have "push_chunks decode cap cs s2 = push decode cap (concat cs) s2"
    using Cons fits_push [of s cap decode "[]" c] by simp
  with e Cons.prems show ?case by (simp add: push_def push_loop_append)
qed

text \<open>The buffer holds the text of the current frame while it fits.\<close>

definition holds :: "nat \<Rightarrow> string \<Rightarrow> sse_frames \<Rightarrow> bool" where
  "holds cap t s \<longleftrightarrow> (if cap < length t then fr_overflow s else \<not> fr_overflow s \<and> fr_buffer s = t)"

lemma holds_append: "holds cap t s \<Longrightarrow> holds cap (t @ bs) (append_bytes cap bs s)"
  by (auto simp: holds_def append_bytes_def split: if_splits)

lemma holds_out: "holds cap (frame_text ls) s \<Longrightarrow> frame_out decode s = frame_of decode cap ls"
  by (auto simp: holds_def frame_out_def frame_of_def split: if_splits)

lemma holds_fields [simp]:
  "holds cap t (s\<lparr>fr_line := n\<rparr>) = holds cap t s" "holds cap t (s\<lparr>fr_skip_lf := f\<rparr>) = holds cap t s"
  by (simp_all add: holds_def)

lemma end_line_frames:
  assumes "holds cap (frame_text ls @ l) s" and "fr_line s = length l"
  shows "end_line decode cap slice b s = (s', out) \<Longrightarrow>
    fr_line s' = 0 \<and> fr_skip_lf s' = (b = carriage_return) \<and>
    (if l @ slice = [] then out = [frame_of decode cap ls] \<and> holds cap (frame_text []) s'
     else out = [] \<and> holds cap (frame_text (ls @ [l @ slice])) s')"
proof -
  have h: "holds cap (frame_text ls @ l @ slice) (append_bytes cap slice s)"
    using holds_append [OF assms(1), of slice] by simp
  have h2: "holds cap (frame_text (ls @ [l @ slice])) (append_bytes cap [line_feed] (append_bytes cap slice s))"
    using holds_append [OF h, of "[line_feed]"] by (simp add: frame_text_def)
  show "end_line decode cap slice b s = (s', out) \<Longrightarrow> ?thesis"
    using h h2 holds_out [of cap ls "append_bytes cap slice s" decode] assms(2)
    by (auto simp: end_line_def Let_def holds_def [of _ "[]"] frame_text_def [of "[]"])
qed

definition rest_lines :: "bool \<Rightarrow> string \<Rightarrow> string \<Rightarrow> string list" where
  "rest_lines skip l bs = (if skip then (case bs of c # cs \<Rightarrow> if c = line_feed then split_lines l cs else split_lines l bs
     | [] \<Rightarrow> split_lines l bs) else split_lines l bs)"

lemma push_loop_frames:
  assumes "holds cap (frame_text ls @ l) s" and "fr_line s = length l" and "fr_skip_lf s \<Longrightarrow> l @ slice = []"
  shows "snd (push_loop decode cap slice bs s) = frames_of decode cap ls (rest_lines (fr_skip_lf s) (l @ slice) bs)"
  using assms
proof (induction bs arbitrary: ls l slice s)
  case Nil
  then show ?case by (simp add: Let_def rest_lines_def)
next
  case (Cons b bs)
  consider "fr_skip_lf s \<and> b = line_feed" | "\<not> (fr_skip_lf s \<and> b = line_feed)" "b \<noteq> line_feed" "b \<noteq> carriage_return"
    | "\<not> (fr_skip_lf s \<and> b = line_feed)" "b = line_feed \<or> b = carriage_return" by blast
  then show ?case
  proof cases
    case 1
    with Cons.IH [of ls l "s\<lparr>fr_skip_lf := False\<rparr>" "[]"] Cons.prems show ?thesis by (simp add: rest_lines_def)
  next
    case 2
    with Cons.IH [of ls l "s\<lparr>fr_skip_lf := False\<rparr>" "slice @ [b]"] Cons.prems show ?thesis by (simp add: rest_lines_def)
  next
    case 3
    obtain s2 out where e: "end_line decode cap slice b (s\<lparr>fr_skip_lf := False\<rparr>) = (s2, out)" by fastforce
    note f = end_line_frames [OF _ _ e, of ls l]
    have f: "fr_line s2 = 0" "fr_skip_lf s2 = (b = carriage_return)"
      "if l @ slice = [] then out = [frame_of decode cap ls] \<and> holds cap (frame_text []) s2
       else out = [] \<and> holds cap (frame_text (ls @ [l @ slice])) s2"
      using f Cons.prems by simp_all
    have lines: "rest_lines (fr_skip_lf s) (l @ slice) (b # bs) = (l @ slice) # rest_lines (b = carriage_return) [] bs"
      using 3 by (auto simp: rest_lines_def line_feed_def carriage_return_def split: list.split)
    have "snd (push_loop decode cap [] bs s2) =
        frames_of decode cap (if l @ slice = [] then [] else ls @ [l @ slice]) (rest_lines (b = carriage_return) [] bs)"
      using Cons.IH [of "if l @ slice = [] then [] else ls @ [l @ slice]" "[]" s2 "[]"] f by (auto split: if_splits)
    with 3 e f(3) show ?thesis unfolding lines by (auto simp: split: prod.split)
  qed
qed

text \<open>
  C13. The frames read from an event stream are those of its text, however the network cuts the
  bytes into chunks: line ends may be LF, CR or CRLF (also when a chunk ends between CR and LF), a
  blank line ends a frame, and a frame is unavailable exactly when it exceeds the inspection limit.
\<close>

theorem frames_are_independent_of_chunks:
  "snd (push_chunks decode usage_inspection_limit cs new_frames) =
    frames_of decode usage_inspection_limit [] (split_lines [] (concat cs))"
proof -
  have "holds usage_inspection_limit (frame_text [] @ []) new_frames"
    by (simp add: holds_def new_frames_def frame_text_def)
  then have "snd (push_loop decode usage_inspection_limit [] (concat cs) new_frames) =
      frames_of decode usage_inspection_limit [] (rest_lines (fr_skip_lf new_frames) ([] @ []) (concat cs))"
    by (rule push_loop_frames) (simp_all add: new_frames_def)
  then show ?thesis
    by (simp add: push_chunks_eq push_def new_frames_def rest_lines_def)
qed

subsection \<open>Counters are consistent\<close>

definition counter_ok :: "int option \<Rightarrow> bool" where
  "counter_ok x = (case x of None \<Rightarrow> True | Some n \<Rightarrow> 0 \<le> n)"

text \<open>Reasoning tokens are part of the output.\<close>

definition reasoning_fits :: "usage_tokens \<Rightarrow> bool" where
  "reasoning_fits t = (case reasoning t of
     Some (Some r) \<Rightarrow> 0 \<le> r \<and> (case output_tokens t of Some n \<Rightarrow> r \<le> n | None \<Rightarrow> False) | _ \<Rightarrow> True)"

definition tokens_ok :: "usage_tokens \<Rightarrow> bool" where
  "tokens_ok t \<longleftrightarrow> list_all counter_ok [input_tokens t, output_tokens t, total_tokens t, cached_tokens t,
     cache_write t, cache_write5m t, cache_write1h t] \<and> reasoning_fits t"

lemma numeric_nonneg: "numeric j = Some n \<Longrightarrow> 0 \<le> n"
  by (induction j rule: numeric.induct) (auto split: if_splits)

lemma counter_ok_pick [simp]: "counter_ok (pick_number j ks)"
  by (induction ks) (auto simp: counter_ok_def dest: numeric_nonneg split: option.split)

lemma counter_ok_safe [simp]: "counter_ok (safe_count j)"
  by (auto simp: counter_ok_def dest: safe_count_bounds split: option.split)

lemma counter_ok_None [simp]: "counter_ok None"
  by (simp add: counter_ok_def)

lemma counter_ok_Some [simp]: "counter_ok (Some n) \<longleftrightarrow> 0 \<le> n"
  by (simp add: counter_ok_def)

lemma counter_ok_orelse: "counter_ok x \<Longrightarrow> counter_ok y \<Longrightarrow> counter_ok (orelse x y)"
  by (cases x) (simp_all add: orelse_def)

lemma counter_ok_if: "counter_ok x \<Longrightarrow> counter_ok y \<Longrightarrow> counter_ok (if b then x else y)"
  by simp

lemma or_zero_nonneg: "counter_ok x \<Longrightarrow> 0 \<le> or_zero x"
  by (cases x) (simp_all add: or_zero_def)

lemma counter_ok_either: "counter_ok x \<Longrightarrow> counter_ok y \<Longrightarrow> counter_ok (either_sum x y)"
  using or_zero_nonneg by (simp add: either_sum_def)

lemma counter_ok_add: "counter_ok x \<Longrightarrow> 0 \<le> k \<Longrightarrow> counter_ok (map_option (\<lambda>n. n + k) x)"
  by (cases x) simp_all

lemma zero_unless: "0 \<le> k \<Longrightarrow> 0 \<le> (if b then 0 else k :: int)"
  by simp

lemmas counter_rules = counter_ok_if zero_unless counter_ok_orelse counter_ok_either counter_ok_add or_zero_nonneg

lemma prompt_cached_bounds: "prompt_cached_tokens usage details inp ctx = Some n \<Longrightarrow> 0 \<le> n \<and> (\<exists>m. inp = Some m \<and> n \<le> m)"
  by (auto simp: prompt_cached_tokens_def split: option.splits list.splits if_splits dest: safe_count_bounds)

lemma counter_ok_prompt [simp]: "counter_ok (prompt_cached_tokens usage details inp ctx)"
  by (auto simp: counter_ok_def dest: prompt_cached_bounds split: option.split)

lemma usage_subset_bounds: "usage_subset j m = Some n \<Longrightarrow> 0 \<le> n \<and> (\<exists>k. m = Some k \<and> n \<le> k)"
  by (auto simp: usage_subset_def split: option.splits if_splits dest: safe_count_bounds)

lemma cohere_ok: "tokens_ok (cohere_usage_tokens usage)"
  by (auto simp: cohere_usage_tokens_def Let_def tokens_ok_def reasoning_fits_def split: option.split dest!: safe_count_bounds)

lemma google_counter_bounds: "google_counter j c p = Some n \<Longrightarrow> 0 \<le> n \<and> n \<le> 2147483647"
  unfolding google_counter_def by (rule google_int32_bounds)

lemma google_ok: "google_usage_tokens j = Some t \<Longrightarrow> tokens_ok t"
  by (auto simp: google_usage_tokens_def Let_def tokens_ok_def reasoning_fits_def
    split: if_splits option.splits dest!: google_counter_bounds)

lemma ordinary_ok: "tokens_ok (ordinary_usage_tokens doc usage ctx)"
proof -
  let ?t = "ordinary_usage_tokens doc usage ctx"
  have "counter_ok (input_tokens ?t)" "counter_ok (output_tokens ?t)" "counter_ok (total_tokens ?t)" "counter_ok (cached_tokens ?t)"
    "counter_ok (cache_write ?t)" "counter_ok (cache_write5m ?t)" "counter_ok (cache_write1h ?t)"
    unfolding ordinary_usage_tokens_def Let_def usage_tokens.simps
    by (intro counter_rules add_nonneg_nonneg counter_ok_pick counter_ok_prompt counter_ok_None)+
  moreover have "reasoning ?t = map_option (\<lambda>v. usage_subset (Some v) (output_tokens ?t)) (get ''reasoning_tokens''
      (as_record (coalesce (get ''output_tokens_details'' usage) (get ''completion_tokens_details'' usage))))"
    unfolding ordinary_usage_tokens_def Let_def usage_tokens.simps ..
  then have "reasoning_fits ?t"
    by (auto simp: reasoning_fits_def split: option.split dest: usage_subset_bounds)
  ultimately show ?thesis by (simp add: tokens_ok_def)
qed

text \<open>
  Every token count read from a response is sound for accounting: no counter is negative,
  reasoning tokens are a part of the output, and a cache discount inside an inclusive prompt count is
  never larger than the prompt.
\<close>

theorem extracted_tokens_are_consistent:
  "(case extract_usage_tokens value ctx of None \<Rightarrow> True | Some t \<Rightarrow> tokens_ok t) \<and>
   (case prompt_cached_tokens usage details inp ctx of None \<Rightarrow> True
    | Some n \<Rightarrow> 0 \<le> n \<and> (case inp of None \<Rightarrow> False | Some m \<Rightarrow> n \<le> m))"
proof
  show "case extract_usage_tokens value ctx of None \<Rightarrow> True | Some t \<Rightarrow> tokens_ok t"
    using google_ok cohere_ok ordinary_ok by (auto simp: extract_usage_tokens_def Let_def split: option.split)
  show "case prompt_cached_tokens usage details inp ctx of None \<Rightarrow> True
      | Some n \<Rightarrow> 0 \<le> n \<and> (case inp of None \<Rightarrow> False | Some m \<Rightarrow> n \<le> m)"
    by (auto split: option.split dest: prompt_cached_bounds)
qed

subsection \<open>The result of a stream is final\<close>

text \<open>A decided stream: an outcome is known and no provisional rejection is open.\<close>

definition decided :: "accumulator \<Rightarrow> bool" where
  "decided s \<longleftrightarrow> ac_outcome s \<noteq> None \<and> \<not> ac_provisional s"

lemma accept_decided:
  assumes "decided s"
  shows "decided (accept_evidence ctx e s) \<and> ac_terminal (accept_evidence ctx e s) = ac_terminal s \<and>
    ac_outcome (accept_evidence ctx e s) = (case e of ErrorEv _ \<Rightarrow> Some ProviderError | _ \<Rightarrow> ac_outcome s)"
  using assms by (cases e) (auto simp: accept_evidence_def decided_def Let_def)

definition error_frame :: "(string \<Rightarrow> json option) \<Rightarrow> string option \<Rightarrow> bool" where
  "error_frame parse f = (case frame_evidence parse f of Some (ErrorEv _) \<Rightarrow> True | _ \<Rightarrow> False)"

lemma frames_decided:
  "decided s \<Longrightarrow> decided (fold (accept_frame parse ctx) fs s) \<and>
    ac_terminal (fold (accept_frame parse ctx) fs s) = ac_terminal s \<and>
    ac_outcome (fold (accept_frame parse ctx) fs s) = (if list_ex (error_frame parse) fs then Some ProviderError else ac_outcome s)"
proof (induction fs arbitrary: s)
  case (Cons f fs)
  have "decided (accept_frame parse ctx f s) \<and> ac_terminal (accept_frame parse ctx f s) = ac_terminal s \<and>
      ac_outcome (accept_frame parse ctx f s) = (if error_frame parse f then Some ProviderError else ac_outcome s)"
    using accept_decided [OF Cons.prems] Cons.prems
    by (auto simp: accept_frame_def error_frame_def split: option.split sse_evidence.split)
  with Cons.IH [of "accept_frame parse ctx f s"] show ?case by simp
qed simp

text \<open>
  Once a stream has reached a terminal event the billed tokens are settled: whatever frames
  still arrive, the reported tokens are those of the terminal event, and the outcome changes only to
  a provider error, when one of the later frames is an error event.
\<close>

theorem terminal_tokens_are_final:
  assumes "decided s"
  shows "accumulator_result ended overflowed (fold (accept_frame parse ctx) fs s) =
    (ac_terminal s, if list_ex (error_frame parse) fs then Some ProviderError else ac_outcome s)"
proof -
  let ?s = "fold (accept_frame parse ctx) fs s"
  have f: "decided ?s" "ac_terminal ?s = ac_terminal s"
      "ac_outcome ?s = (if list_ex (error_frame parse) fs then Some ProviderError else ac_outcome s)"
    using frames_decided [OF assms] by simp_all
  have "continued_work ?s = ?s" using f(1) by (simp add: continued_work_def decided_def)
  with f assms show ?thesis by (auto simp: accumulator_result_def decided_def Let_def)
qed

definition sample_response :: json where
  "sample_response = JObj [(''type'', JStr ''response.completed''),
     (''response'', JObj [(''usage'', JObj [(''input_tokens'', JNum 7), (''output_tokens'', JNum 5)])])]"

theorem terminal_tokens_are_final_witness:
  "let s = accept_evidence None (DataEv sample_response) (new_accumulator False)
   in decided s \<and> map_option output_tokens (ac_terminal s) = Some (Some 5) \<and>
      accumulator_result True False (fold (accept_frame (\<lambda>_. None) None) [Some ''event: error''] s) = (ac_terminal s, Some ProviderError)"
proof -
  let ?s = "accept_evidence None (DataEv sample_response) (new_accumulator False)"
  have d: "decided ?s" and t: "map_option output_tokens (ac_terminal ?s) = Some (Some 5)"
    by (simp_all add: decided_def accept_evidence_def sample_response_def new_accumulator_def response_outcome_of_def
      Let_def text_in_def text_is_def extract_usage_tokens_def usage_record_def coalesce_def nullish_def ordinary_usage_tokens_def)
  have "error_frame (\<lambda>_. None) (Some ''event: error'')" by code_simp
  with d t terminal_tokens_are_final [OF d, of True False "\<lambda>_. None" None "[Some ''event: error'']"]
  show ?thesis by (simp add: Let_def)
qed

end
