(* ===== verification/Json_Body.thy ===== *)
theory Json_Body
  imports Json_Access
begin

section \<open>Streaming JSON bodies\<close>

text \<open>
  \<open>worker/json-body.ts\<close>: the chunked serializer, its measure, the single-use transport and
  the bounded parser. Strings are UTF-8 bytes; \<open>value.length\<close> counts UTF-16 units
  (\<^const>\<open>utf16_length\<close>), and a cut that keeps surrogate pairs together is a cut between
  characters. The text of a number (\<open>JSON.stringify\<close> of a number, \<open>Number(text)\<close>) is
  an argument.
\<close>

subsection \<open>The text of a value\<close>

fun commas :: "string list \<Rightarrow> string" where
  "commas [] = []"
| "commas [x] = x"
| "commas (x # xs) = x @ '','' @ commas xs"

primrec json_text :: "(rat \<Rightarrow> string) \<Rightarrow> json \<Rightarrow> string" where
  "json_text num JNull = ''null''"
| "json_text num (JBool b) = (if b then ''true'' else ''false'')"
| "json_text num (JNum q) = num q"
| "json_text num (JStr s) = json_string s"
| "json_text num (JArr xs) = ''['' @ commas (map (json_text num) xs) @ '']''"
| "json_text num (JObj kvs) =
     ''{'' @ commas (map (\<lambda>(k, t). json_string k @ '':'' @ t) (map (map_prod id (json_text num)) kvs)) @ ''}''"

subsection \<open>Cutting a string\<close>

definition string_chunk :: nat where "string_chunk = 4096"

definition continuation :: "char \<Rightarrow> bool" where
  "continuation c \<longleftrightarrow> 128 \<le> (of_char c :: nat) \<and> (of_char c :: nat) < 192"

definition units_of :: "char \<Rightarrow> nat" where
  "units_of c = (if 240 \<le> (of_char c :: nat) then 2 else 1)"

text \<open>The whole characters that fit \<open>n\<close> units, and the rest.\<close>

function take_units :: "nat \<Rightarrow> string \<Rightarrow> string \<times> string" where
  "take_units n [] = ([], [])"
| "take_units n (c # r) =
     (if units_of c \<le> n
      then let (a, b) = take_units (n - units_of c) (dropWhile continuation r)
           in (c # takeWhile continuation r @ a, b)
      else ([], c # r))"
  by pat_completeness auto
termination
  by (relation "measure (\<lambda>(n, s). length s)") (auto simp: le_imp_less_Suc length_dropWhile_le)

lemma take_units_append: "fst (take_units n s) @ snd (take_units n s) = s"
proof (induction n s rule: take_units.induct)
  case (2 n c r)
  then show ?case by (simp split: prod.split) (metis append.assoc fst_conv snd_conv takeWhile_dropWhile_id)
qed simp

lemma take_units_shorter: "s \<noteq> [] \<Longrightarrow> 2 \<le> n \<Longrightarrow> length (snd (take_units n s)) < length s"
proof (cases s)
  case (Cons c r)
  assume "2 \<le> n"
  then have u: "units_of c \<le> n" by (simp add: units_of_def)
  have "length (snd (take_units (n - units_of c) (dropWhile continuation r))) \<le> length (dropWhile continuation r)"
    by (metis take_units_append length_append le_add2)
  then show ?thesis using Cons u length_dropWhile_le [of continuation r]
    by (cases "take_units (n - units_of c) (dropWhile continuation r)") simp
qed simp

function pieces :: "string \<Rightarrow> string list" where
  "pieces s = (if s = [] then [] else fst (take_units string_chunk s) # pieces (snd (take_units string_chunk s)))"
  by pat_completeness auto
termination
  by (relation "measure length") (simp_all add: take_units_shorter string_chunk_def)

declare pieces.simps [simp del]

lemma concat_pieces: "concat (pieces s) = s"
proof (induction s rule: pieces.induct)
  case (1 s)
  then show ?case by (subst pieces.simps) (simp add: take_units_append)
qed

definition escaped :: "string \<Rightarrow> string" where
  "escaped s = concat (map json_escape s)"

lemma escaped_append [simp]: "escaped (a @ b) = escaped a @ escaped b"
  by (simp add: escaped_def)

lemma concat_escaped: "concat (map escaped xs) = escaped (concat xs)"
  by (induction xs) (simp_all add: escaped_def)

lemma json_string_escaped: "json_string s = [quote_mark] @ escaped s @ [quote_mark]"
  by (simp add: json_string_def escaped_def)

subsection \<open>The chunked serializer and its measure\<close>

definition quoted :: "string \<Rightarrow> string list" where
  "quoted s = [[quote_mark]] @ map escaped (pieces s) @ [[quote_mark]]"

fun separated :: "string list list \<Rightarrow> string list" where
  "separated [] = []"
| "separated [x] = x"
| "separated (x # xs) = x @ ['',''] @ separated xs"

primrec json_chunks :: "(rat \<Rightarrow> string) \<Rightarrow> json \<Rightarrow> string list" where
  "json_chunks num JNull = [''null'']"
| "json_chunks num (JBool b) = [if b then ''true'' else ''false'']"
| "json_chunks num (JNum q) = [num q]"
| "json_chunks num (JStr s) = quoted s"
| "json_chunks num (JArr xs) = [''[''] @ separated (map (json_chunks num) xs) @ ['']'']"
| "json_chunks num (JObj kvs) =
     [''{''] @ separated (map (\<lambda>(k, c). quoted k @ ['':''] @ c) (map (map_prod id (json_chunks num)) kvs)) @ [''}'']"

definition quoted_bytes :: "string \<Rightarrow> int" where
  "quoted_bytes s = (if utf16_length s \<le> int string_chunk then int (length (json_string s))
     else 2 + sum_list (map (\<lambda>p. int (length (json_string p)) - 2) (pieces s)))"

primrec json_body_bytes :: "(rat \<Rightarrow> string) \<Rightarrow> json \<Rightarrow> int" where
  "json_body_bytes num JNull = 4"
| "json_body_bytes num (JBool b) = int (length (if b then ''true'' else ''false''))"
| "json_body_bytes num (JNum q) = int (length (num q))"
| "json_body_bytes num (JStr s) = quoted_bytes s"
| "json_body_bytes num (JArr xs) =
     1 + max 0 (int (length xs) - 1) + 1 + sum_list (map (json_body_bytes num) xs)"
| "json_body_bytes num (JObj kvs) =
     2 + sum_list (map (\<lambda>(k, n). quoted_bytes k + 1 + n) (map (map_prod id (json_body_bytes num)) kvs))
       + max 0 (int (length kvs) - 1)"

subsection \<open>The single-use transport\<close>

datatype retirement = Eof | Cancelled | Errored | Discarded

text \<open>\<open>tr_wire\<close> collects the bytes handed to the stream's controller.\<close>

record transport =
  tr_bytes :: int
  tr_body :: "json option"
  tr_chunks :: "string list option"
  tr_started :: bool
  tr_emitted :: int
  tr_retirement :: "retirement option"
  tr_wire :: string

definition json_body_transport :: "(rat \<Rightarrow> string) \<Rightarrow> json \<Rightarrow> int \<Rightarrow> transport result" where
  "json_body_transport num v bound =
     (if \<not> safe_int bound \<or> bound < 1 then Inl (Thrown ''invalid JSON transport bound'')
      else let bytes = json_body_bytes num v
           in if \<not> safe_int bytes \<or> bound < bytes then Inl (Thrown ''JSON transport exceeds bound'')
              else Inr \<lparr>tr_bytes = bytes, tr_body = Some v, tr_chunks = None, tr_started = False, tr_emitted = 0,
                tr_retirement = None, tr_wire = []\<rparr>)"

definition retire :: "retirement \<Rightarrow> transport \<Rightarrow> transport" where
  "retire r t = (if tr_retirement t \<noteq> None then t else t\<lparr>tr_retirement := Some r, tr_chunks := None, tr_body := None\<rparr>)"

definition open_stream :: "(rat \<Rightarrow> string) \<Rightarrow> transport \<Rightarrow> transport result" where
  "open_stream num t =
     (if tr_started t \<or> tr_retirement t \<noteq> None then Inl (Thrown ''JSON transport is single-use'')
      else case tr_body t of
          None \<Rightarrow> Inl (Thrown ''expected a JSON value'')
        | Some v \<Rightarrow> Inr (t\<lparr>tr_started := True, tr_chunks := Some (json_chunks num v), tr_body := None\<rparr>))"

text \<open>Coalescing: pieces are joined while the text has fewer than 8192 units.\<close>

fun gather :: "string \<Rightarrow> string list \<Rightarrow> string \<times> string list \<times> bool" where
  "gather text cs = (if utf16_length text < 8192
     then (case cs of [] \<Rightarrow> (text, [], True) | c # r \<Rightarrow> gather (text @ c) r) else (text, cs, False))"

declare gather.simps [simp del]

definition pull :: "transport \<Rightarrow> transport" where
  "pull t = (case tr_chunks t of
     None \<Rightarrow> retire Errored t
   | Some cs \<Rightarrow>
       (let (text, rest, finished) = gather [] cs;
            t1 = t\<lparr>tr_chunks := Some rest, tr_emitted := tr_emitted t + int (length text)\<rparr>
        in if 65536 < length text \<or> tr_bytes t < tr_emitted t1 \<or> finished \<and> tr_emitted t1 \<noteq> tr_bytes t
           then retire Errored t1
           else let t2 = t1\<lparr>tr_wire := tr_wire t @ text\<rparr> in if finished then retire Eof t2 else t2))"

text \<open>What the owner and the stream's consumer may do; a closed or failed stream is not pulled again.\<close>

inductive transport_step :: "(rat \<Rightarrow> string) \<Rightarrow> transport \<Rightarrow> transport \<Rightarrow> bool" for num where
  open_it: "open_stream num t = Inr t' \<Longrightarrow> transport_step num t t'"
| pull_it: "tr_retirement t = None \<Longrightarrow> tr_chunks t \<noteq> None \<Longrightarrow> transport_step num t (pull t)"
| cancel_it: "tr_started t \<Longrightarrow> transport_step num t (retire Cancelled t)"
| discard_it: "transport_step num t (retire Discarded t)"

inductive_cases transport_stepE: "transport_step num t t'"

subsection \<open>The measure is exact\<close>

lemma concat_quoted: "concat (quoted s) = json_string s"
  by (simp add: quoted_def concat_escaped concat_pieces json_string_escaped)

lemma concat_separated: "concat (separated cs) = commas (map concat cs)"
  by (induction cs rule: separated.induct) simp_all

lemma concat_json_chunks: "concat (json_chunks num v) = json_text num v"
proof (induction v)
  case (JArr xs)
  then show ?case by (simp add: concat_separated comp_def cong: map_cong)
next
  case (JObj kvs)
  then have "map (\<lambda>kv. concat (json_chunks num (snd kv))) kvs = map (\<lambda>kv. json_text num (snd kv)) kvs"
    by (simp add: snds.simps)
  then have "map (concat \<circ> (\<lambda>(k, c). quoted k @ ['':''] @ c) \<circ> map_prod id (json_chunks num)) kvs =
      map ((\<lambda>(k, t). json_string k @ '':'' @ t) \<circ> map_prod id (json_text num)) kvs"
    by (auto simp: concat_quoted)
  then show ?case by (simp add: concat_separated comp_def cong: map_cong)
qed (simp_all add: concat_quoted)

lemma quoted_bytes_length: "quoted_bytes s = int (length (json_string s))"
proof -
  have "int (length (escaped (concat ps))) = sum_list (map (\<lambda>p. int (length (json_string p)) - 2) ps)" for ps
    by (induction ps) (simp_all add: json_string_escaped escaped_def)
  from this [of "pieces s"] show ?thesis
    by (simp add: quoted_bytes_def concat_pieces json_string_escaped)
qed

lemma length_commas: "int (length (commas xs)) = sum_list (map (int \<circ> length) xs) + max 0 (int (length xs) - 1)"
  by (induction xs rule: commas.induct) simp_all

lemma json_body_bytes_length: "json_body_bytes num v = int (length (json_text num v))"
proof (induction v)
  case (JArr xs)
  then have "sum_list (map (json_body_bytes num) xs) = sum_list (map (int \<circ> length) (map (json_text num) xs))"
    by (simp cong: map_cong)
  then show ?case using length_commas [of "map (json_text num) xs"] by simp
next
  case (JObj kvs)
  then have "map (\<lambda>kv. json_body_bytes num (snd kv)) kvs = map (\<lambda>kv. int (length (json_text num (snd kv)))) kvs"
    by (simp add: snds.simps)
  then have "map ((\<lambda>(k, n). quoted_bytes k + 1 + n) \<circ> map_prod id (json_body_bytes num)) kvs =
      map (int \<circ> length) (map ((\<lambda>(k, t). json_string k @ '':'' @ t) \<circ> map_prod id (json_text num)) kvs)"
    by (auto simp: quoted_bytes_length)
  from arg_cong [OF this, of sum_list]
  have "sum_list (map ((\<lambda>(k, n). quoted_bytes k + 1 + n) \<circ> map_prod id (json_body_bytes num)) kvs) =
      sum_list (map (int \<circ> length) (map ((\<lambda>(k, t). json_string k @ '':'' @ t) \<circ> map_prod id (json_text num)) kvs))" .
  then show ?case using length_commas [of "map ((\<lambda>(k, t). json_string k @ '':'' @ t) \<circ> map_prod id (json_text num)) kvs"]
    by simp
qed (simp_all add: quoted_bytes_length)


subsection \<open>The transport sends exactly the body\<close>

text \<open>Well-formed UTF-8; the first argument counts continuation bytes still expected.\<close>

fun utf8 :: "nat \<Rightarrow> string \<Rightarrow> bool" where
  "utf8 k [] = (k = 0)"
| "utf8 0 (c # r) = (let n = (of_char c :: nat) in
     if n < 128 then utf8 0 r else if 194 \<le> n \<and> n < 224 then utf8 1 r
     else if 224 \<le> n \<and> n < 240 then utf8 2 r else 240 \<le> n \<and> n < 245 \<and> utf8 3 r)"
| "utf8 (Suc k) (c # r) = (continuation c \<and> utf8 k r)"

lemma utf16_Nil [simp]: "utf16_length [] = 0"
  by (simp add: utf16_length_def)

lemma utf16_append [simp]: "utf16_length (a @ b) = utf16_length a + utf16_length b"
  by (simp add: utf16_length_def)

lemma utf16_Cons: "utf16_length (c # r) = (if continuation c then 0 else if 240 \<le> (of_char c :: nat) then 2 else 1) + utf16_length r"
  by (simp add: utf16_length_def continuation_def Let_def)

lemma utf16_nonneg: "0 \<le> utf16_length s"
  by (induction s) (simp_all add: utf16_Cons)

lemma utf8_bytes: "utf8 k s \<Longrightarrow> int (length s) \<le> 3 * utf16_length s + int k"
  by (induction k s rule: utf8.induct) (auto simp: utf16_Cons continuation_def Let_def split: if_splits)

lemma utf8_append: "utf8 k a \<Longrightarrow> utf8 0 b \<Longrightarrow> utf8 k (a @ b)"
  by (induction k a rule: utf8.induct) (auto simp: Let_def split: if_splits)

lemma utf8_concat: "(\<And>x. x \<in> set xs \<Longrightarrow> utf8 0 x) \<Longrightarrow> utf8 0 (concat xs)"
  by (induction xs) (simp_all add: utf8_append)

lemma utf8_ascii: "list_all (\<lambda>c. (of_char c :: nat) < 128) s \<Longrightarrow> utf8 0 s"
  by (induction s) simp_all

lemma utf8_cut: "utf8 k r \<Longrightarrow> utf8 k (takeWhile continuation r) \<and> utf8 0 (dropWhile continuation r)"
  by (induction k r rule: utf8.induct) (auto simp: Let_def continuation_def split: if_splits)

lemma json_escape_ascii: "(of_char c :: nat) < 128 \<Longrightarrow> list_all (\<lambda>d. (of_char d :: nat) < 128) (json_escape c) \<and> length (json_escape c) \<le> 6"
  by (auto simp: json_escape_def hex_digit_def Let_def)

lemma json_escape_high: "128 \<le> (of_char c :: nat) \<Longrightarrow> json_escape c = [c]"
  by (simp add: json_escape_def Let_def)

lemma escaped_Cons: "escaped (c # s) = json_escape c @ escaped s"
  by (simp add: escaped_def)

lemma escaped_Nil [simp]: "escaped [] = []"
  by (simp add: escaped_def)

lemma escaped_utf8: "utf8 k s \<Longrightarrow> utf8 k (escaped s) \<and> int (length (escaped s)) \<le> 6 * utf16_length s + int k"
proof (induction k s rule: utf8.induct)
  case (2 c r)
  show ?case
  proof (cases "(of_char c :: nat) < 128")
    case True
    note e = json_escape_ascii [OF True]
    then have "utf8 0 (json_escape c @ escaped r)" using 2 True by (intro utf8_append utf8_ascii [of "json_escape c"]) simp_all
    moreover have "\<not> continuation c" using True by (simp add: continuation_def)
    ultimately show ?thesis using 2 e True by (auto simp: escaped_Cons utf16_Cons)
  next
    case False
    then have "json_escape c = [c]" by (simp add: json_escape_high)
    with 2 False show ?thesis by (auto simp: escaped_Cons utf16_Cons continuation_def Let_def split: if_splits)
  qed
next
  case (3 k c r)
  then have "json_escape c = [c]" by (intro json_escape_high) (simp add: continuation_def)
  with 3 show ?case by (simp add: escaped_Cons utf16_Cons)
qed simp

lemma take_units_utf8:
  "utf8 0 s \<Longrightarrow> utf8 0 (fst (take_units n s)) \<and> utf8 0 (snd (take_units n s)) \<and> utf16_length (fst (take_units n s)) \<le> int n"
proof (induction n s rule: take_units.induct)
  case (2 n c r)
  show ?case
  proof (cases "units_of c \<le> n")
    case True
    let ?d = "dropWhile continuation r" and ?t = "takeWhile continuation r"
    have cut: "utf8 0 (c # ?t) \<and> utf8 0 ?d"
      using 2(2) utf8_cut [of 0 r] utf8_cut [of 1 r] utf8_cut [of 2 r] utf8_cut [of 3 r] by (simp add: Let_def split: if_splits)
    have zero: "list_all continuation x \<Longrightarrow> utf16_length x = 0" for x by (induction x) (simp_all add: utf16_Cons)
    have "utf16_length ?t = 0" by (rule zero) (auto simp: list_all_iff dest: set_takeWhileD)
    moreover have "\<not> continuation c" using 2(2) by (auto simp: continuation_def Let_def split: if_splits)
    ultimately have u: "utf16_length (c # ?t) = int (units_of c)" by (simp add: utf16_Cons units_of_def)
    obtain a b where ab: "take_units (n - units_of c) ?d = (a, b)" by fastforce
    with 2(1) [OF True] cut have ih: "utf8 0 a" "utf8 0 b" "utf16_length a \<le> int (n - units_of c)" by simp_all
    have "utf8 0 ((c # ?t) @ a)" using cut ih(1) by (intro utf8_append) simp_all
    moreover have "utf16_length ((c # ?t) @ a) \<le> int n" unfolding utf16_append u using ih(3) True by linarith
    ultimately show ?thesis using True ab ih(2) by simp
  next
    case False
    with 2(2) show ?thesis by simp
  qed
qed simp

lemma pieces_utf8: "utf8 0 s \<Longrightarrow> p \<in> set (pieces s) \<Longrightarrow> utf8 0 p \<and> utf16_length p \<le> 4096"
proof (induction s rule: pieces.induct)
  case (1 s)
  show ?case
  proof (cases "s = []")
    case False
    note t = take_units_utf8 [OF 1(2), of string_chunk]
    from 1(3) False have "p = fst (take_units string_chunk s) \<or> p \<in> set (pieces (snd (take_units string_chunk s)))"
      by (subst (asm) pieces.simps) simp
    with t 1(1) [OF False] show ?thesis by (auto simp: string_chunk_def)
  qed (use 1(3) in \<open>simp add: pieces.simps\<close>)
qed

text \<open>What the transport relies on: the text of a number is short and ASCII, and the strings of a value are UTF-8.\<close>

definition number_text :: "(rat \<Rightarrow> string) \<Rightarrow> bool" where
  "number_text num \<longleftrightarrow> (\<forall>q. length (num q) \<le> 32 \<and> list_all (\<lambda>c. (of_char c :: nat) < 128) (num q))"

primrec json_utf8 :: "json \<Rightarrow> bool" where
  "json_utf8 JNull = True"
| "json_utf8 (JBool b) = True"
| "json_utf8 (JNum q) = True"
| "json_utf8 (JStr s) = utf8 0 s"
| "json_utf8 (JArr xs) = list_all id (map json_utf8 xs)"
| "json_utf8 (JObj kvs) = list_all (\<lambda>(k, b). utf8 0 k \<and> b) (map (map_prod id json_utf8) kvs)"

definition chunk_ok :: "string \<Rightarrow> bool" where
  "chunk_ok c \<longleftrightarrow> utf8 0 c \<and> length c \<le> 24576"

lemma chunk_ok_quoted: "utf8 0 s \<Longrightarrow> c \<in> set (quoted s) \<Longrightarrow> chunk_ok c"
  using escaped_utf8 pieces_utf8 by (fastforce simp: quoted_def chunk_ok_def quote_mark_def)

lemma set_separated: "set (separated cs) \<subseteq> {'',''} \<union> (\<Union>c\<in>set cs. set c)"
  by (induction cs rule: separated.induct) auto

lemma chunk_ok_literals [simp]:
  "chunk_ok ''null''" "chunk_ok ''true''" "chunk_ok ''false''" "chunk_ok ''[''" "chunk_ok '']''" "chunk_ok ''{''"
  "chunk_ok ''}''" "chunk_ok '':''" "chunk_ok '',''"
  by (simp_all add: chunk_ok_def)

lemma separated_ok: "(\<And>m x. m \<in> set cs \<Longrightarrow> x \<in> set m \<Longrightarrow> chunk_ok x) \<Longrightarrow> list_all chunk_ok (separated cs)"
  using set_separated [of cs] by (auto simp: list_all_iff)

lemma chunks_ok: "number_text num \<Longrightarrow> json_utf8 v \<Longrightarrow> list_all chunk_ok (json_chunks num v)"
proof (induction v)
  case (JNum q)
  then have "list_all (\<lambda>c. (of_char c :: nat) < 128) (num q)" "length (num q) \<le> 32" by (simp_all add: number_text_def)
  then show ?case by (simp add: chunk_ok_def utf8_ascii)
next
  case (JStr s)
  then show ?case using chunk_ok_quoted by (auto simp: list_all_iff)
next
  case (JArr xs)
  then have "list_all chunk_ok (separated (map (json_chunks num) xs))"
    by (intro separated_ok) (auto simp: list_all_iff)
  then show ?case unfolding json_chunks.simps by (simp only: list_all_append list.pred_inject chunk_ok_literals simp_thms)
next
  case (JObj kvs)
  let ?ms = "map (\<lambda>(k, c). quoted k @ ['':''] @ c) (map (map_prod id (json_chunks num)) kvs)"
  have "chunk_ok x" if m: "m \<in> set ?ms" "x \<in> set m" for m x
  proof -
    from m(1) obtain k v where kv: "(k, v) \<in> set kvs" "m = quoted k @ ['':''] @ json_chunks num v" by auto
    with JObj.prems(2) have u: "utf8 0 k" "json_utf8 v" by (auto simp: list_all_iff)
    have "list_all chunk_ok (json_chunks num v)" by (rule JObj.IH [OF kv(1) _ JObj.prems(1) u(2)]) (simp add: snds.simps)
    with m(2) kv(2) chunk_ok_quoted [OF u(1)] show ?thesis by (auto simp: list_all_iff)
  qed
  then have "list_all chunk_ok (separated ?ms)" by (rule separated_ok)
  then show ?case unfolding json_chunks.simps by (simp only: list_all_append list.pred_inject chunk_ok_literals simp_thms)
qed simp_all

lemma gather_step: "utf16_length acc < 8192 \<Longrightarrow> gather acc (c # r) = gather (acc @ c) r"
  by (subst gather.simps) simp

lemma gather_text: "gather acc cs = (out, rest, fin) \<Longrightarrow> acc @ concat cs = out @ concat rest \<and> (fin \<longrightarrow> rest = []) \<and> length rest \<le> length cs"
proof (induction cs arbitrary: acc)
  case Nil
  then show ?case by (subst (asm) gather.simps) (auto split: if_splits)
next
  case (Cons c cs)
  show ?case
  proof (cases "utf16_length acc < 8192")
    case True
    with Cons.prems have "gather (acc @ c) cs = (out, rest, fin)" by (simp add: gather_step)
    from Cons.IH [OF this] show ?thesis by simp
  next
    case False
    with Cons.prems show ?thesis by (subst (asm) gather.simps) simp
  qed
qed

text \<open>A pull of an unfinished stream takes at least one piece, so the pulls end.\<close>

lemma gather_progress: "gather [] cs = (out, rest, fin) \<Longrightarrow> fin \<or> length rest < length cs"
proof (cases cs)
  case Nil
  assume "gather [] cs = (out, rest, fin)"
  with Nil show ?thesis by (subst (asm) gather.simps) simp
next
  case (Cons c r)
  assume "gather [] cs = (out, rest, fin)"
  with Cons have "gather c r = (out, rest, fin)" by (simp add: gather_step)
  with Cons gather_text show ?thesis by fastforce
qed

lemma gather_bound:
  assumes "list_all chunk_ok cs" and "utf8 0 acc" and "length acc \<le> 49152"
  shows "gather acc cs = (out, rest, fin) \<Longrightarrow> length out \<le> 65536 \<and> list_all chunk_ok rest"
  using assms
proof (induction cs arbitrary: acc)
  case Nil
  then show ?case by (subst (asm) gather.simps) (auto split: if_splits)
next
  case (Cons c cs)
  show ?case
  proof (cases "utf16_length acc < 8192")
    case True
    then have "length acc \<le> 24573" using utf8_bytes [OF Cons.prems(3)] by simp
    moreover have c: "utf8 0 c" "length c \<le> 24576" using Cons.prems(2) by (simp_all add: chunk_ok_def)
    ultimately have "length (acc @ c) \<le> 49152" by simp
    moreover have "utf8 0 (acc @ c)" using Cons.prems(3) c(1) by (rule utf8_append)
    ultimately show ?thesis using Cons True by (simp add: gather_step)
  next
    case False
    with Cons.prems show ?thesis by (subst (asm) gather.simps) simp
  qed
qed

text \<open>The invariant: what was sent and what is left is the body.\<close>

definition transport_inv :: "(rat \<Rightarrow> string) \<Rightarrow> json \<Rightarrow> transport \<Rightarrow> bool" where
  "transport_inv num v t \<longleftrightarrow>
     tr_bytes t = int (length (json_text num v)) \<and> tr_emitted t = int (length (tr_wire t)) \<and>
     tr_retirement t \<noteq> Some Errored \<and>
     (case tr_retirement t of
        Some Eof \<Rightarrow> tr_wire t = json_text num v
      | Some _ \<Rightarrow> \<exists>rest. tr_wire t @ rest = json_text num v
      | None \<Rightarrow> (case tr_chunks t of
          Some cs \<Rightarrow> tr_started t \<and> list_all chunk_ok cs \<and> tr_wire t @ concat cs = json_text num v
        | None \<Rightarrow> \<not> tr_started t \<and> tr_body t = Some v \<and> tr_wire t = []))"

lemma inv_prefix: "transport_inv num v t \<Longrightarrow> \<exists>rest. tr_wire t @ rest = json_text num v"
  by (auto simp: transport_inv_def split: option.splits retirement.splits)

lemma inv_final: "transport_inv num v t \<Longrightarrow> tr_retirement t \<noteq> Some Errored \<and> (tr_retirement t = Some Eof \<longrightarrow> tr_wire t = json_text num v)"
  by (auto simp: transport_inv_def)

lemma inv_retire: "transport_inv num v t \<Longrightarrow> r \<noteq> Errored \<Longrightarrow> r \<noteq> Eof \<Longrightarrow> transport_inv num v (retire r t)"
  using inv_prefix [of num v t] by (cases r) (auto simp: transport_inv_def retire_def)

lemma pull_sends:
  assumes "transport_inv num v t" and "tr_retirement t = None" and "tr_chunks t = Some cs" and "gather [] cs = (out, rest, fin)"
  shows "pull t = (let t' = t\<lparr>tr_chunks := Some rest, tr_emitted := tr_emitted t + int (length out), tr_wire := tr_wire t @ out\<rparr>
    in if fin then retire Eof t' else t')" and "tr_wire t @ out @ concat rest = json_text num v" and "list_all chunk_ok rest"
proof -
  have inv: "list_all chunk_ok cs" "tr_wire t @ concat cs = json_text num v" "tr_bytes t = int (length (json_text num v))"
      "tr_emitted t = int (length (tr_wire t))"
    using assms(1-3) by (simp_all add: transport_inv_def)
  note g = gather_text [OF assms(4)] gather_bound [OF inv(1) _ _ assms(4)]
  show body: "tr_wire t @ out @ concat rest = json_text num v" using g(1) inv(2) by (metis append_Nil)
  then have "tr_emitted t + int (length out) \<le> tr_bytes t \<and> (fin \<longrightarrow> tr_emitted t + int (length out) = tr_bytes t)"
    using g(1) inv(3,4) by (auto simp flip: body)
  moreover show "list_all chunk_ok rest" using g(2) by simp
  ultimately show "pull t = (let t' = t\<lparr>tr_chunks := Some rest, tr_emitted := tr_emitted t + int (length out), tr_wire := tr_wire t @ out\<rparr>
      in if fin then retire Eof t' else t')"
    using g(2) assms(3,4) by (auto simp: pull_def Let_def)
qed

lemma inv_pull:
  assumes "transport_inv num v t" and "tr_retirement t = None" and "tr_chunks t = Some cs"
  shows "transport_inv num v (pull t)"
proof -
  obtain out rest fin where g: "gather [] cs = (out, rest, fin)" by (metis prod_cases3)
  note p = pull_sends [OF assms g]
  have "fin \<longrightarrow> rest = []" using gather_text [OF g] by blast
  with p assms show ?thesis by (auto simp: transport_inv_def retire_def Let_def)
qed

lemma inv_step:
  assumes "number_text num" and "json_utf8 v" and "transport_step num t t'" and "transport_inv num v t"
  shows "transport_inv num v t'"
  using assms(3)
proof (cases rule: transport_step.cases)
  case open_it
  then have "tr_body t = Some v" "tr_retirement t = None" "tr_wire t = []"
    using assms(4) by (auto simp: transport_inv_def open_stream_def split: if_splits option.splits)
  with open_it assms chunks_ok [OF assms(1,2)] show ?thesis
    by (auto simp: transport_inv_def open_stream_def concat_json_chunks split: if_splits)
next
  case pull_it
  with assms(4) show ?thesis using inv_pull by auto
qed (use assms(4) inv_retire in simp_all)

lemma inv_created: "json_body_transport num v bound = Inr t \<Longrightarrow> transport_inv num v t \<and> tr_bytes t \<le> bound"
  using json_body_bytes_length [of num v]
  by (auto simp: json_body_transport_def transport_inv_def Let_def split: if_splits)

text \<open>
  The transport is safe in every order of opening, pulling, cancelling and discarding: the
  bytes sent are a prefix of the body's text within the bound it was created with, the size checks
  never fire, and a stream that ends has sent exactly the body.
\<close>

theorem transport_sends_the_body:
  assumes "number_text num" and "json_utf8 v" and "json_body_transport num v bound = Inr t0"
    and "(transport_step num)\<^sup>*\<^sup>* t0 t"
  shows "(\<exists>rest. tr_wire t @ rest = json_text num v) \<and> int (length (tr_wire t)) \<le> bound \<and>
    tr_retirement t \<noteq> Some Errored \<and> (tr_retirement t = Some Eof \<longrightarrow> tr_wire t = json_text num v)"
proof -
  note c = inv_created [OF assms(3)]
  have "transport_inv num v t" using assms(4)
    by (induction rule: rtranclp_induct) (use c inv_step [OF assms(1,2)] in auto)
  then have inv: "tr_retirement t \<noteq> Some Errored \<and> (tr_retirement t = Some Eof \<longrightarrow> tr_wire t = json_text num v)"
      and pre: "\<exists>rest. tr_wire t @ rest = json_text num v"
    using inv_prefix inv_final by blast+
  have le: "int (length (json_text num v)) \<le> bound" using c by (simp add: transport_inv_def)
  from pre obtain rest where "json_text num v = tr_wire t @ rest" by metis
  then have "int (length (tr_wire t)) \<le> bound" using le by simp
  with inv pre show ?thesis by blast
qed

lemma pulls_end:
  assumes "transport_inv num v t" and "tr_retirement t = None" and "tr_chunks t = Some cs"
  shows "\<exists>n \<le> Suc (length cs). tr_retirement ((pull ^^ n) t) = Some Eof \<and> tr_wire ((pull ^^ n) t) = json_text num v"
  using assms
proof (induction "length cs" arbitrary: t cs rule: less_induct)
  case less
  obtain out rest fin where g: "gather [] cs = (out, rest, fin)" by (metis prod_cases3)
  note p = pull_sends [OF less.prems g] and inv = inv_pull [OF less.prems]
  show ?case
  proof (cases fin)
    case True
    then have "tr_retirement (pull t) = Some Eof" using p(1) less.prems(2) by (simp add: retire_def Let_def)
    moreover from this have "tr_wire (pull t) = json_text num v" using inv by (simp add: transport_inv_def)
    ultimately show ?thesis by (intro exI [of _ 1]) simp
  next
    case False
    then have pl: "tr_retirement (pull t) = None" "tr_chunks (pull t) = Some rest"
      using p(1) less.prems(2) by (simp_all add: Let_def)
    have lt: "length rest < length cs" using gather_progress [OF g] False by blast
    from less.hyps [OF lt inv pl] obtain n where n: "n \<le> Suc (length rest)"
      "tr_retirement ((pull ^^ n) (pull t)) = Some Eof" "tr_wire ((pull ^^ n) (pull t)) = json_text num v" by blast
    then show ?thesis using lt by (intro exI [of _ "Suc n"]) (simp add: funpow_swap1)
  qed
qed

text \<open>
  C15. Pulling ends: after at most one pull more than there are pieces the stream is closed and the
  whole body has been sent.
\<close>

theorem pulling_ends:
  assumes "number_text num" and "json_utf8 v" and "json_body_transport num v bound = Inr t0" and "open_stream num t0 = Inr t"
  shows "\<exists>n \<le> Suc (length (json_chunks num v)). tr_retirement ((pull ^^ n) t) = Some Eof \<and> tr_wire ((pull ^^ n) t) = json_text num v"
proof -
  have "transport_inv num v t" by (rule inv_step [OF assms(1,2) open_it [OF assms(4)]]) (use inv_created [OF assms(3)] in simp)
  moreover have "tr_retirement t = None \<and> tr_chunks t = Some (json_chunks num v)"
    using assms(3,4) by (auto simp: json_body_transport_def open_stream_def Let_def split: if_splits)
  ultimately show ?thesis using pulls_end by blast
qed

definition sample_number :: "rat \<Rightarrow> string" where
  "sample_number q = (if q = 1 then ''1'' else ''0'')"

lemma sample_number_text: "number_text sample_number"
  by (simp add: number_text_def sample_number_def)

definition sample_body :: json where
  "sample_body = JArr [JNum 1, JStr ''ab'']"

lemma sample_body_text: "json_text sample_number sample_body = ''[1,'' @ json_string ''ab'' @ '']''"
  by (simp add: sample_body_def sample_number_def)

lemma sample_transport:
  "json_body_transport sample_number sample_body 100 = Inr \<lparr>tr_bytes = 8, tr_body = Some sample_body, tr_chunks = None,
     tr_started = False, tr_emitted = 0, tr_retirement = None, tr_wire = []\<rparr>"
proof -
  have "json_body_bytes sample_number sample_body = 8"
    unfolding json_body_bytes_length sample_body_text by (simp add: json_string_def json_escape_def)
  then show ?thesis by (simp add: json_body_transport_def safe_int_def max_safe_integer_def)
qed

theorem transport_sends_the_body_witness:
  "\<exists>t0. json_body_transport sample_number sample_body 100 = Inr t0 \<and> int (length (tr_wire (retire Discarded t0))) \<le> 100"
proof -
  have "json_utf8 sample_body" by (simp add: sample_body_def)
  moreover obtain t0 where t0: "json_body_transport sample_number sample_body 100 = Inr t0" using sample_transport by blast
  moreover have "(transport_step sample_number)\<^sup>*\<^sup>* t0 (retire Discarded t0)" by (rule r_into_rtranclp) (rule discard_it)
  ultimately show ?thesis using transport_sends_the_body [OF sample_number_text] by blast
qed

theorem pulling_ends_witness:
  "\<exists>t0 t n. json_body_transport sample_number sample_body 100 = Inr t0 \<and> open_stream sample_number t0 = Inr t \<and>
     tr_wire ((pull ^^ n) t) = json_text sample_number sample_body"
proof -
  have u: "json_utf8 sample_body" by (simp add: sample_body_def)
  obtain t0 where t0: "json_body_transport sample_number sample_body 100 = Inr t0" "tr_body t0 = Some sample_body" "\<not> tr_started t0"
      "tr_retirement t0 = None"
    using sample_transport by simp
  then obtain t where "open_stream sample_number t0 = Inr t" by (simp add: open_stream_def)
  with pulling_ends [OF sample_number_text u t0(1) this] t0(1) show ?thesis by blast
qed

end
