(* ===== verification/Json_Parser.thy ===== *)
theory Json_Parser
  imports Json_Body
begin

section \<open>The bounded JSON parser\<close>

text \<open>
  \<open>createJsonBodyParser\<close> of \<open>worker/json-body.ts\<close>: a machine over the tokens of
  \<open>stream-json\<close> that builds the value and enforces structure limits. The source keeps a stack of
  containers that are already linked into the root and fills them in place; only the innermost one
  is ever reachable for writing, so the model keeps the stack of containers under construction and
  links each one when it is closed, which gives the same root. \<open>read\<close> is \<open>Number\<close>.
\<close>

datatype token =
    StartObject | EndObject | StartArray | EndArray | StartKey | EndKey
  | StartString | EndString | StartNumber | EndNumber
  | StringChunk string | NumberChunk string
  | NullValue | TrueValue | FalseValue

datatype frame = ArrFrame "json list" | ObjFrame "(string \<times> json) list" "string option"

record parser =
  ps_stack :: "frame list"
  ps_root :: "json option"
  ps_text :: string
  ps_key :: bool
  ps_nodes :: nat
  ps_depth :: nat
  ps_scalar :: int
  ps_enforce :: bool
  ps_live :: bool

definition new_parser :: "bool \<Rightarrow> parser" where
  "new_parser enforce = \<lparr>ps_stack = [], ps_root = None, ps_text = [], ps_key = False, ps_nodes = 0, ps_depth = 0,
     ps_scalar = 0, ps_enforce = enforce, ps_live = True\<rparr>"

definition structure_limit :: error where
  "structure_limit = Thrown ''JsonBodyStructureLimit''"

definition fits :: "parser \<Rightarrow> bool" where
  "fits st \<longleftrightarrow> \<not> (ps_enforce st \<and> (65536 < ps_nodes st \<or> 128 < ps_depth st \<or> 4096 < ps_scalar st))"

definition check_structure :: "parser \<Rightarrow> parser result" where
  "check_structure st = (if fits st then Inr st else Inl structure_limit)"

definition frame_value :: "frame \<Rightarrow> json" where
  "frame_value f = (case f of ArrFrame xs \<Rightarrow> JArr xs | ObjFrame kvs _ \<Rightarrow> JObj kvs)"

definition add_to :: "frame \<Rightarrow> json \<Rightarrow> frame" where
  "add_to f v = (case f of ArrFrame xs \<Rightarrow> ArrFrame (xs @ [v])
     | ObjFrame kvs k \<Rightarrow> ObjFrame (upsert (case k of None \<Rightarrow> ''undefined'' | Some s \<Rightarrow> s) v kvs) k)"

definition place :: "json \<Rightarrow> parser \<Rightarrow> parser" where
  "place v st = (case ps_stack st of [] \<Rightarrow> st\<lparr>ps_root := Some v\<rparr> | f # r \<Rightarrow> st\<lparr>ps_stack := add_to f v # r\<rparr>)"

definition attach :: "json \<Rightarrow> parser \<Rightarrow> parser result" where
  "attach v st = rbind (check_structure (st\<lparr>ps_nodes := Suc (ps_nodes st)\<rparr>)) (\<lambda>st1. Inr (place v st1))"

definition open_container :: "frame \<Rightarrow> parser \<Rightarrow> parser result" where
  "open_container f st =
     rbind (check_structure (st\<lparr>ps_depth := max (ps_depth st) (Suc (length (ps_stack st)))\<rparr>))
       (\<lambda>st1. rbind (check_structure (st1\<lparr>ps_nodes := Suc (ps_nodes st1)\<rparr>)) (\<lambda>st2. Inr (st2\<lparr>ps_stack := f # ps_stack st2\<rparr>)))"

definition close_container :: "parser \<Rightarrow> parser" where
  "close_container st = (case ps_stack st of [] \<Rightarrow> st | f # r \<Rightarrow> place (frame_value f) (st\<lparr>ps_stack := r\<rparr>))"

definition measured_chunk :: "string \<Rightarrow> bool \<Rightarrow> parser \<Rightarrow> parser result" where
  "measured_chunk s measured st =
     (let st1 = st\<lparr>ps_text := ps_text st @ s\<rparr>
      in if measured then check_structure (st1\<lparr>ps_scalar := max (ps_scalar st1) (utf16_length (ps_text st1))\<rparr>) else Inr st1)"

fun accept :: "(string \<Rightarrow> rat) \<Rightarrow> token \<Rightarrow> parser \<Rightarrow> parser result" where
  "accept read StartObject st = open_container (ObjFrame [] None) st"
| "accept read StartArray st = open_container (ArrFrame []) st"
| "accept read EndObject st = Inr (close_container st)"
| "accept read EndArray st = Inr (close_container st)"
| "accept read StartKey st = Inr (st\<lparr>ps_key := True, ps_text := []\<rparr>)"
| "accept read StartString st = Inr (st\<lparr>ps_key := False, ps_text := []\<rparr>)"
| "accept read StartNumber st = Inr (st\<lparr>ps_key := False, ps_text := []\<rparr>)"
| "accept read (StringChunk s) st = measured_chunk s (ps_key st) st"
| "accept read (NumberChunk s) st = measured_chunk s True st"
| "accept read EndKey st = Inr (case ps_stack st of
     ObjFrame kvs _ # r \<Rightarrow> st\<lparr>ps_stack := ObjFrame kvs (Some (ps_text st)) # r, ps_text := []\<rparr> | _ \<Rightarrow> st\<lparr>ps_text := []\<rparr>)"
| "accept read EndString st = rbind (attach (JStr (ps_text st)) st) (\<lambda>st1. Inr (st1\<lparr>ps_text := []\<rparr>))"
| "accept read EndNumber st = rbind (attach (JNum (read (ps_text st))) st) (\<lambda>st1. Inr (st1\<lparr>ps_text := []\<rparr>))"
| "accept read NullValue st = attach JNull st"
| "accept read TrueValue st = attach (JBool True) st"
| "accept read FalseValue st = attach (JBool False) st"

fun run_tokens :: "(string \<Rightarrow> rat) \<Rightarrow> token list \<Rightarrow> parser \<Rightarrow> parser result" where
  "run_tokens read [] st = Inr st"
| "run_tokens read (t # ts) st = rbind (accept read t st) (run_tokens read ts)"

text \<open>The operations of the returned object; \<open>push\<close> receives the tokens of its feed.\<close>

definition retired_error :: error where
  "retired_error = Thrown ''JSON parser is retired''"

definition parser_push :: "(string \<Rightarrow> rat) \<Rightarrow> token list \<Rightarrow> parser \<Rightarrow> parser result" where
  "parser_push read ts st = (if ps_live st then run_tokens read ts st else Inl retired_error)"

definition parser_discard :: "parser \<Rightarrow> parser" where
  "parser_discard st = st\<lparr>ps_live := False, ps_root := None, ps_text := [], ps_stack := []\<rparr>"

definition parser_end :: "(string \<Rightarrow> rat) \<Rightarrow> token list \<Rightarrow> parser \<Rightarrow> (json option \<times> parser) result" where
  "parser_end read ts st = rbind (parser_push read ts st) (\<lambda>st1. Inr (ps_root st1, st1))"

definition parser_take :: "(string \<Rightarrow> rat) \<Rightarrow> token list \<Rightarrow> parser \<Rightarrow> (json option \<times> parser) result" where
  "parser_take read ts st = rbind (parser_push read ts st) (\<lambda>st1. Inr (ps_root st1, parser_discard st1))"

definition enforce_structure_limits :: "parser \<Rightarrow> parser result" where
  "enforce_structure_limits st = check_structure (st\<lparr>ps_enforce := True\<rparr>)"

subsection \<open>The tokens of a value\<close>

text \<open>
  The documented token stream of a JSON text: strings, keys and numbers arrive in pieces cut
  anywhere.
\<close>

inductive spelled :: "(rat \<Rightarrow> string) \<Rightarrow> json \<Rightarrow> token list \<Rightarrow> bool"
  and spelled_elements :: "(rat \<Rightarrow> string) \<Rightarrow> json list \<Rightarrow> token list \<Rightarrow> bool"
  and spelled_members :: "(rat \<Rightarrow> string) \<Rightarrow> (string \<times> json) list \<Rightarrow> token list \<Rightarrow> bool"
  for num where
  sp_null: "spelled num JNull [NullValue]"
| sp_true: "spelled num (JBool True) [TrueValue]"
| sp_false: "spelled num (JBool False) [FalseValue]"
| sp_string: "concat cs = s \<Longrightarrow> spelled num (JStr s) ([StartString] @ map StringChunk cs @ [EndString])"
| sp_number: "concat cs = num q \<Longrightarrow> spelled num (JNum q) ([StartNumber] @ map NumberChunk cs @ [EndNumber])"
| sp_array: "spelled_elements num xs ts \<Longrightarrow> spelled num (JArr xs) ([StartArray] @ ts @ [EndArray])"
| sp_object: "spelled_members num kvs ts \<Longrightarrow> spelled num (JObj kvs) ([StartObject] @ ts @ [EndObject])"
| se_nil: "spelled_elements num [] []"
| se_cons: "spelled num x a \<Longrightarrow> spelled_elements num xs b \<Longrightarrow> spelled_elements num (x # xs) (a @ b)"
| sm_nil: "spelled_members num [] []"
| sm_cons: "concat cs = k \<Longrightarrow> spelled num v a \<Longrightarrow> spelled_members num kvs b \<Longrightarrow>
    spelled_members num ((k, v) # kvs) ([StartKey] @ map StringChunk cs @ [EndKey] @ a @ b)"

primrec nodes_of :: "json \<Rightarrow> nat" where
  "nodes_of JNull = 1" | "nodes_of (JBool b) = 1" | "nodes_of (JNum q) = 1" | "nodes_of (JStr s) = 1"
| "nodes_of (JArr xs) = Suc (sum_list (map nodes_of xs))"
| "nodes_of (JObj kvs) = Suc (sum_list (map snd (map (map_prod id nodes_of) kvs)))"

primrec depth_of :: "json \<Rightarrow> nat" where
  "depth_of JNull = 0" | "depth_of (JBool b) = 0" | "depth_of (JNum q) = 0" | "depth_of (JStr s) = 0"
| "depth_of (JArr xs) = Suc (foldr max (map depth_of xs) 0)"
| "depth_of (JObj kvs) = Suc (foldr max (map snd (map (map_prod id depth_of) kvs)) 0)"

text \<open>The longest key or number.\<close>

primrec scalar_of :: "(rat \<Rightarrow> string) \<Rightarrow> json \<Rightarrow> int" where
  "scalar_of num JNull = 0" | "scalar_of num (JBool b) = 0" | "scalar_of num (JNum q) = utf16_length (num q)"
| "scalar_of num (JStr s) = 0"
| "scalar_of num (JArr xs) = foldr max (map (scalar_of num) xs) 0"
| "scalar_of num (JObj kvs) = foldr max (map (\<lambda>(k, n). max (utf16_length k) n) (map (map_prod id (scalar_of num)) kvs)) 0"

definition within_limits :: "(rat \<Rightarrow> string) \<Rightarrow> json \<Rightarrow> bool" where
  "within_limits num v \<longleftrightarrow> nodes_of v \<le> 65536 \<and> depth_of v \<le> 128 \<and> scalar_of num v \<le> 4096"

text \<open>
  What a parsed value has: one property per name, and numbers that \<open>Number\<close> reads back from
  their text.
\<close>

primrec readable :: "(string \<Rightarrow> rat) \<Rightarrow> (rat \<Rightarrow> string) \<Rightarrow> json \<Rightarrow> bool" where
  "readable read num JNull = True" | "readable read num (JBool b) = True" | "readable read num (JNum q) = (read (num q) = q)"
| "readable read num (JStr s) = True"
| "readable read num (JArr xs) = list_all id (map (readable read num) xs)"
| "readable read num (JObj kvs) = (distinct (map fst kvs) \<and> list_all snd (map (map_prod id (readable read num)) kvs))"

subsection \<open>Running the tokens of a value\<close>

lemma run_append: "run_tokens read (a @ b) st = rbind (run_tokens read a st) (run_tokens read b)"
proof (induction a arbitrary: st)
  case (Cons t a)
  then show ?case by (cases "accept read t st") simp_all
qed simp

text \<open>The state after reading something: a new stack and root, and the counters it adds.\<close>

definition after :: "frame list \<Rightarrow> json option \<Rightarrow> nat \<Rightarrow> nat \<Rightarrow> int \<Rightarrow> parser \<Rightarrow> parser" where
  "after S R n d m st = st\<lparr>ps_stack := S, ps_root := R, ps_nodes := ps_nodes st + n, ps_depth := max (ps_depth st) d,
     ps_scalar := max (ps_scalar st) m\<rparr>"

definition yields :: "(string \<Rightarrow> rat) \<Rightarrow> token list \<Rightarrow> parser \<Rightarrow> parser \<Rightarrow> bool" where
  "yields read ts st st' \<longleftrightarrow> (if fits st' then \<exists>tx ky. run_tokens read ts st = Inr (st'\<lparr>ps_text := tx, ps_key := ky\<rparr>)
     else run_tokens read ts st = Inl structure_limit)"

definition sound :: "parser \<Rightarrow> bool" where
  "sound st \<longleftrightarrow> fits st \<and> 0 \<le> ps_scalar st \<and> length (ps_stack st) \<le> ps_depth st"

lemma after_fields [simp]:
  "ps_stack (after S R n d m st) = S" "ps_root (after S R n d m st) = R" "ps_nodes (after S R n d m st) = ps_nodes st + n"
  "ps_depth (after S R n d m st) = max (ps_depth st) d" "ps_scalar (after S R n d m st) = max (ps_scalar st) m"
  "ps_enforce (after S R n d m st) = ps_enforce st"
  by (simp_all add: after_def)

lemma after_after: "after S' R' n' d' m' (after S R n d m st) = after S' R' (n + n') (max d d') (max m m') st"
  by (simp add: after_def max.assoc add.assoc)

lemma after_text: "after S R n d m (st\<lparr>ps_text := tx, ps_key := ky\<rparr>) = (after S R n d m st)\<lparr>ps_text := tx, ps_key := ky\<rparr>"
  by (simp add: after_def)

lemma fits_after: "fits (after S R n d m st) \<longleftrightarrow>
    \<not> (ps_enforce st \<and> (65536 < ps_nodes st + n \<or> 128 < max (ps_depth st) d \<or> 4096 < max (ps_scalar st) m))"
  by (simp add: fits_def)

lemma fits_text [simp]: "fits (st\<lparr>ps_text := tx, ps_key := ky\<rparr>) = fits st" "fits (st\<lparr>ps_text := tx\<rparr>) = fits st" "fits (st\<lparr>ps_key := ky\<rparr>) = fits st"
  by (simp_all add: fits_def)

lemma yields_text: "yields read ts st (st'\<lparr>ps_text := tx, ps_key := ky\<rparr>) = yields read ts st st'"
  by (simp add: yields_def)

lemma yields_run:
  assumes "run_tokens read ts st = (if fits x then Inr x else Inl structure_limit)" and "fits x = fits st'"
    and "x = st'\<lparr>ps_text := ps_text x, ps_key := ps_key x\<rparr>"
  shows "yields read ts st st'"
proof (cases "fits st'")
  case True
  with assms(1,2) have "run_tokens read ts st = Inr (st'\<lparr>ps_text := ps_text x, ps_key := ps_key x\<rparr>)" using assms(3) by simp
  with True show ?thesis unfolding yields_def by auto
qed (use assms in \<open>simp add: yields_def\<close>)

lemma yields_append:
  assumes "yields read a st (after S R n d m st)"
    and "\<And>tx ky. fits (after S R n d m st) \<Longrightarrow>
      yields read b ((after S R n d m st)\<lparr>ps_text := tx, ps_key := ky\<rparr>)
        (after S' R' n' d' m' ((after S R n d m st)\<lparr>ps_text := tx, ps_key := ky\<rparr>))"
  shows "yields read (a @ b) st (after S' R' (n + n') (max d d') (max m m') st)"
proof (cases "fits (after S R n d m st)")
  case True
  then obtain tx ky where r: "run_tokens read a st = Inr ((after S R n d m st)\<lparr>ps_text := tx, ps_key := ky\<rparr>)"
    using assms(1) by (auto simp: yields_def)
  from assms(2) [where tx = tx and ky = ky, OF True]
  have "yields read b ((after S R n d m st)\<lparr>ps_text := tx, ps_key := ky\<rparr>) (after S' R' (n + n') (max d d') (max m m') st)"
    by (simp add: after_text after_after yields_text)
  with r show ?thesis by (simp add: yields_def run_append)
next
  case False
  then have "\<not> fits (after S' R' (n + n') (max d d') (max m m') st)" by (auto simp: fits_after)
  with False assms(1) show ?thesis by (simp add: yields_def run_append)
qed

lemma sound_after: "sound st \<Longrightarrow> fits (after S R n d m st) \<Longrightarrow> length S \<le> max (ps_depth st) d \<Longrightarrow>
    sound ((after S R n d m st)\<lparr>ps_text := tx, ps_key := ky\<rparr>)"
  by (auto simp: sound_def)

text \<open>Pieces of keys and numbers are measured as they arrive; the longest prefix is the whole.\<close>

lemma utf16_mono: "utf16_length a \<le> utf16_length (a @ b)"
  using utf16_nonneg [of b] by simp

lemma measured_chunks:
  assumes "\<And>s st. ps_key st = K \<Longrightarrow> accept read (f s) st = measured_chunk s True st"
  shows "ps_key st = K \<Longrightarrow> fits st \<Longrightarrow> utf16_length (ps_text st) \<le> ps_scalar st \<Longrightarrow>
    run_tokens read (map f cs) st =
      (let st' = st\<lparr>ps_text := ps_text st @ concat cs, ps_scalar := max (ps_scalar st) (utf16_length (ps_text st @ concat cs))\<rparr>
       in if fits st' then Inr st' else Inl structure_limit)"
proof (induction cs arbitrary: st)
  case Nil
  then show ?case by (simp add: max_def)
next
  case (Cons c cs)
  let ?st = "st\<lparr>ps_text := ps_text st @ c, ps_scalar := max (ps_scalar st) (utf16_length (ps_text st @ c))\<rparr>"
  have acc: "accept read (f c) st = (if fits ?st then Inr ?st else Inl structure_limit)"
    using assms [OF Cons.prems(1)] by (simp add: measured_chunk_def check_structure_def Let_def del: utf16_append)
  have mono: "max (utf16_length (ps_text st @ c)) (utf16_length (ps_text st @ c @ concat cs)) = utf16_length (ps_text st @ c @ concat cs)"
    using utf16_mono [of "ps_text st @ c" "concat cs"] by (simp add: max_def)
  show ?case
  proof (cases "fits ?st")
    case True
    have "run_tokens read (map f cs) ?st =
        (let st' = ?st\<lparr>ps_text := ps_text ?st @ concat cs, ps_scalar := max (ps_scalar ?st) (utf16_length (ps_text ?st @ concat cs))\<rparr>
         in if fits st' then Inr st' else Inl structure_limit)"
      using Cons.prems True by (intro Cons.IH) simp_all
    then show ?thesis using True acc mono by (simp add: Let_def max.assoc del: utf16_append)
  next
    case False
    then have "\<not> fits (st\<lparr>ps_text := ps_text st @ concat (c # cs), ps_scalar := max (ps_scalar st) (utf16_length (ps_text st @ concat (c # cs)))\<rparr>)"
      using mono by (auto simp: fits_def simp del: utf16_append)
    with False acc show ?thesis by (simp add: Let_def del: utf16_append)
  qed
qed

lemma string_chunks: "\<not> ps_key st \<Longrightarrow> run_tokens read (map StringChunk cs) st = Inr (st\<lparr>ps_text := ps_text st @ concat cs\<rparr>)"
  by (induction cs arbitrary: st) (simp_all add: measured_chunk_def Let_def)

lemma key_tokens:
  assumes "sound st" and "ps_stack st = ObjFrame ms k0 # r"
  shows "yields read ([StartKey] @ map StringChunk cs @ [EndKey]) st
    (after (ObjFrame ms (Some (concat cs)) # r) (ps_root st) 0 0 (utf16_length (concat cs)) st)"
proof -
  let ?st = "st\<lparr>ps_key := True, ps_text := []\<rparr>"
  have "run_tokens read (map StringChunk cs) ?st =
      (let st' = ?st\<lparr>ps_text := ps_text ?st @ concat cs, ps_scalar := max (ps_scalar ?st) (utf16_length (ps_text ?st @ concat cs))\<rparr>
       in if fits st' then Inr st' else Inl structure_limit)"
    using assms(1) by (intro measured_chunks [where K = True]) (simp_all add: sound_def fits_def)
  then have "run_tokens read ([StartKey] @ map StringChunk cs @ [EndKey]) st =
      (let x = st\<lparr>ps_key := True, ps_text := [], ps_stack := ObjFrame ms (Some (concat cs)) # r,
         ps_scalar := max (ps_scalar st) (utf16_length (concat cs))\<rparr>
       in if fits x then Inr x else Inl structure_limit)"
    using assms(2) by (simp add: run_append Let_def fits_def)
  then show ?thesis unfolding Let_def
    by (rule yields_run) (simp_all add: after_def fits_def)
qed

lemma attach_eq: "attach v st = (let st' = place v (st\<lparr>ps_nodes := Suc (ps_nodes st)\<rparr>) in if fits st' then Inr st' else Inl structure_limit)"
  by (auto simp: attach_def check_structure_def place_def Let_def fits_def split: list.split)

definition placed :: "json \<Rightarrow> frame list \<Rightarrow> frame list" where
  "placed v S = (case S of [] \<Rightarrow> [] | f # r \<Rightarrow> add_to f v # r)"

definition rooted :: "json \<Rightarrow> frame list \<Rightarrow> json option \<Rightarrow> json option" where
  "rooted v S R = (if S = [] then Some v else R)"

lemma length_placed [simp]: "length (placed v S) = length S"
  by (simp add: placed_def split: list.split)

lemma place_eq: "place v st = st\<lparr>ps_stack := placed v (ps_stack st), ps_root := rooted v (ps_stack st) (ps_root st)\<rparr>"
  by (auto simp: place_def placed_def rooted_def split: list.split)

text \<open>Reading a value from any state.\<close>

definition reads :: "(string \<Rightarrow> rat) \<Rightarrow> (rat \<Rightarrow> string) \<Rightarrow> json \<Rightarrow> token list \<Rightarrow> bool" where
  "reads read num v ts \<longleftrightarrow> (\<forall>st. sound st \<longrightarrow> yields read ts st
     (after (placed v (ps_stack st)) (rooted v (ps_stack st) (ps_root st)) (nodes_of v) (length (ps_stack st) + depth_of v) (scalar_of num v) st))"

lemma attach_yields:
  assumes "sound st" and "accept read t st = rbind (attach v st) (\<lambda>st1. Inr (st1\<lparr>ps_text := tx\<rparr>))" and "nodes_of v = 1"
    and "depth_of v = 0" and "0 \<le> m" and "m \<le> ps_scalar st"
  shows "yields read [t] st (after (placed v (ps_stack st)) (rooted v (ps_stack st) (ps_root st)) (nodes_of v)
    (length (ps_stack st) + depth_of v) m st)"
proof -
  have "max (ps_depth st) (length (ps_stack st)) = ps_depth st" "max (ps_scalar st) m = ps_scalar st"
    using assms(1,6) by (simp_all add: sound_def max_def)
  then have eq: "after (placed v (ps_stack st)) (rooted v (ps_stack st) (ps_root st)) (nodes_of v) (length (ps_stack st) + depth_of v) m st =
      place v (st\<lparr>ps_nodes := Suc (ps_nodes st)\<rparr>)"
    using assms(3,4) by (simp add: after_def place_eq)
  have "run_tokens read [t] st = (let x = (place v (st\<lparr>ps_nodes := Suc (ps_nodes st)\<rparr>))\<lparr>ps_text := tx\<rparr>
      in if fits x then Inr x else Inl structure_limit)"
    using assms(2) by (simp add: attach_eq Let_def)
  then show ?thesis unfolding eq Let_def by (rule yields_run) (simp_all add: place_eq)
qed

lemma yields_prefix:
  assumes "run_tokens read a st = Inr (st\<lparr>ps_text := tx, ps_key := ky\<rparr>)"
    and "yields read b (st\<lparr>ps_text := tx, ps_key := ky\<rparr>) (after S R n d m (st\<lparr>ps_text := tx, ps_key := ky\<rparr>))"
  shows "yields read (a @ b) st (after S R n d m st)"
  using assms unfolding after_text yields_text by (simp add: yields_def run_append)

lemma sound_text: "sound (st\<lparr>ps_text := tx, ps_key := ky\<rparr>) = sound st"
  by (simp add: sound_def)

lemma sound_depth: "sound st \<Longrightarrow> max (ps_depth st) (length (ps_stack st)) = ps_depth st \<and> max (ps_scalar st) 0 = ps_scalar st"
  by (simp add: sound_def max_def)

lemma literal_reads:
  assumes "\<And>st. accept read t st = attach v st" and "nodes_of v = 1" "depth_of v = 0" "scalar_of num v = 0"
  shows "reads read num v [t]"
  unfolding reads_def
proof (intro allI impI)
  fix st assume s: "sound st"
  have "accept read t st = rbind (attach v st) (\<lambda>st1. Inr (st1\<lparr>ps_text := ps_text st\<rparr>))"
    by (simp add: assms(1) attach_eq Let_def place_eq)
  then show "yields read [t] st (after (placed v (ps_stack st)) (rooted v (ps_stack st) (ps_root st)) (nodes_of v)
      (length (ps_stack st) + depth_of v) (scalar_of num v) st)"
    unfolding assms(4) by (rule attach_yields [OF s]) (use s assms in \<open>simp_all add: sound_def\<close>)
qed

lemma string_reads: "reads read num (JStr (concat cs)) ([StartString] @ map StringChunk cs @ [EndString])"
  unfolding reads_def append_assoc [symmetric]
proof (intro allI impI)
  fix st assume s: "sound st"
  show "yields read (([StartString] @ map StringChunk cs) @ [EndString]) st (after (placed (JStr (concat cs)) (ps_stack st))
      (rooted (JStr (concat cs)) (ps_stack st) (ps_root st)) (nodes_of (JStr (concat cs)))
      (length (ps_stack st) + depth_of (JStr (concat cs))) (scalar_of num (JStr (concat cs))) st)"
  proof (rule yields_prefix)
    show "run_tokens read ([StartString] @ map StringChunk cs) st = Inr (st\<lparr>ps_text := concat cs, ps_key := False\<rparr>)"
      by (simp add: string_chunks)
    show "yields read [EndString] (st\<lparr>ps_text := concat cs, ps_key := False\<rparr>) (after (placed (JStr (concat cs)) (ps_stack st))
        (rooted (JStr (concat cs)) (ps_stack st) (ps_root st)) (nodes_of (JStr (concat cs)))
        (length (ps_stack st) + depth_of (JStr (concat cs))) (scalar_of num (JStr (concat cs))) (st\<lparr>ps_text := concat cs, ps_key := False\<rparr>))"
      using attach_yields [of "st\<lparr>ps_text := concat cs, ps_key := False\<rparr>" read EndString "JStr (concat cs)" "[]" 0] s
      by (simp add: sound_def)
  qed
qed

lemma number_reads:
  assumes "read (concat cs) = q" and "concat cs = num q"
  shows "reads read num (JNum q) ([StartNumber] @ map NumberChunk cs @ [EndNumber])"
  unfolding reads_def append_assoc [symmetric]
proof (intro allI impI)
  fix st assume s: "sound st"
  let ?x = "st\<lparr>ps_key := False, ps_text := num q, ps_scalar := max (ps_scalar st) (utf16_length (num q))\<rparr>"
  let ?st = "st\<lparr>ps_key := False, ps_text := []\<rparr>"
  have "run_tokens read (map NumberChunk cs) ?st =
      (let st' = ?st\<lparr>ps_text := ps_text ?st @ concat cs, ps_scalar := max (ps_scalar ?st) (utf16_length (ps_text ?st @ concat cs))\<rparr>
       in if fits st' then Inr st' else Inl structure_limit)"
    using s by (intro measured_chunks [where K = False]) (simp_all add: sound_def fits_def)
  then have first: "run_tokens read ([StartNumber] @ map NumberChunk cs) st = (if fits ?x then Inr ?x else Inl structure_limit)"
    by (simp add: Let_def assms(2))
  show "yields read (([StartNumber] @ map NumberChunk cs) @ [EndNumber]) st (after (placed (JNum q) (ps_stack st))
      (rooted (JNum q) (ps_stack st) (ps_root st)) (nodes_of (JNum q)) (length (ps_stack st) + depth_of (JNum q)) (scalar_of num (JNum q)) st)"
    (is "yields read _ st (?after st)")
  proof (cases "fits ?x")
    case True
    then have sx: "sound ?x" using s by (auto simp: sound_def)
    have "yields read [EndNumber] ?x (?after ?x)"
      using attach_yields [OF sx, of read EndNumber "JNum q" "[]" "utf16_length (num q)"] assms utf16_nonneg [of "num q"] by simp
    moreover have "?after ?x = (?after st)\<lparr>ps_text := num q, ps_key := False\<rparr>" by (simp add: after_def)
    ultimately have "yields read [EndNumber] ?x (?after st)" by (simp add: yields_text)
    moreover have "run_tokens read (([StartNumber] @ map NumberChunk cs) @ [EndNumber]) st = run_tokens read [EndNumber] ?x"
      unfolding run_append [of _ "[StartNumber] @ _"] first using True by (simp only: if_True rbind.simps)
    ultimately show ?thesis unfolding yields_def by (simp only:)
  next
    case False
    then have "\<not> fits (?after st)" by (auto simp: fits_def after_def)
    with False first show ?thesis by (simp add: yields_def run_append)
  qed
qed

lemma open_yields:
  assumes "sound st" and "accept read t st = open_container f st"
  shows "yields read [t] st (after (f # ps_stack st) (ps_root st) 1 (Suc (length (ps_stack st))) 0 st)"
proof (rule yields_run)
  let ?x = "st\<lparr>ps_stack := f # ps_stack st, ps_nodes := Suc (ps_nodes st), ps_depth := max (ps_depth st) (Suc (length (ps_stack st)))\<rparr>"
  show "run_tokens read [t] st = (if fits ?x then Inr ?x else Inl structure_limit)"
    using assms(2) by (auto simp: open_container_def check_structure_def fits_def)
  show "fits ?x = fits (after (f # ps_stack st) (ps_root st) 1 (Suc (length (ps_stack st))) 0 st)"
    using sound_depth [OF assms(1)] by (simp add: fits_def)
  show "?x = (after (f # ps_stack st) (ps_root st) 1 (Suc (length (ps_stack st))) 0 st)\<lparr>ps_text := ps_text ?x, ps_key := ps_key ?x\<rparr>"
    using sound_depth [OF assms(1)] by (simp add: after_def)
qed

lemma close_yields:
  assumes "sound st" and "accept read t st = Inr (close_container st)" and "ps_stack st = f # S"
  shows "yields read [t] st (after (placed (frame_value f) S) (rooted (frame_value f) S (ps_root st)) 0 0 0 st)"
proof (rule yields_run)
  let ?x = "st\<lparr>ps_stack := placed (frame_value f) S, ps_root := rooted (frame_value f) S (ps_root st)\<rparr>"
  have "fits ?x" using assms(1) by (simp add: sound_def fits_def)
  then show "run_tokens read [t] st = (if fits ?x then Inr ?x else Inl structure_limit)"
    using assms(2,3) by (simp add: close_container_def place_eq)
  show "fits ?x = fits (after (placed (frame_value f) S) (rooted (frame_value f) S (ps_root st)) 0 0 0 st)"
    using sound_depth [OF assms(1)] by (simp add: fits_def)
  show "?x = (after (placed (frame_value f) S) (rooted (frame_value f) S (ps_root st)) 0 0 0 st)\<lparr>ps_text := ps_text ?x, ps_key := ps_key ?x\<rparr>"
    using sound_depth [OF assms(1)] by (simp add: after_def)
qed

lemma depth_sum: "max (k + a) (k + b) = k + max a (b :: nat)"
  by (simp add: nat_add_max_right)

text \<open>Elements and members from inside their container.\<close>

definition reads_elements :: "(string \<Rightarrow> rat) \<Rightarrow> (rat \<Rightarrow> string) \<Rightarrow> json list \<Rightarrow> token list \<Rightarrow> bool" where
  "reads_elements read num xs ts \<longleftrightarrow> (\<forall>st ys S. sound st \<and> ps_stack st = ArrFrame ys # S \<longrightarrow> yields read ts st
     (after (ArrFrame (ys @ xs) # S) (ps_root st) (sum_list (map nodes_of xs)) (Suc (length S) + foldr max (map depth_of xs) 0)
       (foldr max (map (scalar_of num) xs) 0) st))"

definition last_key :: "string option \<Rightarrow> (string \<times> json) list \<Rightarrow> string option" where
  "last_key k kvs = (if kvs = [] then k else Some (fst (last kvs)))"

definition reads_members :: "(string \<Rightarrow> rat) \<Rightarrow> (rat \<Rightarrow> string) \<Rightarrow> (string \<times> json) list \<Rightarrow> token list \<Rightarrow> bool" where
  "reads_members read num kvs ts \<longleftrightarrow> (\<forall>st ms k S. sound st \<and> ps_stack st = ObjFrame ms k # S \<and> distinct (map fst (ms @ kvs)) \<longrightarrow>
     yields read ts st (after (ObjFrame (ms @ kvs) (last_key k kvs) # S) (ps_root st) (sum_list (map (nodes_of \<circ> snd) kvs))
       (Suc (length S) + foldr max (map (depth_of \<circ> snd) kvs) 0)
       (foldr max (map (\<lambda>kv. max (utf16_length (fst kv)) (scalar_of num (snd kv))) kvs) 0) st))"

lemma reads_elementsD:
  "reads_elements read num xs ts \<Longrightarrow> sound st \<Longrightarrow> ps_stack st = ArrFrame ys # S \<Longrightarrow> ps_root st = R \<Longrightarrow> yields read ts st
     (after (ArrFrame (ys @ xs) # S) R (sum_list (map nodes_of xs)) (Suc (length S) + foldr max (map depth_of xs) 0)
       (foldr max (map (scalar_of num) xs) 0) st)"
  by (auto simp: reads_elements_def)

lemma reads_membersD:
  "reads_members read num kvs ts \<Longrightarrow> sound st \<Longrightarrow> ps_stack st = ObjFrame ms k # S \<Longrightarrow> distinct (map fst (ms @ kvs)) \<Longrightarrow> ps_root st = R \<Longrightarrow>
     yields read ts st (after (ObjFrame (ms @ kvs) (last_key k kvs) # S) R (sum_list (map (nodes_of \<circ> snd) kvs))
       (Suc (length S) + foldr max (map (depth_of \<circ> snd) kvs) 0)
       (foldr max (map (\<lambda>kv. max (utf16_length (fst kv)) (scalar_of num (snd kv))) kvs) 0) st)"
  unfolding reads_members_def by blast

lemma yields_nil: "sound st \<Longrightarrow> d \<le> length (ps_stack st) \<Longrightarrow> yields read [] st (after (ps_stack st) (ps_root st) 0 d 0 st)"
proof (rule yields_run)
  assume "sound st" "d \<le> length (ps_stack st)"
  then have "after (ps_stack st) (ps_root st) 0 d 0 st = st" by (simp add: after_def sound_def max_def)
  with \<open>sound st\<close> show "run_tokens read [] st = (if fits st then Inr st else Inl structure_limit)"
    "fits st = fits (after (ps_stack st) (ps_root st) 0 d 0 st)"
    "st = (after (ps_stack st) (ps_root st) 0 d 0 st)\<lparr>ps_text := ps_text st, ps_key := ps_key st\<rparr>"
    by (simp_all add: sound_def)
qed

lemma elements_cons:
  assumes "reads read num x a" and "reads_elements read num xs b"
  shows "reads_elements read num (x # xs) (a @ b)"
  unfolding reads_elements_def
proof (intro allI impI, elim conjE)
  fix st ys S assume s: "sound st" and st: "ps_stack st = ArrFrame ys # S"
  have one: "yields read a st (after (ArrFrame (ys @ [x]) # S) (ps_root st) (nodes_of x) (Suc (length S) + depth_of x) (scalar_of num x) st)"
    using assms(1) s st by (auto simp: reads_def placed_def rooted_def add_to_def)
  have "yields read (a @ b) st (after (ArrFrame ((ys @ [x]) @ xs) # S) (ps_root st) (nodes_of x + sum_list (map nodes_of xs))
      (max (Suc (length S) + depth_of x) (Suc (length S) + foldr max (map depth_of xs) 0))
      (max (scalar_of num x) (foldr max (map (scalar_of num) xs) 0)) st)"
  proof (rule yields_append [OF one])
    fix tx ky assume f: "fits (after (ArrFrame (ys @ [x]) # S) (ps_root st) (nodes_of x) (Suc (length S) + depth_of x) (scalar_of num x) st)"
    let ?s = "(after (ArrFrame (ys @ [x]) # S) (ps_root st) (nodes_of x) (Suc (length S) + depth_of x) (scalar_of num x) st)\<lparr>ps_text := tx, ps_key := ky\<rparr>"
    have "sound ?s" by (rule sound_after [OF s f]) simp
    then show "yields read b ?s (after (ArrFrame ((ys @ [x]) @ xs) # S) (ps_root st) (sum_list (map nodes_of xs))
        (Suc (length S) + foldr max (map depth_of xs) 0) (foldr max (map (scalar_of num) xs) 0) ?s)"
      by (rule reads_elementsD [OF assms(2)]) simp_all
  qed
  then show "yields read (a @ b) st (after (ArrFrame (ys @ x # xs) # S) (ps_root st) (sum_list (map nodes_of (x # xs)))
      (Suc (length S) + foldr max (map depth_of (x # xs)) 0) (foldr max (map (scalar_of num) (x # xs)) 0) st)"
    by (simp add: depth_sum)
qed

lemma members_cons:
  assumes "reads read num v a" and "reads_members read num kvs b"
  shows "reads_members read num ((concat cs, v) # kvs) (([StartKey] @ map StringChunk cs @ [EndKey]) @ a @ b)"
  unfolding reads_members_def
proof (intro allI impI, elim conjE)
  fix st ms k S
  let ?k = "concat cs"
  assume s: "sound st" and st: "ps_stack st = ObjFrame ms k # S" and dist: "distinct (map fst (ms @ (?k, v) # kvs))"
  let ?A = "\<lambda>st. after (ObjFrame ms (Some ?k) # S) (ps_root st) 0 0 (utf16_length ?k) st"
  let ?B = "\<lambda>st. after (ObjFrame (ms @ [(?k, v)]) (Some ?k) # S) (ps_root st) (nodes_of v) (Suc (length S) + depth_of v) (scalar_of num v) st"
  have new: "upsert ?k v ms = ms @ [(?k, v)]"
    using dist by (induction ms) auto
  have "yields read (([StartKey] @ map StringChunk cs @ [EndKey]) @ a @ b) st
      (after (ObjFrame ((ms @ [(?k, v)]) @ kvs) (last_key (Some ?k) kvs) # S) (ps_root st)
        (0 + (nodes_of v + sum_list (map (nodes_of \<circ> snd) kvs)))
        (max 0 (max (Suc (length S) + depth_of v) (Suc (length S) + foldr max (map (depth_of \<circ> snd) kvs) 0)))
        (max (utf16_length ?k) (max (scalar_of num v) (foldr max (map (\<lambda>kv. max (utf16_length (fst kv)) (scalar_of num (snd kv))) kvs) 0))) st)"
  proof (rule yields_append [OF key_tokens [OF s st]], rule yields_append)
    fix tx ky assume f: "fits (?A st)"
    let ?s = "(?A st)\<lparr>ps_text := tx, ps_key := ky\<rparr>"
    have ss: "sound ?s" by (rule sound_after [OF s f]) (use s st in \<open>simp add: sound_def\<close>)
    then show "yields read a ?s (?B ?s)" using assms(1) new by (auto simp: reads_def placed_def rooted_def add_to_def)
    fix tx' ky' assume f': "fits (?B ?s)"
    let ?s' = "(?B ?s)\<lparr>ps_text := tx', ps_key := ky'\<rparr>"
    have "sound ?s'" by (rule sound_after [OF ss f']) simp
    then show "yields read b ?s' (after (ObjFrame ((ms @ [(?k, v)]) @ kvs) (last_key (Some ?k) kvs) # S) (ps_root st)
        (sum_list (map (nodes_of \<circ> snd) kvs)) (Suc (length S) + foldr max (map (depth_of \<circ> snd) kvs) 0)
        (foldr max (map (\<lambda>kv. max (utf16_length (fst kv)) (scalar_of num (snd kv))) kvs) 0) ?s')"
      by (rule reads_membersD [OF assms(2)]) (use dist in simp_all)
  qed
  moreover have "last_key (Some ?k) kvs = last_key k ((?k, v) # kvs)" by (simp add: last_key_def)
  ultimately show "yields read (([StartKey] @ map StringChunk cs @ [EndKey]) @ a @ b) st
      (after (ObjFrame (ms @ (?k, v) # kvs) (last_key k ((?k, v) # kvs)) # S) (ps_root st)
        (sum_list (map (nodes_of \<circ> snd) ((?k, v) # kvs))) (Suc (length S) + foldr max (map (depth_of \<circ> snd) ((?k, v) # kvs)) 0)
        (foldr max (map (\<lambda>kv. max (utf16_length (fst kv)) (scalar_of num (snd kv))) ((?k, v) # kvs)) 0) st)"
    by (simp add: depth_sum max.assoc)
qed

lemma container_reads:
  assumes "\<And>st. accept read opn st = open_container f st" and "\<And>st. accept read cls st = Inr (close_container st)"
    and "\<And>st S. sound st \<Longrightarrow> ps_stack st = f # S \<Longrightarrow> yields read ts st (after (g # S) (ps_root st) n (Suc (length S) + d) m st)"
    and "v = frame_value g" and "nodes_of v = Suc n" and "depth_of v = Suc d" and "scalar_of num v = m" and "0 \<le> m"
  shows "reads read num v ([opn] @ ts @ [cls])"
  unfolding reads_def
proof (intro allI impI)
  fix st assume s: "sound st"
  let ?S = "ps_stack st"
  let ?A = "after (f # ?S) (ps_root st) 1 (Suc (length ?S)) 0 st"
  let ?B = "\<lambda>st'. after (g # ?S) (ps_root st) n (Suc (length ?S) + d) m st'"
  have "yields read ([opn] @ ts @ [cls]) st (after (placed v ?S) (rooted v ?S (ps_root st)) (1 + (n + 0))
      (max (Suc (length ?S)) (max (Suc (length ?S) + d) 0)) (max 0 (max m 0)) st)"
  proof (rule yields_append [OF open_yields [OF s assms(1)]], rule yields_append)
    fix tx ky assume f: "fits ?A"
    let ?s = "?A\<lparr>ps_text := tx, ps_key := ky\<rparr>"
    have ss: "sound ?s" by (rule sound_after [OF s f]) simp
    show "yields read ts ?s (?B ?s)" using assms(3) [OF ss, of ?S] by simp
    fix tx' ky' assume f': "fits (?B ?s)"
    let ?s' = "(?B ?s)\<lparr>ps_text := tx', ps_key := ky'\<rparr>"
    have "sound ?s'" by (rule sound_after [OF ss f']) simp
    then show "yields read [cls] ?s' (after (placed v ?S) (rooted v ?S (ps_root st)) 0 0 0 ?s')"
      using close_yields [OF _ assms(2), of ?s' g ?S] assms(4) by simp
  qed
  then show "yields read ([opn] @ ts @ [cls]) st (after (placed v ?S) (rooted v ?S (ps_root st)) (nodes_of v) (length ?S + depth_of v) (scalar_of num v) st)"
    using assms(5-8) by (simp add: max_def)
qed

lemma foldr_max_nonneg: "0 \<le> foldr max xs (0 :: int)"
  by (induction xs) simp_all

lemma spelled_reads:
  shows "spelled num v ts \<Longrightarrow> readable read num v \<Longrightarrow> reads read num v ts"
    and "spelled_elements num xs ts \<Longrightarrow> list_all (readable read num) xs \<Longrightarrow> reads_elements read num xs ts"
    and "spelled_members num kvs ts \<Longrightarrow> list_all (readable read num \<circ> snd) kvs \<Longrightarrow> reads_members read num kvs ts"
proof (induction rule: spelled_spelled_elements_spelled_members.inducts)
  case (sp_string cs s)
  then show ?case using string_reads by blast
next
  case (sp_number cs q)
  then show ?case using number_reads by (metis readable.simps(3))
next
  case (sp_array xs ts)
  then have e: "reads_elements read num xs ts" by (simp add: list.pred_map)
  show ?case
  proof (rule container_reads [where f = "ArrFrame []" and g = "ArrFrame xs"])
    show "yields read ts st (after (ArrFrame xs # S) (ps_root st) (sum_list (map nodes_of xs)) (Suc (length S) + foldr max (map depth_of xs) 0)
        (foldr max (map (scalar_of num) xs) 0) st)" if "sound st" "ps_stack st = ArrFrame [] # S" for st S
      using reads_elementsD [OF e that refl] by simp
  qed (simp_all add: frame_value_def foldr_max_nonneg)
next
  case (sp_object kvs ts)
  then have m: "reads_members read num kvs ts" and d: "distinct (map fst kvs)"
    by (simp_all add: list.pred_map comp_def)
  show ?case
  proof (rule container_reads [where f = "ObjFrame [] None" and g = "ObjFrame kvs (last_key None kvs)"])
    show "yields read ts st (after (ObjFrame kvs (last_key None kvs) # S) (ps_root st) (sum_list (map (nodes_of \<circ> snd) kvs))
        (Suc (length S) + foldr max (map (depth_of \<circ> snd) kvs) 0)
        (foldr max (map (\<lambda>kv. max (utf16_length (fst kv)) (scalar_of num (snd kv))) kvs) 0) st)" if "sound st" "ps_stack st = ObjFrame [] None # S" for st S
      using reads_membersD [OF m that, of "ps_root st"] d by simp
  qed (simp_all add: frame_value_def foldr_max_nonneg comp_def case_prod_beta)
next
  case se_nil
  show ?case unfolding reads_elements_def
  proof (intro allI impI, elim conjE)
    fix st ys S assume "sound st" "ps_stack st = ArrFrame ys # S"
    with yields_nil [of st "Suc (length S)"] show "yields read [] st (after (ArrFrame (ys @ []) # S) (ps_root st) (sum_list (map nodes_of []))
      (Suc (length S) + foldr max (map depth_of []) 0) (foldr max (map (scalar_of num) []) 0) st)" by simp
  qed
next
  case (se_cons x a xs b)
  then show ?case by (intro elements_cons) simp_all
next
  case sm_nil
  show ?case unfolding reads_members_def
  proof (intro allI impI, elim conjE)
    fix st ms k S assume "sound st" "ps_stack st = ObjFrame ms k # S"
    with yields_nil [of st "Suc (length S)"] show "yields read [] st (after (ObjFrame (ms @ []) (last_key k []) # S) (ps_root st)
        (sum_list (map (nodes_of \<circ> snd) [])) (Suc (length S) + foldr max (map (depth_of \<circ> snd) []) 0)
        (foldr max (map (\<lambda>kv. max (utf16_length (fst kv)) (scalar_of num (snd kv))) []) 0) st)" by (simp add: last_key_def)
  qed
next
  case (sm_cons cs k v a kvs b)
  then show ?case using members_cons [of read num v a kvs b cs] by simp
qed (simp_all add: literal_reads)

text \<open>
  C16. Parsing the token stream of a value, cut into pieces anywhere, gives that value back when it
  stays within the structure limits (or they are not enforced), and is refused with the limit error
  exactly when it does not.
\<close>

theorem parser_rebuilds_value:
  assumes "spelled num v ts" and "readable read num v"
  shows "map_sum id fst (parser_take read ts (new_parser enforce)) =
    (if enforce \<and> \<not> within_limits num v then Inl structure_limit else Inr (Some v))"
proof -
  let ?n = "new_parser enforce"
  have "sound ?n" by (simp add: sound_def new_parser_def fits_def)
  with spelled_reads(1) [OF assms] have y: "yields read ts ?n (after [] (Some v) (nodes_of v) (depth_of v) (scalar_of num v) ?n)"
    by (auto simp: reads_def new_parser_def placed_def rooted_def)
  have fit: "fits (after [] (Some v) (nodes_of v) (depth_of v) (scalar_of num v) ?n) \<longleftrightarrow> \<not> (enforce \<and> \<not> within_limits num v)"
    by (auto simp: fits_after new_parser_def within_limits_def)
  have live: "parser_push read ts ?n = run_tokens read ts ?n" by (simp add: parser_push_def new_parser_def)
  show ?thesis
  proof (cases "enforce \<and> \<not> within_limits num v")
    case True
    then have "run_tokens read ts ?n = Inl structure_limit" using y fit by (simp add: yields_def)
    then show ?thesis unfolding parser_take_def live using True by simp
  next
    case False
    then obtain tx ky where "run_tokens read ts ?n =
        Inr ((after [] (Some v) (nodes_of v) (depth_of v) (scalar_of num v) ?n)\<lparr>ps_text := tx, ps_key := ky\<rparr>)"
      using y fit by (auto simp: yields_def)
    then show ?thesis unfolding parser_take_def live using False by simp
  qed
qed

definition sample_read :: "string \<Rightarrow> rat" where
  "sample_read s = (if s = ''1'' then 1 else 0)"

theorem parser_rebuilds_value_witness:
  "map_sum id fst (parser_take sample_read [StartArray, StartNumber, NumberChunk ''1'', EndNumber, StartString, StringChunk ''a'', StringChunk ''b'', EndString, EndArray]
     (new_parser True)) = Inr (Some sample_body)"
proof -
  have one: "spelled sample_number (JNum 1) ([StartNumber] @ map NumberChunk [''1''] @ [EndNumber])"
    by (rule sp_number) (simp add: sample_number_def)
  have two: "spelled sample_number (JStr ''ab'') ([StartString] @ map StringChunk [''a'', ''b''] @ [EndString])"
    by (rule sp_string) simp
  have "spelled sample_number sample_body ([StartArray] @ (([StartNumber] @ map NumberChunk [''1''] @ [EndNumber]) @
      ([StartString] @ map StringChunk [''a'', ''b''] @ [EndString]) @ []) @ [EndArray])"
    unfolding sample_body_def by (rule sp_array) (rule se_cons [OF one se_cons [OF two se_nil]])
  moreover have "readable sample_read sample_number sample_body" by (simp add: sample_body_def sample_read_def sample_number_def)
  moreover have "within_limits sample_number sample_body"
    by (simp add: within_limits_def sample_body_def sample_number_def utf16_Cons)
  ultimately show ?thesis using parser_rebuilds_value [of sample_number sample_body _ sample_read True] by simp
qed

end
