(* ===== verification/Tool_Pricing.thy ===== *)
theory Tool_Pricing
  imports Json_Body Access_Types
begin

section \<open>Price cards and pricing gaps\<close>

text \<open>
  The price cards of \<open>shared/contracts.ts\<close>, and the part of \<open>worker/pricing.ts\<close> and
  \<open>worker/responses-tool-evidence.ts\<close> that decides which requests a card cannot price: hosted
  tools, retained tools, opaque input. A rate is a rational number of micro-dollars per million.
\<close>

subsection \<open>Cards\<close>

record rates =
  rate_input :: rat
  rate_output :: rat
  rate_cached :: "rat option"
  rate_write :: "rat option"
  rate_write5m :: "rat option"
  rate_write1h :: "rat option"

text \<open>A card's long-context rates apply above a threshold.\<close>

record tier_card =
  tier_id :: string
  tier_aliases :: "string list"
  tier_max_input :: "int option"
  tier_rates :: rates
  tier_long :: "(int \<times> rates) option"

record token_pricing =
  tp_rates :: rates
  tp_long :: "(int \<times> rates) option"
  tp_max_input :: int
  tp_max_request_input :: "int option"
  tp_default_output :: int
  tp_overhead :: int
  tp_tiers :: "tier_card list"
  tp_modifiers :: "(rat option \<times> rat option) option"
  tp_request_fee :: bool
  tp_auto_unpriced :: bool
  tp_upper_bound :: bool

record character_pricing =
  cp_rate :: rat
  cp_max_characters :: int

record image_pricing =
  ip_text_input :: rat
  ip_image_input :: rat
  ip_image_output :: rat
  ip_max_prompt :: int
  ip_max_images :: int
  ip_multiple :: int
  ip_min_pixels :: int
  ip_max_pixels :: int
  ip_max_edge :: int
  ip_max_aspect :: rat
  ip_base_pixels :: int
  ip_divisor :: int
  ip_qualities :: "(string \<times> rat) list"

datatype model_pricing = TokenCard token_pricing | CharacterCard character_pricing | ImageCard image_pricing

record tool_pricing =
  tool_version :: string
  tool_search_micros :: int
  tool_preview :: "(string \<times> int) list"

datatype tool_knowledge = TokenOnly | FeeTools | UsageTools | UnknownTools

subsection \<open>Tool types\<close>

definition digits_of :: "nat \<Rightarrow> string \<Rightarrow> bool" where
  "digits_of n s \<longleftrightarrow> length s = n \<and> list_all is_digit s"

text \<open>\<^verbatim>\<open>_\d{4}_\d{2}_\d{2}\<close>.\<close>

definition date_suffix :: "string \<Rightarrow> bool" where
  "date_suffix s \<longleftrightarrow> length s = 11 \<and> s ! 0 = CHR ''_'' \<and> digits_of 4 (take 4 (drop 1 s)) \<and> s ! 5 = CHR ''_'' \<and>
     digits_of 2 (take 2 (drop 6 s)) \<and> s ! 8 = CHR ''_'' \<and> digits_of 2 (drop 9 s)"

definition strip_prefix :: "string \<Rightarrow> string \<Rightarrow> string" where
  "strip_prefix p s = (if starts_with p s then drop (length p) s else s)"

text \<open>\<^verbatim>\<open>^web_search(?:_preview)?(?:_\d{4}_\d{2}_\d{2})?$\<close>.\<close>

definition web_search_type :: "string \<Rightarrow> bool" where
  "web_search_type s \<longleftrightarrow> starts_with ''web_search'' s \<and>
     (let r = strip_prefix ''_preview'' (drop 10 s) in r = [] \<or> date_suffix r)"

text \<open>A type with an eight-digit version, such as \<^verbatim>\<open>^web_search_\d{8}$\<close>.\<close>

definition versioned :: "string \<Rightarrow> string \<Rightarrow> bool" where
  "versioned p s \<longleftrightarrow> starts_with p s \<and> digits_of 8 (drop (length p) s)"

definition claude_search_types :: "string list" where
  "claude_search_types = [''web_search_20250305'', ''web_search_20260209'', ''web_search_20260318'']"

definition claude_fetch_types :: "string list" where
  "claude_fetch_types = [''web_fetch_20250910'', ''web_fetch_20260209'', ''web_fetch_20260309'', ''web_fetch_20260318'']"

text \<open>\<open>String(value)\<close>.\<close>

primrec js_string :: "(rat \<Rightarrow> string) \<Rightarrow> json \<Rightarrow> string" where
  "js_string num JNull = ''null''"
| "js_string num (JBool b) = (if b then ''true'' else ''false'')"
| "js_string num (JNum q) = num q"
| "js_string num (JStr s) = s"
| "js_string num (JArr xs) = commas (map (\<lambda>(x, t). if x = JNull then [] else t) (zip xs (map (js_string num) xs)))"
| "js_string num (JObj kvs) = ''[object Object]''"

definition string_of :: "(rat \<Rightarrow> string) \<Rightarrow> json option \<Rightarrow> string" where
  "string_of num j = (case j of None \<Rightarrow> ''undefined'' | Some v \<Rightarrow> js_string num v)"

definition is_obj :: "json \<Rightarrow> bool" where
  "is_obj j = is_object (Some j)"

definition obj_field :: "json \<Rightarrow> string \<Rightarrow> json option" where
  "obj_field j k = member k j"

definition type_text :: "json \<Rightarrow> string option" where
  "type_text j = text_of (member ''type'' j)"

definition google_named :: "json \<Rightarrow> (string \<times> string) list \<Rightarrow> bool" where
  "google_named tool names \<longleftrightarrow> list_ex (\<lambda>(c, p). is_object (google_field (Some tool) c p)) names"

definition recent_web_tool :: "json \<Rightarrow> bool" where
  "recent_web_tool j \<longleftrightarrow> is_obj j \<and> (case type_text j of None \<Rightarrow> False
     | Some s \<Rightarrow> (versioned ''web_search_'' s \<or> versioned ''web_fetch_'' s) \<and> 20260209 \<le> digits_value (drop (length s - 8) s))"

text \<open>
  \<open>hostedToolPricingGap\<close>, the step for one tool: \<^term>\<open>None\<close> goes on, \<^term>\<open>Some True\<close> returns a
  fee, \<^term>\<open>Some False\<close> notes unbounded usage.
\<close>

definition openai_tool_gap :: "(rat \<Rightarrow> string) \<Rightarrow> json \<Rightarrow> bool option" where
  "openai_tool_gap num tool = (case type_text tool of None \<Rightarrow> None | Some ty \<Rightarrow>
     if web_search_type ty \<or> ty \<in> {''x_search'', ''file_search'', ''code_interpreter'', ''image_generation''} then Some True
     else if ty = ''shell'' \<and> is_object (member ''environment'' tool) \<and>
         string_of num (get ''type'' (member ''environment'' tool)) \<in> {''container_auto'', ''container_reference''} then Some True
     else if ty \<in> {''mcp'', ''programmatic_tool_calling''} \<or> ty = ''tool_search'' \<and> \<not> text_is (member ''execution'' tool) ''client'' then Some False
     else None)"

definition anthropic_tool_gap :: "json list \<Rightarrow> json \<Rightarrow> bool option" where
  "anthropic_tool_gap tools tool = (case type_text tool of None \<Rightarrow> None | Some ty \<Rightarrow>
     if versioned ''web_search_'' ty \<and> ty \<notin> set claude_search_types then Some True
     else if versioned ''code_execution_'' ty \<and> \<not> list_ex recent_web_tool tools then Some True
     else if versioned ''web_search_'' ty \<or> versioned ''web_fetch_'' ty \<or> versioned ''code_execution_'' ty
       \<or> ty \<in> {''tool_search_tool_regex'', ''tool_search_tool_bm25'', ''tool_search_tool_regex_20251119'', ''tool_search_tool_bm25_20251119'',
          ''advisor_20260301'', ''mcp_toolset''} then Some False
     else None)"

definition google_tool_gap :: "json \<Rightarrow> bool option" where
  "google_tool_gap tool =
     (if google_named tool [(''googleSearch'', ''google_search''), (''googleSearchRetrieval'', ''google_search_retrieval''), (''googleMaps'', ''google_maps'')]
      then Some True
      else if google_named tool [(''urlContext'', ''url_context''), (''fileSearch'', ''file_search''), (''codeExecution'', ''code_execution'')]
        \<or> elements (google_field (Some tool) ''mcpServers'' ''mcp_servers'') \<noteq> [] then Some False
      else None)"

definition tool_gap :: "(rat \<Rightarrow> string) \<Rightarrow> string \<Rightarrow> json list \<Rightarrow> json \<Rightarrow> bool option" where
  "tool_gap num format tools tool =
     (if \<not> is_obj tool then None
      else if format = ''openai.chat_completions'' then
        (if string_of num (member ''type'' tool) \<in> {''browser_search'', ''code_interpreter''} then Some True else None)
      else if format = ''openai.responses'' then openai_tool_gap num tool
      else if format = ''anthropic.messages'' then anthropic_tool_gap tools tool
      else if format = ''google.generate_content'' then google_tool_gap tool
      else None)"

definition hosted_tool_pricing_gap :: "(rat \<Rightarrow> string) \<Rightarrow> json list \<Rightarrow> string \<Rightarrow> pricing_gap option" where
  "hosted_tool_pricing_gap num tools format =
     (let gaps = map (tool_gap num format tools) tools
      in if Some True \<in> set gaps then Some HostedToolFee else if Some False \<in> set gaps then Some HostedToolUsage else None)"

subsection \<open>Retained tools\<close>

definition tool_evidence_limit :: nat where "tool_evidence_limit = 1024"

definition bounded_text :: "json option \<Rightarrow> bool" where
  "bounded_text j = (case text_of j of None \<Rightarrow> False | Some s \<Rightarrow> s \<noteq> [] \<and> length s \<le> 256)"

definition tool_union :: "tool_knowledge \<Rightarrow> tool_knowledge \<Rightarrow> tool_knowledge" where
  "tool_union a b = (if a = UnknownTools \<or> b = UnknownTools then UnknownTools
     else if a = FeeTools \<or> b = FeeTools then FeeTools
     else if a = UsageTools \<or> b = UsageTools then UsageTools else TokenOnly)"

text \<open>The loop of \<open>declarations\<close>: a step that returns no knowledge ends it with unknown.\<close>

fun declare_all :: "(json \<Rightarrow> nat \<Rightarrow> tool_knowledge option \<times> nat) \<Rightarrow> json list \<Rightarrow> tool_knowledge \<Rightarrow> nat \<Rightarrow> tool_knowledge \<times> nat" where
  "declare_all step [] k n = (k, n)"
| "declare_all step (t # ts) k n = (case step t n of
     (None, m) \<Rightarrow> (UnknownTools, m) | (Some j, m) \<Rightarrow> declare_all step ts (tool_union k j) m)"

definition declarations_with ::
    "(json \<Rightarrow> nat \<Rightarrow> tool_knowledge option \<times> nat) \<Rightarrow> json option \<Rightarrow> nat \<Rightarrow> tool_knowledge \<times> nat" where
  "declarations_with step value n = (case value of
     Some (JArr xs) \<Rightarrow> (let m = n + length xs in if tool_evidence_limit < m then (UnknownTools, m) else declare_all step xs TokenOnly m)
   | _ \<Rightarrow> (UnknownTools, n))"

definition malformed_tool :: "json \<Rightarrow> bool" where
  "malformed_tool tool \<longleftrightarrow> \<not> is_obj tool \<or> type_text tool = None \<or> has ''tools'' tool \<and> type_text tool \<noteq> Some ''namespace''"

definition plain_tool :: "json \<Rightarrow> bool" where
  "plain_tool tool \<longleftrightarrow> type_text tool \<in> {Some ''function'', Some ''custom''} \<and> bounded_text (member ''name'' tool)"

definition namespace_step :: "json \<Rightarrow> nat \<Rightarrow> tool_knowledge option \<times> nat" where
  "namespace_step tool n = (if malformed_tool tool then None else Some (if plain_tool tool then TokenOnly else UnknownTools), n)"

definition positive_size :: "json option \<Rightarrow> bool" where
  "positive_size j = (case safe_count j of None \<Rightarrow> False | Some n \<Rightarrow> 0 < n)"

definition local_tool :: "json \<Rightarrow> bool" where
  "local_tool tool \<longleftrightarrow> type_text tool \<in> {Some ''computer'', Some ''local_shell'', Some ''apply_patch''}
     \<or> type_text tool = Some ''computer_use_preview'' \<and> text_in (member ''environment'' tool) [''windows'', ''mac'', ''linux'', ''ubuntu'', ''browser'']
        \<and> positive_size (member ''display_height'' tool) \<and> positive_size (member ''display_width'' tool)
     \<or> type_text tool = Some ''shell'' \<and> text_is (get ''type'' (as_record (member ''environment'' tool))) ''local''
     \<or> type_text tool = Some ''tool_search'' \<and> text_is (member ''execution'' tool) ''client''"

definition declaration_step :: "(rat \<Rightarrow> string) \<Rightarrow> json \<Rightarrow> nat \<Rightarrow> tool_knowledge option \<times> nat" where
  "declaration_step num tool n =
     (if malformed_tool tool then (None, n)
      else if plain_tool tool then (Some TokenOnly, n)
      else if type_text tool = Some ''tool_search'' \<and> \<not> nullish (member ''execution'' tool) \<and>
          \<not> text_in (member ''execution'' tool) [''client'', ''server''] then (None, n)
      else case hosted_tool_pricing_gap num [tool] ''openai.responses'' of
          Some HostedToolFee \<Rightarrow> (Some FeeTools, n)
        | Some _ \<Rightarrow> (Some UsageTools, n)
        | None \<Rightarrow>
            if local_tool tool then (Some TokenOnly, n)
            else if type_text tool = Some ''namespace'' \<and> bounded_text (member ''name'' tool) \<and> is_array (member ''tools'' tool)
            then map_prod Some id (declarations_with namespace_step (member ''tools'' tool) n)
            else (Some UnknownTools, n))"

definition declarations :: "(rat \<Rightarrow> string) \<Rightarrow> json option \<Rightarrow> nat \<Rightarrow> tool_knowledge \<times> nat" where
  "declarations num value n = declarations_with (declaration_step num) value n"

definition ordinary_items :: "string list" where
  "ordinary_items = [''message'', ''reasoning'', ''function_call'', ''function_call_output'', ''custom_tool_call'',
     ''custom_tool_call_output'', ''computer_call'', ''computer_call_output'', ''web_search_call'', ''file_search_call'',
     ''code_interpreter_call'', ''image_generation_call'', ''local_shell_call'', ''local_shell_call_output'', ''shell_call'',
     ''shell_call_output'', ''apply_patch_call'', ''apply_patch_call_output'', ''tool_search_call'', ''mcp_call'',
     ''mcp_approval_request'', ''mcp_approval_response'', ''configuration_update'']"

definition item_knowledge :: "(rat \<Rightarrow> string) \<Rightarrow> bool \<Rightarrow> json \<Rightarrow> nat \<Rightarrow> tool_knowledge \<times> nat" where
  "item_knowledge num partial item n0 =
     (let n = Suc n0
      in if tool_evidence_limit < n \<or> \<not> is_obj item then (UnknownTools, n)
         else if type_text item \<in> {Some ''additional_tools'', Some ''tool_search_output''} then
           (if \<not> partial \<and> \<not> nullish (member ''status'' item) \<and> \<not> text_is (member ''status'' item) ''completed'' then (UnknownTools, n)
            else if type_text item = Some ''tool_search_output'' \<and> \<not> nullish (member ''execution'' item) \<and>
                \<not> text_in (member ''execution'' item) [''client'', ''server''] then (UnknownTools, n)
            else declarations num (member ''tools'' item) n)
         else if has ''tools'' item then (UnknownTools, n)
         else if (case type_text item of Some s \<Rightarrow> s \<in> set ordinary_items | None \<Rightarrow> False)
           \<or> member ''type'' item = None \<and> text_in (member ''role'' item) [''user'', ''assistant'', ''developer'', ''system''] then (TokenOnly, n)
         else (UnknownTools, n))"

fun items_knowledge :: "(rat \<Rightarrow> string) \<Rightarrow> json list \<Rightarrow> tool_knowledge \<Rightarrow> nat \<Rightarrow> tool_knowledge" where
  "items_knowledge num [] k n = k"
| "items_knowledge num (x # xs) k n =
     (let (j, m) = item_knowledge num False x n in items_knowledge num xs (tool_union k j) m)"

definition retained_tool_base :: "(rat \<Rightarrow> string) \<Rightarrow> json \<Rightarrow> tool_knowledge \<Rightarrow> tool_knowledge" where
  "retained_tool_base num body inherited =
     (if \<not> nullish (member ''conversation'' body) \<or> \<not> nullish (member ''prompt'' body) \<or>
         get ''enabled'' (as_record (member ''multi_agent'' body)) = Some (JBool True) then UnknownTools
      else case member ''input'' body of
          None \<Rightarrow> inherited | Some JNull \<Rightarrow> inherited | Some (JStr _) \<Rightarrow> inherited
        | Some (JArr xs) \<Rightarrow> if tool_evidence_limit < length xs then UnknownTools else items_knowledge num xs inherited 0
        | _ \<Rightarrow> UnknownTools)"

end
