(* ===== verification/Image_Bound.thy ===== *)
theory Image_Bound
  imports Json_Access
begin

section \<open>Visual tokens of inline images\<close>

text \<open>
  \<open>worker/image-input-bound.ts\<close>: the dimensions in the header of a base64 image bound the tokens it
  is billed for. A reader decodes single bytes and returns \<open>-1\<close> past the end, which is what ends
  the walks over chunks, segments and blocks.
\<close>

subsection \<open>Reading bytes of base64 text\<close>

definition sextet :: "nat \<Rightarrow> nat" where
  "sextet code = (if 65 \<le> code \<and> code \<le> 90 then code - 65
     else if 97 \<le> code \<and> code \<le> 122 then code - 71
     else if 48 \<le> code \<and> code \<le> 57 then code + 4
     else if code = 43 then 62 else if code = 47 then 63 else 0)"

definition code_at :: "string \<Rightarrow> nat \<Rightarrow> nat" where
  "code_at s i = (if i < length s then of_char (s ! i) else 0)"

definition padding :: "string \<Rightarrow> nat" where
  "padding s = (case rev s of c # d # _ \<Rightarrow> if c = CHR ''='' then if d = CHR ''='' then 2 else 1 else 0
     | [c] \<Rightarrow> if c = CHR ''='' then 1 else 0 | [] \<Rightarrow> 0)"

definition reader_length :: "string \<Rightarrow> nat" where
  "reader_length data = length data div 4 * 3 - padding data"

text \<open>Four sextets make 24 bits, of which the byte at \<open>offset mod 3\<close> is taken.\<close>

definition group_bits :: "string \<Rightarrow> nat \<Rightarrow> nat" where
  "group_bits data g = ((sextet (code_at data g) * 64 + sextet (code_at data (g + 1))) * 64
     + sextet (code_at data (g + 2))) * 64 + sextet (code_at data (g + 3))"

definition byte_at :: "string \<Rightarrow> nat \<Rightarrow> int" where
  "byte_at data offset =
     (if reader_length data \<le> offset then -1
      else int (group_bits data (offset div 3 * 4) div 2 ^ (16 - offset mod 3 * 8) mod 256))"

fun uint_from :: "string \<Rightarrow> nat list \<Rightarrow> nat \<Rightarrow> nat option" where
  "uint_from data [] v = Some v"
| "uint_from data (i # is) v =
     (let b = byte_at data i in if b < 0 then None else uint_from data is (v * 256 + nat b))"

definition uint :: "string \<Rightarrow> nat \<Rightarrow> nat \<Rightarrow> bool \<Rightarrow> nat option" where
  "uint data offset n little =
     uint_from data (map (\<lambda>i. offset + (if little then n - 1 - i else i)) [0..<n]) 0"

definition matches :: "string \<Rightarrow> nat \<Rightarrow> nat list \<Rightarrow> bool" where
  "matches data offset expected \<longleftrightarrow> list_all (\<lambda>i. byte_at data (offset + i) = int (expected ! i)) [0..<length expected]"

definition ascii :: "string \<Rightarrow> nat list" where
  "ascii s = map of_char s"

definition pair :: "nat option \<Rightarrow> nat option \<Rightarrow> (nat \<times> nat) option" where
  "pair w h = (case (w, h) of (Some a, Some b) \<Rightarrow> Some (a, b) | _ \<Rightarrow> None)"

lemma byte_at_inside: "0 \<le> byte_at data i \<Longrightarrow> i < reader_length data"
  by (auto simp: byte_at_def split: if_splits)

lemma byte_at_range: "byte_at data i < 256 \<and> -1 \<le> byte_at data i"
proof -
  have "x mod 256 < (256 :: nat)" for x by simp
  then show ?thesis by (auto simp: byte_at_def intro: order_less_le_trans)
qed

lemma uint_from_inside: "uint_from data is v = Some n \<Longrightarrow> i \<in> set is \<Longrightarrow> i < reader_length data"
proof (induction "is" arbitrary: v)
  case (Cons j js)
  then have "0 \<le> byte_at data j" "uint_from data js (v * 256 + nat (byte_at data j)) = Some n"
    by (auto simp: Let_def split: if_splits)
  with Cons show ?case using byte_at_inside by auto
qed simp

lemma uint_inside: "uint data offset n little = Some v \<Longrightarrow> 0 < n \<Longrightarrow> offset < reader_length data"
  unfolding uint_def
  by (erule uint_from_inside) (cases little, auto simp: image_iff intro: bexI [of _ "n - 1"] bexI [of _ 0])

subsection \<open>Header walks\<close>

text \<open>PNG: one 13-byte IHDR, then chunks up to the first IDAT.\<close>

function png_chunks :: "string \<Rightarrow> nat \<Rightarrow> nat \<times> nat \<Rightarrow> (nat \<times> nat) option" where
  "png_chunks data offset dims =
     (case uint data offset 4 False of
        None \<Rightarrow> None
      | Some n \<Rightarrow>
          if 2147483647 < n then None
          else if matches data (offset + 4) (ascii ''IDAT'') then Some dims
          else if matches data (offset + 4) (ascii ''IHDR'') \<or> matches data (offset + 4) (ascii ''IEND'') then None
          else png_chunks data (offset + 12 + n) dims)"
  by pat_completeness auto
termination
  by (relation "measure (\<lambda>(data, offset, _). reader_length data - offset)") (auto dest: uint_inside)

definition png_size :: "string \<Rightarrow> (nat \<times> nat) option" where
  "png_size data =
     (if \<not> matches data 0 [137, 80, 78, 71, 13, 10, 26, 10] \<or> uint data 8 4 False \<noteq> Some 13 \<or> \<not> matches data 12 (ascii ''IHDR'')
      then None
      else case pair (uint data 16 4 False) (uint data 20 4 False) of None \<Rightarrow> None | Some dims \<Rightarrow> png_chunks data 33 dims)"

definition jpeg_tables :: "int list" where
  "jpeg_tables = [196, 204, 219, 221, 254]"

definition is_jpeg_frame :: "int \<Rightarrow> bool" where
  "is_jpeg_frame m \<longleftrightarrow> 192 \<le> m \<and> m \<le> 207 \<and> m \<noteq> 196 \<and> m \<noteq> 200 \<and> m \<noteq> 204"

function skip_fill :: "string \<Rightarrow> nat \<Rightarrow> nat" where
  "skip_fill data offset = (if byte_at data (offset + 1) = 255 then skip_fill data (offset + 1) else offset)"
  by pat_completeness auto
termination
proof (relation "measure (\<lambda>(data, offset). reader_length data - offset)", goal_cases)
  case (2 data offset)
  then have "offset + 1 < reader_length data" by (intro byte_at_inside) simp
  then show ?case by simp
qed simp

declare png_chunks.simps [simp del] skip_fill.simps [simp del]

lemma skip_fill_grows: "offset \<le> skip_fill data offset"
proof (induction data offset rule: skip_fill.induct)
  case (1 data offset)
  then show ?case by (subst skip_fill.simps) (auto split: if_splits)
qed

text \<open>JPEG: marker segments up to the start of scan, with exactly one frame header.\<close>

function jpeg_segments :: "string \<Rightarrow> nat \<Rightarrow> (nat \<times> nat) option \<Rightarrow> (nat \<times> nat) option" where
  "jpeg_segments data offset0 dims =
     (if byte_at data offset0 \<noteq> 255 then None
      else let offset = skip_fill data offset0; marker = byte_at data (offset + 1)
           in case uint data (offset + 2) 2 False of
                None \<Rightarrow> None
              | Some n \<Rightarrow>
                  if n < 2 then None
                  else if marker = 218 then dims
                  else if is_jpeg_frame marker then
                    (let components = byte_at data (offset + 9)
                     in if dims \<noteq> None \<or> components < 1 \<or> int n \<noteq> 8 + 3 * components then None
                        else case pair (uint data (offset + 7) 2 False) (uint data (offset + 5) 2 False) of
                            None \<Rightarrow> None
                          | Some d \<Rightarrow> jpeg_segments data (offset + 2 + n) (Some d))
                  else if marker \<notin> set jpeg_tables \<and> \<not> (224 \<le> marker \<and> marker \<le> 239) then None
                  else jpeg_segments data (offset + 2 + n) dims)"
  by pat_completeness auto

lemma jpeg_progress:
  assumes "byte_at data offset0 = 255"
  shows "reader_length data - (skip_fill data offset0 + 2 + n) < reader_length data - offset0"
proof -
  have "offset0 < reader_length data" using assms by (intro byte_at_inside) simp
  with skip_fill_grows [of offset0 data] show ?thesis by simp
qed

termination jpeg_segments
  by (relation "measure (\<lambda>(data, offset, _). reader_length data - offset)")
    (use jpeg_progress in \<open>auto simp: add.assoc\<close>)

definition jpeg_size :: "string \<Rightarrow> (nat \<times> nat) option" where
  "jpeg_size data = (if byte_at data 0 \<noteq> 255 \<or> byte_at data 1 \<noteq> 216 then None else jpeg_segments data 2 None)"

text \<open>GIF: the sub-blocks of an extension end with an empty one.\<close>

function gif_blocks :: "string \<Rightarrow> nat \<Rightarrow> nat option" where
  "gif_blocks data offset =
     (let n = byte_at data offset
      in if n = 0 then Some offset else if n < 0 then None else gif_blocks data (offset + nat n + 1))"
  by pat_completeness auto
termination
proof (relation "measure (\<lambda>(data, offset). reader_length data - offset)", goal_cases)
  case (2 data offset n)
  then have "offset < reader_length data" by (intro byte_at_inside) simp
  with 2 show ?case by simp
qed simp

declare jpeg_segments.simps [simp del] gif_blocks.simps [simp del]

lemma gif_blocks_grows: "gif_blocks data offset = Some k \<Longrightarrow> offset \<le> k"
proof (induction data offset rule: gif_blocks.induct)
  case (1 data offset)
  then show ?case by (subst (asm) gif_blocks.simps) (auto simp: Let_def split: if_splits)
qed

function gif_frame :: "string \<Rightarrow> nat \<times> nat \<Rightarrow> nat \<Rightarrow> (nat \<times> nat) option" where
  "gif_frame data dims offset =
     (let introducer = byte_at data offset
      in if introducer = 44 then
           (case (uint data (offset + 1) 2 True, uint data (offset + 3) 2 True, uint data (offset + 5) 2 True, uint data (offset + 7) 2 True) of
              (Some left, Some upper, Some w, Some h) \<Rightarrow> Some (max (fst dims) (left + w), max (snd dims) (upper + h))
            | _ \<Rightarrow> None)
         else if introducer \<noteq> 33 then None
         else case gif_blocks data (offset + 2) of None \<Rightarrow> None | Some k \<Rightarrow> gif_frame data dims (k + 1))"
  by pat_completeness auto
termination
proof (relation "measure (\<lambda>(data, dims, offset). reader_length data - offset)", goal_cases)
  case (2 data dims offset intro k)
  then have "offset < reader_length data" by (intro byte_at_inside) simp
  with 2 gif_blocks_grows [of data "offset + 2" k] show ?case by simp
qed simp

declare gif_frame.simps [simp del]

definition gif_size :: "string \<Rightarrow> (nat \<times> nat) option" where
  "gif_size data =
     (if \<not> matches data 0 (ascii ''GIF87a'') \<and> \<not> matches data 0 (ascii ''GIF89a'') then None
      else case (uint data 6 2 True, uint data 8 2 True) of
          (Some w, Some h) \<Rightarrow>
            (let packed = byte_at data 10
             in if packed < 0 then None
                else gif_frame data (w, h) (13 + (if 128 \<le> packed then 3 * 2 ^ (nat packed mod 8 + 1) else 0)))
        | _ \<Rightarrow> None)"

definition webp_size :: "string \<Rightarrow> (nat \<times> nat) option" where
  "webp_size data =
     (if \<not> matches data 0 (ascii ''RIFF'') \<or> \<not> matches data 8 (ascii ''WEBP'') then None
      else if matches data 12 (ascii ''VP8 '') then
        (if \<not> matches data 23 [157, 1, 42] then None
         else case (uint data 26 2 True, uint data 28 2 True) of
             (Some w, Some h) \<Rightarrow> if 0 < w div 16384 \<or> 0 < h div 16384 then None else Some (w, h)
           | _ \<Rightarrow> None)
      else if matches data 12 (ascii ''VP8L'') then
        (case (if byte_at data 20 = 47 then uint data 21 4 True else None) of
           None \<Rightarrow> None | Some bits \<Rightarrow> Some (bits mod 16384 + 1, bits div 16384 mod 16384 + 1))
      else if matches data 12 (ascii ''VP8X'') then
        (case (uint data 24 3 True, uint data 27 3 True) of (Some w, Some h) \<Rightarrow> Some (w + 1, h + 1) | _ \<Rightarrow> None)
      else None)"

definition image_size :: "string \<Rightarrow> string \<Rightarrow> (nat \<times> nat) option" where
  "image_size data mediaType =
     (if mediaType = ''image/png'' then png_size data else if mediaType = ''image/jpeg'' then jpeg_size data
      else if mediaType = ''image/gif'' then gif_size data else if mediaType = ''image/webp'' then webp_size data else None)"

subsection \<open>The bound of an image block\<close>

definition patch_px :: nat where "patch_px = 28"
definition max_edge_px :: nat where "max_edge_px = 8000"

text \<open>The pattern \<^verbatim>\<open>^[A-Za-z0-9+/]*={0,2}$\<close>.\<close>

definition base64_char :: "char \<Rightarrow> bool" where
  "base64_char c \<longleftrightarrow> is_digit c \<or> 65 \<le> (of_char c :: nat) \<and> (of_char c :: nat) \<le> 90 \<or> 97 \<le> (of_char c :: nat) \<and> (of_char c :: nat) \<le> 122
     \<or> c = CHR ''+'' \<or> c = CHR ''/''"

definition base64_text :: "string \<Rightarrow> bool" where
  "base64_text s \<longleftrightarrow> (let r = dropWhile base64_char s in length r \<le> 2 \<and> list_all (\<lambda>c. c = CHR ''='') r)"

definition ceil_div :: "nat \<Rightarrow> nat \<Rightarrow> nat" where
  "ceil_div a b = (a + b - 1) div b"

record image_bound =
  encoded_bytes :: nat
  bound_tokens :: nat

definition claude_image_bound :: "json option \<Rightarrow> image_bound option" where
  "claude_image_bound source =
     (if \<not> is_object source then None
      else case (text_of (get ''media_type'' source), text_of (get ''data'' source)) of
          (Some mediaType, Some data) \<Rightarrow>
            if \<not> text_is (get ''type'' source) ''base64'' \<or>
               list_ex (\<lambda>kv. fst kv \<notin> {''type'', ''media_type'', ''data''}) (entries (the source)) then None
            else if data = [] \<or> length data mod 4 \<noteq> 0 \<or> \<not> base64_text data then None
            else (case image_size data mediaType of
                None \<Rightarrow> None
              | Some (w, h) \<Rightarrow>
                  if w < 1 \<or> h < 1 \<or> max_edge_px < w \<or> max_edge_px < h then None
                  else Some \<lparr>encoded_bytes = length data, bound_tokens = ceil_div w patch_px * ceil_div h patch_px\<rparr>)
        | _ \<Rightarrow> None)"

definition claude_image_block_bound :: "json option \<Rightarrow> image_bound option" where
  "claude_image_block_bound block =
     (if \<not> text_is (get ''type'' block) ''image'' \<or>
         list_ex (\<lambda>kv. fst kv \<notin> {''type'', ''source'', ''cache_control'', ''transformations''}) (case block of None \<Rightarrow> [] | Some b \<Rightarrow> entries b)
      then None
      else case get ''transformations'' block of
          None \<Rightarrow> claude_image_bound (get ''source'' block)
        | Some t \<Rightarrow>
            if \<not> is_object (Some t) \<or> list_ex (\<lambda>(k, v). k \<noteq> ''oversized_image'' \<or> \<not> text_in (Some v) [''downsize'', ''error'']) (entries t)
            then None else claude_image_bound (get ''source'' block))"

subsection \<open>The reader decodes base64\<close>

text \<open>The encoder of the standard alphabet, as a reference.\<close>

definition digit64 :: "nat \<Rightarrow> char" where
  "digit64 n = (if n < 26 then char_of (n + 65) else if n < 52 then char_of (n + 71) else if n < 62 then char_of (n - 4)
     else if n = 62 then CHR ''+'' else CHR ''/'')"

fun encode64 :: "nat list \<Rightarrow> string" where
  "encode64 [] = []"
| "encode64 [a] = [digit64 (a div 4), digit64 (a mod 4 * 16), CHR ''='', CHR ''='']"
| "encode64 [a, b] = [digit64 (a div 4), digit64 (a mod 4 * 16 + b div 16), digit64 (b mod 16 * 4), CHR ''='']"
| "encode64 (a # b # c # r) =
     [digit64 (a div 4), digit64 (a mod 4 * 16 + b div 16), digit64 (b mod 16 * 4 + c div 64), digit64 (c mod 64)] @ encode64 r"

lemma sextet_digit64: "n < 64 \<Longrightarrow> sextet (of_char (digit64 n)) = n"
  by (auto simp: sextet_def digit64_def)

lemma digit64_not_pad: "n < 64 \<Longrightarrow> digit64 n \<noteq> CHR ''=''"
proof
  assume "n < 64" "digit64 n = CHR ''=''"
  then have "of_char (digit64 n) = (61 :: nat)" by simp
  with \<open>n < 64\<close> show False by (auto simp: digit64_def split: if_splits)
qed

lemma encode64_length: "length (encode64 bs) = 4 * ((length bs + 2) div 3)"
proof (induction bs rule: encode64.induct)
  case (4 a b c r)
  have "(length r + 3 + 2) div 3 = Suc ((length r + 2) div 3)" by simp
  with 4 show ?case by simp
qed simp_all

lemma padding_append: "2 \<le> length e \<Longrightarrow> padding (x @ e) = padding e"
  by (cases "rev e" rule: list.exhaust; cases "tl (rev e)") (auto simp: padding_def dest: arg_cong [of "rev e" _ length])

lemma reader_length_append: "length x = 4 \<Longrightarrow> 2 \<le> length e \<Longrightarrow> padding e \<le> 2 \<Longrightarrow> 4 \<le> length e \<Longrightarrow>
    reader_length (x @ e) = 3 + reader_length e"
proof -
  assume a: "length x = 4" "2 \<le> length e" "padding e \<le> 2" "4 \<le> length e"
  then have "1 \<le> length e div 4" by (simp add: div_le_mono [of 4 "length e" 4, simplified])
  with a show ?thesis by (simp add: reader_length_def padding_append)
qed

lemma padding_le: "padding s \<le> 2"
  by (simp add: padding_def split: list.split)

lemma bytes_parts:
  assumes "a < 256" "b < 256" "c < (256 :: nat)"
  shows "a div 4 < 64" "a mod 4 * 16 + b div 16 < 64" "b mod 16 * 4 + c div 64 < 64" "c mod 64 < 64" "a mod 4 * 16 < 64" "b mod 16 * 4 < 64"
proof -
  have "a div 4 < 64" "b div 16 < 16" "c div 64 < 4" using assms by (simp_all add: less_mult_imp_div_less)
  moreover have "a mod 4 < 4" "b mod 16 < 16" "c mod 64 < 64" by simp_all
  ultimately show "a div 4 < 64" "a mod 4 * 16 + b div 16 < 64" "b mod 16 * 4 + c div 64 < 64" "c mod 64 < 64" "a mod 4 * 16 < 64" "b mod 16 * 4 < 64"
    by linarith+
qed

lemma bits_of_bytes:
  "((a div 4 * 64 + (a mod 4 * 16 + b div 16)) * 64 + (b mod 16 * 4 + c div 64)) * 64 + c mod 64 = a * 65536 + b * 256 + (c :: nat)"
proof -
  have "a = a div 4 * 4 + a mod 4" "b = b div 16 * 16 + b mod 16" "c = c div 64 * 64 + c mod 64" by simp_all
  then show ?thesis by algebra
qed

lemma reader_length_encode: "reader_length (encode64 bs) = length bs" if "list_all (\<lambda>b. b < 256) bs"
  using that
proof (induction bs rule: encode64.induct)
  case (2 a)
  then show ?case by (simp add: reader_length_def padding_def)
next
  case (3 a b)
  then have "digit64 (b mod 16 * 4) \<noteq> CHR ''=''" by (intro digit64_not_pad) simp
  then show ?case by (simp add: reader_length_def padding_def)
next
  case (4 a b c r)
  then have d: "digit64 (c mod 64) \<noteq> CHR ''=''" by (intro digit64_not_pad) simp
  show ?case
  proof (cases "r = []")
    case True
    with d show ?thesis by (simp add: reader_length_def padding_def)
  next
    case False
    then have "4 \<le> length (encode64 r)" by (cases r) (simp_all add: encode64_length)
    then have "reader_length (encode64 (a # b # c # r)) = 3 + reader_length (encode64 r)"
      unfolding encode64.simps by (intro reader_length_append) (simp_all add: padding_le)
    with 4 show ?thesis by simp
  qed
qed (simp add: reader_length_def padding_def)

definition group_of :: "nat list \<Rightarrow> nat \<times> nat \<times> nat" where
  "group_of bs = (case bs of [a] \<Rightarrow> (a, 0, 0) | [a, b] \<Rightarrow> (a, b, 0) | a # b # c # _ \<Rightarrow> (a, b, c) | [] \<Rightarrow> (0, 0, 0))"

lemma group_bits_first:
  assumes "list_all (\<lambda>b. b < 256) bs" and "bs \<noteq> []" and "group_of bs = (a, b, c)"
  shows "group_bits (encode64 bs) 0 = a * 65536 + b * 256 + c \<and> a < 256 \<and> b < 256 \<and> c < 256"
proof (cases bs rule: encode64.cases)
  case (2 x)
  with assms bytes_parts [of x 0 0] bits_of_bytes [of x 0 0] show ?thesis
    by (simp add: group_of_def group_bits_def code_at_def sextet_digit64) (simp add: sextet_def)
next
  case (3 x y)
  with assms bytes_parts [of x y 0] bits_of_bytes [of x y 0] show ?thesis
    by (simp add: group_of_def group_bits_def code_at_def sextet_digit64) (simp add: sextet_def)
next
  case (4 x y z r)
  with assms bytes_parts [of x y z] bits_of_bytes [of x y z] show ?thesis
    by (simp add: group_of_def group_bits_def code_at_def sextet_digit64)
qed (use assms in simp)

lemma group_bits_shift: "length x = 4 \<Longrightarrow> group_bits (x @ e) (4 + g) = group_bits e g"
  by (simp add: group_bits_def code_at_def nth_append add.commute)

lemma byte_of_bits:
  assumes "a < 256" "b < 256" "c < (256 :: nat)" and "j < 3"
  shows "(a * 65536 + b * 256 + c) div 2 ^ (16 - j * 8) mod 256 = [a, b, c] ! j"
proof -
  consider "j = 0" | "j = 1" | "j = 2" using assms(4) by linarith
  then show ?thesis
  proof cases
    case 1
    have "(a * 65536 + b * 256 + c) div 65536 = a" using assms by (intro div_nat_eqI) simp_all
    with 1 assms show ?thesis by simp
  next
    case 2
    have "(a * 65536 + b * 256 + c) div 256 = a * 256 + b" using assms by (intro div_nat_eqI) simp_all
    with 2 assms show ?thesis by simp
  next
    case 3
    with assms show ?thesis by (simp add: mod_add_left_eq [symmetric] mod_mult_right_eq)
  qed
qed

lemma first_group:
  assumes "list_all (\<lambda>b. b < 256) bs" and "bs \<noteq> []" and "group_of bs = (a, b, c)" and "i < 3"
  shows "group_bits (encode64 bs) (i div 3 * 4) div 2 ^ (16 - i mod 3 * 8) mod 256 = [a, b, c] ! i"
proof -
  note g = group_bits_first [OF assms(1-3)]
  have "i div 3 = 0" "i mod 3 = i" using assms(4) by simp_all
  then show ?thesis using g byte_of_bits [of a b c i] assms(4) by (simp only: mult_0)
qed

lemma byte_at_encode:
  "list_all (\<lambda>b. b < 256) bs \<Longrightarrow> i < length bs \<Longrightarrow>
    group_bits (encode64 bs) (i div 3 * 4) div 2 ^ (16 - i mod 3 * 8) mod 256 = bs ! i"
proof (induction bs arbitrary: i rule: encode64.induct)
  case (2 a)
  then have "i < 3" "[a, 0, 0] ! i = [a] ! i" by auto
  with first_group [of "[a]" a 0 0 i] 2 show ?case by (simp only: group_of_def list.case list.distinct refl not_False_eq_True True_implies_equals simp_thms)
next
  case (3 a b)
  then have "i < 3" "[a, b, 0] ! i = [a, b] ! i" by (auto simp: less_Suc_eq)
  with first_group [of "[a, b]" a b 0 i] 3 show ?case by (simp only: group_of_def list.case list.distinct refl not_False_eq_True True_implies_equals simp_thms)
next
  case (4 a b c r)
  show ?case
  proof (cases "i < 3")
    case True
    then have "[a, b, c] ! i = (a # b # c # r) ! i" by (auto simp: less_Suc_eq numeral_3_eq_3)
    with first_group [of "a # b # c # r" a b c i] 4(2) True show ?thesis by (simp only: group_of_def list.case list.distinct refl not_False_eq_True True_implies_equals simp_thms)
  next
    case False
    then obtain j where j: "i = 3 + j" by (metis le_add_diff_inverse not_less)
    have "(3 + j) div 3 * 4 = 4 + j div 3 * 4" by simp
    then have "group_bits (encode64 (a # b # c # r)) (i div 3 * 4) = group_bits (encode64 r) (j div 3 * 4)"
      unfolding j encode64.simps by (simp only:) (rule group_bits_shift, simp)
    with 4 j show ?thesis by simp
  qed
qed simp

text \<open>
  C17. Reading single bytes out of base64 text, without decoding it, is exact: on the encoding of any
  bytes, with or without padding, the reader returns each byte at its offset and \<open>-1\<close> past the end.
\<close>

theorem reader_decodes_base64:
  assumes "list_all (\<lambda>b. b < 256) bs"
  shows "byte_at (encode64 bs) i = (if i < length bs then int (bs ! i) else -1)"
  using byte_at_encode [OF assms, of i] by (simp add: byte_at_def reader_length_encode [OF assms])

theorem reader_decodes_base64_witness:
  "byte_at (encode64 [137, 80, 78, 71]) 3 = 71 \<and> byte_at (encode64 [137, 80, 78, 71]) 4 = -1"
  using reader_decodes_base64 [of "[137, 80, 78, 71]" 3] reader_decodes_base64 [of "[137, 80, 78, 71]" 4] by simp

lemma ceil_div_le: "0 < b \<Longrightarrow> a \<le> b * k \<Longrightarrow> ceil_div a b \<le> k"
proof -
  assume b: "0 < b" "a \<le> b * k"
  have "(a + b - 1) div b < Suc k" using b by (intro less_mult_imp_div_less) (simp add: algebra_simps)
  then show ?thesis by (simp add: ceil_div_def)
qed

text \<open>Every qualified image is billed between one and 286 patches a side.\<close>

lemma image_tokens_bounded:
  assumes "claude_image_bound source = Some b"
  shows "bound_tokens b \<le> 286 * 286" and "1 \<le> bound_tokens b"
proof -
  have "\<exists>w h. 1 \<le> w \<and> w \<le> 8000 \<and> 1 \<le> h \<and> h \<le> 8000 \<and> bound_tokens b = ceil_div w 28 * ceil_div h 28"
    using assms by (fastforce simp: claude_image_bound_def patch_px_def max_edge_px_def Suc_le_eq not_less split: if_splits option.splits)
  then obtain w h where b: "1 \<le> w" "w \<le> 8000" "1 \<le> h" "h \<le> 8000" "bound_tokens b = ceil_div w 28 * ceil_div h 28" by blast
  have "ceil_div w 28 \<le> 286" "ceil_div h 28 \<le> 286" using b by (simp_all add: ceil_div_le)
  from mult_le_mono [OF this] show "bound_tokens b \<le> 286 * 286" unfolding b(5) .
  have "1 \<le> ceil_div w 28" "1 \<le> ceil_div h 28" using b by (simp_all add: ceil_div_def Suc_le_eq div_greater_zero_iff)
  with b show "1 \<le> bound_tokens b" by (simp add: Suc_le_eq)
qed

end
