(* ===== verification/Pricing.thy ===== *)
theory Pricing
  imports Tool_Pricing Token_Usage Image_Bound
begin

section \<open>Reservation and settlement prices\<close>

text \<open>
  \<open>worker/pricing.ts\<close> with \<open>image-generation.ts\<close>, the Google request classifications and
  \<open>anthropic-pricing.ts\<close>: which requests have a price, the amount reserved before dispatch
  and the amount settled from the observed usage. Token counts are integers, rates rationals; the
  text of a number (for the size of a body) is the argument \<open>num\<close>.
\<close>

subsection \<open>Arithmetic\<close>

definition token_cost :: "int \<Rightarrow> rat \<Rightarrow> int" where
  "token_cost tokens rate = \<lceil>of_int tokens * rate / 1000000\<rceil>"

definition weighted_token_cost :: "(int \<times> rat) list \<Rightarrow> int" where
  "weighted_token_cost cs = \<lceil>sum_list (map (\<lambda>(n, r). of_int n * r) cs) / 1000000\<rceil>"

definition saturating_add :: "int \<Rightarrow> int \<Rightarrow> int" where
  "saturating_add a b = min max_safe_integer (a + b)"

definition saturating_multiply :: "int \<Rightarrow> int \<Rightarrow> int" where
  "saturating_multiply a b = (if a = 0 \<or> b = 0 then 0 else min max_safe_integer (a * b))"

definition max_optional :: "rat option \<Rightarrow> rat option \<Rightarrow> rat option" where
  "max_optional a b = (case a of None \<Rightarrow> b | Some x \<Rightarrow> (case b of None \<Rightarrow> Some x | Some y \<Rightarrow> Some (max x y)))"

definition default_to :: "rat \<Rightarrow> rat option \<Rightarrow> rat" where
  "default_to d x = (case x of None \<Rightarrow> d | Some v \<Rightarrow> v)"

definition character_cost :: "int \<Rightarrow> character_pricing \<Rightarrow> int" where
  "character_cost n p = min max_safe_integer \<lceil>of_int n * cp_rate p / 1000000\<rceil>"

subsection \<open>Rates\<close>

definition max_rates :: "rates \<Rightarrow> rates \<Rightarrow> rates" where
  "max_rates a b = \<lparr>rate_input = max (rate_input a) (rate_input b), rate_output = max (rate_output a) (rate_output b),
     rate_cached = max_optional (rate_cached a) (rate_cached b), rate_write = max_optional (rate_write a) (rate_write b),
     rate_write5m = max_optional (rate_write5m a) (rate_write5m b), rate_write1h = max_optional (rate_write1h a) (rate_write1h b)\<rparr>"

definition context_rates :: "rates \<Rightarrow> (int \<times> rates) option \<Rightarrow> int \<Rightarrow> bool \<Rightarrow> rates" where
  "context_rates base long n reserve = (case long of
     None \<Rightarrow> base
   | Some (threshold, extended) \<Rightarrow>
       if n \<le> threshold then base else if reserve then max_rates base extended else extended)"

definition card_rates :: "tier_card \<Rightarrow> int \<Rightarrow> bool \<Rightarrow> rates" where
  "card_rates c n reserve = context_rates (tier_rates c) (tier_long c) n reserve"

definition find_tier :: "tier_card list \<Rightarrow> json option \<Rightarrow> tier_card option" where
  "find_tier tiers tier = (case text_of tier of None \<Rightarrow> None
     | Some t \<Rightarrow> find (\<lambda>c. tier_id c = t \<or> t \<in> set (tier_aliases c)) tiers)"

text \<open>The cards an admission must cover: the selected one and the default it may fall back to, or all.\<close>

definition admission_cards :: "tier_card list \<Rightarrow> json option \<Rightarrow> bool \<Rightarrow> tier_card list" where
  "admission_cards tiers tier google = (case find_tier tiers tier of
     None \<Rightarrow> tiers
   | Some sel \<Rightarrow> filter (\<lambda>c. c = sel \<or> (\<not> google \<or> text_is tier ''priority'') \<and> tier_id c = ''default'') tiers)"

definition resolve_rates :: "token_pricing \<Rightarrow> int \<Rightarrow> json option \<Rightarrow> bool \<Rightarrow> bool \<Rightarrow> rates option" where
  "resolve_rates p n tier0 reserve google =
     (let tier = (if google then map_option JStr (google_service_tier tier0) else tier0)
      in if google \<and> tier = None then None
         else if text_is tier ''auto'' \<and> tp_auto_unpriced p then None
         else if tp_tiers p = [] then
           (if \<not> google \<or> text_is tier ''standard'' then Some (context_rates (tp_rates p) (tp_long p) n reserve) else None)
         else if \<not> reserve then
           (case find_tier (tp_tiers p) tier of
              None \<Rightarrow> None
            | Some c \<Rightarrow> if (case tier_max_input c of None \<Rightarrow> True | Some m \<Rightarrow> n \<le> m) then Some (card_rates c n False) else None)
         else if \<not> nullish tier \<and> \<not> text_is tier ''auto'' \<and> find_tier (tp_tiers p) tier = None then None
         else (case map (\<lambda>c. card_rates c (min n (case tier_max_input c of None \<Rightarrow> n | Some m \<Rightarrow> m)) True)
                  (admission_cards (tp_tiers p) tier google) of
             [] \<Rightarrow> None | r # rs \<Rightarrow> Some (fold (\<lambda>x acc. max_rates acc x) rs r)))"

primrec json_has_key :: "string \<Rightarrow> json \<Rightarrow> bool" where
  "json_has_key k JNull = False" | "json_has_key k (JBool b) = False" | "json_has_key k (JNum q) = False" | "json_has_key k (JStr s) = False"
| "json_has_key k (JArr xs) = list_ex id (map (json_has_key k) xs)"
| "json_has_key k (JObj kvs) = (list_ex (\<lambda>(n, b). n = k \<or> b) (map (map_prod id (json_has_key k)) kvs))"

definition cache_ttl_is :: "string \<Rightarrow> json \<Rightarrow> bool" where
  "cache_ttl_is ttl v \<longleftrightarrow> text_is (get ''ttl'' (as_record (member ''cache_control'' v))) ttl"

primrec json_has_cache_ttl :: "string \<Rightarrow> json \<Rightarrow> bool" where
  "json_has_cache_ttl t JNull = False" | "json_has_cache_ttl t (JBool b) = False" | "json_has_cache_ttl t (JNum q) = False"
| "json_has_cache_ttl t (JStr s) = False"
| "json_has_cache_ttl t (JArr xs) = list_ex id (map (json_has_cache_ttl t) xs)"
| "json_has_cache_ttl t (JObj kvs) = (cache_ttl_is t (JObj kvs) \<or> list_ex snd (map (map_prod id (json_has_cache_ttl t)) kvs))"

definition reservation_input_rate :: "json \<Rightarrow> rates \<Rightarrow> rat" where
  "reservation_input_rate body r =
     (let rate = max (rate_input r) (max (default_to (rate_input r) (rate_cached r)) (default_to (rate_input r) (rate_write r)))
      in if json_has_cache_ttl ''1h'' body then max rate (default_to (rate_input r) (rate_write1h r))
         else if json_has_key ''cache_control'' body then max rate (default_to (rate_input r) (rate_write5m r))
         else rate)"

subsection \<open>Unbounded input\<close>

definition media_kinds :: "string list" where
  "media_kinds = [''image'', ''image_url'', ''video_url'', ''document'', ''file'', ''input_image'', ''input_file'', ''item_reference'', ''computer_screenshot'']"

primrec content_has_unbounded_input :: "json \<Rightarrow> bool" where
  "content_has_unbounded_input JNull = False" | "content_has_unbounded_input (JBool b) = False"
| "content_has_unbounded_input (JNum q) = False" | "content_has_unbounded_input (JStr s) = False"
| "content_has_unbounded_input (JArr xs) = list_ex id (map content_has_unbounded_input xs)"
| "content_has_unbounded_input (JObj kvs) =
     (text_in (member ''type'' (JObj kvs)) media_kinds \<or> has ''image_url'' (JObj kvs) \<or> has ''video_url'' (JObj kvs) \<or> has ''file_id'' (JObj kvs)
      \<or> list_ex snd (map (map_prod id content_has_unbounded_input) kvs))"

definition unbounded_opt :: "json option \<Rightarrow> bool" where
  "unbounded_opt j = (case j of None \<Rightarrow> False | Some v \<Rightarrow> content_has_unbounded_input v)"

definition provider_added_tool :: "json option \<Rightarrow> bool" where
  "provider_added_tool j = (case text_of j of None \<Rightarrow> False
     | Some s \<Rightarrow> list_ex (\<lambda>p. starts_with p s) [''web_fetch_'', ''bash_'', ''text_editor_'', ''computer_'', ''memory_''])"

definition no_images :: image_bound where
  "no_images = \<lparr>encoded_bytes = 0, bound_tokens = 0\<rparr>"

text \<open>A qualified image adds to the running bound.\<close>

definition qualified_claude_image :: "json \<Rightarrow> image_bound \<Rightarrow> bool \<times> image_bound" where
  "qualified_claude_image block images = (case (if is_obj block then claude_image_block_bound (Some block) else None) of
     None \<Rightarrow> (False, images)
   | Some b \<Rightarrow> (True, \<lparr>encoded_bytes = encoded_bytes images + encoded_bytes b,
       bound_tokens = nat (saturating_add (int (bound_tokens images)) (int (bound_tokens b)))\<rparr>))"

text \<open>\<open>Array.some\<close> with a callback that updates the running bound.\<close>

fun some_bound :: "(json \<Rightarrow> image_bound \<Rightarrow> bool \<times> image_bound) \<Rightarrow> json list \<Rightarrow> image_bound \<Rightarrow> bool \<times> image_bound" where
  "some_bound f [] im = (False, im)"
| "some_bound f (x # xs) im = (let (b, im') = f x im in if b then (True, im') else some_bound f xs im')"

definition block_unbounded :: "json \<Rightarrow> image_bound \<Rightarrow> bool \<times> image_bound" where
  "block_unbounded item im =
     (let (q, im') = qualified_claude_image item im in (\<not> q \<and> content_has_unbounded_input item, im'))"

definition claude_block_unbounded :: "json \<Rightarrow> image_bound \<Rightarrow> bool \<times> image_bound" where
  "claude_block_unbounded block im =
     (if \<not> is_obj block then (False, im)
      else if text_is (member ''type'' block) ''tool_result'' \<and> is_array (member ''content'' block) then
        (if list_ex (\<lambda>(k, v). k \<noteq> ''content'' \<and> content_has_unbounded_input v) (entries block) then (True, im)
         else some_bound block_unbounded (elements (member ''content'' block)) im)
      else block_unbounded block im)"

definition claude_user_content :: "json option \<Rightarrow> image_bound \<Rightarrow> bool \<times> image_bound" where
  "claude_user_content content im =
     (if is_array content then some_bound claude_block_unbounded (elements content) im else (unbounded_opt content, im))"

definition message_unbounded :: "bool \<Rightarrow> json \<Rightarrow> image_bound \<Rightarrow> bool \<times> image_bound" where
  "message_unbounded counting message im =
     (if \<not> is_obj message then (False, im)
      else if counting \<and> text_is (member ''role'' message) ''user'' then claude_user_content (member ''content'' message) im
      else (unbounded_opt (member ''content'' message), im))"

definition request_has_unbounded_input :: "bool \<Rightarrow> json \<Rightarrow> bool \<times> image_bound" where
  "request_has_unbounded_input counting body =
     (if list_ex (\<lambda>k. \<not> nullish (member k body)) [''previous_response_id'', ''conversation'', ''prompt''] then (True, no_images)
      else if unbounded_opt (member ''input'' body) then (True, no_images)
      else let (b, im) = some_bound (message_unbounded counting) (elements (member ''messages'' body)) no_images
           in if b then (True, im)
              else (list_ex (\<lambda>t. is_obj t \<and> provider_added_tool (member ''type'' t)) (elements (member ''tools'' body)), im))"

lemma size_member: "member k j = Some v \<Longrightarrow> size v < size j"
proof (cases j)
  case (JObj kvs)
  assume "member k j = Some v"
  then have "(k, v) \<in> set kvs" using JObj by (auto dest: map_of_SomeD)
  then have "size v < size_list (size_prod (\<lambda>_. 0) size) kvs"
    by (induction kvs) (auto simp: less_Suc_eq_le)
  then show ?thesis using JObj by simp
qed auto

lemma size_elements: "x \<in> set (elements (Some j)) \<Longrightarrow> size x < size j"
  by (cases j) (auto dest: size_list_estimation' [OF _ order_refl, of _ _ size])

lemma size_google_field: "google_field (Some j) c p = Some v \<Longrightarrow> size v < size j"
proof -
  assume a: "google_field (Some j) c p = Some v"
  have "fold (\<lambda>(k, field) found. if k = c \<or> k = p then Some field else found) kvs acc = Some v \<Longrightarrow> acc = Some v \<or> v \<in> snd ` set kvs" for kvs acc
  proof (induction kvs arbitrary: acc)
    case (Cons kv kvs)
    obtain k w where kv: "kv = (k, w)" by fastforce
    show ?case using Cons.IH [of "if k = c \<or> k = p then Some w else acc"] Cons.prems by (auto simp: kv split: if_splits)
  qed simp
  from this [of "entries j" None] a obtain k where kv: "(k, v) \<in> set (entries j)" by (auto simp: google_field_def)
  then obtain kvs where j: "j = JObj kvs" "(k, v) \<in> set kvs" by (cases j) auto
  then have "size v < size_list (size_prod (\<lambda>_. 0) size) kvs"
    by (induction kvs arbitrary: j) (auto simp: less_Suc_eq_le)
  with j show ?thesis by simp
qed

function google_content_has_media :: "json option \<Rightarrow> bool" where
  "google_content_has_media None = False"
| "google_content_has_media (Some j) =
     (if is_array (Some j) then list_ex (\<lambda>x. google_content_has_media (Some x)) (elements (Some j))
      else list_ex (\<lambda>part. is_obj part \<and> (\<not> nullish (google_field (Some part) ''fileData'' ''file_data'') \<or>
             \<not> nullish (google_field (Some part) ''inlineData'' ''inline_data'') \<or>
             google_content_has_media (google_field (Some part) ''functionResponse'' ''function_response'')))
           (elements (member ''parts'' j)))"
  by pat_completeness auto
termination
proof (relation "measure (case_option 0 (Suc \<circ> size))", goal_cases)
  case (2 j x)
  then show ?case by (simp add: size_elements)
next
  case (3 j part)
  obtain ps where ps: "member ''parts'' j = Some ps" using 3(2) by (cases "member ''parts'' j") auto
  with 3(2) have "size part < size ps" "size ps < size j" by (simp_all add: size_elements size_member)
  then show ?case by (cases "google_field (Some part) ''functionResponse'' ''function_response''") (auto dest: size_google_field)
qed simp

declare google_content_has_media.simps [simp del]

definition google_has_unbounded_input :: "json \<Rightarrow> bool" where
  "google_has_unbounded_input body \<longleftrightarrow> truthy (google_field (Some body) ''cachedContent'' ''cached_content'') \<or>
     google_content_has_media (member ''contents'' body) \<or>
     google_content_has_media (google_field (Some body) ''systemInstruction'' ''system_instruction'')"

definition responses_has_opaque_input :: "json \<Rightarrow> bool" where
  "responses_has_opaque_input body \<longleftrightarrow> list_ex (\<lambda>item. is_obj item \<and>
     (text_is (member ''type'' item) ''compaction'' \<or> text_is (member ''type'' item) ''reasoning'' \<and> has ''encrypted_content'' item))
     (elements (member ''input'' body))"

definition opaque_input_limit :: "model_pricing option \<Rightarrow> int option" where
  "opaque_input_limit p = (case p of
     Some (TokenCard c) \<Rightarrow> (let lm = (case tp_max_request_input c of Some n \<Rightarrow> n | None \<Rightarrow> tp_max_input c)
       in if safe_int lm \<and> 0 < lm then Some lm else None)
   | _ \<Rightarrow> None)"

subsection \<open>Google request classes\<close>

definition google_modality :: "json \<Rightarrow> json list \<Rightarrow> bool" where
  "google_modality body vs =
     (let modalities = google_field (google_field (Some body) ''generationConfig'' ''generation_config'') ''responseModalities'' ''response_modalities''
      in list_ex (\<lambda>v. v \<in> set vs) (elements modalities))"

definition google_image_request :: "string option \<Rightarrow> json \<Rightarrow> string \<Rightarrow> bool" where
  "google_image_request model body format =
     (if format = ''google.image_generate'' then True
      else if format \<noteq> ''google.generate_content'' then False
      else if model = Some ''gemini-3.1-flash-image'' \<or> model = Some ''gemini-3-pro-image'' then True
      else google_modality body [JStr ''IMAGE'', JNum 2, JStr ''2''])"

definition google_audio_formats :: "string list" where
  "google_audio_formats = [''google.music_generate'', ''google.speech_generate_content'', ''google.speech_interactions'']"

definition google_audio_models :: "string list" where
  "google_audio_models = [''lyria-3-clip-preview'', ''lyria-3-pro-preview'', ''gemini-3.1-flash-tts-preview'', ''gemini-2.5-flash-preview-tts'',
     ''gemini-2.5-pro-preview-tts'', ''gemini-3.8-flash-tts'', ''gemini-3.8-flash-lite-tts'']"

definition google_audio_request :: "string option \<Rightarrow> json \<Rightarrow> string \<Rightarrow> bool" where
  "google_audio_request model body format =
     (if format \<in> set google_audio_formats then True
      else if format \<noteq> ''google.generate_content'' then False
      else if (case model of None \<Rightarrow> False | Some m \<Rightarrow> m \<in> set google_audio_models) then True
      else google_modality body [JStr ''AUDIO'', JNum 3, JStr ''3''])"

definition unpriced_google_formats :: "string list" where
  "unpriced_google_formats = [''google.grounded_search'', ''google.audio_understanding'', ''google.video_understanding'']"

definition unpriced_audio_formats :: "string list" where
  "unpriced_audio_formats = [''groq.transcription'', ''mistral.transcription'', ''xai.stt'', ''xai.tts'']"

subsection \<open>Requests a card cannot price\<close>

definition input_tools :: "json \<Rightarrow> json list" where
  "input_tools body = concat (map (\<lambda>item. if is_obj item \<and> text_in (member ''type'' item) [''additional_tools'', ''tool_search_output'']
     then elements (member ''tools'' item) else []) (elements (member ''input'' body)))"

definition request_declared_tools :: "json \<Rightarrow> string \<Rightarrow> json list" where
  "request_declared_tools body format = elements (member ''tools'' body) @ (if format = ''openai.responses'' then input_tools body else [])"

definition multi_agent_enabled :: "json \<Rightarrow> bool" where
  "multi_agent_enabled body \<longleftrightarrow> get ''enabled'' (as_record (member ''multi_agent'' body)) = Some (JBool True)"

definition anthropic_compaction :: "json \<Rightarrow> bool" where
  "anthropic_compaction body \<longleftrightarrow> text_is (get ''type'' (as_record (member ''compaction'' body))) ''summarize'' \<or>
     list_ex (\<lambda>e. is_obj e \<and> text_is (member ''type'' e) ''compact_20260112'') (elements (get ''edits'' (as_record (member ''context_management'' body))))"

definition opaque_item :: "json \<Rightarrow> bool" where
  "opaque_item item \<longleftrightarrow> is_obj item \<and> (text_in (member ''type'' item) [''compaction'', ''item_reference''] \<or>
     text_is (member ''type'' item) ''reasoning'' \<and> \<not> nullish (member ''encrypted_content'' item))"

definition compact_retains_tools :: "(rat \<Rightarrow> string) \<Rightarrow> json \<Rightarrow> bool" where
  "compact_retains_tools num body \<longleftrightarrow> retained_tool_base num body TokenOnly \<noteq> TokenOnly \<or>
     (case member ''tools'' body of None \<Rightarrow> False
      | Some ts \<Rightarrow> retained_tool_base num (JObj [(''input'', JArr [JObj [(''type'', JStr ''additional_tools''), (''tools'', ts)]])]) TokenOnly \<noteq> TokenOnly) \<or>
     list_ex opaque_item (elements (member ''input'' body))"

definition request_pricing_gap ::
    "(rat \<Rightarrow> string) \<Rightarrow> model_pricing option \<Rightarrow> json \<Rightarrow> string \<Rightarrow> tool_knowledge option \<Rightarrow> string option \<Rightarrow> pricing_gap option" where
  "request_pricing_gap num p body format0 parent model =
     (let compact = (format0 = ''openai.responses_compact'');
          format = (if compact then ''openai.responses'' else format0);
          current = hosted_tool_pricing_gap num (request_declared_tools body format) format
      in if format0 \<in> set unpriced_audio_formats then Some OpaqueInputBound
         else if format0 \<in> set unpriced_google_formats then Some (if format0 = ''google.grounded_search'' then HostedToolFee else OpaqueInputBound)
         else if google_audio_request model body format0 \<or> google_image_request model body format0 then Some OpaqueInputBound
         else if format0 = ''openai.standalone_search'' then Some HostedToolUsage
         else if format = ''openai.audio_transcriptions'' then Some AudioUploadBound
         else if (case p of Some (TokenCard c) \<Rightarrow> tp_request_fee c | _ \<Rightarrow> False) then Some ModelRequestFee
         else if format = ''openai.chat_completions'' \<and> is_object (member ''web_search_options'' body) then Some HostedToolFee
         else if format = ''openai.responses'' \<and> \<not> nullish (member ''prompt'' body) then Some HostedToolUsage
         else if format = ''openai.responses'' \<and> multi_agent_enabled body then Some HostedToolUsage
         else if format = ''anthropic.messages'' \<and> elements (member ''mcp_servers'' body) \<noteq> [] then Some HostedToolUsage
         else if format = ''anthropic.messages'' \<and> anthropic_compaction body then Some HostedToolUsage
         else if format = ''google.generate_content'' \<and> \<not> nullish (google_field (Some body) ''cachedContent'' ''cached_content'') then Some HostedToolUsage
         else if current \<noteq> None then current
         else if format = ''openai.responses'' \<and> responses_has_opaque_input body \<and> opaque_input_limit p = None then Some OpaqueInputBound
         else if compact \<and> compact_retains_tools num body then Some RetainedToolUnknown
         else if format \<noteq> ''openai.responses'' \<or> nonempty_string (case member ''previous_response_id'' body of None \<Rightarrow> JNull | Some v \<Rightarrow> v) = None then None
         else (case parent of
             Some TokenOnly \<Rightarrow> None | Some FeeTools \<Rightarrow> Some HostedToolFee | Some UsageTools \<Rightarrow> Some HostedToolUsage
           | _ \<Rightarrow> Some RetainedToolUnknown))"

subsection \<open>Hosted search and request tariffs\<close>

record search_price =
  sp_version :: string
  sp_micros :: "int option"

definition declared_search :: "json \<Rightarrow> string list" where
  "declared_search body = List.map_filter (\<lambda>tool. if is_obj tool then (case type_text tool of
       Some s \<Rightarrow> if web_search_type s then Some s else None | None \<Rightarrow> None) else None)
     (elements (member ''tools'' body) @ input_tools body)"

definition unqualified_search :: "json \<Rightarrow> bool" where
  "unqualified_search body \<longleftrightarrow> \<not> nullish (member ''previous_response_id'' body) \<or> \<not> nullish (member ''conversation'' body) \<or>
     \<not> nullish (member ''prompt'' body) \<or>
     list_ex (\<lambda>i. is_obj i \<and> text_in (member ''type'' i) [''compaction'', ''item_reference'']) (elements (member ''input'' body)) \<or>
     multi_agent_enabled body \<or>
     list_ex (\<lambda>t. is_obj t \<and> (text_in (member ''type'' t) [''mcp'', ''programmatic_tool_calling''] \<or>
       text_is (member ''type'' t) ''tool_search'' \<and> \<not> text_is (member ''execution'' t) ''client'')) (elements (member ''tools'' body) @ input_tools body)"

definition hosted_search_price :: "tool_pricing option \<Rightarrow> json option \<Rightarrow> string option \<Rightarrow> bool \<Rightarrow> search_price option" where
  "hosted_search_price prices body upstream retained = (case (prices, body) of
     (Some c, Some b) \<Rightarrow>
       if \<not> is_obj b \<or> declared_search b = [] then None
       else if retained \<or> unqualified_search b then Some \<lparr>sp_version = tool_version c, sp_micros = None\<rparr>
       else (let prices = map (\<lambda>t. if starts_with ''web_search_preview'' t
                   then (case upstream of Some m \<Rightarrow> if m = [] then None else map_of (tool_preview c) m | None \<Rightarrow> None) else Some (tool_search_micros c))
                 (declared_search b)
             in Some \<lparr>sp_version = tool_version c, sp_micros = (if list_all (\<lambda>r. r = hd prices) prices then hd prices else None)\<rparr>)
   | _ \<Rightarrow> None)"

definition hosted_search_cost :: "search_price option \<Rightarrow> int \<Rightarrow> int option" where
  "hosted_search_cost price n = (case price of None \<Rightarrow> None | Some p \<Rightarrow> map_option (\<lambda>m. saturating_multiply m n) (sp_micros p))"

record web_price = search_price +
  wp_search :: bool
  wp_complete :: bool

definition claude_web_tool :: "(rat \<Rightarrow> string) \<Rightarrow> json \<Rightarrow> bool" where
  "claude_web_tool num t \<longleftrightarrow> is_obj t \<and> string_of num (member ''type'' t) \<in> set (claude_search_types @ claude_fetch_types)"

definition anthropic_web_price :: "(rat \<Rightarrow> string) \<Rightarrow> tool_pricing option \<Rightarrow> json option \<Rightarrow> web_price option" where
  "anthropic_web_price num prices body = (case (prices, body) of
     (Some c, Some b) \<Rightarrow>
       if \<not> is_obj b \<or> \<not> is_array (member ''tools'' b) \<or> \<not> list_ex (claude_web_tool num) (elements (member ''tools'' b)) then None
       else (let tools = elements (member ''tools'' b);
                 rest = assign ''tools'' (JArr (filter (\<lambda>t. \<not> claude_web_tool num t) tools)) b
             in Some \<lparr>sp_version = tool_version c, sp_micros = Some (tool_search_micros c),
                  wp_search = list_ex (\<lambda>t. is_obj t \<and> string_of num (member ''type'' t) \<in> set claude_search_types) tools,
                  wp_complete = (request_pricing_gap num None rest ''anthropic.messages'' None None = None)\<rparr>)
   | _ \<Rightarrow> None)"

datatype cost_basis = ProviderReported | ManifestRequest

record cost_receipt =
  cr_micros :: int
  cr_basis :: cost_basis
  cr_version :: string

record outcome_pricing =
  op_unit :: string
  op_outcome :: string
  op_additional :: int
  op_receipt :: string
  op_version :: string

definition qualified_outcome :: "outcome_pricing \<Rightarrow> bool" where
  "qualified_outcome p \<longleftrightarrow> op_unit p = ''request'' \<and> op_outcome p = ''xai.responses_violation'' \<and> op_additional p = 50000 \<and>
     op_receipt p = ''xai.usage.cost_in_usd_ticks''"

definition request_outcome_reserve :: "outcome_pricing \<Rightarrow> int option \<Rightarrow> int option" where
  "request_outcome_reserve p inference = (case inference of None \<Rightarrow> None | Some n \<Rightarrow>
     if \<not> qualified_outcome p \<or> \<not> safe_int n \<or> n < 0 \<or> max_safe_integer - op_additional p < n then None else Some (n + op_additional p))"

text \<open>Ten thousand ticks make a micro-dollar; a remainder is rounded up.\<close>

definition ticked_cost_receipt :: "json option \<Rightarrow> string \<Rightarrow> cost_receipt option" where
  "ticked_cost_receipt ticks version = (case safe_count ticks of None \<Rightarrow> None
     | Some n \<Rightarrow> Some \<lparr>cr_micros = n div 10000 + (if n mod 10000 = 0 then 0 else 1), cr_basis = ProviderReported, cr_version = version\<rparr>)"

definition request_outcome_cost :: "outcome_pricing \<Rightarrow> json option \<Rightarrow> bool \<Rightarrow> cost_receipt option" where
  "request_outcome_cost p response whole_body =
     (if \<not> qualified_outcome p \<or> \<not> whole_body \<or> \<not> is_object response \<or> \<not> text_is (get ''object'' response) ''response'' \<or>
         (case text_of (get ''id'' response) of None \<Rightarrow> True | Some i \<Rightarrow> i = [] \<or> 256 < utf16_length i) \<or>
         \<not> text_in (get ''status'' response) [''completed'', ''incomplete''] \<or> \<not> is_object (get ''usage'' response) then None
      else ticked_cost_receipt (get ''cost_in_usd_ticks'' (get ''usage'' response)) (op_version p))"

definition version_text :: "string \<Rightarrow> bool" where
  "version_text s \<longleftrightarrow> s \<noteq> [] \<and> length s \<le> 128 \<and> list_all (\<lambda>c. is_digit c \<or> 65 \<le> (of_char c :: nat) \<and> (of_char c :: nat) \<le> 90 \<or>
     97 \<le> (of_char c :: nat) \<and> (of_char c :: nat) \<le> 122 \<or> c \<in> set ''._:-'') s"

definition deepseek_search_reserve :: "json option \<Rightarrow> int option" where
  "deepseek_search_reserve p =
     (if \<not> is_object p \<or>
         list_ex (\<lambda>kv. fst kv \<notin> {''unit'', ''protocol'', ''version'', ''effectiveAt'', ''source'', ''successfulNonemptyRequestMicros'', ''emptyRequestMicros''})
           (case p of None \<Rightarrow> [] | Some v \<Rightarrow> entries v) \<or>
         \<not> text_is (get ''unit'' p) ''request'' \<or> \<not> text_is (get ''protocol'' p) ''deepseek.search'' \<or>
         (case text_of (get ''version'' p) of None \<Rightarrow> True | Some s \<Rightarrow> \<not> version_text s) \<or>
         \<not> text_is (get ''effectiveAt'' p) ''2026-11-01T00:00:00+08:00'' \<or> \<not> text_is (get ''source'' p) ''https://api-docs.deepseek.com/guides/search/'' \<or>
         get ''successfulNonemptyRequestMicros'' p \<noteq> Some (JNum 750) \<or> get ''emptyRequestMicros'' p \<noteq> Some (JNum 0) then None
      else Some 750)"

definition deepseek_search_cost :: "json option \<Rightarrow> json option \<Rightarrow> cost_receipt option" where
  "deepseek_search_cost p usage =
     (let observed = get ''nativeRequestUsage'' usage; n = get ''billableRequests'' observed
      in if deepseek_search_reserve p = None \<or> \<not> is_object usage \<or> \<not> text_is (get ''outcome'' usage) ''success'' \<or> \<not> is_object observed \<or>
           \<not> text_is (get ''operation'' observed) ''deepseek.search'' \<or> get ''pricingVersion'' observed \<noteq> get ''version'' p \<or>
           n \<noteq> Some (JNum 0) \<and> n \<noteq> Some (JNum 1) then None
         else map_option (\<lambda>v. \<lparr>cr_micros = (if n = Some (JNum 0) then 0 else 750), cr_basis = ManifestRequest, cr_version = v\<rparr>)
           (text_of (get ''version'' p)))"

record image_selection =
  is_model :: string
  is_serving :: string
  is_edit :: bool
  is_count :: int
  is_inputs :: int
  is_resolution :: string
  is_quality :: "string option"
  is_basis :: string

definition qualified_image_selection :: "json \<Rightarrow> image_selection \<Rightarrow> bool" where
  "qualified_image_selection p r =
     (let alias = as_record (member ''alias'' p)
      in if \<not> text_is (member ''unit'' p) ''image'' \<or> \<not> text_is (member ''protocol'' p) ''xai.images'' \<or>
           \<not> text_is (member ''source'' p) ''https://docs.x.ai/developers/pricing'' \<or>
           nonempty_string (case member ''version'' p of None \<Rightarrow> JNull | Some v \<Rightarrow> v) = None \<or>
           \<not> text_is (member ''receipt'' p) ''xai.usage.cost_in_usd_ticks'' \<or> \<not> is_object (member ''rates'' p) \<or> alias = None \<or>
           \<not> text_is (get ''selectedModel'' alias) ''grok-imagine-image-quality'' \<or> \<not> text_is (get ''servingModel'' alias) ''grok-imagine-image-2.0'' \<or>
           \<not> text_is (get ''quality'' alias) ''low'' \<or> \<not> text_is (get ''effectiveAt'' alias) ''2026-11-02'' \<or>
           \<not> text_is (get ''source'' alias) ''https://docs.x.ai/developers/migration/imagine-image-quality-nov-2'' \<or>
           is_count r < 1 \<or> 4 < is_count r \<or> is_inputs r < 0 \<or> 3 < is_inputs r \<or> is_resolution r \<notin> {''1k'', ''2k''} \<or>
           (if is_edit r then is_inputs r = 0 else is_inputs r \<noteq> 0) then False
         else if is_model r = ''grok-imagine-image-quality'' then
           is_serving r = ''grok-imagine-image-2.0'' \<and> is_quality r = Some ''low'' \<and> is_basis r = ''retired_alias''
         else if is_model r = ''grok-imagine-image'' then is_serving r = is_model r \<and> is_quality r = None \<and> is_basis r = ''legacy''
         else is_model r = ''grok-imagine-image-2.0'' \<and> is_serving r = is_model r \<and> is_quality r \<in> {Some ''low'', Some ''medium''} \<and>
           is_basis r \<in> {''explicit'', ''service_default''})"

definition image_request_reserve :: "json \<Rightarrow> image_selection \<Rightarrow> int option" where
  "image_request_reserve p r =
     (let rate_card = get (is_serving r) (member ''rates'' p); outputs = get ''outputMicrosPerImage'' rate_card;
          qualities = (if is_basis r = ''service_default'' then [''low'', ''medium''] else case is_quality r of None \<Rightarrow> [[]] | Some q \<Rightarrow> [q]);
          selected = (if is_basis r = ''legacy'' then [get (is_resolution r) outputs]
            else map (\<lambda>k. if k = [] then None else get (is_resolution r) (as_record (get k outputs))) qualities);
          prices = map safe_count selected
      in if \<not> qualified_image_selection p r \<or> \<not> is_object rate_card \<or> \<not> is_object outputs then None
         else case safe_count (get ''inputMicrosPerImage'' rate_card) of
             None \<Rightarrow> None
           | Some inp \<Rightarrow>
               if inp = 0 \<or> list_ex (\<lambda>x. x = None \<or> x = Some 0) prices then None
               else let reserve = (inp * is_inputs r + foldr max (List.map_filter (\<lambda>x. x) prices) 0) * is_count r
                    in if safe_int reserve then Some reserve else None)"

definition image_request_cost :: "json \<Rightarrow> image_selection \<Rightarrow> json option \<Rightarrow> bool \<Rightarrow> cost_receipt option" where
  "image_request_cost p r response whole_body =
     (if image_request_reserve p r = None \<or> \<not> whole_body \<or> \<not> is_object response \<or> \<not> text_is (get ''model'' response) (is_serving r) \<or>
         \<not> nullish (get ''error'' response) \<or> get ''status'' response \<noteq> None \<and> \<not> text_is (get ''status'' response) ''done'' \<or>
         \<not> is_object (get ''usage'' response) then None
      else case text_of (member ''version'' p) of None \<Rightarrow> None
        | Some v \<Rightarrow> ticked_cost_receipt (get ''cost_in_usd_ticks'' (get ''usage'' response)) v)"

definition outcome_tool_types :: "string list" where
  "outcome_tool_types = [''function'', ''web_search'', ''x_search'', ''code_interpreter'', ''file_search'', ''image_generation'', ''mcp'']"

definition attached_file :: "json \<Rightarrow> bool" where
  "attached_file item \<longleftrightarrow> is_obj item \<and> (text_is (member ''type'' item) ''input_file'' \<or>
     list_ex (\<lambda>part. is_obj part \<and> text_is (member ''type'' part) ''input_file'') (elements (member ''content'' item)))"

definition outcome_request_pricing_gap ::
    "(rat \<Rightarrow> string) \<Rightarrow> model_pricing option \<Rightarrow> json \<Rightarrow> string \<Rightarrow> outcome_pricing \<Rightarrow> tool_knowledge option \<Rightarrow> pricing_gap option" where
  "outcome_request_pricing_gap num p body format rp parent = (case p of
     Some (TokenCard c) \<Rightarrow>
       if format \<noteq> ''openai.responses'' \<or> \<not> qualified_outcome rp then Some ModelRequestFee
       else if \<not> nullish (member ''tools'' body) \<and> \<not> is_array (member ''tools'' body) \<or>
         list_ex (\<lambda>t. \<not> is_obj t \<or> \<not> text_in (member ''type'' t) outcome_tool_types) (request_declared_tools body format) then Some HostedToolUsage
       else if list_ex attached_file (elements (member ''input'' body)) then Some HostedToolUsage
       else if \<not> nullish (member ''search_parameters'' body) \<and> \<not> text_is (get ''mode'' (as_record (member ''search_parameters'' body))) ''off''
       then Some HostedToolUsage
       else if \<not> nullish (member ''previous_response_id'' body) \<or> \<not> nullish (member ''conversation'' body) then Some RetainedToolUnknown
       else request_pricing_gap num (Some (TokenCard (c\<lparr>tp_request_fee := False\<rparr>))) body format parent None
   | _ \<Rightarrow> Some ModelRequestFee)"

subsection \<open>Reservation before dispatch\<close>

record cost_estimate =
  ce_reserve :: int
  ce_input :: "int option"
  ce_output :: "int option"
  ce_available :: bool

definition unavailable :: cost_estimate where
  "unavailable = \<lparr>ce_reserve = 0, ce_input = None, ce_output = None, ce_available = False\<rparr>"

record pricing_endpoint =
  pe_format :: string
  pe_limit :: "(string \<times> int \<times> int) option"
  pe_model :: "string option"

definition image_count :: "image_pricing \<Rightarrow> json \<Rightarrow> int" where
  "image_count p body = (case safe_count (member ''n'' body) of
     Some n \<Rightarrow> if 1 \<le> n \<and> n \<le> ip_max_images p then n else ip_max_images p
   | None \<Rightarrow> if member ''n'' body = None \<and> entries body \<noteq> [] then 1 else ip_max_images p)"

definition estimate_image_cost :: "image_pricing \<Rightarrow> json \<Rightarrow> cost_estimate" where
  "estimate_image_cost p body =
     (let n = image_count p body;
          quality = (case text_of (member ''quality'' body) of None \<Rightarrow> None | Some q \<Rightarrow> map_of (ip_qualities p) q);
          factor = (case quality of Some f \<Rightarrow> f | None \<Rightarrow> foldr max (map snd (ip_qualities p)) 0);
          perImage = \<lceil>factor * factor * of_int (ip_base_pixels p + ip_max_pixels p) / of_int (ip_divisor p)\<rceil>;
          bytes = (case text_of (member ''prompt'' body) of Some s \<Rightarrow> int (length s) | None \<Rightarrow> ip_max_prompt p * 4);
          inp = (bytes + 1024) * n; outp = perImage * n
      in \<lparr>ce_reserve = \<lceil>(of_int inp * ip_text_input p + of_int outp * ip_image_output p) / 1000000\<rceil>,
          ce_input = Some inp, ce_output = Some outp, ce_available = True\<rparr>)"

definition ep_format :: "pricing_endpoint option \<Rightarrow> string" where
  "ep_format ep = (case ep of None \<Rightarrow> [] | Some e \<Rightarrow> pe_format e)"

definition opaque_request :: "json \<Rightarrow> pricing_endpoint option \<Rightarrow> bool" where
  "opaque_request body ep =
     (if ep_format ep = ''google.generate_content'' then \<not> nullish (google_field (Some body) ''continuationToken'' ''continuation_token'')
      else (ep = None \<or> ep_format ep = ''openai.responses'' \<or> ep_format ep = ''openai.responses_compact'') \<and> responses_has_opaque_input body)"

text \<open>The input bound: the whole limit for opaque or unbounded input, else what the bytes allow.\<close>

definition input_bound :: "(rat \<Rightarrow> string) \<Rightarrow> token_pricing \<Rightarrow> json \<Rightarrow> pricing_endpoint option \<Rightarrow> int" where
  "input_bound num p body ep =
     (let google = (ep_format ep = ''google.generate_content''); claude = (ep_format ep = ''anthropic.messages'');
          opaque = opaque_request body ep;
          lm = (case (if opaque then opaque_input_limit (Some (TokenCard p)) else None) of
            Some n \<Rightarrow> n | None \<Rightarrow> (case tp_max_request_input p of Some n \<Rightarrow> n | None \<Rightarrow> tp_max_input p));
          (unb, images) = (if google then (google_has_unbounded_input body, no_images) else request_has_unbounded_input claude body);
          bytes = (if claude then json_body_bytes num body else int (length (json_text num body)))
      in if opaque \<or> unb then lm
         else min lm (saturating_add (saturating_add (bytes - (if claude then int (encoded_bytes images) else 0))
           (if claude then int (bound_tokens images) else 0)) (tp_overhead p)))"

definition output_bound :: "token_pricing \<Rightarrow> json \<Rightarrow> pricing_endpoint option \<Rightarrow> bool \<Rightarrow> int" where
  "output_bound p body ep whole =
     (let google = (ep_format ep = ''google.generate_content'');
          config = (if google then google_field (Some body) ''generationConfig'' ''generation_config'' else None);
          requested = List.map_filter (\<lambda>x. x) (if google then [google_int32 (google_field config ''maxOutputTokens'' ''max_output_tokens'')]
            else map (\<lambda>k. safe_count (member k body)) [''max_output_tokens'', ''max_completion_tokens'', ''max_tokens'']);
          choices = max 1 (case (if google then google_int32 (google_field config ''candidateCount'' ''candidate_count'') else safe_count (member ''n'' body)) of
            Some n \<Rightarrow> n | None \<Rightarrow> 1);
          outp = (case (case ep of None \<Rightarrow> None | Some e \<Rightarrow> pe_limit e) of
              Some (fld, lo, hi) \<Rightarrow> (case safe_count (member fld body) of Some n \<Rightarrow> if lo \<le> n \<and> n \<le> hi then n else hi | None \<Rightarrow> hi)
            | None \<Rightarrow> (case requested of [] \<Rightarrow> tp_default_output p | r # rs \<Rightarrow> fold max rs r))
      in if ep_format ep = ''openai.responses_compact'' \<or> whole then tp_default_output p else saturating_multiply outp choices)"

definition estimate_token_cost :: "(rat \<Rightarrow> string) \<Rightarrow> token_pricing \<Rightarrow> json \<Rightarrow> pricing_endpoint option \<Rightarrow> outcome_pricing option \<Rightarrow> cost_estimate" where
  "estimate_token_cost num p body ep rp =
     (let google = (ep_format ep = ''google.generate_content'');
          inp = input_bound num p body ep; outp = output_bound p body ep (rp \<noteq> None);
          tier = (if google then map_option JStr (google_request_service_tier (Some body)) else member ''service_tier'' body)
      in if opaque_request body ep \<and> opaque_input_limit (Some (TokenCard p)) = None then unavailable
         else case resolve_rates p inp tier True google of
             None \<Rightarrow> \<lparr>ce_reserve = 0, ce_input = Some inp, ce_output = Some outp, ce_available = False\<rparr>
           | Some r \<Rightarrow>
               (let inference = saturating_add (token_cost inp (reservation_input_rate body r)) (token_cost outp (rate_output r))
                in case (case rp of None \<Rightarrow> Some inference | Some q \<Rightarrow> request_outcome_reserve q (Some inference)) of
                     None \<Rightarrow> \<lparr>ce_reserve = 0, ce_input = Some inp, ce_output = Some outp, ce_available = False\<rparr>
                   | Some n \<Rightarrow> \<lparr>ce_reserve = n, ce_input = Some inp, ce_output = Some outp, ce_available = True\<rparr>))"

definition estimate_model_cost ::
    "(rat \<Rightarrow> string) \<Rightarrow> model_pricing \<Rightarrow> json \<Rightarrow> pricing_endpoint option \<Rightarrow> outcome_pricing option \<Rightarrow> cost_estimate" where
  "estimate_model_cost num p body ep rp =
     (let model = (case ep of None \<Rightarrow> None | Some e \<Rightarrow> pe_model e)
      in if ep_format ep \<in> set unpriced_google_formats \<or> ep_format ep \<in> set unpriced_audio_formats then unavailable
         else if google_audio_request model body (ep_format ep) \<or> google_image_request model body (ep_format ep) then unavailable
         else if (case rp of None \<Rightarrow> False | Some q \<Rightarrow> \<not> qualified_outcome q \<or> ep_format ep \<noteq> ''openai.responses'' \<or>
             (case p of TokenCard _ \<Rightarrow> False | _ \<Rightarrow> True)) then unavailable
         else case p of
             ImageCard c \<Rightarrow> estimate_image_cost c body
           | CharacterCard c \<Rightarrow>
               \<lparr>ce_reserve = character_cost (case text_of (member ''input'' body) of Some s \<Rightarrow> int (length s) | None \<Rightarrow> cp_max_characters c * 4) c,
                ce_input = None, ce_output = None, ce_available = True\<rparr>
           | TokenCard c \<Rightarrow> estimate_token_cost num c body ep rp)"

definition rates_zero :: "rates \<Rightarrow> bool" where
  "rates_zero r \<longleftrightarrow> rate_input r = 0 \<and> rate_output r = 0 \<and> list_all (\<lambda>x. x = None \<or> x = Some 0) [rate_cached r, rate_write r, rate_write5m r, rate_write1h r]"

definition declared_rates :: "token_pricing \<Rightarrow> rates list" where
  "declared_rates p = (if tp_tiers p = [] then tp_rates p # (case tp_long p of None \<Rightarrow> [] | Some (_, r) \<Rightarrow> [r])
     else concat (map (\<lambda>c. tier_rates c # (case tier_long c of None \<Rightarrow> [] | Some (_, r) \<Rightarrow> [r])) (tp_tiers p)))"

definition model_reservation_bounds :: "model_pricing \<Rightarrow> int \<times> bool" where
  "model_reservation_bounds p = (case p of
     ImageCard c \<Rightarrow> (if 0 < ip_image_output c then 1 else 0, ip_text_input c = 0 \<and> ip_image_input c = 0 \<and> ip_image_output c = 0)
   | CharacterCard c \<Rightarrow> (character_cost 1 c, cp_rate c = 0)
   | TokenCard c \<Rightarrow> (if list_all (\<lambda>r. 0 < reservation_input_rate (JObj []) r) (declared_rates c) then 1 else 0, list_all rates_zero (declared_rates c)))"

subsection \<open>Settlement\<close>

definition actual_image_cost :: "image_pricing \<Rightarrow> usage_tokens \<Rightarrow> int option" where
  "actual_image_cost p t = map_option (\<lambda>(tx, im, outp).
     \<lceil>(of_int tx * ip_text_input p + of_int im * ip_image_input p + of_int outp * ip_image_output p) / 1000000\<rceil>) (image_tokens t)"

definition extract_image_usage_tokens :: "json option \<Rightarrow> usage_tokens option" where
  "extract_image_usage_tokens value =
     (let usage = as_record (get ''usage'' (as_record value)); details = as_record (get ''input_tokens_details'' usage);
          outd = as_record (get ''output_tokens_details'' usage);
          generated = safe_count (get ''output_tokens'' usage)
      in case (safe_count (get ''input_tokens'' usage), generated, safe_count (get ''total_tokens'' usage),
            safe_count (get ''text_tokens'' details), safe_count (get ''image_tokens'' details),
            (if outd \<noteq> None then safe_count (get ''image_tokens'' outd) else generated), (if outd \<noteq> None then safe_count (get ''text_tokens'' outd) else Some 0)) of
          (Some inp, Some gen, Some tot, Some tx, Some im, Some io, Some to) \<Rightarrow>
            if inp \<noteq> tx + im \<or> gen \<noteq> io + to \<or> tot \<noteq> inp + gen then None
            else Some \<lparr>reasoning = None, web_searches = None, image_tokens = Some (tx, im, io), service_tier = None, anthropic = None,
              input_tokens = Some inp, output_tokens = Some gen, total_tokens = Some tot, cached_tokens = None, cache_write = None,
              cache_write5m = None, cache_write1h = None, unbilled = False, billed_tokens = None\<rparr>
        | _ \<Rightarrow> None)"

text \<open>The parts of an observed input: uncached, cached, and the three kinds of cache writes.\<close>

definition input_parts :: "usage_tokens \<Rightarrow> int \<Rightarrow> int \<times> int \<times> int \<times> int \<times> int" where
  "input_parts t inp =
     (let cached = min inp (or_zero (cached_tokens t));
          r0 = max 0 (inp - cached);
          w5 = min r0 (or_zero (cache_write5m t)); r1 = r0 - w5;
          w1 = min r1 (or_zero (cache_write1h t)); r2 = r1 - w1;
          gen = min r2 (max 0 (or_zero (cache_write t) - w5 - w1))
      in (r2 - gen, cached, w5, w1, gen))"

definition priced_parts :: "usage_tokens \<Rightarrow> int \<Rightarrow> rates \<Rightarrow> (int \<times> rat) list" where
  "priced_parts t inp r =
     (let (rest, cached, w5, w1, gen) = input_parts t inp;
          r5 = default_to (rate_input r) (rate_write5m r);
          r1 = default_to r5 (rate_write1h r)
      in [(rest, rate_input r), (cached, default_to (rate_input r) (rate_cached r)), (w5, r5), (w1, r1),
          (gen, default_to (max r5 r1) (rate_write r))])"

definition billed :: "usage_tokens \<Rightarrow> string \<Rightarrow> usage_tokens option" where
  "billed t format = (if format = ''cohere.chat'' \<or> billed_tokens t \<noteq> None
     then map_option (\<lambda>(i, outp). t\<lparr>input_tokens := i, output_tokens := outp, cached_tokens := None, cache_write := None,
       cache_write5m := None, cache_write1h := None\<rparr>) (billed_tokens t)
     else Some t)"

definition tier_evidence :: "usage_tokens \<Rightarrow> json option" where
  "tier_evidence t = (case service_tier t of Some (Some s) \<Rightarrow> Some (JStr s) | Some None \<Rightarrow> Some JNull | None \<Rightarrow> None)"

definition actual_token_cost :: "token_pricing \<Rightarrow> usage_tokens \<Rightarrow> string \<Rightarrow> int option" where
  "actual_token_cost p t0 format =
     (if unbilled t0 then Some 0
      else case billed t0 format of
          None \<Rightarrow> None
        | Some t \<Rightarrow> (case input_tokens t of
            None \<Rightarrow> None
          | Some inp \<Rightarrow> (case resolve_rates p inp (tier_evidence t) False (format = ''google.generate_content'') of
              None \<Rightarrow> None
            | Some r \<Rightarrow>
                if output_tokens t = None \<and> 0 < rate_output r then None
                else if rate_write r \<noteq> None \<and> cache_write t = None then None
                else Some (weighted_token_cost (priced_parts t inp r @ [(or_zero (output_tokens t), rate_output r)])))))"

definition actual_model_cost :: "model_pricing \<Rightarrow> usage_tokens \<Rightarrow> string \<Rightarrow> int option" where
  "actual_model_cost p t format =
     (if format \<in> set unpriced_google_formats \<or> format \<in> set unpriced_audio_formats \<or>
         format = ''google.image_generate'' \<or> format \<in> set google_audio_formats then None
      else case p of
          ImageCard c \<Rightarrow> if format = ''openai.images_generations'' then actual_image_cost c t else None
        | CharacterCard _ \<Rightarrow> None
        | TokenCard c \<Rightarrow> actual_token_cost c t format)"

definition code_points :: "string \<Rightarrow> int" where
  "code_points s = int (length (filter (\<lambda>c. \<not> continuation c) s))"

definition actual_character_cost :: "model_pricing option \<Rightarrow> json option \<Rightarrow> int option" where
  "actual_character_cost p inp = (case (p, text_of inp) of
     (Some (CharacterCard c), Some s) \<Rightarrow> Some (character_cost (code_points s) c) | _ \<Rightarrow> None)"

subsection \<open>What a reservation covers\<close>

definition opt_le :: "rat option \<Rightarrow> rat option \<Rightarrow> bool" where
  "opt_le a b = (case a of None \<Rightarrow> True | Some x \<Rightarrow> (case b of None \<Rightarrow> False | Some y \<Rightarrow> x \<le> y))"

definition covers :: "rates \<Rightarrow> rates \<Rightarrow> bool" where
  "covers R r \<longleftrightarrow> rate_input r \<le> rate_input R \<and> rate_output r \<le> rate_output R \<and> opt_le (rate_cached r) (rate_cached R) \<and>
     opt_le (rate_write r) (rate_write R) \<and> opt_le (rate_write5m r) (rate_write5m R) \<and> opt_le (rate_write1h r) (rate_write1h R)"

lemma opt_le_refl [simp]: "opt_le a a"
  by (simp add: opt_le_def split: option.split)

lemma opt_le_trans: "opt_le a b \<Longrightarrow> opt_le b c \<Longrightarrow> opt_le a c"
  by (auto simp: opt_le_def split: option.splits)

lemma opt_le_max [simp]: "opt_le a (max_optional a b)" "opt_le b (max_optional a b)"
  by (auto simp: opt_le_def max_optional_def split: option.splits)

lemma covers_refl [simp]: "covers r r"
  by (simp add: covers_def)

lemma covers_trans: "covers c b \<Longrightarrow> covers b a \<Longrightarrow> covers c a"
  by (auto simp: covers_def intro: order_trans opt_le_trans)

lemma covers_max: "covers (max_rates a b) a" "covers (max_rates a b) b"
  by (simp_all add: covers_def max_rates_def)

lemma covers_context: "n \<le> m \<Longrightarrow> covers (context_rates base long m True) (context_rates base long n False)"
  by (auto simp: context_rates_def covers_max split: option.split)

lemma covers_fold: "x \<in> set (r # rs) \<Longrightarrow> covers (fold (\<lambda>x acc. max_rates acc x) rs r) x"
proof (induction rs arbitrary: r x)
  case (Cons y ys)
  consider "x = r \<or> x = y" | "x \<in> set ys" using Cons.prems by auto
  then show ?case
  proof cases
    case 1
    have "covers (fold (\<lambda>x acc. max_rates acc x) ys (max_rates r y)) (max_rates r y)" by (rule Cons.IH) simp
    with 1 covers_max [of r y] covers_trans show ?thesis by auto
  qed (use Cons.IH in simp)
qed simp

lemma covers_default: "covers R r \<Longrightarrow> opt_le a b \<Longrightarrow> default_to (rate_input r) a \<le> max (rate_input R) (default_to (rate_input R) b)"
  by (auto simp: covers_def default_to_def opt_le_def split: option.splits intro: order_trans max.coboundedI1 max.coboundedI2)

text \<open>A published card: no negative price, and an hour of cache costs at least as much as five minutes.\<close>

definition rates_ok :: "rates \<Rightarrow> bool" where
  "rates_ok r \<longleftrightarrow> 0 \<le> rate_input r \<and> 0 \<le> rate_output r \<and>
     (case rate_write5m r of None \<Rightarrow> rate_write1h r = None | Some x \<Rightarrow> (case rate_write1h r of None \<Rightarrow> False | Some y \<Rightarrow> x \<le> y))"

definition card_ok :: "token_pricing \<Rightarrow> bool" where
  "card_ok p \<longleftrightarrow> list_all rates_ok (declared_rates p)"

text \<open>
  The served tier is one the admission covered, and cache writes are of a kind the request asked for
  or the card prices as a whole.
\<close>

definition norm_tier :: "bool \<Rightarrow> json option \<Rightarrow> json option" where
  "norm_tier google tier = (if google then map_option JStr (google_service_tier tier) else tier)"

definition requested_tier :: "json \<Rightarrow> string \<Rightarrow> json option" where
  "requested_tier body format = (if format = ''google.generate_content'' then map_option JStr (google_request_service_tier (Some body))
     else member ''service_tier'' body)"

definition served_as_admitted :: "token_pricing \<Rightarrow> json \<Rightarrow> usage_tokens \<Rightarrow> string \<Rightarrow> bool" where
  "served_as_admitted p body t format =
     (let google = (format = ''google.generate_content'')
      in case find_tier (tp_tiers p) (norm_tier google (tier_evidence t)) of
           None \<Rightarrow> True | Some c \<Rightarrow> c \<in> set (admission_cards (tp_tiers p) (norm_tier google (requested_tier body format)) google))"

definition writes_as_requested :: "token_pricing \<Rightarrow> json \<Rightarrow> usage_tokens \<Rightarrow> bool" where
  "writes_as_requested p body t \<longleftrightarrow> json_has_cache_ttl ''1h'' body \<or>
     or_zero (cache_write1h t) = 0 \<and>
     (json_has_key ''cache_control'' body \<or> or_zero (cache_write5m t) = 0) \<and>
     (list_all (\<lambda>r. rate_write r \<noteq> None) (declared_rates p) \<or> or_zero (cache_write t) \<le> or_zero (cache_write5m t))"

lemma context_declared: "context_rates base long n False \<in> set (base # (case long of None \<Rightarrow> [] | Some (_, r) \<Rightarrow> [r]))"
  by (auto simp: context_rates_def split: option.split)

lemma resolve_settled:
  assumes "resolve_rates p n tier False google = Some r"
  shows "r \<in> set (declared_rates p)" and
    "tp_tiers p = [] \<and> r = context_rates (tp_rates p) (tp_long p) n False \<or>
     (\<exists>c. find_tier (tp_tiers p) (norm_tier google tier) = Some c \<and> c \<in> set (tp_tiers p) \<and> r = card_rates c n False \<and>
        (case tier_max_input c of None \<Rightarrow> True | Some m \<Rightarrow> n \<le> m))"
proof -
  have mem: "find_tier cs t = Some c \<Longrightarrow> c \<in> set cs" for cs t c
    by (auto simp: find_tier_def find_Some_iff split: option.splits)
  show two: "tp_tiers p = [] \<and> r = context_rates (tp_rates p) (tp_long p) n False \<or>
     (\<exists>c. find_tier (tp_tiers p) (norm_tier google tier) = Some c \<and> c \<in> set (tp_tiers p) \<and> r = card_rates c n False \<and>
        (case tier_max_input c of None \<Rightarrow> True | Some m \<Rightarrow> n \<le> m))"
    using assms mem unfolding resolve_rates_def norm_tier_def [symmetric] Let_def
    by (auto split: if_splits option.splits)
  from two show "r \<in> set (declared_rates p)"
  proof (elim disjE exE conjE)
    assume "tp_tiers p = []" "r = context_rates (tp_rates p) (tp_long p) n False"
    then show ?thesis using context_declared [of "tp_rates p" "tp_long p" n] by (simp add: declared_rates_def)
  next
    fix c assume c: "c \<in> set (tp_tiers p)" "r = card_rates c n False"
    then have "r \<in> set (tier_rates c # (case tier_long c of None \<Rightarrow> [] | Some (_, r) \<Rightarrow> [r]))"
      unfolding card_rates_def using context_declared by simp
    with c(1) have "\<exists>c\<in>set (tp_tiers p). r \<in> set (tier_rates c # (case tier_long c of None \<Rightarrow> [] | Some (_, r) \<Rightarrow> [r]))" by blast
    moreover have "tp_tiers p \<noteq> []" using c(1) by auto
    ultimately show ?thesis by (simp add: declared_rates_def)
  qed
qed

lemma resolve_covers:
  assumes "resolve_rates p m tier True google = Some R" and "resolve_rates p n tier' False google = Some r" and "n \<le> m"
    and "case find_tier (tp_tiers p) (norm_tier google tier') of None \<Rightarrow> True
      | Some c \<Rightarrow> c \<in> set (admission_cards (tp_tiers p) (norm_tier google tier) google)"
  shows "covers R r"
proof (cases "tp_tiers p = []")
  case True
  then have "R = context_rates (tp_rates p) (tp_long p) m True"
    using assms(1) unfolding resolve_rates_def norm_tier_def [symmetric] Let_def by (auto split: if_splits)
  moreover have "r = context_rates (tp_rates p) (tp_long p) n False"
    using resolve_settled(2) [OF assms(2)] True by auto
  ultimately show ?thesis using covers_context [OF assms(3)] by simp
next
  case False
  let ?f = "\<lambda>c. card_rates c (min m (case tier_max_input c of None \<Rightarrow> m | Some k \<Rightarrow> k)) True"
  from resolve_settled(2) [OF assms(2)] False obtain c where
    c: "find_tier (tp_tiers p) (norm_tier google tier') = Some c" "r = card_rates c n False"
       "case tier_max_input c of None \<Rightarrow> True | Some k \<Rightarrow> n \<le> k" by auto
  have adm: "c \<in> set (admission_cards (tp_tiers p) (norm_tier google tier) google)" using assms(4) c(1) by simp
  obtain x xs where xs: "map ?f (admission_cards (tp_tiers p) (norm_tier google tier) google) = x # xs"
    "R = fold (\<lambda>x acc. max_rates acc x) xs x"
    using assms(1) False unfolding resolve_rates_def norm_tier_def [symmetric] Let_def
    by (auto split: if_splits list.splits)
  have "?f c \<in> set (x # xs)" using adm unfolding xs(1) [symmetric] by simp
  then have "covers R (?f c)" unfolding xs(2) by (rule covers_fold)
  moreover have "covers (?f c) r" unfolding c(2) card_rates_def
    using assms(3) c(3) by (intro covers_context) (auto split: option.splits)
  ultimately show ?thesis by (rule covers_trans)
qed

lemma covers_base: "covers (context_rates base long n True) base"
  by (auto simp: context_rates_def covers_max split: option.split)

lemma reservation_nonneg:
  assumes "resolve_rates p m tier True google = Some R" and "card_ok p"
  shows "\<exists>r. rates_ok r \<and> covers R r"
proof (cases "tp_tiers p = []")
  case True
  then have "R = context_rates (tp_rates p) (tp_long p) m True"
    using assms(1) unfolding resolve_rates_def Let_def by (auto split: if_splits)
  moreover have "rates_ok (tp_rates p)" using assms(2) True by (simp add: card_ok_def declared_rates_def)
  ultimately show ?thesis using covers_base by blast
next
  case False
  let ?f = "\<lambda>c. card_rates c (min m (case tier_max_input c of None \<Rightarrow> m | Some k \<Rightarrow> k)) True"
  obtain x xs where xs: "map ?f (admission_cards (tp_tiers p) (norm_tier google tier) google) = x # xs"
    "R = fold (\<lambda>x acc. max_rates acc x) xs x"
    using assms(1) False unfolding resolve_rates_def norm_tier_def [symmetric] Let_def
    by (auto split: if_splits list.splits)
  then obtain c where c: "c \<in> set (admission_cards (tp_tiers p) (norm_tier google tier) google)" "x = ?f c" by (cases "admission_cards (tp_tiers p) (norm_tier google tier) google") auto
  then have "c \<in> set (tp_tiers p)" by (auto simp: admission_cards_def split: option.splits)
  then have "rates_ok (tier_rates c)" using assms(2) False by (auto simp: card_ok_def declared_rates_def list_all_iff)
  moreover have "covers R x" unfolding xs(2) by (rule covers_fold) simp
  then have "covers R (tier_rates c)" using covers_trans covers_base unfolding c(2) card_rates_def by blast
  ultimately show ?thesis by blast
qed

lemma token_cost_nonneg: "0 \<le> n \<Longrightarrow> 0 \<le> r \<Longrightarrow> 0 \<le> token_cost n r"
  unfolding token_cost_def using ceiling_mono [of 0 "of_int n * r / 1000000"] by simp

lemma input_parts_sum:
  assumes "tokens_ok t" and "0 \<le> inp" and "input_parts t inp = (rest, cached, w5, w1, gen)"
  shows "0 \<le> rest" "0 \<le> cached" "0 \<le> w5" "0 \<le> w1" "0 \<le> gen" "rest + cached + w5 + w1 + gen = inp"
    and "or_zero (cache_write1h t) = 0 \<Longrightarrow> w1 = 0" and "or_zero (cache_write5m t) = 0 \<Longrightarrow> w5 = 0"
    and "or_zero (cache_write1h t) = 0 \<Longrightarrow> or_zero (cache_write t) \<le> or_zero (cache_write5m t) \<Longrightarrow> gen = 0"
proof -
  have nn: "0 \<le> or_zero (cached_tokens t)" "0 \<le> or_zero (cache_write5m t)" "0 \<le> or_zero (cache_write1h t)" "0 \<le> or_zero (cache_write t)"
    using assms(1) by (simp_all add: tokens_ok_def or_zero_nonneg)
  define r0 where "r0 = max 0 (inp - min inp (or_zero (cached_tokens t)))"
  define r1 where "r1 = r0 - min r0 (or_zero (cache_write5m t))"
  define r2 where "r2 = r1 - min r1 (or_zero (cache_write1h t))"
  have eqs: "cached = min inp (or_zero (cached_tokens t))" "w5 = min r0 (or_zero (cache_write5m t))"
    "w1 = min r1 (or_zero (cache_write1h t))" "gen = min r2 (max 0 (or_zero (cache_write t) - w5 - w1))" "rest = r2 - gen"
    using assms(3) [unfolded input_parts_def Let_def, folded r0_def, folded r1_def, folded r2_def] by (simp_all only: prod.inject) blast+
  have r: "r0 = inp - cached" "0 \<le> r0" "r1 = r0 - w5" "0 \<le> r1" "r2 = r1 - w1" "0 \<le> r2"
    using eqs(1-3) nn assms(2) by (auto simp: r0_def r1_def r2_def)
  show "0 \<le> cached" unfolding eqs(1) using nn(1) assms(2) by (rule min.boundedI [rotated])
  show "0 \<le> w5" unfolding eqs(2) using r(2) nn(2) by (rule min.boundedI)
  show "0 \<le> w1" unfolding eqs(3) using r(4) nn(3) by (rule min.boundedI)
  show "0 \<le> gen" unfolding eqs(4) using r(6) by (rule min.boundedI) (rule max.cobounded1)
  show "0 \<le> rest" using eqs(4,5) by simp
  show "rest + cached + w5 + w1 + gen = inp" using eqs(5) r by simp
  show "or_zero (cache_write1h t) = 0 \<Longrightarrow> w1 = 0" unfolding eqs(3) using r(4) by simp
  show "or_zero (cache_write5m t) = 0 \<Longrightarrow> w5 = 0" unfolding eqs(2) using r(2) by simp
  assume z: "or_zero (cache_write1h t) = 0" "or_zero (cache_write t) \<le> or_zero (cache_write5m t)"
  then have w1: "w1 = 0" using eqs(3) r by simp
  show "gen = 0"
  proof (cases "r0 \<le> or_zero (cache_write5m t)")
    case True
    then have "r2 = 0" using eqs(2) r w1 by simp
    then show ?thesis using eqs(4) by simp
  next
    case False
    then show ?thesis using eqs(2,4) z w1 r by simp
  qed
qed

lemma product_le: "0 \<le> n \<Longrightarrow> (n \<noteq> 0 \<Longrightarrow> r \<le> \<rho>) \<Longrightarrow> of_int n * r \<le> of_int n * (\<rho> :: rat)"
  by (cases "n = 0") (simp_all add: mult_left_mono)

lemma rate_le_reservation:
  assumes "covers R r"
  shows "rate_input r \<le> reservation_input_rate body R"
    and "default_to (rate_input r) (rate_cached r) \<le> reservation_input_rate body R"
    and "rate_write r \<noteq> None \<Longrightarrow> default_to d (rate_write r) \<le> reservation_input_rate body R"
    and "json_has_cache_ttl ''1h'' body \<Longrightarrow> default_to (rate_input r) (rate_write1h r) \<le> reservation_input_rate body R"
    and "json_has_cache_ttl ''1h'' body \<or> \<not> json_has_key ''cache_control'' body \<or>
      default_to (rate_input r) (rate_write5m r) \<le> reservation_input_rate body R"
proof -
  let ?rate = "max (rate_input R) (max (default_to (rate_input R) (rate_cached R)) (default_to (rate_input R) (rate_write R)))"
  have base: "?rate \<le> reservation_input_rate body R"
    unfolding reservation_input_rate_def Let_def by (auto simp del: max.bounded_iff)
  have c: "opt_le (rate_cached r) (rate_cached R)" "opt_le (rate_write r) (rate_write R)" "opt_le (rate_write5m r) (rate_write5m R)"
    "opt_le (rate_write1h r) (rate_write1h R)" "rate_input r \<le> rate_input R" using assms by (simp_all add: covers_def)
  show "rate_input r \<le> reservation_input_rate body R" using c(5) base by linarith
  show "default_to (rate_input r) (rate_cached r) \<le> reservation_input_rate body R"
    using covers_default [OF assms c(1)] base by linarith
  show "default_to d (rate_write r) \<le> reservation_input_rate body R" if some: "rate_write r \<noteq> None"
  proof -
    obtain x y where "rate_write r = Some x" "rate_write R = Some y" "x \<le> y"
      using some c(2) by (cases "rate_write r"; cases "rate_write R") (auto simp: opt_le_def)
    then show ?thesis using base by (simp add: default_to_def)
  qed
  show "default_to (rate_input r) (rate_write1h r) \<le> reservation_input_rate body R" if "json_has_cache_ttl ''1h'' body"
    using covers_default [OF assms c(4)] that unfolding reservation_input_rate_def Let_def by simp
  show "json_has_cache_ttl ''1h'' body \<or> \<not> json_has_key ''cache_control'' body \<or>
      default_to (rate_input r) (rate_write5m r) \<le> reservation_input_rate body R"
    using covers_default [OF assms c(3)] by (auto simp: reservation_input_rate_def Let_def)
qed

lemma priced_parts_le:
  assumes "covers R r" and "rates_ok r" and "r \<in> set (declared_rates p)" and "tokens_ok t" and "0 \<le> inp" and "writes_as_requested p body t"
  shows "sum_list (map (\<lambda>(n, x). of_int n * x) (priced_parts t inp r)) \<le> of_int inp * reservation_input_rate body R"
proof -
  let ?\<rho> = "reservation_input_rate body R"
  obtain rest cached w5 w1 gen where parts: "input_parts t inp = (rest, cached, w5, w1, gen)" by (metis prod_cases5)
  note q = input_parts_sum [OF assms(4,5) parts] and le = rate_le_reservation [OF assms(1), where body = body]
  let ?r5 = "default_to (rate_input r) (rate_write5m r)"
  let ?r1 = "default_to ?r5 (rate_write1h r)"
  have one: "?r1 = default_to (rate_input r) (rate_write1h r)" "?r5 \<le> ?r1"
    using assms(2) by (auto simp: rates_ok_def default_to_def split: option.splits)
  have five: "?r5 \<le> ?\<rho>" if "w5 \<noteq> 0"
    using that assms(6) q(8) le(4,5) one by (auto simp: writes_as_requested_def)
  have hour: "?r1 \<le> ?\<rho>" if "w1 \<noteq> 0"
    using that assms(6) q(7) le(4) one by (auto simp: writes_as_requested_def)
  have generic: "default_to (max ?r5 ?r1) (rate_write r) \<le> ?\<rho>" if "gen \<noteq> 0"
  proof (cases "rate_write r = None")
    case True
    with assms(3) have "\<not> list_all (\<lambda>r. rate_write r \<noteq> None) (declared_rates p)" by (auto simp: list_all_iff)
    then have "json_has_cache_ttl ''1h'' body" using that assms(6) q(9) by (auto simp: writes_as_requested_def)
    then show ?thesis using True le(4) one by (simp add: default_to_def)
  qed (use le(3) in blast)
  have "of_int rest * rate_input r + (of_int cached * default_to (rate_input r) (rate_cached r) + (of_int w5 * ?r5 + (of_int w1 * ?r1 +
      of_int gen * default_to (max ?r5 ?r1) (rate_write r))))
    \<le> of_int rest * ?\<rho> + (of_int cached * ?\<rho> + (of_int w5 * ?\<rho> + (of_int w1 * ?\<rho> + of_int gen * ?\<rho>)))"
    by (intro add_mono product_le q five hour generic le)
  also have "\<dots> = of_int (rest + cached + w5 + w1 + gen) * ?\<rho>" by (simp add: algebra_simps)
  finally show ?thesis unfolding q(6) by (simp add: priced_parts_def parts Let_def)
qed

lemma ceiling_split: "x \<le> a \<Longrightarrow> y \<le> b \<Longrightarrow> \<lceil>(x + y) / 1000000\<rceil> \<le> \<lceil>a / 1000000\<rceil> + \<lceil>b / (1000000 :: rat)\<rceil>"
  by (rule order_trans [OF ceiling_mono [of _ "a / 1000000 + b / 1000000"] ceiling_add_le]) (simp add: add_divide_distrib add_mono divide_right_mono)

text \<open>
  A reservation covers the settlement: when the provider counts no more tokens than the
  reservation assumed, serves a tier the admission covered and writes only caches the request asked
  for (or the card prices as a whole), the settled cost is at most the reserved amount, whatever the
  split into cached, written and ordinary input and whichever context band applies.
\<close>

theorem reservation_covers_settlement:
  assumes "estimate_model_cost num (TokenCard p) body (Some ep) None = est" and "ce_available est"
    and "actual_model_cost (TokenCard p) t (pe_format ep) = Some c" and "card_ok p" and "tokens_ok t"
    and "billed t (pe_format ep) = Some t" and "input_tokens t = Some i" and "ce_input est = Some m" and "i \<le> m"
    and "ce_output est = Some k" and "or_zero (output_tokens t) \<le> k"
    and "served_as_admitted p body t (pe_format ep)" and "writes_as_requested p body t"
  shows "min max_safe_integer c \<le> ce_reserve est"
proof -
  let ?g = "pe_format ep = ''google.generate_content''"
  have e: "estimate_token_cost num p body (Some ep) None = est"
    using assms(1,2) by (auto simp: estimate_model_cost_def Let_def unavailable_def split: if_splits)
  then obtain R where R: "resolve_rates p m (requested_tier body (pe_format ep)) True ?g = Some R"
      "ce_reserve est = saturating_add (token_cost m (reservation_input_rate body R)) (token_cost k (rate_output R))"
    using assms(2,8,10)
    by (auto simp: estimate_token_cost_def requested_tier_def ep_format_def Let_def unavailable_def split: if_splits option.splits)
  have a: "actual_token_cost p t (pe_format ep) = Some c" using assms(3) by (auto simp: actual_model_cost_def split: if_splits)
  have m0: "0 \<le> i" "0 \<le> or_zero (output_tokens t)" using assms(5,7) by (simp_all add: tokens_ok_def or_zero_nonneg)
  show ?thesis
  proof (cases "unbilled t")
    case True
    then have c0: "c = 0" using a by (simp add: actual_token_cost_def)
    obtain r where "rates_ok r" "covers R r" using reservation_nonneg [OF R(1) assms(4)] by blast
    then have "0 \<le> reservation_input_rate body R" "0 \<le> rate_output R"
      using rate_le_reservation(1) [where R = R and r = r and body = body] by (auto simp: rates_ok_def covers_def)
    moreover have "0 \<le> m" "0 \<le> k" using m0 assms(9,11) by linarith+
    ultimately have "0 \<le> token_cost m (reservation_input_rate body R)" "0 \<le> token_cost k (rate_output R)"
      by (simp_all add: token_cost_nonneg)
    then show ?thesis unfolding c0 R(2) saturating_add_def by (simp add: max_safe_integer_def)
  next
    case False
    then obtain r where r: "resolve_rates p i (tier_evidence t) False ?g = Some r"
        "c = weighted_token_cost (priced_parts t i r @ [(or_zero (output_tokens t), rate_output r)])"
      using a assms(6,7) by (auto simp: actual_token_cost_def split: if_splits option.splits)
    have cov: "covers R r"
      by (rule resolve_covers [OF R(1) r(1) assms(9)]) (use assms(12) in \<open>simp add: served_as_admitted_def Let_def\<close>)
    have dec: "r \<in> set (declared_rates p)" by (rule resolve_settled(1) [OF r(1)])
    then have ok: "rates_ok r" using assms(4) by (simp add: card_ok_def list_all_iff)
    let ?\<rho> = "reservation_input_rate body R"
    have pos: "0 \<le> ?\<rho>" "0 \<le> rate_output R"
      using ok cov rate_le_reservation(1) [OF cov, where body = body] by (auto simp: rates_ok_def covers_def)
    have "sum_list (map (\<lambda>(n, x). of_int n * x) (priced_parts t i r)) \<le> of_int i * ?\<rho>"
      by (rule priced_parts_le [OF cov ok dec assms(5) m0(1) assms(13)])
    also have "\<dots> \<le> of_int m * ?\<rho>" using assms(9) pos by (intro mult_right_mono) simp_all
    finally have inp: "sum_list (map (\<lambda>(n, x). of_int n * x) (priced_parts t i r)) \<le> of_int m * ?\<rho>" .
    have outp: "of_int (or_zero (output_tokens t)) * rate_output r \<le> of_int k * rate_output R"
      using assms(11) m0 pos cov ok by (intro mult_mono) (auto simp: covers_def rates_ok_def)
    have "c \<le> token_cost m ?\<rho> + token_cost k (rate_output R)"
      using ceiling_split [OF inp outp] by (simp add: r(2) weighted_token_cost_def token_cost_def)
    then show ?thesis by (simp add: R(2) saturating_add_def)
  qed
qed

definition sample_rates :: rates where
  "sample_rates = \<lparr>rate_input = 3000000, rate_output = 15000000, rate_cached = Some 300000, rate_write = Some 3750000,
     rate_write5m = None, rate_write1h = None\<rparr>"

definition sample_card :: token_pricing where
  "sample_card = \<lparr>tp_rates = sample_rates, tp_long = None, tp_max_input = 1000, tp_max_request_input = None, tp_default_output = 100,
     tp_overhead = 8, tp_tiers = [], tp_modifiers = None, tp_request_fee = False, tp_auto_unpriced = False, tp_upper_bound = False\<rparr>"

definition sample_body :: json where
  "sample_body = JObj [(''model'', JStr ''m''), (''max_tokens'', JNum 10)]"

definition sample_endpoint :: pricing_endpoint where
  "sample_endpoint = \<lparr>pe_format = ''openai.chat'', pe_limit = None, pe_model = None\<rparr>"

definition sample_usage :: usage_tokens where
  "sample_usage = \<lparr>reasoning = None, web_searches = None, image_tokens = None, service_tier = None, anthropic = None,
     input_tokens = Some 20, output_tokens = Some 9, total_tokens = Some 29, cached_tokens = Some 4, cache_write = Some 5,
     cache_write5m = None, cache_write1h = None, unbilled = False, billed_tokens = None\<rparr>"

lemmas sample_defs = sample_rates_def sample_card_def sample_body_def sample_endpoint_def sample_usage_def

theorem reservation_covers_settlement_witness:
  "\<exists>c. actual_model_cost (TokenCard sample_card) sample_usage (pe_format sample_endpoint) = Some c \<and> 0 < c \<and>
     min max_safe_integer c \<le> ce_reserve (estimate_model_cost (\<lambda>_. ''10'') (TokenCard sample_card) sample_body (Some sample_endpoint) None)"
proof -
  have est: "estimate_model_cost (\<lambda>_. ''10'') (TokenCard sample_card) sample_body (Some sample_endpoint) None =
    \<lparr>ce_reserve = 289, ce_input = Some 37, ce_output = Some 10, ce_available = True\<rparr>" by code_simp
  have cost: "actual_model_cost (TokenCard sample_card) sample_usage (pe_format sample_endpoint) = Some 188" by code_simp
  have "min max_safe_integer 188 \<le> ce_reserve (\<lparr>ce_reserve = 289, ce_input = Some 37, ce_output = Some 10, ce_available = True\<rparr> :: cost_estimate)"
    by (rule reservation_covers_settlement [OF est _ cost, where i = 20 and m = 37 and k = 10]) (simp | code_simp)+
  then show ?thesis using est cost by simp
qed

end
