(* ===== verification/Card_Rules.thy ===== *)
theory Card_Rules
  imports Pricing
begin

section \<open>Price modifiers and image requests\<close>

text \<open>
  The card rules of \<open>worker/anthropic-pricing.ts\<close> (speed, geography and tier of a Messages
  request, before dispatch and as served) and the request checks of
  \<open>worker/image-generation.ts\<close>.
\<close>

subsection \<open>Messages modifiers\<close>

definition fast_models :: "string list" where
  "fast_models = [''claude-opus-5-5'', ''claude-opus-5'', ''claude-opus-4-8'']"

definition geo_models :: "string list" where
  "geo_models = fast_models @ [''claude-sonnet-5'', ''claude-fable-5-1'', ''claude-fable-5'', ''claude-sonnet-4-6'']"

definition known_models :: "string list" where
  "known_models = geo_models @ [''claude-haiku-4-5'']"

definition fast_multiplier :: "token_pricing \<Rightarrow> string \<Rightarrow> rat option" where
  "fast_multiplier p m = (case tp_modifiers p of Some (f, _) \<Rightarrow> f | None \<Rightarrow> if m \<in> set fast_models then Some 2 else None)"

definition us_multiplier :: "token_pricing \<Rightarrow> string \<Rightarrow> rat option" where
  "us_multiplier p m = (case tp_modifiers p of Some (_, u) \<Rightarrow> u | None \<Rightarrow> if m \<in> set geo_models then Some (11 / 10) else None)"

text \<open>A modifier that is absent or null is not reported; a geography \<open>not_available\<close> neither.\<close>

definition reported :: "'a option option \<Rightarrow> 'a option" where
  "reported x = Option.bind x (\<lambda>y. y)"

definition first_of :: "'a option \<Rightarrow> 'a \<Rightarrow> 'a" where
  "first_of x d = (case x of Some v \<Rightarrow> v | None \<Rightarrow> d)"

definition served_geo :: "modifiers option \<Rightarrow> string option" where
  "served_geo s = (case Option.bind s (\<lambda>m. reported (m_geo m)) of
     Some g \<Rightarrow> if g = ''not_available'' then None else Some g | None \<Rightarrow> None)"

definition speed_of :: "modifiers \<Rightarrow> modifiers option \<Rightarrow> string" where
  "speed_of req s = first_of (Option.bind s (\<lambda>m. reported (m_speed m))) (first_of (reported (m_speed req)) ''standard'')"

definition geo_of :: "rat option \<Rightarrow> modifiers \<Rightarrow> modifiers option \<Rightarrow> string" where
  "geo_of us req s = first_of (served_geo s) (first_of (reported (m_geo req)) (if us \<noteq> None then ''us'' else ''global''))"

definition tier_admitted :: "modifiers \<Rightarrow> modifiers option \<Rightarrow> bool" where
  "tier_admitted req s =
     (let requested = first_of (reported (m_tier req)) ''auto''
      in case s of
           None \<Rightarrow> requested = ''standard_only'' \<or> requested = ''auto''
         | Some m \<Rightarrow> (case reported (m_tier m) of
             Some t \<Rightarrow> t = ''standard''
           | None \<Rightarrow> requested = ''standard_only'' \<or> requested = ''auto''))"

definition js_round :: "rat \<Rightarrow> rat" where
  "js_round x = of_int \<lfloor>x + 1 / 2\<rfloor>"

definition scale :: "rat \<Rightarrow> rates \<Rightarrow> rates" where
  "scale k r = (let f = (\<lambda>x. js_round (x * k)) in
     \<lparr>rate_input = f (rate_input r), rate_output = f (rate_output r), rate_cached = map_option f (rate_cached r),
      rate_write = map_option f (rate_write r), rate_write5m = map_option f (rate_write5m r), rate_write1h = map_option f (rate_write1h r)\<rparr>)"

definition multiplier :: "rat option \<Rightarrow> rat option \<Rightarrow> string \<Rightarrow> string \<Rightarrow> rat" where
  "multiplier fast us speed geo = (if speed = ''fast'' then first_of fast 1 else 1) * (if geo = ''us'' then first_of us 1 else 1)"

definition anthropic_pricing :: "model_pricing option \<Rightarrow> string option \<Rightarrow> modifiers \<Rightarrow> modifiers option \<Rightarrow> model_pricing option" where
  "anthropic_pricing pricing model req s = (case (pricing, model) of
     (Some (TokenCard p), Some m) \<Rightarrow>
       (let fast = fast_multiplier p m; us = us_multiplier p m; speed = speed_of req s; geo = geo_of us req s
        in if m = [] \<or> tp_modifiers p = None \<and> m \<notin> set known_models then None
           else if speed \<noteq> ''standard'' \<and> \<not> (speed = ''fast'' \<and> fast \<noteq> None) then None
           else if geo \<noteq> ''global'' \<and> geo \<noteq> ''us'' then None
           else if us = None \<and> (reported (m_geo req) \<noteq> None \<or> served_geo s \<noteq> None \<and> served_geo s \<noteq> Some ''global'') then None
           else if \<not> tier_admitted req s then None
           else Some (TokenCard (p\<lparr>tp_rates := scale (multiplier fast us speed geo) (tp_rates p),
             tp_long := map_option (map_prod id (scale (multiplier fast us speed geo))) (tp_long p)\<rparr>)))
   | _ \<Rightarrow> None)"

subsection \<open>The served card stays within the admitted one\<close>

definition rates_nonneg :: "rates \<Rightarrow> bool" where
  "rates_nonneg r \<longleftrightarrow> 0 \<le> rate_input r \<and> 0 \<le> rate_output r \<and>
     list_all (\<lambda>x. 0 \<le> default_to 0 x) [rate_cached r, rate_write r, rate_write5m r, rate_write1h r]"

lemma js_round_mono: "x \<le> y \<Longrightarrow> js_round x \<le> js_round y"
  by (simp add: js_round_def floor_mono)

lemma scale_covers:
  assumes "rates_nonneg r" and "k \<le> l"
  shows "covers (scale l r) (scale k r)"
proof -
  have one: "0 \<le> x \<Longrightarrow> js_round (x * k) \<le> js_round (x * l)" for x by (intro js_round_mono mult_left_mono assms(2))
  have opt: "0 \<le> default_to 0 x \<Longrightarrow> opt_le (map_option (\<lambda>y. js_round (y * k)) x) (map_option (\<lambda>y. js_round (y * l)) x)" for x
    by (cases x) (simp_all add: opt_le_def default_to_def one)
  show ?thesis using assms(1) by (simp add: covers_def scale_def Let_def rates_nonneg_def one opt)
qed

lemma context_scale_covers:
  assumes "rates_nonneg base" and "case long of None \<Rightarrow> True | Some (_, r) \<Rightarrow> rates_nonneg r" and "k \<le> l" and "n \<le> m"
  shows "covers (context_rates (scale l base) (map_option (map_prod id (scale l)) long) m True)
    (context_rates (scale k base) (map_option (map_prod id (scale k)) long) n False)"
proof -
  have "covers (context_rates (scale l base) (map_option (map_prod id (scale l)) long) m True)
      (context_rates (scale l base) (map_option (map_prod id (scale l)) long) n False)" by (rule covers_context [OF assms(4)])
  moreover have "covers (context_rates (scale l base) (map_option (map_prod id (scale l)) long) n False)
      (context_rates (scale k base) (map_option (map_prod id (scale k)) long) n False)"
    using assms by (auto simp: context_rates_def scale_covers split: option.split)
  ultimately show ?thesis by (rule covers_trans)
qed

definition multipliers_ok :: "token_pricing \<Rightarrow> bool" where
  "multipliers_ok p \<longleftrightarrow> (case tp_modifiers p of None \<Rightarrow> True | Some (f, u) \<Rightarrow> 1 \<le> first_of f 1 \<and> 1 \<le> first_of u 1)"

lemma multipliers_ge:
  "multipliers_ok p \<Longrightarrow> 1 \<le> first_of (fast_multiplier p m) 1 \<and> 1 \<le> first_of (us_multiplier p m) 1"
  by (auto simp: multipliers_ok_def fast_multiplier_def us_multiplier_def first_of_def split: option.splits prod.splits)

lemma multiplier_mono:
  assumes "1 \<le> first_of f 1" and "1 \<le> first_of u (1 :: rat)" and "s = ''fast'' \<longrightarrow> s' = ''fast''" and "g = ''us'' \<longrightarrow> g' = ''us''"
  shows "multiplier f u s g \<le> multiplier f u s' g'"
  unfolding multiplier_def using assms by (intro mult_mono) auto

text \<open>
  C19. The card a Messages request settles on never exceeds the card it was admitted on, in any
  context band and in every rate: the provider may answer slower, elsewhere or without saying, and
  only serving fast or US inference that the request did not leave open can cost more.
\<close>

theorem served_card_within_admitted_card:
  assumes "anthropic_pricing (Some (TokenCard p)) model req None = Some (TokenCard A)"
    and "anthropic_pricing (Some (TokenCard p)) model req (Some s) = Some (TokenCard S)"
    and "rates_nonneg (tp_rates p)" and "case tp_long p of None \<Rightarrow> True | Some (_, r) \<Rightarrow> rates_nonneg r" and "multipliers_ok p"
    and "reported (m_speed s) = Some ''fast'' \<longrightarrow> reported (m_speed req) = Some ''fast''"
    and "reported (m_geo s) = Some ''us'' \<longrightarrow> reported (m_geo req) \<noteq> Some ''global''" and "n \<le> m"
  shows "covers (context_rates (tp_rates A) (tp_long A) m True) (context_rates (tp_rates S) (tp_long S) n False)"
proof -
  obtain md where md: "model = Some md" using assms(1) by (auto simp: anthropic_pricing_def split: option.splits)
  let ?f = "fast_multiplier p md" and ?u = "us_multiplier p md"
  let ?k = "\<lambda>x. multiplier ?f ?u (speed_of req x) (geo_of ?u req x)"
  have A: "A = p\<lparr>tp_rates := scale (?k None) (tp_rates p), tp_long := map_option (map_prod id (scale (?k None))) (tp_long p)\<rparr>"
    using assms(1) by (auto simp: anthropic_pricing_def md Let_def split: if_splits)
  have S: "S = p\<lparr>tp_rates := scale (?k (Some s)) (tp_rates p), tp_long := map_option (map_prod id (scale (?k (Some s)))) (tp_long p)\<rparr>"
    using assms(2) by (auto simp: anthropic_pricing_def md Let_def split: if_splits)
  have adm: "geo_of ?u req None = ''global'' \<or> geo_of ?u req None = ''us''"
      "?u = None \<Longrightarrow> served_geo (Some s) = None \<or> served_geo (Some s) = Some ''global''"
    using assms(1,2) by (auto simp: anthropic_pricing_def md Let_def split: if_splits)
  have "?k (Some s) \<le> ?k None"
  proof (rule multiplier_mono)
    show "1 \<le> first_of ?f 1" "1 \<le> first_of ?u 1" using multipliers_ge [OF assms(5)] by simp_all
    show "speed_of req (Some s) = ''fast'' \<longrightarrow> speed_of req None = ''fast''"
      using assms(6) by (auto simp: speed_of_def first_of_def split: option.splits)
    show "geo_of ?u req (Some s) = ''us'' \<longrightarrow> geo_of ?u req None = ''us''"
      using assms(7) adm by (auto simp: geo_of_def first_of_def served_geo_def split: option.splits if_splits)
  qed
  from context_scale_covers [OF assms(3,4) this assms(8)] show ?thesis unfolding A S by simp
qed

theorem served_card_within_admitted_card_witness:
  "\<exists>A S. anthropic_pricing (Some (TokenCard sample_card)) (Some ''claude-opus-5'') \<lparr>m_speed = Some (Some ''fast''), m_geo = None, m_tier = None\<rparr> None =
       Some (TokenCard A) \<and>
     anthropic_pricing (Some (TokenCard sample_card)) (Some ''claude-opus-5'') \<lparr>m_speed = Some (Some ''fast''), m_geo = None, m_tier = None\<rparr>
       (Some \<lparr>m_speed = Some (Some ''standard''), m_geo = Some (Some ''us''), m_tier = None\<rparr>) = Some (TokenCard S) \<and>
     covers (context_rates (tp_rates A) (tp_long A) 30 True) (context_rates (tp_rates S) (tp_long S) 20 False)"
proof -
  let ?req = "\<lparr>m_speed = Some (Some ''fast''), m_geo = None, m_tier = None\<rparr>"
  let ?s = "\<lparr>m_speed = Some (Some ''standard''), m_geo = Some (Some ''us''), m_tier = None\<rparr>"
  let ?card = "\<lambda>c. case c of Some (TokenCard _) \<Rightarrow> True | _ \<Rightarrow> False"
  have "?card (anthropic_pricing (Some (TokenCard sample_card)) (Some ''claude-opus-5'') ?req None)" by code_simp
  then obtain A where A: "anthropic_pricing (Some (TokenCard sample_card)) (Some ''claude-opus-5'') ?req None = Some (TokenCard A)"
    by (auto split: option.splits model_pricing.splits)
  have "?card (anthropic_pricing (Some (TokenCard sample_card)) (Some ''claude-opus-5'') ?req (Some ?s))" by code_simp
  then obtain S where S: "anthropic_pricing (Some (TokenCard sample_card)) (Some ''claude-opus-5'') ?req (Some ?s) = Some (TokenCard S)"
    by (auto split: option.splits model_pricing.splits)
  have "covers (context_rates (tp_rates A) (tp_long A) 30 True) (context_rates (tp_rates S) (tp_long S) 20 False)"
    by (rule served_card_within_admitted_card [OF A S])
      (simp_all add: sample_card_def sample_rates_def rates_nonneg_def default_to_def multipliers_ok_def reported_def)
  with A S show ?thesis by blast
qed

subsection \<open>Image requests\<close>

definition image_fields :: "string list" where
  "image_fields = [''model'', ''prompt'', ''n'', ''size'', ''quality'', ''background'', ''output_format'', ''output_compression'',
     ''moderation'', ''safety_identifier'', ''user'', ''stream'']"

definition image_option :: "json \<Rightarrow> string \<Rightarrow> string list \<Rightarrow> bool" where
  "image_option body k values \<longleftrightarrow> member k body = None \<or> text_in (member k body) values"

definition image_int_between :: "int \<Rightarrow> int \<Rightarrow> json option \<Rightarrow> bool" where
  "image_int_between lo hi j = (case safe_count j of None \<Rightarrow> False | Some n \<Rightarrow> lo \<le> n \<and> n \<le> hi)"

text \<open>\<^verbatim>\<open>^(\d{1,4})x(\d{1,4})$\<close>.\<close>

definition dimensions :: "string \<Rightarrow> (int \<times> int) option" where
  "dimensions s =
     (let w = takeWhile is_digit s; r = dropWhile is_digit s; h = drop 1 r
      in if w \<noteq> [] \<and> length w \<le> 4 \<and> take 1 r = ''x'' \<and> h \<noteq> [] \<and> length h \<le> 4 \<and> list_all is_digit h
         then Some (int (digits_value w), int (digits_value h)) else None)"

definition dimensions_ok :: "image_pricing \<Rightarrow> int \<Rightarrow> int \<Rightarrow> bool" where
  "dimensions_ok p w h \<longleftrightarrow> w \<noteq> 0 \<and> h \<noteq> 0 \<and> w mod ip_multiple p = 0 \<and> h mod ip_multiple p = 0 \<and> max w h \<le> ip_max_edge p \<and>
     of_int (max w h) / of_int (min w h) \<le> ip_max_aspect p \<and> ip_min_pixels p \<le> w * h \<and> w * h \<le> ip_max_pixels p"

definition validate_image_generation :: "json \<Rightarrow> image_pricing \<Rightarrow> unit result" where
  "validate_image_generation body p = guard
     (list_all (\<lambda>kv. fst kv \<in> set image_fields) (entries body) \<and>
      (member ''stream'' body = None \<or> member ''stream'' body = Some (JBool False)) \<and>
      (case text_of (member ''prompt'' body) of None \<Rightarrow> False | Some s \<Rightarrow> s \<noteq> [] \<and> code_points s \<le> ip_max_prompt p) \<and>
      (member ''n'' body = None \<or> image_int_between 1 (ip_max_images p) (member ''n'' body)) \<and>
      image_option body ''quality'' (map fst (ip_qualities p) @ [''auto'']) \<and>
      image_option body ''background'' [''auto'', ''opaque'', ''transparent''] \<and>
      image_option body ''output_format'' [''png'', ''jpeg'', ''webp''] \<and>
      image_option body ''moderation'' [''auto'', ''low''] \<and>
      \<not> (text_is (member ''background'' body) ''transparent'' \<and> text_is (member ''output_format'' body) ''jpeg'') \<and>
      (member ''output_compression'' body = None \<or>
        image_int_between 0 100 (member ''output_compression'' body) \<and> text_in (member ''output_format'' body) [''jpeg'', ''webp'']) \<and>
      list_all (\<lambda>k. member k body = None \<or> (case text_of (member k body) of None \<Rightarrow> False | Some s \<Rightarrow> code_points s \<le> 128))
        [''safety_identifier'', ''user''] \<and>
      (member ''size'' body = None \<or> text_is (member ''size'' body) ''auto'' \<or>
        (case Option.bind (text_of (member ''size'' body)) dimensions of None \<Rightarrow> False | Some (w, h) \<Rightarrow> dimensions_ok p w h)))
     (HttpError 400 ''invalid_image_generation'')"

text \<open>A validated request is reserved for exactly the images it asks for, with its own prompt.\<close>

lemma validated_image_count:
  assumes "validate_image_generation body p = Inr u"
  shows "image_count p body = (case safe_count (member ''n'' body) of Some n \<Rightarrow> n | None \<Rightarrow> 1)"
    and "\<exists>s. member ''prompt'' body = Some (JStr s) \<and> code_points s \<le> ip_max_prompt p"
proof -
  have v: "member ''n'' body = None \<or> image_int_between 1 (ip_max_images p) (member ''n'' body)"
      "case text_of (member ''prompt'' body) of None \<Rightarrow> False | Some s \<Rightarrow> s \<noteq> [] \<and> code_points s \<le> ip_max_prompt p"
    using assms by (simp_all add: validate_image_generation_def)
  show p: "\<exists>s. member ''prompt'' body = Some (JStr s) \<and> code_points s \<le> ip_max_prompt p"
    using v(2) by (cases "member ''prompt'' body" rule: text_of.cases) auto
  then have "entries body \<noteq> []" by (cases body) auto
  then show "image_count p body = (case safe_count (member ''n'' body) of Some n \<Rightarrow> n | None \<Rightarrow> 1)"
    using v(1) by (auto simp: image_count_def image_int_between_def safe_count_def split: option.splits)
qed

end
