(* ===== verification/Expiring_Table.thy ===== *)
theory Expiring_Table
  imports Prelude
begin

section \<open>Tables whose rows expire\<close>

text \<open>
  The continuation and witness stores keep a keyed table, an expiry column and a separate row
  counter, and purge at most 256 expired rows at a time, oldest expiry first. This theory has the
  purge, the invariant that ties the counter to the table, and the interface of a store whose
  frozen rows no operation changes before they expire.
\<close>

definition purge_batch :: nat where "purge_batch = 256"

definition expired_keys :: "('row \<Rightarrow> 'key) \<Rightarrow> ('row \<Rightarrow> int) \<Rightarrow> int \<Rightarrow> 'row list \<Rightarrow> 'key list" where
  "expired_keys key expires now t = map key (take purge_batch (sort_key expires (filter (\<lambda>r. expires r \<le> now) t)))"

definition purge :: "('row \<Rightarrow> 'key) \<Rightarrow> ('row \<Rightarrow> int) \<Rightarrow> int \<Rightarrow> 'row list \<Rightarrow> 'row list" where
  "purge key expires now t = delete_where (\<lambda>r. key r \<in> set (expired_keys key expires now t)) t"

definition table_ok :: "('row \<Rightarrow> 'key) \<Rightarrow> int \<Rightarrow> 'row list \<Rightarrow> int \<Rightarrow> bool" where
  "table_ok key cap t n \<longleftrightarrow> keyed key t \<and> n = int (length t) \<and> n \<le> cap"

lemma expired_keys_distinct: "keyed key t \<Longrightarrow> distinct (expired_keys key expires now t)"
proof -
  assume "keyed key t"
  then have "inj_on key (set t)" "distinct t" by (simp_all add: keyed_def distinct_map)
  moreover have "set (take purge_batch (sort_key expires (filter (\<lambda>r. expires r \<le> now) t))) \<subseteq> set t"
    using set_take_subset [of purge_batch "sort_key expires (filter (\<lambda>r. expires r \<le> now) t)"] by auto
  ultimately show ?thesis unfolding expired_keys_def by (auto simp: distinct_map intro: inj_on_subset)
qed

lemma expired_keys_in: "k \<in> set (expired_keys key expires now t) \<Longrightarrow> \<exists>r\<in>set t. key r = k \<and> expires r \<le> now"
  unfolding expired_keys_def by (fastforce dest: in_set_takeD)

lemma length_purge:
  assumes "keyed key t"
  shows "int (length (purge key expires now t)) = int (length t) - int (length (expired_keys key expires now t))"
proof -
  let ?ks = "expired_keys key expires now t"
  have d: "distinct (map key (filter (\<lambda>r. key r \<in> set ?ks) t))"
    using assms by (simp add: keyed_def distinct_map_filter)
  have "set (map key (filter (\<lambda>r. key r \<in> set ?ks) t)) = set ?ks" using expired_keys_in by fastforce
  then have "length (filter (\<lambda>r. key r \<in> set ?ks) t) = length ?ks"
    using distinct_card [OF d] distinct_card [OF expired_keys_distinct [OF assms]] by simp
  then show ?thesis using sum_length_filter_compl [of "\<lambda>r. key r \<in> set ?ks" t] by (simp add: purge_def delete_where_def)
qed

lemma table_ok_purge:
  "table_ok key cap t n \<Longrightarrow> table_ok key cap (purge key expires now t) (n - int (length (expired_keys key expires now t)))"
  unfolding table_ok_def using length_purge [of key t expires now]
  by (auto simp: purge_def keyed_delete_where)

lemma row_at_delete_where:
  "row_at key k t = Some r \<Longrightarrow> \<not> p r \<Longrightarrow> row_at key k (delete_where p t) = Some r"
  by (induction t) (auto simp: delete_where_def table_simps split: if_splits)

lemma row_at_purge:
  assumes "keyed key t" and "row_at key k t = Some r" and "now < expires r"
  shows "row_at key k (purge key expires now t) = Some r"
  unfolding purge_def
proof (rule row_at_delete_where [OF assms(2)])
  show "key r \<notin> set (expired_keys key expires now t)"
  proof
    assume "key r \<in> set (expired_keys key expires now t)"
    from expired_keys_in [OF this] obtain r' where "r' \<in> set t" "key r' = key r" "expires r' \<le> now" by blast
    then have "r' = r" using row_at_member [OF assms(1), of r'] row_at_in [OF assms(2)] assms(2) by simp
    with \<open>expires r' \<le> now\<close> assms(3) show False by simp
  qed
qed

lemma row_at_purge_rev:
  assumes "row_at key k (purge key expires now t) = Some r" and "keyed key t"
  shows "row_at key k t = Some r"
proof -
  have "r \<in> set t" "key r = k" using row_at_in [OF assms(1)] by (auto simp: purge_def delete_where_def)
  then show ?thesis using row_at_member [OF assms(2)] by blast
qed

lemma row_at_extend: "row_at key k t = Some r \<Longrightarrow> row_at key k (t @ u) = Some r"
  by (simp add: row_at_append)

lemma table_ok_extend:
  assumes "table_ok key cap t n" and "keyed key u" and "key ` set t \<inter> key ` set u = {}" and "n + int (length u) \<le> cap"
  shows "table_ok key cap (t @ u) (n + int (length u))"
  using assms by (simp add: table_ok_def keyed_append)

subsection \<open>The interface of an expiring store\<close>

text \<open>
  A store with an invariant and a reading \<open>live\<close> of a key at a time. No step taken up to that
  time may change a frozen value that is still live then.
\<close>

locale expiring_store =
  fixes inv :: "'s \<Rightarrow> bool" and live :: "'s \<Rightarrow> int \<Rightarrow> 'k \<Rightarrow> 'v option" and frozen :: "'v \<Rightarrow> bool"
    and step :: "'op \<Rightarrow> int \<Rightarrow> 's \<Rightarrow> 's"
  assumes inv_step: "inv s \<Longrightarrow> inv (step x t s)"
    and frozen_step: "inv s \<Longrightarrow> live s u k = Some v \<Longrightarrow> frozen v \<Longrightarrow> t \<le> u \<Longrightarrow> live (step x t s) u k = Some v"
begin

lemma inv_run: "inv s \<Longrightarrow> inv (fold (\<lambda>(x, t). step x t) xs s)"
  by (induction xs arbitrary: s) (auto simp: inv_step)

lemma frozen_run:
  assumes "inv s" and "live s u k = Some v" and "frozen v" and "list_all (\<lambda>(x, t). t \<le> u) xs"
  shows "live (fold (\<lambda>(x, t). step x t) xs s) u k = Some v"
  using assms(1,2,4)
proof (induction xs arbitrary: s)
  case (Cons a xs)
  obtain x t where a: "a = (x, t)" by (cases a)
  have "live (step x t s) u k = Some v" by (rule frozen_step [OF Cons.prems(1,2) assms(3)]) (use Cons.prems(3) a in simp)
  then show ?case using Cons.IH [OF inv_step [OF Cons.prems(1)]] Cons.prems(3) a by simp
qed simp

end

end
