(* ===== verification/Witness_Store.thy ===== *)
theory Witness_Store
  imports Expiring_Table Tool_Pricing Grant_Selection
begin

section \<open>Compaction witnesses\<close>

text \<open>
  \<open>worker/compaction-witness-store.ts\<close>: witnesses that tie a compaction item and its ciphertext
  digest to what is known of the tools behind it. The column \<open>witness_json\<close> is kept as the JSON
  value it is the text of, so equality of texts is equality of values with their member order.
  A binding key is the text \<open>JSON.stringify([itemId, digest])\<close>; the model keeps the pair, and a
  requested key is the JSON value of a text that is already in that canonical form. The text of a
  number is the argument \<open>num\<close>.
\<close>

definition compaction_witness_retention_ms :: int where "compaction_witness_retention_ms = 30 * 24 * 60 * 60000"
definition compaction_witness_capacity :: int where "compaction_witness_capacity = 100000"
definition compaction_witness_batch_limit :: nat where "compaction_witness_batch_limit = 16"

record witness_row =
  wt_key :: "string \<times> string"
  wt_json :: json
  wt_expires :: int

record witness_store =
  ws_rows :: "witness_row list"
  ws_count :: int

definition empty_witnesses :: witness_store where
  "empty_witnesses = \<lparr>ws_rows = [], ws_count = 0\<rparr>"

subsection \<open>Valid witnesses\<close>

definition digest :: "json option \<Rightarrow> bool" where
  "digest j = (case text_of j of None \<Rightarrow> False | Some s \<Rightarrow> hex64 s)"

definition is_tool_knowledge :: "json option \<Rightarrow> bool" where
  "is_tool_knowledge j = text_in j [''token_only'', ''hosted_tool_fee'', ''hosted_tool_usage'', ''unknown'']"

definition null_or :: "(json option \<Rightarrow> bool) \<Rightarrow> json option \<Rightarrow> bool" where
  "null_or p j \<longleftrightarrow> j = Some JNull \<or> p j"

definition grant_key_text :: "json option \<Rightarrow> bool" where
  "grant_key_text j = (case text_of j of None \<Rightarrow> False | Some s \<Rightarrow> starts_with ''oauth/'' s \<and> utf16_length s \<le> 1024)"

definition valid_binding :: "json option \<Rightarrow> bool" where
  "valid_binding b \<longleftrightarrow> (case b of None \<Rightarrow> False | Some v \<Rightarrow>
     (let ow = member ''owner'' v
      in length (entries v) = 7 \<and> list_all (\<lambda>k. bounded_text (member k v)) [''authType'', ''tenantId'', ''policyId'', ''model''] \<and>
         list_all (\<lambda>k. null_or bounded_text (member k v)) [''credentialId'', ''principalId''] \<and>
         (case ow of None \<Rightarrow> False | Some w \<Rightarrow> length (entries w) = 6) \<and>
         list_all (\<lambda>k. bounded_text (get k ow)) [''providerId'', ''endpointId'', ''policyGeneration''] \<and> digest (get ''routeSha256'' ow) \<and>
         null_or grant_key_text (get ''grantKey'' ow) \<and> null_or bounded_text (get ''lineage'' ow)))"

definition valid_witness :: "json \<Rightarrow> bool" where
  "valid_witness v \<longleftrightarrow> length (entries v) = 7 \<and> member ''version'' v = Some (JNum 1) \<and> bounded_text (member ''itemId'' v) \<and>
     digest (member ''ciphertextSha256'' v) \<and> digest (member ''producerId'' v) \<and>
     (case safe_count (member ''createdAtMs'' v) of None \<Rightarrow> False | Some n \<Rightarrow> n \<le> max_safe_integer - compaction_witness_retention_ms) \<and>
     valid_binding (member ''binding'' v) \<and> is_tool_knowledge (member ''knowledge'' v)"

definition parse_witness :: "(rat \<Rightarrow> string) \<Rightarrow> json option \<Rightarrow> json option" where
  "parse_witness num j = (case j of None \<Rightarrow> None
     | Some v \<Rightarrow> if utf16_length (json_text num v) \<le> 4096 \<and> valid_witness v then Some v else None)"

definition text_or :: "json option \<Rightarrow> string" where
  "text_or j = (case text_of j of None \<Rightarrow> [] | Some s \<Rightarrow> s)"

definition witness_key :: "json \<Rightarrow> string \<times> string" where
  "witness_key v = (text_or (member ''itemId'' v), text_or (member ''ciphertextSha256'' v))"

definition created_at :: "json \<Rightarrow> int" where
  "created_at v = (case safe_count (member ''createdAtMs'' v) of None \<Rightarrow> 0 | Some n \<Rightarrow> n)"

definition witness_expiry :: "json \<Rightarrow> int" where
  "witness_expiry v = created_at v + compaction_witness_retention_ms"

definition valid_key :: "(rat \<Rightarrow> string) \<Rightarrow> json \<Rightarrow> bool" where
  "valid_key num k = (case k of
     JArr [a, b] \<Rightarrow> utf16_length (json_text num k) \<le> 1600 \<and> bounded_text (Some a) \<and> digest (Some b)
   | _ \<Rightarrow> False)"

definition key_pair :: "json \<Rightarrow> string \<times> string" where
  "key_pair k = (case elements (Some k) of [a, b] \<Rightarrow> (text_or (Some a), text_or (Some b)) | _ \<Rightarrow> ([], []))"

subsection \<open>Operations\<close>

definition witness_get :: "string \<times> string \<Rightarrow> witness_store \<Rightarrow> witness_row option" where
  "witness_get k st = row_at wt_key k (ws_rows st)"

definition witness_expire :: "int \<Rightarrow> witness_store \<Rightarrow> witness_store" where
  "witness_expire now st = \<lparr>ws_rows = purge wt_key wt_expires now (ws_rows st),
     ws_count = ws_count st - int (length (expired_keys wt_key wt_expires now (ws_rows st)))\<rparr>"

definition witness_deadline :: "witness_store \<Rightarrow> int option" where
  "witness_deadline st = (case map wt_expires (ws_rows st) of [] \<Rightarrow> None | x # xs \<Rightarrow> Some (fold min xs x))"

definition resolve_witness :: "(rat \<Rightarrow> string) \<Rightarrow> int \<Rightarrow> witness_store \<Rightarrow> string \<times> string \<Rightarrow> json option" where
  "resolve_witness num now st k = (case witness_get k st of
     None \<Rightarrow> None
   | Some r \<Rightarrow> (case parse_witness num (Some (wt_json r)) of
       None \<Rightarrow> None
     | Some v \<Rightarrow> if witness_key v = k \<and> wt_expires r = witness_expiry v \<and> created_at v \<le> now \<and> now < wt_expires r then Some v else None))"

datatype witness_input = WitnessResolve "json option" | WitnessRegister "json option"
datatype witness_reply = Witnesses "json option list" | WitnessOutcome string

definition witness_invalid :: error where
  "witness_invalid = HttpError 400 ''compaction_witness_invalid''"

definition new_witness :: "json \<Rightarrow> witness_row" where
  "new_witness v = \<lparr>wt_key = witness_key v, wt_json = v, wt_expires = witness_expiry v\<rparr>"

definition clashes :: "witness_store \<Rightarrow> json \<Rightarrow> bool" where
  "clashes st v = (case witness_get (witness_key v) st of None \<Rightarrow> False
     | Some r \<Rightarrow> wt_json r \<noteq> v \<or> wt_expires r \<noteq> witness_expiry v)"

text \<open>The registration transaction, on witnesses already found valid and distinct.\<close>

definition register_witnesses :: "int \<Rightarrow> json list \<Rightarrow> witness_store \<Rightarrow> witness_store \<times> string" where
  "register_witnesses now vs st =
     (if list_ex (\<lambda>v. now < created_at v \<or> witness_expiry v \<le> now) vs then (st, ''unavailable'')
      else if list_ex (clashes st) vs then (st, ''conflict'')
      else (let st1 = witness_expire now st;
                missing = filter (\<lambda>v. witness_get (witness_key v) st1 = None) vs
            in if compaction_witness_capacity < ws_count st1 + int (length missing) then (st1, ''capacity'')
               else (\<lparr>ws_rows = ws_rows st1 @ map new_witness missing, ws_count = ws_count st1 + int (length missing)\<rparr>, ''stored'')))"

definition witness_handle :: "(rat \<Rightarrow> string) \<Rightarrow> int \<Rightarrow> witness_input \<Rightarrow> witness_store \<Rightarrow> (witness_store \<times> witness_reply) result" where
  "witness_handle num now inp st = (case inp of
     WitnessResolve ks \<Rightarrow>
       if \<not> is_array ks \<or> elements ks = [] \<or> compaction_witness_batch_limit < length (elements ks) \<or>
          list_ex (\<lambda>k. \<not> valid_key num k) (elements ks) then Inl witness_invalid
       else Inr (st, Witnesses (map (\<lambda>k. resolve_witness num now st (key_pair k)) (elements ks)))
   | WitnessRegister ws \<Rightarrow>
       if \<not> is_array ws \<or> elements ws = [] \<or> compaction_witness_batch_limit < length (elements ws) \<or>
          list_ex (\<lambda>v. \<not> valid_witness v \<or> 4096 < utf16_length (json_text num v)) (elements ws) \<or>
          \<not> distinct (map witness_key (elements ws)) then Inl witness_invalid
       else (case register_witnesses now (elements ws) st of (st', outcome) \<Rightarrow> Inr (st', WitnessOutcome outcome)))"

subsection \<open>The counter is exact and live witnesses stay\<close>

definition witnesses_ok :: "witness_store \<Rightarrow> bool" where
  "witnesses_ok st \<longleftrightarrow> table_ok wt_key compaction_witness_capacity (ws_rows st) (ws_count st)"

definition live_witness :: "witness_store \<Rightarrow> int \<Rightarrow> string \<times> string \<Rightarrow> witness_row option" where
  "live_witness st now k = (case witness_get k st of None \<Rightarrow> None | Some r \<Rightarrow> if now < wt_expires r then Some r else None)"

definition witness_step :: "(rat \<Rightarrow> string) \<Rightarrow> witness_input option \<Rightarrow> int \<Rightarrow> witness_store \<Rightarrow> witness_store" where
  "witness_step num x now st = (case x of None \<Rightarrow> witness_expire now st
     | Some inp \<Rightarrow> (case witness_handle num now inp st of Inl _ \<Rightarrow> st | Inr (st', _) \<Rightarrow> st'))"

lemma witness_expire_ok: "witnesses_ok st \<Longrightarrow> witnesses_ok (witness_expire now st)"
  by (simp add: witnesses_ok_def witness_expire_def table_ok_purge)

lemma witness_expire_keeps:
  "witnesses_ok st \<Longrightarrow> witness_get k st = Some r \<Longrightarrow> now < wt_expires r \<Longrightarrow> witness_get k (witness_expire now st) = Some r"
  by (simp add: witnesses_ok_def table_ok_def witness_get_def witness_expire_def row_at_purge)

lemma register_witnesses_ok:
  assumes "witnesses_ok st" and "distinct (map witness_key vs)"
  shows "witnesses_ok (fst (register_witnesses now vs st))"
proof -
  let ?st1 = "witness_expire now st"
  let ?m = "filter (\<lambda>v. witness_get (witness_key v) ?st1 = None) vs"
  have ok: "witnesses_ok ?st1" by (rule witness_expire_ok [OF assms(1)])
  have key: "map wt_key (map new_witness ?m) = map witness_key ?m" by (simp add: new_witness_def)
  have "keyed wt_key (map new_witness ?m)" unfolding keyed_def key by (rule distinct_map_filter [OF assms(2)])
  moreover have "wt_key ` set (ws_rows ?st1) \<inter> wt_key ` set (map new_witness ?m) = {}"
    by (auto simp: witness_get_def row_at_None new_witness_def)
  ultimately have "ws_count ?st1 + int (length ?m) \<le> compaction_witness_capacity \<Longrightarrow>
      table_ok wt_key compaction_witness_capacity (ws_rows ?st1 @ map new_witness ?m) (ws_count ?st1 + int (length ?m))"
    using table_ok_extend [OF ok [unfolded witnesses_ok_def], of "map new_witness ?m"] by simp
  then show ?thesis using assms(1) ok by (auto simp: register_witnesses_def Let_def witnesses_ok_def)
qed

lemma register_witnesses_keeps:
  assumes "witnesses_ok st" and "witness_get k st = Some r" and "now < wt_expires r"
  shows "witness_get k (fst (register_witnesses now vs st)) = Some r"
  using witness_expire_keeps [OF assms] assms(2)
  by (auto simp: register_witnesses_def Let_def witness_get_def row_at_extend)

lemma witness_handle_ok:
  assumes "witnesses_ok st" and "witness_handle num now inp st = Inr (st', reply)"
  shows "witnesses_ok st'" and "witness_get k st = Some r \<Longrightarrow> now < wt_expires r \<Longrightarrow> witness_get k st' = Some r"
proof -
  consider "st' = st" | vs where "distinct (map witness_key vs)" "st' = fst (register_witnesses now vs st)"
    using assms(2) by (auto simp: witness_handle_def split: witness_input.splits if_splits prod.splits)
  then show "witnesses_ok st'" and "witness_get k st = Some r \<Longrightarrow> now < wt_expires r \<Longrightarrow> witness_get k st' = Some r"
    using assms(1) register_witnesses_ok register_witnesses_keeps by (cases; simp)+
qed

interpretation witness: expiring_store witnesses_ok live_witness "\<lambda>_. True" "witness_step num" for num
proof
  fix s x t assume "witnesses_ok s"
  then show "witnesses_ok (witness_step num x t s)"
    by (auto simp: witness_step_def witness_expire_ok witness_handle_ok(1) split: option.split sum.split)
next
  fix s u k v t x assume a: "witnesses_ok s" "live_witness s u k = Some v" "t \<le> u"
  then have v: "witness_get k s = Some v" "u < wt_expires v" by (auto simp: live_witness_def split: option.splits if_splits)
  then have "witness_get k (witness_step num x t s) = Some v"
    using a(1,3) by (auto simp: witness_step_def witness_expire_keeps witness_handle_ok(2) split: option.split sum.split)
  then show "live_witness (witness_step num x t s) u k = Some v" using v(2) by (simp add: live_witness_def)
qed

end
