(* ===== verification/Continuation_Store.thy ===== *)
theory Continuation_Store
  imports Witness_Store Token_Usage
begin

section \<open>Continuation ownership\<close>

text \<open>
  \<open>worker/continuation-store.ts\<close>: which provider, endpoint and grant own a continuation key,
  what is known of the tools behind it, and the background job it belongs to. The owner column is
  kept as the six fields its text has in a fixed order; the evidence column as the JSON value its
  text stands for. A transaction that refuses returns normally, so what it purged stays purged.
  The hook \<open>registered\<close> runs in the registering transaction exactly when the outcome is stored.
\<close>

definition continuation_retention_ms :: int where "continuation_retention_ms = 30 * 24 * 60 * 60000"
definition continuation_capacity :: int where "continuation_capacity = 1000000"

record continuation_owner =
  ow_provider :: string
  ow_endpoint :: string
  ow_grant :: "string option"
  ow_lineage :: "string option"
  ow_route :: string
  ow_generation :: string

record continuation_row =
  cn_key :: string
  cn_owner :: continuation_owner
  cn_expires :: int
  cn_evidence :: "json option"
  cn_job :: "string option"
  cn_closed :: bool
  cn_stream :: bool

record continuation_store =
  cs_rows :: "continuation_row list"
  cs_count :: int
  cs_witnesses :: witness_store

definition empty_continuations :: continuation_store where
  "empty_continuations = \<lparr>cs_rows = [], cs_count = 0, cs_witnesses = empty_witnesses\<rparr>"

datatype evidence_state = Pending | Final tool_knowledge

record pricing_evidence =
  pe_producer :: string
  pe_state :: evidence_state

record continuation_input =
  ci_action :: string
  ci_keys :: "json option"
  ci_witnesses :: "json option"
  ci_owner :: "json option"
  ci_claim :: "(string \<times> string) option"
  ci_knowledge :: "json option"
  ci_job :: "string option"

subsection \<open>Reading the columns\<close>

definition segment :: "json option \<Rightarrow> bool" where
  "segment j = (case text_of j of None \<Rightarrow> False | Some s \<Rightarrow> s \<noteq> [] \<and> utf16_length s \<le> 256)"

definition valid_owner :: "json option \<Rightarrow> continuation_owner option" where
  "valid_owner j = (case as_record j of None \<Rightarrow> None | Some v \<Rightarrow>
     if length (entries v) = 6 \<and> list_all (\<lambda>k. segment (member k v)) [''providerId'', ''endpointId'', ''policyGeneration''] \<and>
        null_or grant_key_text (member ''grantKey'' v) \<and> null_or segment (member ''lineage'' v) \<and> digest (member ''routeSha256'' v)
     then Some \<lparr>ow_provider = text_or (member ''providerId'' v), ow_endpoint = text_or (member ''endpointId'' v),
       ow_grant = text_of (member ''grantKey'' v), ow_lineage = text_of (member ''lineage'' v),
       ow_route = text_or (member ''routeSha256'' v), ow_generation = text_or (member ''policyGeneration'' v)\<rparr>
     else None)"

definition knowledge_of :: "json option \<Rightarrow> tool_knowledge option" where
  "knowledge_of j = (if text_is j ''token_only'' then Some TokenOnly else if text_is j ''hosted_tool_fee'' then Some FeeTools
     else if text_is j ''hosted_tool_usage'' then Some UsageTools else if text_is j ''unknown'' then Some UnknownTools else None)"

definition knowledge_text :: "tool_knowledge \<Rightarrow> string" where
  "knowledge_text k = (case k of TokenOnly \<Rightarrow> ''token_only'' | FeeTools \<Rightarrow> ''hosted_tool_fee'' | UsageTools \<Rightarrow> ''hosted_tool_usage''
     | UnknownTools \<Rightarrow> ''unknown'')"

definition parse_evidence :: "(rat \<Rightarrow> string) \<Rightarrow> json option \<Rightarrow> pricing_evidence option" where
  "parse_evidence num j = (case j of None \<Rightarrow> None | Some v \<Rightarrow>
     if 256 < utf16_length (json_text num v) \<or> member ''version'' v \<noteq> Some (JNum 1) \<or> \<not> digest (member ''producerId'' v) then None
     else if text_is (member ''state'' v) ''pending'' \<and> length (entries v) = 3 then
       Some \<lparr>pe_producer = text_or (member ''producerId'' v), pe_state = Pending\<rparr>
     else if text_is (member ''state'' v) ''final'' \<and> length (entries v) = 4 then
       map_option (\<lambda>k. \<lparr>pe_producer = text_or (member ''producerId'' v), pe_state = Final k\<rparr>) (knowledge_of (member ''knowledge'' v))
     else None)"

definition pending_evidence :: "string \<Rightarrow> json" where
  "pending_evidence producer = JObj [(''version'', JNum 1), (''producerId'', JStr producer), (''state'', JStr ''pending'')]"

definition finalized :: "tool_knowledge \<Rightarrow> json \<Rightarrow> json" where
  "finalized k v = assign ''knowledge'' (JStr (knowledge_text k)) (assign ''state'' (JStr ''final'') v)"

definition background_id :: "string \<Rightarrow> bool" where
  "background_id s \<longleftrightarrow> starts_with ''bg_'' s \<and> length s = 35 \<and>
     list_all (\<lambda>c. is_digit c \<or> 97 \<le> (of_char c :: nat) \<and> (of_char c :: nat) \<le> 102) (drop 3 s)"

subsection \<open>Operations\<close>

definition continuation_get :: "string \<Rightarrow> int \<Rightarrow> continuation_store \<Rightarrow> continuation_row option" where
  "continuation_get k now st = (case row_at cn_key k (cs_rows st) of None \<Rightarrow> None
     | Some r \<Rightarrow> if now < cn_expires r then Some r else None)"

definition continuation_expire :: "int \<Rightarrow> continuation_store \<Rightarrow> continuation_store" where
  "continuation_expire now st = st\<lparr>cs_witnesses := witness_expire now (cs_witnesses st),
     cs_rows := purge cn_key cn_expires now (cs_rows st),
     cs_count := cs_count st - int (length (expired_keys cn_key cn_expires now (cs_rows st)))\<rparr>"

definition continuation_deadline :: "continuation_store \<Rightarrow> int option" where
  "continuation_deadline st =
     (case List.map_filter (\<lambda>x. x) [witness_deadline (cs_witnesses st),
         (case map cn_expires (cs_rows st) of [] \<Rightarrow> None | x # xs \<Rightarrow> Some (fold min xs x))] of
        [] \<Rightarrow> None | x # xs \<Rightarrow> Some (fold min xs x))"

definition close_background :: "string \<Rightarrow> continuation_store \<Rightarrow> continuation_store" where
  "close_background i st = st\<lparr>cs_rows := update_where (\<lambda>r. cn_job r = Some i) (\<lambda>r. r\<lparr>cn_closed := True\<rparr>) (cs_rows st)\<rparr>"

text \<open>Removal of one key's expired row, with the counter.\<close>

definition drop_expired :: "int \<Rightarrow> string \<Rightarrow> continuation_store \<Rightarrow> continuation_store" where
  "drop_expired now k st =
     (let gone = filter (\<lambda>r. cn_key r = k \<and> cn_expires r \<le> now) (cs_rows st)
      in st\<lparr>cs_rows := delete_where (\<lambda>r. cn_key r = k \<and> cn_expires r \<le> now) (cs_rows st),
            cs_count := (if gone = [] then cs_count st else cs_count st - 1)\<rparr>)"

datatype continuation_reply =
    Resolved "continuation_owner option list" "pricing_evidence option list" "(string \<times> bool \<times> bool) option list option"
  | Outcome string "string option"
  | WitnessReply witness_reply

definition continuation_invalid :: error where
  "continuation_invalid = HttpError 400 ''continuation_request_invalid''"

definition qualify :: "(rat \<Rightarrow> string) \<Rightarrow> int \<Rightarrow> continuation_owner \<Rightarrow> string \<times> string \<Rightarrow> tool_knowledge \<Rightarrow> continuation_store \<Rightarrow>
    continuation_store \<times> string" where
  "qualify num now ow claim knowledge st = (case continuation_get (fst claim) now st of
     None \<Rightarrow> (st, ''unavailable'')
   | Some r \<Rightarrow>
       if cn_owner r \<noteq> ow then (st, ''conflict'')
       else (case parse_evidence num (cn_evidence r) of
           None \<Rightarrow> (st, ''producer_conflict'')
         | Some e \<Rightarrow>
             if pe_producer e \<noteq> snd claim then (st, ''producer_conflict'')
             else (case pe_state e of
                 Final k \<Rightarrow> (st, if k = knowledge then ''qualified'' else ''producer_conflict'')
               | Pending \<Rightarrow>
                   (st\<lparr>cs_rows := update_where (\<lambda>x. cn_key x = fst claim)
                      (\<lambda>x. x\<lparr>cn_evidence := map_option (finalized knowledge) (cn_evidence x)\<rparr>) (cs_rows st)\<rparr>, ''qualified''))))"

record background_flags =
  bf_closed :: bool
  bf_retired :: bool
  bf_stream :: bool

definition new_continuation :: "int \<Rightarrow> continuation_owner \<Rightarrow> (string \<times> string) option \<Rightarrow> string option \<Rightarrow> background_flags \<Rightarrow> string \<Rightarrow> continuation_row" where
  "new_continuation now ow claim job flags k =
     (let mine = (map_option fst claim = Some k)
      in \<lparr>cn_key = k, cn_owner = ow, cn_expires = now + continuation_retention_ms,
          cn_evidence = (if mine then map_option (\<lambda>c. pending_evidence (snd c)) claim else None),
          cn_job = (if mine then job else None), cn_closed = (bf_closed flags \<and> mine), cn_stream = (bf_stream flags \<and> mine)\<rparr>)"

definition foreign_evidence :: "(rat \<Rightarrow> string) \<Rightarrow> (string \<times> string) option \<Rightarrow> continuation_row \<Rightarrow> bool" where
  "foreign_evidence num claim r \<longleftrightarrow> cn_evidence r \<noteq> None \<and> (case claim of None \<Rightarrow> True
     | Some c \<Rightarrow> cn_key r \<noteq> fst c \<or> map_option pe_producer (parse_evidence num (cn_evidence r)) \<noteq> Some (snd c))"

text \<open>The registration transaction: conflicts first, then clean-up, capacity and insertion.\<close>

definition register :: "(rat \<Rightarrow> string) \<Rightarrow> int \<Rightarrow> string list \<Rightarrow> continuation_owner \<Rightarrow> (string \<times> string) option \<Rightarrow> string option \<Rightarrow>
    background_flags \<Rightarrow> continuation_store \<Rightarrow> continuation_store \<times> string" where
  "register num now keys ow claim job flags st =
     (let existing = List.map_filter (\<lambda>k. continuation_get k now st) keys
      in if bf_retired flags \<and> (case claim of None \<Rightarrow> True | Some c \<Rightarrow>
             (case continuation_get (fst c) now st of None \<Rightarrow> job \<noteq> None | Some r \<Rightarrow> cn_job r = None \<or> cn_job r \<noteq> job)) then (st, ''producer_conflict'')
         else if list_ex (\<lambda>r. cn_owner r \<noteq> ow) existing then (st, ''conflict'')
         else if list_ex (\<lambda>r. Some (cn_key r) = map_option fst claim \<and> cn_job r \<noteq> job) existing then (st, ''producer_conflict'')
         else if list_ex (foreign_evidence num claim) existing then (st, ''producer_conflict'')
         else
           (let st1 = continuation_expire now (fold (drop_expired now) keys st);
                missing = filter (\<lambda>k. continuation_get k now st = None) keys
            in if continuation_capacity < cs_count st1 + int (length missing) then (st1, ''capacity'')
               else
                 (let st2 = st1\<lparr>cs_rows := cs_rows st1 @ map (new_continuation now ow claim job flags) missing\<rparr>;
                      st3 = (case job of Some i \<Rightarrow> if bf_closed flags \<and> i \<noteq> [] then close_background i st2 else st2 | None \<Rightarrow> st2)
                  in (st3\<lparr>cs_count := cs_count st3 + int (length missing)\<rparr>, ''stored''))))"

definition continuation_background :: "continuation_row option list \<Rightarrow> (string \<times> bool \<times> bool) option list option" where
  "continuation_background rows =
     (let one = (\<lambda>r. case r of None \<Rightarrow> None | Some x \<Rightarrow> (case cn_job x of None \<Rightarrow> None
           | Some i \<Rightarrow> if i = [] then None else Some (i, cn_closed x, cn_stream x)))
      in if list_ex (\<lambda>r. one r \<noteq> None) rows then Some (map one rows) else None)"

text \<open>The registering and qualifying requests, on keys already checked.\<close>

definition continuation_write :: "(rat \<Rightarrow> string) \<Rightarrow> int \<Rightarrow> continuation_input \<Rightarrow> background_flags \<Rightarrow> string list \<Rightarrow> continuation_store \<Rightarrow>
    (continuation_store \<times> continuation_reply) result" where
  "continuation_write num now inp flags keys st = (case valid_owner (ci_owner inp) of
     None \<Rightarrow> Inl continuation_invalid
   | Some ow \<Rightarrow>
       (let claim = ci_claim inp
        in if ci_action inp \<noteq> ''register'' \<and> ci_action inp \<noteq> ''qualify'' then Inl continuation_invalid
           else if (case claim of None \<Rightarrow> False | Some c \<Rightarrow> fst c \<notin> set keys \<or> \<not> hex64 (snd c)) then Inl continuation_invalid
           else if (case ci_job inp of None \<Rightarrow> False | Some i \<Rightarrow> i \<noteq> [] \<and> (claim = None \<or> \<not> background_id i)) then Inl continuation_invalid
           else if ci_action inp = ''qualify'' then
             (case (claim, knowledge_of (ci_knowledge inp)) of
                (Some c, Some k) \<Rightarrow> if length keys \<noteq> 1 then Inl continuation_invalid
                  else (let q = qualify num now ow c k st in Inr (fst q, Outcome (snd q) None))
              | _ \<Rightarrow> Inl continuation_invalid)
           else
             (let q = register num now keys ow claim (ci_job inp) flags st
              in Inr (fst q, Outcome (snd q)
                   (case claim of Some c \<Rightarrow> if snd q \<noteq> ''stored'' then None
                        else if (case continuation_get (fst c) now (fst q) of None \<Rightarrow> False | Some r \<Rightarrow> cn_evidence r = None)
                        then Some ''legacy_unknown'' else Some ''owned''
                      | None \<Rightarrow> None)))))"

definition request_keys :: "json option \<Rightarrow> string list" where
  "request_keys j = rev (remdups (rev (map (\<lambda>k. text_or (Some k)) (elements j))))"

definition continuation_handle :: "(rat \<Rightarrow> string) \<Rightarrow> int \<Rightarrow> continuation_input \<Rightarrow> background_flags \<Rightarrow> continuation_store \<Rightarrow>
    (continuation_store \<times> continuation_reply) result" where
  "continuation_handle num now inp flags st =
     (if ci_action inp = ''witness_register'' \<or> ci_action inp = ''witness_resolve'' then
        rbind (witness_handle num now (if ci_action inp = ''witness_resolve'' then WitnessResolve (ci_keys inp) else WitnessRegister (ci_witnesses inp))
            (cs_witnesses st))
          (\<lambda>(w, reply). Inr (st\<lparr>cs_witnesses := w\<rparr>, WitnessReply reply))
      else if \<not> is_array (ci_keys inp) \<or> length (elements (ci_keys inp)) < 1 \<or> 2 < length (elements (ci_keys inp)) \<or>
        list_ex (\<lambda>k. \<not> digest (Some k)) (elements (ci_keys inp)) then Inl continuation_invalid
      else if ci_action inp = ''resolve'' then
        (let rows = map (\<lambda>k. continuation_get k now st) (request_keys (ci_keys inp))
         in Inr (st, Resolved (map (map_option cn_owner) rows)
              (map (\<lambda>r. parse_evidence num (Option.bind r cn_evidence)) rows) (continuation_background rows)))
      else continuation_write num now inp flags (request_keys (ci_keys inp)) st)"

datatype continuation_op = Request continuation_input background_flags | Alarm | CloseBackground string

definition continuation_step :: "(rat \<Rightarrow> string) \<Rightarrow> continuation_op \<Rightarrow> int \<Rightarrow> continuation_store \<Rightarrow> continuation_store" where
  "continuation_step num x now st = (case x of
     Alarm \<Rightarrow> continuation_expire now st
   | CloseBackground i \<Rightarrow> close_background i st
   | Request inp flags \<Rightarrow> (case continuation_handle num now inp flags st of Inl _ \<Rightarrow> st | Inr (st', _) \<Rightarrow> st'))"

subsection \<open>The counters are exact\<close>

definition continuations_ok :: "continuation_store \<Rightarrow> bool" where
  "continuations_ok st \<longleftrightarrow> table_ok cn_key continuation_capacity (cs_rows st) (cs_count st) \<and> witnesses_ok (cs_witnesses st)"

lemma empty_continuations_ok: "continuations_ok empty_continuations"
  by (simp add: continuations_ok_def empty_continuations_def empty_witnesses_def witnesses_ok_def table_ok_def
      continuation_capacity_def compaction_witness_capacity_def)

lemma at_most_one: "keyed key t \<Longrightarrow> length (filter (\<lambda>r. key r = k \<and> p r) t) \<le> 1"
proof -
  assume "keyed key t"
  then have "distinct (map key (filter (\<lambda>r. key r = k \<and> p r) t))" by (simp add: keyed_def distinct_map_filter)
  from distinct_card [OF this] card_mono [of "{k}" "set (map key (filter (\<lambda>r. key r = k \<and> p r) t))"] show ?thesis by auto
qed

lemma drop_expired_ok: "continuations_ok st \<Longrightarrow> continuations_ok (drop_expired now k st)"
proof -
  assume ok: "continuations_ok st"
  let ?gone = "filter (\<lambda>r. cn_key r = k \<and> cn_expires r \<le> now) (cs_rows st)"
  have "length ?gone \<le> 1" using ok by (intro at_most_one) (simp add: continuations_ok_def table_ok_def)
  moreover have "length ?gone + length (delete_where (\<lambda>r. cn_key r = k \<and> cn_expires r \<le> now) (cs_rows st)) = length (cs_rows st)"
    unfolding delete_where_def by (rule sum_length_filter_compl)
  ultimately have "int (length (delete_where (\<lambda>r. cn_key r = k \<and> cn_expires r \<le> now) (cs_rows st))) =
      int (length (cs_rows st)) - (if ?gone = [] then 0 else 1)"
    by (cases ?gone) auto
  with ok show ?thesis by (simp add: continuations_ok_def drop_expired_def Let_def table_ok_def keyed_delete_where)
qed

lemma drop_all_ok: "continuations_ok st \<Longrightarrow> continuations_ok (fold (drop_expired now) ks st)"
  by (induction ks arbitrary: st) (simp_all add: drop_expired_ok)

lemma drop_all_rows: "set (cs_rows (fold (drop_expired now) ks st)) = {r \<in> set (cs_rows st). \<not> (cn_key r \<in> set ks \<and> cn_expires r \<le> now)}"
  by (induction ks arbitrary: st) (auto simp: drop_expired_def delete_where_def Let_def)

lemma continuation_expire_ok: "continuations_ok st \<Longrightarrow> continuations_ok (continuation_expire now st)"
  by (simp add: continuations_ok_def continuation_expire_def table_ok_purge witness_expire_ok)

lemma table_ok_update:
  "(\<And>r. key (f r) = key r) \<Longrightarrow> table_ok key cap (update_where p f t) n = table_ok key cap t n"
  using keyed_update_where [of t p key f] by (simp add: table_ok_def update_where_def)

lemma close_background_ok: "continuations_ok (close_background i st) = continuations_ok st"
  by (simp add: continuations_ok_def close_background_def table_ok_update)

lemma qualify_ok: "continuations_ok st \<Longrightarrow> continuations_ok (fst (qualify num now ow claim k st))"
  by (simp add: qualify_def continuations_ok_def table_ok_update split: option.split evidence_state.split)

lemma missing_absent:
  assumes "continuations_ok st" and "continuation_get k now st = None" and "k \<in> set ks"
  shows "k \<notin> cn_key ` set (cs_rows (continuation_expire now (fold (drop_expired now) ks st)))"
proof
  assume "k \<in> cn_key ` set (cs_rows (continuation_expire now (fold (drop_expired now) ks st)))"
  then obtain r where r: "cn_key r = k" "r \<in> set (cs_rows (fold (drop_expired now) ks st))"
    by (auto simp: continuation_expire_def purge_def delete_where_def)
  then have "r \<in> set (cs_rows st)" "now < cn_expires r" using assms(3) by (auto simp: drop_all_rows)
  then have "continuation_get k now st = Some r"
    using assms(1) r(1) row_at_member [of cn_key "cs_rows st" r] by (auto simp: continuation_get_def continuations_ok_def table_ok_def)
  with assms(2) show False by simp
qed

lemma register_ok:
  assumes "continuations_ok st" and "distinct keys"
  shows "continuations_ok (fst (register num now keys ow claim job flags st))"
proof -
  let ?st1 = "continuation_expire now (fold (drop_expired now) keys st)"
  let ?m = "filter (\<lambda>k. continuation_get k now st = None) keys"
  let ?new = "map (new_continuation now ow claim job flags) ?m"
  have ok: "continuations_ok ?st1" by (intro continuation_expire_ok drop_all_ok assms(1))
  have key: "map cn_key ?new = ?m" by (simp add: new_continuation_def Let_def comp_def)
  have "keyed cn_key ?new" unfolding keyed_def key using assms(2) by simp
  moreover have "cn_key ` set (cs_rows ?st1) \<inter> cn_key ` set ?new = {}"
  proof -
    have img: "cn_key ` set ?new = set ?m" using arg_cong [OF key, of set] unfolding set_map .
    have "x \<notin> cn_key ` set (cs_rows ?st1)" if "x \<in> set ?m" for x
      by (rule missing_absent [OF assms(1)]) (use that in auto)
    then show ?thesis unfolding img by blast
  qed
  ultimately have "cs_count ?st1 + int (length ?m) \<le> continuation_capacity \<Longrightarrow>
      table_ok cn_key continuation_capacity (cs_rows ?st1 @ ?new) (cs_count ?st1 + int (length ?m))"
    using table_ok_extend [of cn_key continuation_capacity "cs_rows ?st1" "cs_count ?st1" ?new] ok by (simp add: continuations_ok_def)
  then have "cs_count ?st1 + int (length ?m) \<le> continuation_capacity \<Longrightarrow>
      continuations_ok (?st1\<lparr>cs_rows := cs_rows ?st1 @ ?new, cs_count := cs_count ?st1 + int (length ?m)\<rparr>)"
    using ok by (simp add: continuations_ok_def)
  then show ?thesis using assms(1) ok
    by (auto simp: register_def Let_def continuations_ok_def close_background_def table_ok_update split: option.split)
qed

subsection \<open>Final evidence is permanent\<close>

text \<open>What no operation may change of a row whose evidence is final: all but the closed flag.\<close>

definition same_binding :: "continuation_row \<Rightarrow> continuation_row \<Rightarrow> bool" where
  "same_binding r r' \<longleftrightarrow> cn_owner r' = cn_owner r \<and> cn_evidence r' = cn_evidence r \<and> cn_expires r' = cn_expires r \<and> cn_job r' = cn_job r"

definition keeps_row :: "string \<Rightarrow> continuation_row \<Rightarrow> continuation_store \<Rightarrow> bool" where
  "keeps_row k r st \<longleftrightarrow> (\<exists>r'. row_at cn_key k (cs_rows st) = Some r' \<and> same_binding r r')"

definition final_evidence :: "(rat \<Rightarrow> string) \<Rightarrow> continuation_row \<Rightarrow> bool" where
  "final_evidence num r = (case parse_evidence num (cn_evidence r) of None \<Rightarrow> False
     | Some e \<Rightarrow> (case pe_state e of Final _ \<Rightarrow> True | Pending \<Rightarrow> False))"

lemma keeps_close: "keeps_row k r st \<Longrightarrow> keeps_row k r (close_background i st)"
  unfolding keeps_row_def close_background_def by (fastforce simp: row_at_update_where same_binding_def)

lemma keeps_drop:
  "row_at cn_key k (cs_rows st) = Some r \<Longrightarrow> now < cn_expires r \<Longrightarrow> row_at cn_key k (cs_rows (fold (drop_expired now) ks st)) = Some r"
proof (induction ks arbitrary: st)
  case (Cons x ks)
  have "row_at cn_key k (cs_rows (drop_expired now x st)) = Some r"
    using Cons.prems by (simp add: drop_expired_def Let_def row_at_delete_where)
  then show ?case using Cons by simp
qed simp

lemma keeps_expire:
  "continuations_ok st \<Longrightarrow> row_at cn_key k (cs_rows st) = Some r \<Longrightarrow> now < cn_expires r \<Longrightarrow>
   row_at cn_key k (cs_rows (continuation_expire now st)) = Some r"
  by (simp add: continuation_expire_def continuations_ok_def table_ok_def row_at_purge)

lemma register_keeps:
  assumes "continuations_ok st" and "row_at cn_key k (cs_rows st) = Some r" and "now < cn_expires r"
  shows "keeps_row k r (fst (register num now keys ow claim job flags st))"
proof -
  let ?st1 = "continuation_expire now (fold (drop_expired now) keys st)"
  have one: "row_at cn_key k (cs_rows ?st1) = Some r"
    by (rule keeps_expire [OF drop_all_ok [OF assms(1)] keeps_drop [OF assms(2,3)] assms(3)])
  have self: "keeps_row k r st" using assms(2) by (simp add: keeps_row_def same_binding_def)
  have ext: "keeps_row k r (?st1\<lparr>cs_rows := cs_rows ?st1 @ u\<rparr>)" for u
    using one by (simp add: keeps_row_def same_binding_def row_at_extend)
  have cnt: "keeps_row k r (x\<lparr>cs_count := n\<rparr>) = keeps_row k r x" for x n by (simp add: keeps_row_def)
  show ?thesis using self ext keeps_close [OF ext]
    by (auto simp: register_def Let_def cnt keeps_row_def same_binding_def one split: option.split)
qed

lemma qualify_keeps:
  assumes "row_at cn_key k (cs_rows st) = Some r" and "final_evidence num r"
  shows "keeps_row k r (fst (qualify num now ow claim n st))"
proof (cases "k = fst claim")
  case True
  then have "fst (qualify num now ow claim n st) = st" using assms
    by (auto simp: qualify_def continuation_get_def final_evidence_def split: option.splits evidence_state.splits if_splits)
  then show ?thesis using assms by (simp add: keeps_row_def same_binding_def)
next
  case False
  then have "(if cn_key r = fst claim then f r else r) = r" for f using row_at_in [OF assms(1)] by auto
  with False assms show ?thesis using row_at_in [OF assms(1)]
    by (auto simp: qualify_def keeps_row_def same_binding_def row_at_update_where split: option.split evidence_state.split)
qed

lemma continuation_write_state:
  assumes "continuation_write num now inp flags keys st = Inr (st', reply)"
  shows "(\<exists>ow c n. st' = fst (qualify num now ow c n st)) \<or> (\<exists>ow c job. st' = fst (register num now keys ow c job flags st))"
proof -
  obtain ow where ow: "valid_owner (ci_owner inp) = Some ow" using assms by (auto simp: continuation_write_def split: option.splits)
  show ?thesis
  proof (cases "ci_action inp = ''qualify''")
    case True
    then obtain c n where "st' = fst (qualify num now ow c n st)"
      using assms unfolding continuation_write_def Let_def ow option.case by (auto split: if_splits option.splits)
    then show ?thesis by blast
  next
    case False
    then have "st' = fst (register num now keys ow (ci_claim inp) (ci_job inp) flags st)"
      using assms unfolding continuation_write_def Let_def ow option.case by (simp split: if_splits)
    then show ?thesis by blast
  qed
qed

lemma request_keys_distinct: "distinct (request_keys j)"
  by (simp add: request_keys_def)

lemma continuation_handle_state:
  assumes "continuation_handle num now inp flags st = Inr (st', reply)"
  obtains (same) "st' = st"
    | (witness) x w v where "witness_handle num now x (cs_witnesses st) = Inr (w, v)" "st' = st\<lparr>cs_witnesses := w\<rparr>"
    | (qualify) ow c n where "st' = fst (qualify num now ow c n st)"
    | (register) keys ow c job where "distinct keys" "st' = fst (register num now keys ow c job flags st)"
proof (cases "ci_action inp = ''witness_register'' \<or> ci_action inp = ''witness_resolve''")
  case True
  with assms show ?thesis using witness by (auto simp: continuation_handle_def)
next
  case False
  then consider "st' = st" | "continuation_write num now inp flags (request_keys (ci_keys inp)) st = Inr (st', reply)"
    using assms unfolding continuation_handle_def Let_def by (auto split: if_splits)
  then show ?thesis
  proof cases
    case 2
    from continuation_write_state [OF this] show ?thesis using qualify register [OF request_keys_distinct] by blast
  qed (rule same)
qed

lemma continuation_handle_ok:
  assumes "continuations_ok st" and "continuation_handle num now inp flags st = Inr (st', reply)"
  shows "continuations_ok st'"
  using assms(2)
proof (cases rule: continuation_handle_state)
  case (witness x w v)
  then show ?thesis using assms(1) witness_handle_ok(1) by (auto simp: continuations_ok_def)
qed (use assms(1) qualify_ok register_ok in auto)

lemma continuation_handle_keeps:
  assumes "continuations_ok st" and "continuation_handle num now inp flags st = Inr (st', reply)"
    and "row_at cn_key k (cs_rows st) = Some r" and "now < cn_expires r" and "final_evidence num r"
  shows "keeps_row k r st'"
  using assms(2)
proof (cases rule: continuation_handle_state)
  case (qualify ow c n)
  then show ?thesis using qualify_keeps [OF assms(3,5)] by simp
next
  case (register keys ow c job)
  then show ?thesis using register_keeps [OF assms(1,3,4)] by simp
qed (use assms(3) in \<open>auto simp: keeps_row_def same_binding_def\<close>)

definition live_evidence :: "(rat \<Rightarrow> string) \<Rightarrow> continuation_store \<Rightarrow> int \<Rightarrow> string \<Rightarrow> (continuation_owner \<times> pricing_evidence) option" where
  "live_evidence num st now k = Option.bind (continuation_get k now st)
     (\<lambda>r. map_option (Pair (cn_owner r)) (parse_evidence num (cn_evidence r)))"

definition settled_evidence :: "continuation_owner \<times> pricing_evidence \<Rightarrow> bool" where
  "settled_evidence v \<longleftrightarrow> pe_state (snd v) \<noteq> Pending"

lemma live_evidenceE:
  assumes "live_evidence num st u k = Some v" and "settled_evidence v"
  obtains r where "row_at cn_key k (cs_rows st) = Some r" "u < cn_expires r" "final_evidence num r"
  using assms by (auto simp: live_evidence_def continuation_get_def settled_evidence_def final_evidence_def
      split: option.splits if_splits evidence_state.splits bind_splits)

lemma live_evidence_keeps:
  assumes "live_evidence num st u k = Some v" and "row_at cn_key k (cs_rows st) = Some r" and "keeps_row k r st'"
  shows "live_evidence num st' u k = Some v"
  using assms by (auto simp: live_evidence_def continuation_get_def keeps_row_def same_binding_def split: if_splits)

interpretation continuation: expiring_store continuations_ok "live_evidence num" settled_evidence "continuation_step num" for num
proof
  fix s x t assume "continuations_ok s"
  then show "continuations_ok (continuation_step num x t s)"
    by (auto simp: continuation_step_def continuation_expire_ok close_background_ok continuation_handle_ok split: continuation_op.split sum.split)
next
  fix s u k v t x
  assume a: "continuations_ok s" "live_evidence num s u k = Some v" "settled_evidence v" "t \<le> u"
  obtain r where r: "row_at cn_key k (cs_rows s) = Some r" "u < cn_expires r" "final_evidence num r"
    using live_evidenceE [OF a(2,3)] .
  have t: "t < cn_expires r" using a(4) r(2) by simp
  have self: "keeps_row k r s" using r(1) by (simp add: keeps_row_def same_binding_def)
  have "keeps_row k r (continuation_step num x t s)"
  proof (cases x)
    case (Request inp flags)
    then show ?thesis using self continuation_handle_keeps [OF a(1) _ r(1) t r(3)]
      by (auto simp: continuation_step_def split: sum.split)
  next
    case Alarm
    then show ?thesis using keeps_expire [OF a(1) r(1) t] by (simp add: continuation_step_def keeps_row_def same_binding_def)
  next
    case (CloseBackground i)
    then show ?thesis using keeps_close [OF self] by (simp add: continuation_step_def)
  qed
  then show "live_evidence num (continuation_step num x t s) u k = Some v" by (rule live_evidence_keeps [OF a(2) r(1)])
qed

definition continuation_run :: "(rat \<Rightarrow> string) \<Rightarrow> (continuation_op \<times> int) list \<Rightarrow> continuation_store \<Rightarrow> continuation_store" where
  "continuation_run num xs st = fold (\<lambda>(x, t). continuation_step num x t) xs st"

text \<open>
  C21. After any sequence of requests, alarms and background closings, at whatever times, both
  tables have one row per key and their counters are the number of rows, within the capacity.
\<close>

theorem continuation_counters_are_exact:
  "let st = continuation_run num xs empty_continuations; w = cs_witnesses st
   in distinct (map cn_key (cs_rows st)) \<and> cs_count st = int (length (cs_rows st)) \<and> cs_count st \<le> continuation_capacity \<and>
      distinct (map wt_key (ws_rows w)) \<and> ws_count w = int (length (ws_rows w)) \<and> ws_count w \<le> compaction_witness_capacity"
  using continuation.inv_run [OF empty_continuations_ok, of num xs]
  by (simp add: continuation_run_def Let_def continuations_ok_def witnesses_ok_def table_ok_def keyed_def)

text \<open>
  C22. Final tool evidence is permanent: once a key has an owner and a final finding, no later
  request, alarm or closing, whoever sends it, changes what the key resolves to, until the row
  expires.
\<close>

theorem final_evidence_is_permanent:
  assumes "live_evidence num (continuation_run num xs empty_continuations) u k = Some (ow, e)" and "pe_state e = Final n"
    and "list_all (\<lambda>(x, t). t \<le> u) ys"
  shows "live_evidence num (continuation_run num (xs @ ys) empty_continuations) u k = Some (ow, e)"
proof -
  have "continuations_ok (continuation_run num xs empty_continuations)"
    unfolding continuation_run_def by (rule continuation.inv_run [OF empty_continuations_ok])
  from continuation.frozen_run [OF this assms(1) _ assms(3)] show ?thesis
    using assms(2) by (simp add: continuation_run_def settled_evidence_def)
qed

definition sample_digest :: string where "sample_digest = replicate 64 CHR ''a''"
definition sample_owner :: json where
  "sample_owner = JObj [(''providerId'', JStr ''p''), (''endpointId'', JStr ''e''), (''grantKey'', JNull), (''lineage'', JNull),
     (''routeSha256'', JStr sample_digest), (''policyGeneration'', JStr ''g'')]"
definition sample_request :: "string \<Rightarrow> string \<Rightarrow> continuation_op" where
  "sample_request action knowledge = Request \<lparr>ci_action = action, ci_keys = Some (JArr [JStr sample_digest]), ci_witnesses = None,
     ci_owner = Some sample_owner, ci_claim = Some (sample_digest, sample_digest), ci_knowledge = Some (JStr knowledge), ci_job = None\<rparr>
     \<lparr>bf_closed = False, bf_retired = False, bf_stream = False\<rparr>"

theorem final_evidence_is_permanent_witness:
  "live_evidence (\<lambda>_. ''1'') (continuation_run (\<lambda>_. ''1'')
       ([(sample_request ''register'' [], 0), (sample_request ''qualify'' ''token_only'', 1)] @
        [(sample_request ''qualify'' ''unknown'', 2), (sample_request ''register'' [], 3), (Alarm, 4)]) empty_continuations) 5 sample_digest =
     Some (\<lparr>ow_provider = ''p'', ow_endpoint = ''e'', ow_grant = None, ow_lineage = None, ow_route = sample_digest, ow_generation = ''g''\<rparr>,
       \<lparr>pe_producer = sample_digest, pe_state = Final TokenOnly\<rparr>)"
proof (rule final_evidence_is_permanent [where n = TokenOnly])
  show "live_evidence (\<lambda>_. ''1'') (continuation_run (\<lambda>_. ''1'')
       [(sample_request ''register'' [], 0), (sample_request ''qualify'' ''token_only'', 1)] empty_continuations) 5 sample_digest =
     Some (\<lparr>ow_provider = ''p'', ow_endpoint = ''e'', ow_grant = None, ow_lineage = None, ow_route = sample_digest, ow_generation = ''g''\<rparr>,
       \<lparr>pe_producer = sample_digest, pe_state = Final TokenOnly\<rparr>)" by code_simp
qed simp_all

end
