(* ===== verification/Tool_Evidence.thy ===== *)
theory Tool_Evidence
  imports Tool_Pricing
begin

section \<open>Tool evidence of a response\<close>

text \<open>
  \<open>createResponsesToolEvidence\<close> of \<open>worker/responses-tool-evidence.ts\<close>: what a Responses
  answer shows of the tools its continuation retains. Items are mutable objects that two maps
  (by output index, by item id) refer to; an object is its position in the item list, so aliasing
  is equality of positions. Values compare with \<open>===\<close>: scalars by value, objects and arrays that
  arrive in different events never.
\<close>

subsection \<open>State\<close>

record evidence_item =
  ei_index :: "int option"
  ei_id :: "string option"
  ei_entries :: nat
  ei_done :: bool
  ei_type :: "json option"
  ei_knowledge :: "tool_knowledge option"
  ei_observed :: "tool_knowledge option"

record tool_evidence =
  te_items :: "evidence_item list"
  te_indices :: "(int \<times> nat) list"
  te_ids :: "(string \<times> nat) list"
  te_uncertain :: bool
  te_terminal :: bool
  te_entries :: nat
  te_response :: "string option"
  te_result :: "(string \<times> tool_knowledge) option"

definition new_evidence :: tool_evidence where
  "new_evidence = \<lparr>te_items = [], te_indices = [], te_ids = [], te_uncertain = False, te_terminal = False, te_entries = 0,
     te_response = None, te_result = None\<rparr>"

definition strict_eq :: "json option \<Rightarrow> json option \<Rightarrow> bool" where
  "strict_eq a b \<longleftrightarrow> a = b \<and> \<not> is_object a \<and> \<not> is_array a"

definition doubt :: "tool_evidence \<Rightarrow> tool_evidence" where
  "doubt st = st\<lparr>te_uncertain := True\<rparr>"

definition doubt_if :: "bool \<Rightarrow> tool_evidence \<Rightarrow> tool_evidence" where
  "doubt_if b st = (if b then doubt st else st)"

subsection \<open>Operations\<close>

definition identity :: "json option \<Rightarrow> tool_evidence \<Rightarrow> tool_evidence" where
  "identity v st = (case v of
     None \<Rightarrow> st
   | Some _ \<Rightarrow> if \<not> bounded_text v \<or> te_response st \<noteq> None \<and> text_of v \<noteq> te_response st then doubt st
       else st\<lparr>te_response := text_of v\<rparr>)"

definition fresh_item :: evidence_item where
  "fresh_item = \<lparr>ei_index = None, ei_id = None, ei_entries = 1, ei_done = False, ei_type = None, ei_knowledge = None, ei_observed = None\<rparr>"

definition item_at :: "tool_evidence \<Rightarrow> nat \<Rightarrow> evidence_item" where
  "item_at st i = (if i < length (te_items st) then te_items st ! i else fresh_item)"

definition set_item :: "nat \<Rightarrow> evidence_item \<Rightarrow> tool_evidence \<Rightarrow> tool_evidence" where
  "set_item i x st = st\<lparr>te_items := (te_items st)[i := x]\<rparr>"

definition put :: "'k \<Rightarrow> 'v \<Rightarrow> ('k \<times> 'v) list \<Rightarrow> ('k \<times> 'v) list" where
  "put k v m = (k, v) # filter (\<lambda>e. fst e \<noteq> k) m"

text \<open>Binding an item that was found, or just made, to the selectors of an event.\<close>

definition differs :: "'a option \<Rightarrow> 'a option \<Rightarrow> bool" where
  "differs a b \<longleftrightarrow> a \<noteq> None \<and> b \<noteq> None \<and> a \<noteq> b"

definition bind_item :: "int option \<Rightarrow> string option \<Rightarrow> nat \<Rightarrow> tool_evidence \<Rightarrow> tool_evidence \<times> nat option" where
  "bind_item position ident i st =
     (let item = item_at st i
      in if differs (ei_index item) position \<or> differs (ei_id item) ident then (doubt st, None)
         else
           (let item' = item\<lparr>ei_index := (if position = None then ei_index item else position), ei_id := (if ident = None then ei_id item else ident)\<rparr>;
                st' = set_item i item' st
            in (st'\<lparr>te_indices := (case position of None \<Rightarrow> te_indices st | Some p \<Rightarrow> put p i (te_indices st)),
                    te_ids := (case ident of None \<Rightarrow> te_ids st | Some d \<Rightarrow> put d i (te_ids st))\<rparr>, Some i)))"

definition associate :: "json option \<Rightarrow> json option \<Rightarrow> tool_evidence \<Rightarrow> tool_evidence \<times> nat option" where
  "associate idx identifier st =
     (if idx \<noteq> None \<and> safe_count idx = None \<or> identifier \<noteq> None \<and> \<not> bounded_text identifier then (doubt st, None)
      else
        (let position = safe_count idx; ident = text_of identifier;
             byIndex = Option.bind position (map_of (te_indices st)); byId = Option.bind ident (map_of (te_ids st))
         in if differs byIndex byId then (doubt st, None)
            else case (case byIndex of Some i \<Rightarrow> Some i | None \<Rightarrow> byId) of
                Some i \<Rightarrow> bind_item position ident i st
              | None \<Rightarrow>
                  if tool_evidence_limit \<le> te_entries st then (doubt st, None)
                  else bind_item position ident (length (te_items st))
                    (st\<lparr>te_items := te_items st @ [fresh_item], te_entries := Suc (te_entries st)\<rparr>)))"

definition note_done :: "tool_knowledge \<Rightarrow> nat \<Rightarrow> tool_evidence \<Rightarrow> tool_evidence" where
  "note_done knowledge i st =
     (let item = item_at st i
      in doubt_if (ei_done item \<and> ei_knowledge item \<noteq> Some knowledge \<or>
           (case ei_observed item of None \<Rightarrow> False | Some k \<Rightarrow> tool_union k knowledge \<noteq> knowledge))
         (set_item i (item\<lparr>ei_done := True, ei_knowledge := Some knowledge\<rparr>) st))"

definition note_added :: "json \<Rightarrow> json option \<Rightarrow> tool_knowledge \<Rightarrow> nat \<Rightarrow> tool_evidence \<Rightarrow> tool_evidence" where
  "note_added v idx knowledge i st =
     (let item = item_at st i
      in doubt_if (idx = None \<and> member ''id'' v = None \<or> ei_done item)
         (if has ''tools'' v then
            set_item i (item\<lparr>ei_observed := Some (tool_union (case ei_observed item of None \<Rightarrow> TokenOnly | Some k \<Rightarrow> k) knowledge)\<rparr>) st
          else st))"

definition observe_item :: "(rat \<Rightarrow> string) \<Rightarrow> json option \<Rightarrow> json option \<Rightarrow> bool \<Rightarrow> tool_evidence \<Rightarrow> tool_evidence" where
  "observe_item num item idx fin st = (case as_record item of
     None \<Rightarrow> doubt st
   | Some v \<Rightarrow> (case associate idx (member ''id'' v) st of
       (st1, None) \<Rightarrow> st1
     | (st1, Some i) \<Rightarrow>
         (let old = item_at st1 i;
              (knowledge, used) = item_knowledge num (\<not> fin) v 0;
              grown = used - ei_entries old;
              st2 = doubt_if (ei_type old \<noteq> None \<and> \<not> strict_eq (ei_type old) (member ''type'' v))
                (set_item i (old\<lparr>ei_type := member ''type'' v, ei_entries := max (ei_entries old) used\<rparr>) st1);
              st3 = doubt_if (tool_evidence_limit < te_entries st1 + grown) (st2\<lparr>te_entries := te_entries st1 + grown\<rparr>)
          in if fin then note_done knowledge i st3 else note_added v idx knowledge i st3)))"

definition states_of :: "string list \<Rightarrow> string list \<Rightarrow> string list" where
  "states_of kinds states = concat (map (\<lambda>k. map (\<lambda>s. ''response.'' @ k @ ''.'' @ s) states) kinds)"

definition ordinary_events :: "string list" where
  "ordinary_events =
     [''response.created'', ''response.in_progress'', ''response.queued'', ''response.metadata'', ''codex.response.metadata'',
      ''response.output_text.annotation.added''] @
     states_of [''output_text'', ''refusal'', ''reasoning_text'', ''reasoning_summary_text'', ''audio'', ''audio_transcript'',
       ''function_call_arguments'', ''custom_tool_call_input'', ''mcp_call_arguments'', ''code_interpreter_call_code'',
       ''shell_call_output_content''] [''delta'', ''done''] @
     states_of [''content_part'', ''reasoning_summary_part''] [''added'', ''done''] @
     states_of [''web_search_call'', ''file_search_call''] [''in_progress'', ''searching'', ''completed''] @
     states_of [''mcp_call'', ''mcp_list_tools''] [''in_progress'', ''completed'', ''failed''] @
     states_of [''image_generation_call''] [''in_progress'', ''generating'', ''completed'', ''partial_image''] @
     states_of [''code_interpreter_call''] [''in_progress'', ''interpreting'', ''completed''] @
     states_of [''shell_call_command''] [''added'', ''delta'', ''done'']"

subsection \<open>The terminal event\<close>

definition snapshot_conflict :: "tool_evidence \<Rightarrow> nat \<Rightarrow> json \<Rightarrow> tool_knowledge \<Rightarrow> bool" where
  "snapshot_conflict st idx v found =
     (let item = map_of (te_indices st) (int idx);
          named = (if is_obj v then Option.bind (text_of (member ''id'' v)) (map_of (te_ids st)) else None)
      in differs item named \<or>
         (case item of None \<Rightarrow> False | Some i \<Rightarrow>
            \<not> strict_eq (ei_type (item_at st i)) (if is_obj v then member ''type'' v else None) \<or>
            ei_knowledge (item_at st i) \<noteq> Some found \<or>
            ei_id (item_at st i) \<noteq> None \<and> is_obj v \<and> member ''id'' v \<noteq> None \<and> text_of (member ''id'' v) \<noteq> ei_id (item_at st i)) \<or>
         (case named of None \<Rightarrow> False | Some i \<Rightarrow>
            ei_index (item_at st i) \<noteq> None \<and> ei_index (item_at st i) \<noteq> Some (int idx) \<or> ei_knowledge (item_at st i) \<noteq> Some found))"

fun snapshot :: "(rat \<Rightarrow> string) \<Rightarrow> json list \<Rightarrow> nat \<Rightarrow> nat \<Rightarrow> tool_knowledge \<Rightarrow> tool_evidence \<Rightarrow> tool_evidence \<times> tool_knowledge" where
  "snapshot num [] idx used knowledge st = (st, knowledge)"
| "snapshot num (v # vs) idx used knowledge st =
     (let (found, used') = item_knowledge num False v used
      in snapshot num vs (Suc idx) used' (tool_union knowledge found) (doubt_if (snapshot_conflict st idx v found) st))"

definition done_knowledge :: "tool_evidence \<Rightarrow> tool_knowledge \<Rightarrow> tool_knowledge" where
  "done_knowledge st base = fold (\<lambda>x k. if ei_done x then tool_union k (case ei_knowledge x of None \<Rightarrow> TokenOnly | Some n \<Rightarrow> n) else k)
     (te_items st) base"

definition index_gap :: "tool_evidence \<Rightarrow> bool" where
  "index_gap st \<longleftrightarrow> list_ex (\<lambda>e. int (length (te_indices st)) \<le> fst e) (te_indices st)"

definition terminal_output :: "(rat \<Rightarrow> string) \<Rightarrow> bool \<Rightarrow> json option \<Rightarrow> tool_knowledge \<Rightarrow> tool_evidence \<Rightarrow> tool_evidence \<times> tool_knowledge" where
  "terminal_output num sse response knowledge st = (case get ''output'' response of
     Some (JArr outs) \<Rightarrow>
       (let (st1, k) = (if tool_evidence_limit < length outs then (doubt st, knowledge) else snapshot num outs 0 0 knowledge st)
        in (doubt_if (length outs < length (te_items st1) \<or>
              list_ex (\<lambda>x. case ei_index x of None \<Rightarrow> False | Some p \<Rightarrow> int (length outs) \<le> p) (te_items st1)) st1, k))
   | Some _ \<Rightarrow> (doubt st, knowledge)
   | None \<Rightarrow> (doubt_if (\<not> sse \<or> index_gap st) st, knowledge))"

definition accept_terminal :: "(rat \<Rightarrow> string) \<Rightarrow> tool_knowledge \<Rightarrow> bool \<Rightarrow> bool \<Rightarrow> json option \<Rightarrow> tool_evidence \<Rightarrow> tool_evidence" where
  "accept_terminal num base sse completed response st =
     (let st1 = doubt_if (\<not> completed \<or> response = None \<or> \<not> bounded_text (get ''id'' response) \<or> te_response st = None \<or>
            \<not> sse \<and> \<not> text_is (get ''object'' response) ''response'') (st\<lparr>te_terminal := True\<rparr>);
          st2 = doubt_if (list_ex (\<lambda>x. \<not> ei_done x) (te_items st1)) st1;
          (st3, k) = terminal_output num sse response (done_knowledge st2 base) st2
      in st3\<lparr>te_result := map_option (\<lambda>r. (r, if te_uncertain st3 then UnknownTools else k)) (te_response st3),
             te_items := [], te_indices := [], te_ids := []\<rparr>)"

subsection \<open>Events\<close>

definition ongoing :: "(rat \<Rightarrow> string) \<Rightarrow> bool \<Rightarrow> json \<Rightarrow> json option \<Rightarrow> tool_evidence \<Rightarrow> tool_evidence" where
  "ongoing num sse v response st =
     (let ordinary = (sse \<and> text_in (member ''type'' v) ordinary_events);
          outs = get ''output'' response;
          st1 = doubt_if (sse \<and> \<not> ordinary \<or> \<not> nullish outs \<and> (\<not> is_array outs \<or> elements outs \<noteq> [])) st
      in if ordinary \<and> (member ''output_index'' v \<noteq> None \<or> member ''item_id'' v \<noteq> None)
         then fst (associate (member ''output_index'' v) (member ''item_id'' v) st1) else st1)"

definition completed_event :: "bool \<Rightarrow> json \<Rightarrow> bool" where
  "completed_event sse v = (if sse then text_in (member ''type'' v) [''response.completed'', ''response.incomplete'']
     else text_in (member ''status'' v) [''completed'', ''incomplete''])"

definition item_event :: "bool \<Rightarrow> json \<Rightarrow> bool" where
  "item_event sse v \<longleftrightarrow> sse \<and> text_in (member ''type'' v) [''response.output_item.added'', ''response.output_item.done'']"

definition terminal_event :: "bool \<Rightarrow> json \<Rightarrow> bool" where
  "terminal_event sse v \<longleftrightarrow> completed_event sse v \<or> sse \<and> text_in (member ''type'' v) [''response.failed'', ''error'']"

definition response_of :: "bool \<Rightarrow> json \<Rightarrow> json option" where
  "response_of sse v = (if sse then as_record (member ''response'' v) else Some v)"

definition identified :: "bool \<Rightarrow> json \<Rightarrow> tool_evidence \<Rightarrow> tool_evidence" where
  "identified sse v st = identity (get ''id'' (response_of sse v)) (identity (member ''response_id'' v) st)"

definition evidence_accept :: "(rat \<Rightarrow> string) \<Rightarrow> tool_knowledge \<Rightarrow> json \<Rightarrow> bool \<Rightarrow> tool_evidence \<Rightarrow> tool_evidence" where
  "evidence_accept num base v sse st =
     (if te_terminal st then st
      else if \<not> is_obj v then doubt st
      else
        (let st1 = identified sse v st
         in if item_event sse v then
              observe_item num (member ''item'' v) (member ''output_index'' v) (text_is (member ''type'' v) ''response.output_item.done'') st1
            else if \<not> terminal_event sse v then ongoing num sse v (response_of sse v) st1
            else accept_terminal num base sse (completed_event sse v) (response_of sse v) st1))"

definition evidence_invalid :: "tool_evidence \<Rightarrow> tool_evidence" where
  "evidence_invalid st = (if te_terminal st then st else doubt st)"

datatype evidence_event = Invalid | Accept json bool

definition evidence_step :: "(rat \<Rightarrow> string) \<Rightarrow> tool_knowledge \<Rightarrow> evidence_event \<Rightarrow> tool_evidence \<Rightarrow> tool_evidence" where
  "evidence_step num base e st = (case e of Invalid \<Rightarrow> evidence_invalid st | Accept v sse \<Rightarrow> evidence_accept num base v sse st)"

subsection \<open>The order of findings\<close>

text \<open>Findings are ordered from token-only to unknown; the union is the larger one.\<close>

definition subsumed :: "tool_knowledge \<Rightarrow> tool_knowledge \<Rightarrow> bool" where
  "subsumed a b \<longleftrightarrow> tool_union a b = b"

lemma subsumed_refl [simp]: "subsumed a a"
  by (cases a) (simp_all add: subsumed_def tool_union_def)

lemma subsumed_trans: "subsumed a b \<Longrightarrow> subsumed b c \<Longrightarrow> subsumed a c"
  by (cases a; cases b; cases c) (simp_all add: subsumed_def tool_union_def)

lemma subsumed_union [simp]: "subsumed a (tool_union a b)" "subsumed b (tool_union a b)"
  by (cases a; cases b; simp add: subsumed_def tool_union_def)+

lemma subsumed_union_mono: "subsumed a b \<Longrightarrow> subsumed (tool_union a c) (tool_union b c)"
  by (cases a; cases b; cases c) (simp_all add: subsumed_def tool_union_def)

lemma subsumed_unknown: "subsumed UnknownTools k \<Longrightarrow> k = UnknownTools"
  by (cases k) (simp_all add: subsumed_def tool_union_def)

lemma token_only_subsumed [simp]: "subsumed TokenOnly k"
  by (cases k) (simp_all add: subsumed_def tool_union_def)

lemma items_knowledge_mono: "subsumed a b \<Longrightarrow> subsumed (items_knowledge num xs a n) (items_knowledge num xs b n)"
  by (induction xs arbitrary: a b n) (auto simp: subsumed_union_mono split: prod.split)

lemma items_knowledge_base: "subsumed a (items_knowledge num xs a n)"
  by (induction xs arbitrary: a n) (auto split: prod.split intro: subsumed_trans [OF subsumed_union(1)])

lemma snapshot_knowledge: "snd (snapshot num vs idx used k st) = items_knowledge num vs k used"
  by (induction vs arbitrary: idx used k st) (simp_all split: prod.split)

lemma snapshot_state:
  "te_items (fst (snapshot num vs idx used k st)) = te_items st" "te_response (fst (snapshot num vs idx used k st)) = te_response st"
  "te_terminal (fst (snapshot num vs idx used k st)) = te_terminal st"
  "te_uncertain st \<Longrightarrow> te_uncertain (fst (snapshot num vs idx used k st))"
  by (induction vs arbitrary: idx used k st) (simp_all add: doubt_if_def doubt_def split: prod.split)

lemma done_fold_base: "subsumed base (fold (\<lambda>x k. if ei_done x then tool_union k (f x) else k) xs base)"
  by (induction xs arbitrary: base) (auto intro: subsumed_trans [OF subsumed_union(1)])

lemma done_fold_item: "x \<in> set xs \<Longrightarrow> ei_done x \<Longrightarrow> subsumed (f x) (fold (\<lambda>x k. if ei_done x then tool_union k (f x) else k) xs base)"
  by (induction xs arbitrary: base) (auto intro: subsumed_trans [OF subsumed_union(2) done_fold_base])

subsection \<open>Findings are never lost\<close>

text \<open>
  What an operation may do before the terminal event: doubt stays, items stay, and an item that is
  done keeps its finding unless doubt is raised.
\<close>

definition below :: "nat \<Rightarrow> ('k \<times> nat) list \<Rightarrow> bool" where
  "below n m = list_all (\<lambda>e. snd e < n) m"

definition positions_ok :: "tool_evidence \<Rightarrow> bool" where
  "positions_ok st \<longleftrightarrow> below (length (te_items st)) (te_indices st) \<and> below (length (te_items st)) (te_ids st)"

lemma below_put: "below n m \<Longrightarrow> i < n \<Longrightarrow> below n (put k i m)"
  by (auto simp: below_def put_def list_all_iff)

lemma below_Suc: "below n m \<Longrightarrow> below (Suc n) m"
  by (auto simp: below_def list_all_iff intro: less_SucI)

lemma below_map_of: "below n m \<Longrightarrow> map_of m k = Some i \<Longrightarrow> i < n"
  using map_of_SomeD [of m k i] by (force simp: below_def list_all_iff)

definition extends :: "tool_evidence \<Rightarrow> tool_evidence \<Rightarrow> bool" where
  "extends st st' \<longleftrightarrow> (te_uncertain st \<longrightarrow> te_uncertain st') \<and> te_terminal st' = te_terminal st \<and> te_result st' = te_result st \<and>
     length (te_items st) \<le> length (te_items st') \<and> (positions_ok st \<longrightarrow> positions_ok st') \<and>
     (\<forall>i < length (te_items st). ei_done (te_items st ! i) \<longrightarrow> te_uncertain st' \<or>
        ei_done (te_items st' ! i) \<and> ei_knowledge (te_items st' ! i) = ei_knowledge (te_items st ! i))"

lemma extends_refl [simp]: "extends st st"
  by (simp add: extends_def)

lemma extends_trans: "extends a b \<Longrightarrow> extends b c \<Longrightarrow> extends a c"
  unfolding extends_def by (metis order_trans less_le_trans)

lemma extends_doubt [simp]: "extends st (doubt st)" "extends st (doubt_if b st)"
  by (simp_all add: extends_def doubt_if_def doubt_def positions_ok_def)

lemma extends_doubt_if: "extends a b \<Longrightarrow> extends a (doubt_if p b)"
  by (rule extends_trans [OF _ extends_doubt(2)])

lemma extends_identity [simp]: "extends st (identity v st)"
  by (simp add: identity_def extends_def doubt_def positions_ok_def split: option.split)

lemma extends_set_item:
  assumes "i < length (te_items st) \<Longrightarrow> ei_done (te_items st ! i) \<Longrightarrow> ei_done x \<and> ei_knowledge x = ei_knowledge (te_items st ! i)"
  shows "extends st (set_item i x st)"
proof -
  have "ei_done ((te_items st)[i := x] ! j) \<and> ei_knowledge ((te_items st)[i := x] ! j) = ei_knowledge (te_items st ! j)"
    if "j < length (te_items st)" "ei_done (te_items st ! j)" for j
    using that assms by (cases "i = j") simp_all
  then show ?thesis by (simp add: extends_def set_item_def positions_ok_def)
qed

lemma extends_bind_item:
  assumes "positions_ok st" and "i < length (te_items st)" and "bind_item position ident i st = (st', r)"
  shows "extends st st'" and "r = Some j \<Longrightarrow> j < length (te_items st')" and "r = None \<Longrightarrow> te_uncertain st'"
proof -
  let ?item = "te_items st ! i"
  let ?item' = "?item\<lparr>ei_index := (if position = None then ei_index ?item else position), ei_id := (if ident = None then ei_id ?item else ident)\<rparr>"
  have one: "extends st (set_item i ?item' st)" by (rule extends_set_item) simp
  consider "st' = doubt st" "r = None" | ix ds where "st' = (set_item i ?item' st)\<lparr>te_indices := ix, te_ids := ds\<rparr>" "r = Some i"
      "below (length (te_items st)) ix" "below (length (te_items st)) ds"
    using assms by (auto simp: bind_item_def Let_def item_at_def positions_ok_def below_put split: if_splits option.splits)
  then show "extends st st'" "r = Some j \<Longrightarrow> j < length (te_items st')" "r = None \<Longrightarrow> te_uncertain st'"
    using one assms(2) by (cases; auto simp: extends_def positions_ok_def set_item_def doubt_def)+
qed

lemma if_chain: "(if a then x else if b then x else y) = z \<Longrightarrow> z = x \<or> y = z"
  by (simp split: if_splits)

lemma extends_associate:
  assumes "positions_ok st" and "associate idx identifier st = (st', r)"
  shows "extends st st'" and "r = Some j \<Longrightarrow> j < length (te_items st')" and "r = None \<Longrightarrow> te_uncertain st'"
proof -
  let ?new = "st\<lparr>te_items := te_items st @ [fresh_item], te_entries := Suc (te_entries st)\<rparr>"
  have new: "extends st ?new" "positions_ok ?new"
    using assms(1) by (auto simp: extends_def positions_ok_def below_Suc nth_append)
  let ?sel = "case Option.bind (safe_count idx) (map_of (te_indices st)) of Some i \<Rightarrow> Some i
      | None \<Rightarrow> Option.bind (text_of identifier) (map_of (te_ids st))"
  let ?bad = "idx \<noteq> None \<and> safe_count idx = None \<or> identifier \<noteq> None \<and> \<not> bounded_text identifier"
  let ?clash = "differs (Option.bind (safe_count idx) (map_of (te_indices st))) (Option.bind (text_of identifier) (map_of (te_ids st)))"
  let ?full = "tool_evidence_limit \<le> te_entries st"
  have pos: "i < length (te_items st)" if "?sel = Some i" for i
    using that assms(1) below_map_of [of "length (te_items st)" "te_indices st"] below_map_of [of "length (te_items st)" "te_ids st"]
    by (auto simp: positions_ok_def split: option.splits bind_splits)
  have run: "(if ?bad then (doubt st, None) else if ?clash then (doubt st, None) else case ?sel of
      Some i \<Rightarrow> bind_item (safe_count idx) (text_of identifier) i st
    | None \<Rightarrow> if ?full then (doubt st, None) else bind_item (safe_count idx) (text_of identifier) (length (te_items st)) ?new) = (st', r)"
    using assms(2) unfolding associate_def Let_def .
  consider "st' = doubt st" "r = None"
    | i p d where "i < length (te_items st)" "bind_item p d i st = (st', r)"
    | p d where "bind_item p d (length (te_items st)) ?new = (st', r)"
  proof (cases ?sel)
    case None
    have "st' = doubt st \<and> r = None \<or> bind_item (safe_count idx) (text_of identifier) (length (te_items st)) ?new = (st', r)"
      using if_chain [OF run [unfolded None option.case]] by (auto split: if_split_asm)
    then show ?thesis using that(1,3) by blast
  next
    case (Some i)
    have "st' = doubt st \<and> r = None \<or> bind_item (safe_count idx) (text_of identifier) i st = (st', r)"
      using if_chain [OF run [unfolded Some option.case]] by simp
    then show ?thesis using that(1) that(2) [OF pos [OF Some]] by blast
  qed
  then have "extends st st' \<and> (r = Some j \<longrightarrow> j < length (te_items st')) \<and> (r = None \<longrightarrow> te_uncertain st')"
  proof cases
    case 1
    then show ?thesis by simp (simp add: doubt_def)
  next
    case 2
    then show ?thesis using extends_bind_item [OF assms(1) 2] by blast
  next
    case 3
    have "length (te_items st) < length (te_items ?new)" by simp
    then show ?thesis using extends_bind_item [OF new(2) _ 3] extends_trans [OF new(1)] by blast
  qed
  then show "extends st st'" "r = Some j \<Longrightarrow> j < length (te_items st')" "r = None \<Longrightarrow> te_uncertain st'" by simp_all
qed

definition finding_kept :: "tool_knowledge \<Rightarrow> tool_evidence \<Rightarrow> bool" where
  "finding_kept k st \<longleftrightarrow> te_uncertain st \<or> (\<exists>x\<in>set (te_items st). ei_done x \<and> ei_knowledge x = Some k)"

lemma finding_kept_extends: "finding_kept k st \<Longrightarrow> extends st st' \<Longrightarrow> finding_kept k st'"
proof (cases "te_uncertain st'")
  case False
  assume a: "finding_kept k st" "extends st st'"
  then obtain i where i: "i < length (te_items st)" "ei_done (te_items st ! i)" "ei_knowledge (te_items st ! i) = Some k"
    using False by (auto simp: finding_kept_def extends_def in_set_conv_nth)
  then have "i < length (te_items st')" "ei_done (te_items st' ! i)" "ei_knowledge (te_items st' ! i) = Some k"
    using a(2) False by (auto simp: extends_def)
  then show ?thesis unfolding finding_kept_def by (metis nth_mem)
qed (simp add: finding_kept_def)

lemma positions_extends: "extends st st' \<Longrightarrow> positions_ok st \<Longrightarrow> positions_ok st'"
  by (simp add: extends_def)

lemma note_done_kept:
  assumes "i < length (te_items st)"
  shows "extends st (note_done k i st)" and "finding_kept k (note_done k i st)"
proof -
  let ?x = "te_items st ! i"
  let ?st' = "set_item i (?x\<lparr>ei_done := True, ei_knowledge := Some k\<rparr>) st"
  let ?bad = "ei_done ?x \<and> ei_knowledge ?x \<noteq> Some k \<or>
           (case ei_observed ?x of None \<Rightarrow> False | Some o' \<Rightarrow> tool_union o' k \<noteq> k)"
  have d: "note_done k i st = doubt_if ?bad ?st'" using assms by (simp add: note_done_def Let_def item_at_def)
  show "extends st (note_done k i st)"
  proof (cases "ei_done ?x \<and> ei_knowledge ?x \<noteq> Some k")
    case True
    then have "note_done k i st = doubt ?st'" unfolding d doubt_if_def by simp
    then show ?thesis by (simp add: extends_def doubt_def set_item_def positions_ok_def)
  next
    case False
    then show ?thesis unfolding d by (intro extends_doubt_if extends_set_item) auto
  qed
  show "finding_kept k (note_done k i st)" unfolding d
    using set_update_memI [OF assms] by (fastforce simp: finding_kept_def doubt_if_def doubt_def set_item_def)
qed

lemma extends_note_added: "i < length (te_items st) \<Longrightarrow> extends st (note_added v idx k i st)"
  unfolding note_added_def Let_def by (intro extends_doubt_if) (auto simp: item_at_def intro: extends_set_item)

lemma observe_item_kept:
  assumes "positions_ok st"
  shows "extends st (observe_item num item idx fin st)"
    and "fin \<Longrightarrow> finding_kept (case as_record item of None \<Rightarrow> UnknownTools | Some v \<Rightarrow> fst (item_knowledge num False v 0))
      (observe_item num item idx fin st)"
proof -
  have "extends st (observe_item num item idx fin st) \<and>
    (fin \<longrightarrow> finding_kept (case as_record item of None \<Rightarrow> UnknownTools | Some v \<Rightarrow> fst (item_knowledge num False v 0))
      (observe_item num item idx fin st))"
  proof (cases "as_record item")
    case None
    then show ?thesis by (simp add: observe_item_def finding_kept_def) (simp add: doubt_def)
  next
    case (Some v)
    obtain st1 r where a: "associate idx (member ''id'' v) st = (st1, r)" by (cases "associate idx (member ''id'' v) st")
    note as = extends_associate [OF assms a]
    show ?thesis
    proof (cases r)
      case None
      then show ?thesis using as Some a by (simp add: observe_item_def finding_kept_def)
    next
      case (Some i)
      have i: "i < length (te_items st1)" using as(2) Some by simp
      obtain k used where k: "item_knowledge num (\<not> fin) v 0 = (k, used)" by (cases "item_knowledge num (\<not> fin) v 0")
      let ?old = "te_items st1 ! i"
      let ?st2 = "doubt_if (ei_type ?old \<noteq> None \<and> \<not> strict_eq (ei_type ?old) (member ''type'' v))
        (set_item i (?old\<lparr>ei_type := member ''type'' v, ei_entries := max (ei_entries ?old) used\<rparr>) st1)"
      let ?n = "te_entries st1 + (used - ei_entries ?old)"
      let ?st3 = "doubt_if (tool_evidence_limit < ?n) (?st2\<lparr>te_entries := ?n\<rparr>)"
      have obs: "observe_item num item idx fin st = (if fin then note_done k i ?st3 else note_added v idx k i ?st3)"
        using a i k Some \<open>as_record item = Some v\<close> by (simp add: observe_item_def Let_def item_at_def)
      have two: "extends st1 ?st2" by (intro extends_doubt_if extends_set_item) simp
      have "extends ?st2 (?st2\<lparr>te_entries := ?n\<rparr>)" by (simp add: extends_def positions_ok_def)
      then have three: "extends st1 ?st3" by (intro extends_doubt_if extends_trans [OF two])
      then have i3: "i < length (te_items ?st3)" using i by (simp add: extends_def)
      have "extends ?st3 (observe_item num item idx fin st)"
        unfolding obs using note_done_kept(1) [OF i3] extends_note_added [OF i3] by simp
      moreover have "fin \<Longrightarrow> finding_kept k (observe_item num item idx fin st)"
        unfolding obs using note_done_kept(2) [OF i3] by simp
      moreover have "fin \<Longrightarrow> k = fst (item_knowledge num False v 0)" using k by simp
      ultimately show ?thesis using extends_trans [OF as(1) three] extends_trans \<open>as_record item = Some v\<close> by auto
    qed
  qed
  then show "extends st (observe_item num item idx fin st)"
    and "fin \<Longrightarrow> finding_kept (case as_record item of None \<Rightarrow> UnknownTools | Some v \<Rightarrow> fst (item_knowledge num False v 0))
      (observe_item num item idx fin st)" by simp_all
qed

lemma extends_ongoing: "positions_ok st \<Longrightarrow> extends st (ongoing num sse v response st)"
proof -
  assume ok: "positions_ok st"
  have "extends st (fst (associate x y (doubt_if b st)))" for b x y
  proof -
    obtain st' r where a: "associate x y (doubt_if b st) = (st', r)" by (cases "associate x y (doubt_if b st)")
    show ?thesis using extends_trans [OF extends_doubt(2) extends_associate(1) [OF positions_extends [OF extends_doubt(2) ok] a]] a by simp
  qed
  then show ?thesis unfolding ongoing_def Let_def by simp
qed

lemma extends_identified: "extends st (identified sse v st)"
  unfolding identified_def by (rule extends_trans [OF extends_identity extends_identity])

subsection \<open>A qualified result covers everything shown\<close>

text \<open>
  The reference reading of a stream: a finding for every malformed event and every finished item,
  up to the terminal event, whose output counts as one finding.
\<close>

definition output_finding :: "(rat \<Rightarrow> string) \<Rightarrow> json option \<Rightarrow> tool_knowledge list" where
  "output_finding num response = (case get ''output'' response of
     None \<Rightarrow> [] | Some (JArr outs) \<Rightarrow> [items_knowledge num outs TokenOnly 0] | Some _ \<Rightarrow> [UnknownTools])"

fun shown :: "(rat \<Rightarrow> string) \<Rightarrow> evidence_event list \<Rightarrow> tool_knowledge list" where
  "shown num [] = []"
| "shown num (Invalid # es) = UnknownTools # shown num es"
| "shown num (Accept v sse # es) =
     (if \<not> is_obj v then UnknownTools # shown num es
      else if item_event sse v then
        (if text_is (member ''type'' v) ''response.output_item.done''
         then [case as_record (member ''item'' v) of None \<Rightarrow> UnknownTools | Some w \<Rightarrow> fst (item_knowledge num False w 0)] else []) @ shown num es
      else if terminal_event sse v then output_finding num (response_of sse v)
      else shown num es)"

definition running :: "tool_evidence \<Rightarrow> bool" where
  "running st \<longleftrightarrow> \<not> te_terminal st \<and> te_result st = None \<and> positions_ok st"

definition concluded :: "tool_knowledge list \<Rightarrow> tool_evidence \<Rightarrow> bool" where
  "concluded ks st \<longleftrightarrow> te_terminal st \<and> (\<forall>r k. te_result st = Some (r, k) \<longrightarrow> k \<noteq> UnknownTools \<longrightarrow> list_all (\<lambda>j. subsumed j k) ks)"

lemma running_extends: "running st \<Longrightarrow> extends st st' \<Longrightarrow> running st'"
  by (simp add: running_def extends_def)

lemma doubt_if_sel [simp]:
  "te_items (doubt_if b st) = te_items st" "te_terminal (doubt_if b st) = te_terminal st" "te_response (doubt_if b st) = te_response st"
  "te_uncertain (doubt_if b st) = (te_uncertain st \<or> b)"
  by (simp_all add: doubt_if_def doubt_def)

lemma terminal_output_covers:
  assumes "terminal_output num sse response k st = (st', k')"
  shows "te_uncertain st \<Longrightarrow> te_uncertain st'" and "te_terminal st' = te_terminal st" and "te_response st' = te_response st"
    and "subsumed k k'" and "te_uncertain st' \<or> list_all (\<lambda>j. subsumed j k') (output_finding num response)"
proof -
  consider (none) "get ''output'' response = None" | (arr) outs where "get ''output'' response = Some (JArr outs)"
    | (other) v where "get ''output'' response = Some v" "\<nexists>outs. v = JArr outs" by (metis option.exhaust)
  then have "(te_uncertain st \<longrightarrow> te_uncertain st') \<and> te_terminal st' = te_terminal st \<and> te_response st' = te_response st \<and>
    subsumed k k' \<and> (te_uncertain st' \<or> list_all (\<lambda>j. subsumed j k') (output_finding num response))"
  proof cases
    case none
    then show ?thesis using assms by (auto simp: terminal_output_def output_finding_def)
  next
    case (arr outs)
    let ?s = "snapshot num outs 0 0 k st"
    have k: "snd ?s = items_knowledge num outs k 0" by (rule snapshot_knowledge)
    show ?thesis
    proof (cases "tool_evidence_limit < length outs")
      case True
      then show ?thesis using assms arr by (auto simp: terminal_output_def output_finding_def doubt_def Let_def)
    next
      case False
      then have "k' = snd ?s" "st' = doubt_if (length outs < length (te_items (fst ?s)) \<or>
          list_ex (\<lambda>x. case ei_index x of None \<Rightarrow> False | Some p \<Rightarrow> int (length outs) \<le> p) (te_items (fst ?s))) (fst ?s)"
        using assms arr by (auto simp: terminal_output_def Let_def split: prod.splits)
      then show ?thesis using arr k snapshot_state(1-3) [of num outs 0 0 k st] snapshot_state(4) [of st num outs 0 0 k] items_knowledge_base items_knowledge_mono [OF token_only_subsumed]
        by (simp add: output_finding_def)
    qed
  next
    case (other v)
    then show ?thesis using assms by (cases v) (auto simp: terminal_output_def doubt_def)
  qed
  then show "te_uncertain st \<Longrightarrow> te_uncertain st'" and "te_terminal st' = te_terminal st" and "te_response st' = te_response st"
    and "subsumed k k'" and "te_uncertain st' \<or> list_all (\<lambda>j. subsumed j k') (output_finding num response)" by simp_all
qed

lemma accept_terminal_concludes:
  assumes "list_all (\<lambda>j. finding_kept j st) ks"
  shows "concluded (base # ks @ output_finding num response) (accept_terminal num base sse completed response st)"
proof -
  define st2 where "st2 = doubt_if (list_ex (\<lambda>x. \<not> ei_done x) (te_items st)) (doubt_if (\<not> completed \<or> response = None \<or>
    \<not> bounded_text (get ''id'' response) \<or> te_response st = None \<or> \<not> sse \<and> \<not> text_is (get ''object'' response) ''response'') (st\<lparr>te_terminal := True\<rparr>))"
  have s2: "te_items st2 = te_items st" "te_terminal st2" "te_uncertain st \<longrightarrow> te_uncertain st2"
    by (simp_all add: st2_def)
  obtain st3 k where out: "terminal_output num sse response (done_knowledge st2 base) st2 = (st3, k)"
    by (cases "terminal_output num sse response (done_knowledge st2 base) st2")
  have acc: "accept_terminal num base sse completed response st =
      st3\<lparr>te_result := map_option (\<lambda>r. (r, if te_uncertain st3 then UnknownTools else k)) (te_response st3), te_items := [], te_indices := [], te_ids := []\<rparr>"
    using out [unfolded st2_def] unfolding accept_terminal_def Let_def doubt_if_sel by simp
  note c = terminal_output_covers [OF out]
  have "list_all (\<lambda>j. subsumed j k) (base # ks @ output_finding num response)" if "\<not> te_uncertain st3"
  proof -
    have nu: "\<not> te_uncertain st" using that c(1) s2(3) by blast
    have "subsumed j k" if jk: "j \<in> set ks" for j
    proof -
      obtain x where x: "x \<in> set (te_items st2)" "ei_done x" "ei_knowledge x = Some j"
        using assms jk nu s2(1) by (auto simp: list_all_iff finding_kept_def)
      from done_fold_item [OF x(1,2), of "\<lambda>x. case ei_knowledge x of None \<Rightarrow> TokenOnly | Some n \<Rightarrow> n" base]
      have "subsumed j (done_knowledge st2 base)" using x(3) by (simp add: done_knowledge_def)
      then show ?thesis using c(4) by (rule subsumed_trans)
    qed
    moreover have "subsumed base k" using subsumed_trans [OF done_fold_base c(4) [unfolded done_knowledge_def]] .
    ultimately show ?thesis using c(5) that by (auto simp: list_all_iff)
  qed
  then show ?thesis unfolding concluded_def acc using c(2) s2(2) by auto
qed

lemma step_after_terminal: "te_terminal st \<Longrightarrow> fold (evidence_step num base) es st = st"
  by (induction es) (simp_all add: evidence_step_def evidence_invalid_def evidence_accept_def split: evidence_event.split)

lemma kept_after: "list_all (\<lambda>j. finding_kept j st) ks \<Longrightarrow> extends st st' \<Longrightarrow> list_all (\<lambda>j. finding_kept j st') ks"
  by (auto simp: list_all_iff finding_kept_extends)

lemma stream_concludes:
  assumes "running st" and "list_all (\<lambda>j. finding_kept j st) ks"
  shows "running (fold (evidence_step num base) es st) \<or>
    concluded (base # ks @ shown num es) (fold (evidence_step num base) es st)"
  using assms
proof (induction es arbitrary: st ks)
  case (Cons e es)
  have ok: "positions_ok st" "\<not> te_terminal st" using Cons.prems(1) by (simp_all add: running_def)
  have more: ?case if "extends st (evidence_step num base e st)" "list_all (\<lambda>j. finding_kept j (evidence_step num base e st)) js"
      "shown num (e # es) = js @ shown num es" for js
    using Cons.IH [OF running_extends [OF Cons.prems(1) that(1)], of "ks @ js"] kept_after [OF Cons.prems(2) that(1)] that(2,3) by simp
  have doubted: ?case if "evidence_step num base e st = doubt st" "shown num (e # es) = UnknownTools # shown num es"
    by (rule more [of "[UnknownTools]"]) (use that in \<open>auto simp: finding_kept_def doubt_def [symmetric]\<close>, simp add: doubt_def)
  show ?case
  proof (cases e)
    case Invalid
    then show ?thesis using ok(2) by (intro doubted) (simp_all add: evidence_step_def evidence_invalid_def)
  next
    case (Accept v sse)
    let ?st1 = "identified sse v st"
    have ok1: "positions_ok ?st1" by (rule positions_extends [OF extends_identified ok(1)])
    consider (bad) "\<not> is_obj v" | (item) "is_obj v" "item_event sse v" | (going) "is_obj v" "\<not> item_event sse v" "\<not> terminal_event sse v"
      | (fin) "is_obj v" "\<not> item_event sse v" "terminal_event sse v" by blast
    then show ?thesis
    proof cases
      case bad
      then show ?thesis using Accept ok(2) by (intro doubted) (simp_all add: evidence_step_def evidence_accept_def)
    next
      case item
      let ?d = "text_is (member ''type'' v) ''response.output_item.done''"
      have step: "evidence_step num base e st = observe_item num (member ''item'' v) (member ''output_index'' v) ?d ?st1"
        using item Accept ok(2) by (simp add: evidence_step_def evidence_accept_def)
      let ?k = "case as_record (member ''item'' v) of None \<Rightarrow> UnknownTools | Some w \<Rightarrow> fst (item_knowledge num False w 0)"
      have ext: "extends st (evidence_step num base e st)"
        unfolding step by (rule extends_trans [OF extends_identified observe_item_kept(1) [OF ok1]])
      have kept: "?d \<Longrightarrow> finding_kept ?k (evidence_step num base e st)" unfolding step by (rule observe_item_kept(2) [OF ok1])
      show ?thesis
        by (rule more [where js = "if ?d then [?k] else []", OF ext]) (use item Accept kept in auto)
    next
      case going
      then have step: "evidence_step num base e st = ongoing num sse v (response_of sse v) ?st1"
        using Accept ok(2) by (simp add: evidence_step_def evidence_accept_def)
      have ext: "extends st (evidence_step num base e st)"
        unfolding step by (rule extends_trans [OF extends_identified extends_ongoing [OF ok1]])
      show ?thesis by (rule more [of "[]", OF ext]) (use going Accept in simp_all)
    next
      case fin
      then have step: "evidence_step num base e st = accept_terminal num base sse (completed_event sse v) (response_of sse v) ?st1"
        using Accept ok(2) by (simp add: evidence_step_def evidence_accept_def)
      have "concluded (base # ks @ shown num (e # es)) (evidence_step num base e st)"
        unfolding step using accept_terminal_concludes [OF kept_after [OF Cons.prems(2) extends_identified]] fin Accept by simp
      then show ?thesis using step_after_terminal by (simp add: concluded_def)
    qed
  qed
qed simp



end
