(* ===== verification/Hot_Cache.thy ===== *)
theory Hot_Cache
  imports Prelude
begin

section \<open>The hot cache\<close>

text \<open>
  \<open>worker/hot-cache.ts\<close>: the isolate's least-recently-used cache with bounded age, the
  publication tokens that fence loads against invalidation, the bounded register of background
  work, and the fence on entries shared by the data center (\<open>worker/colo-cache.ts\<close>). A
  publication is an object compared by identity: the model gives each a serial number. A missing
  expiry is \<open>Infinity\<close>. The clock is the argument \<open>now\<close>. Polling on timers
  (\<open>waitForOtherRequest\<close>, \<open>waitForPublication\<close>) only delays a caller and is not modelled; what
  a caller does between its awaits is one step.
\<close>

subsection \<open>Configuration\<close>

record hot_config =
  max_age :: rat
  fresh_age :: rat

definition hot_disabled :: hot_config where
  "hot_disabled = \<lparr>max_age = 0, fresh_age = 0\<rparr>"

text \<open>The setting: absent or blank, or the number its text stands for, which may not be finite.\<close>

definition hot_cache_config :: "rat option option \<Rightarrow> hot_config" where
  "hot_cache_config raw = (case (case raw of None \<Rightarrow> Some 60 | Some n \<Rightarrow> n) of
     None \<Rightarrow> hot_disabled
   | Some seconds \<Rightarrow> if seconds \<le> 0 then hot_disabled
       else (let m = min seconds 3600 * 1000 in \<lparr>max_age = m, fresh_age = min 10000 m\<rparr>))"

subsection \<open>State\<close>

record 'v cache_entry =
  en_value :: 'v
  en_stored :: int
  en_expires :: "int option"

record publication =
  pub_id :: nat
  pub_acquired :: int

record 'v hot_cache =
  hc_entries :: "(string \<times> 'v cache_entry) list"
  hc_publications :: "(string \<times> publication) list"
  hc_live :: "publication list"
  hc_limit :: nat
  hc_next :: nat
  hc_watermark :: int

definition new_cache :: "nat \<Rightarrow> 'v hot_cache" where
  "new_cache n = \<lparr>hc_entries = [], hc_publications = [], hc_live = [], hc_limit = n, hc_next = 0, hc_watermark = 0\<rparr>"

definition drop_key :: "string \<Rightarrow> (string \<times> 'a) list \<Rightarrow> (string \<times> 'a) list" where
  "drop_key k m = filter (\<lambda>e. fst e \<noteq> k) m"

definition drop_keys :: "(string \<Rightarrow> bool) \<Rightarrow> (string \<times> 'a) list \<Rightarrow> (string \<times> 'a) list" where
  "drop_keys p m = filter (\<lambda>e. \<not> p (fst e)) m"

definition outlived :: "int \<Rightarrow> int option \<Rightarrow> bool" where
  "outlived now e = (case e of None \<Rightarrow> False | Some t \<Rightarrow> t \<le> now)"

subsection \<open>Reading and writing\<close>

definition peek :: "int \<Rightarrow> hot_config \<Rightarrow> string \<Rightarrow> 'v hot_cache \<Rightarrow> ('v \<times> bool) option \<times> 'v hot_cache" where
  "peek now cfg k c =
     (if max_age cfg = 0 then (None, c)
      else case map_of (hc_entries c) k of
          None \<Rightarrow> (None, c)
        | Some e \<Rightarrow>
            if outlived now (en_expires e) \<or> max_age cfg \<le> of_int (now - en_stored e) \<or> now < en_stored e
            then (None, c\<lparr>hc_entries := drop_key k (hc_entries c)\<rparr>)
            else (Some (en_value e, of_int (now - en_stored e) < fresh_age cfg), c\<lparr>hc_entries := drop_key k (hc_entries c) @ [(k, e)]\<rparr>))"

text \<open>A store past the limit evicts the oldest entries.\<close>

definition keep_latest :: "nat \<Rightarrow> 'a list \<Rightarrow> 'a list" where
  "keep_latest n xs = drop (length xs - n) xs"

definition store_entry :: "string \<Rightarrow> 'v \<Rightarrow> hot_config \<Rightarrow> int option \<Rightarrow> int \<Rightarrow> 'v hot_cache \<Rightarrow> 'v hot_cache" where
  "store_entry k v cfg expires stored c =
     (if max_age cfg = 0 then c
      else if outlived stored expires then c\<lparr>hc_entries := drop_key k (hc_entries c)\<rparr>
      else c\<lparr>hc_entries := keep_latest (hc_limit c) (drop_key k (hc_entries c) @ [(k, \<lparr>en_value = v, en_stored = stored, en_expires = expires\<rparr>)]),
             hc_watermark := max (hc_watermark c) stored\<rparr>)"

definition cache_set :: "string \<Rightarrow> 'v \<Rightarrow> hot_config \<Rightarrow> int option \<Rightarrow> int \<Rightarrow> 'v hot_cache \<Rightarrow> 'v hot_cache" where
  "cache_set k v cfg expires stored c = store_entry k v cfg expires stored (c\<lparr>hc_publications := drop_key k (hc_publications c)\<rparr>)"

definition cache_delete :: "string \<Rightarrow> 'v hot_cache \<Rightarrow> 'v hot_cache" where
  "cache_delete k c = c\<lparr>hc_entries := drop_key k (hc_entries c), hc_publications := drop_key k (hc_publications c)\<rparr>"

definition delete_keys :: "(string \<Rightarrow> bool) \<Rightarrow> 'v hot_cache \<Rightarrow> 'v hot_cache" where
  "delete_keys p c = c\<lparr>hc_entries := drop_keys p (hc_entries c), hc_publications := drop_keys p (hc_publications c)\<rparr>"

definition cache_delete_where :: "(string \<Rightarrow> 'v \<Rightarrow> bool) \<Rightarrow> 'v hot_cache \<Rightarrow> 'v hot_cache" where
  "cache_delete_where p c = c\<lparr>hc_publications := [], hc_entries := filter (\<lambda>e. \<not> p (fst e) (en_value (snd e))) (hc_entries c)\<rparr>"

definition cache_clear :: "'v hot_cache \<Rightarrow> 'v hot_cache" where
  "cache_clear c = c\<lparr>hc_entries := [], hc_publications := []\<rparr>"

subsection \<open>Publications\<close>

definition owns_publication :: "string \<Rightarrow> publication option \<Rightarrow> 'v hot_cache \<Rightarrow> bool" where
  "owns_publication k p c \<longleftrightarrow> p \<noteq> None \<and> map_of (hc_publications c) k = p"

definition begin_publication :: "int \<Rightarrow> string \<Rightarrow> 'v hot_cache \<Rightarrow> publication option \<times> 'v hot_cache" where
  "begin_publication now k c =
     (let c1 = c\<lparr>hc_publications := drop_key k (hc_publications c)\<rparr>
      in if hc_limit c \<le> length (hc_live c) then (None, c1)
         else (let p = \<lparr>pub_id = hc_next c, pub_acquired = now\<rparr>
               in (Some p, c1\<lparr>hc_live := hc_live c @ [p], hc_publications := hc_publications c1 @ [(k, p)], hc_next := Suc (hc_next c),
                     hc_watermark := max (hc_watermark c) now\<rparr>)))"

definition end_publication :: "string \<Rightarrow> publication option \<Rightarrow> 'v hot_cache \<Rightarrow> 'v hot_cache" where
  "end_publication k p c = (case p of
     None \<Rightarrow> c
   | Some q \<Rightarrow> c\<lparr>hc_publications := (if owns_publication k p c then drop_key k (hc_publications c) else hc_publications c),
       hc_live := filter (\<lambda>x. x \<noteq> q) (hc_live c)\<rparr>)"

definition publish :: "string \<Rightarrow> publication option \<Rightarrow> 'v \<Rightarrow> hot_config \<Rightarrow> int option \<Rightarrow> int \<Rightarrow> 'v hot_cache \<Rightarrow> bool \<times> 'v hot_cache" where
  "publish k p v cfg expires stored c =
     (if owns_publication k p c then (True, store_entry k v cfg expires stored c) else (False, c))"

definition discard_published :: "string \<Rightarrow> publication option \<Rightarrow> 'v hot_cache \<Rightarrow> 'v hot_cache" where
  "discard_published k p c = (if owns_publication k p c then c\<lparr>hc_entries := drop_key k (hc_entries c)\<rparr> else c)"

record 'v loaded =
  ld_value :: 'v
  ld_cacheable :: bool
  ld_expires :: "int option"
  ld_stored :: "int option"

text \<open>The end of a load: publish or discard, then give up the publication.\<close>

definition finish_load :: "int \<Rightarrow> hot_config \<Rightarrow> string \<Rightarrow> publication option \<Rightarrow> 'v loaded \<Rightarrow> 'v hot_cache \<Rightarrow> 'v hot_cache" where
  "finish_load now cfg k p l c =
     (let stored = (case ld_stored l of Some t \<Rightarrow> t | None \<Rightarrow> (case p of Some q \<Rightarrow> pub_acquired q | None \<Rightarrow> now))
      in end_publication k p (if ld_cacheable l then snd (publish k p (ld_value l) cfg (ld_expires l) stored c) else discard_published k p c))"

definition fail_load :: "string \<Rightarrow> publication option \<Rightarrow> 'v hot_cache \<Rightarrow> 'v hot_cache" where
  "fail_load k p c = end_publication k p c"

datatype 'v get_decision = Off | Hit 'v | StaleHit 'v bool | Miss

text \<open>What \<open>get\<close> decides before any await: a stale value starts a refresh unless one is running.\<close>

definition get_decide :: "int \<Rightarrow> hot_config \<Rightarrow> string \<Rightarrow> 'v hot_cache \<Rightarrow> 'v get_decision \<times> 'v hot_cache" where
  "get_decide now cfg k c =
     (if max_age cfg = 0 then (Off, c)
      else case peek now cfg k c of
          (Some (v, True), c1) \<Rightarrow> (Hit v, c1)
        | (Some (v, False), c1) \<Rightarrow> (StaleHit v (map_of (hc_publications c1) k = None), c1)
        | (None, c1) \<Rightarrow> (Miss, c1))"

subsection \<open>Background work\<close>

definition background_work_limit :: nat where "background_work_limit = 64"
definition background_work_bound_ms :: int where "background_work_bound_ms = 25000"

record background_work =
  bw_seq :: nat
  bw_running :: "(nat \<times> int) list"

definition try_run_in_background :: "int \<Rightarrow> background_work \<Rightarrow> nat option \<times> background_work" where
  "try_run_in_background now b =
     (if background_work_limit \<le> length (bw_running b) then (None, b)
      else (Some (Suc (bw_seq b)), b\<lparr>bw_seq := Suc (bw_seq b), bw_running := bw_running b @ [(Suc (bw_seq b), now)]\<rparr>))"

definition work_settled :: "nat \<Rightarrow> background_work \<Rightarrow> background_work" where
  "work_settled i b = b\<lparr>bw_running := filter (\<lambda>e. fst e \<noteq> i) (bw_running b)\<rparr>"

definition pending_cohort :: "nat \<Rightarrow> background_work \<Rightarrow> (nat \<times> int) list" where
  "pending_cohort since b = map (\<lambda>(i, t). (i, t + background_work_bound_ms)) (filter (\<lambda>e. since < fst e) (bw_running b))"

definition cohort_drained :: "int \<Rightarrow> (nat \<times> int) list \<Rightarrow> background_work \<Rightarrow> bool" where
  "cohort_drained now cohort b = list_all (\<lambda>(i, until). i \<notin> fst ` set (bw_running b) \<or> until \<le> now) cohort"

subsection \<open>The shared fence\<close>

definition fence_shared :: "int \<Rightarrow> 'v hot_cache \<Rightarrow> int \<Rightarrow> int" where
  "fence_shared now c fence = max fence (max (hc_watermark c) now)"

definition colo_usable :: "int \<Rightarrow> hot_config \<Rightarrow> int \<Rightarrow> int \<Rightarrow> bool" where
  "colo_usable now cfg fetched fence \<longleftrightarrow> max_age cfg \<noteq> 0 \<and> fetched \<le> now \<and> of_int (now - fetched) < max_age cfg \<and> fence < fetched"

definition colo_ttl :: "int \<Rightarrow> hot_config \<Rightarrow> int \<Rightarrow> int" where
  "colo_ttl now cfg fetched = max 1 \<lceil>(max_age cfg - of_int (now - fetched)) / 1000\<rceil>"

subsection \<open>Steps\<close>

datatype 'v cache_op =
    Peek string
  | Set string 'v "int option" int
  | Delete string
  | DeleteKeys "string \<Rightarrow> bool"
  | DeleteWhere "string \<Rightarrow> 'v \<Rightarrow> bool"
  | Clear
  | Begin string
  | Finish string "publication option" "'v loaded"
  | Fail string "publication option"

definition cache_step :: "hot_config \<Rightarrow> 'v cache_op \<Rightarrow> int \<Rightarrow> 'v hot_cache \<Rightarrow> 'v hot_cache" where
  "cache_step cfg x now c = (case x of
     Peek k \<Rightarrow> snd (peek now cfg k c)
   | Set k v e t \<Rightarrow> cache_set k v cfg e t c
   | Delete k \<Rightarrow> cache_delete k c
   | DeleteKeys p \<Rightarrow> delete_keys p c
   | DeleteWhere p \<Rightarrow> cache_delete_where p c
   | Clear \<Rightarrow> cache_clear c
   | Begin k \<Rightarrow> snd (begin_publication now k c)
   | Finish k p l \<Rightarrow> finish_load now cfg k p l c
   | Fail k p \<Rightarrow> fail_load k p c)"

definition cache_run :: "hot_config \<Rightarrow> ('v cache_op \<times> int) list \<Rightarrow> 'v hot_cache \<Rightarrow> 'v hot_cache" where
  "cache_run cfg xs c = fold (\<lambda>(x, t). cache_step cfg x t) xs c"

subsection \<open>Bounds and keys\<close>

definition unique_keys :: "(string \<times> 'a) list \<Rightarrow> bool" where
  "unique_keys m = distinct (map fst m)"

lemma unique_filter [simp]: "unique_keys m \<Longrightarrow> unique_keys (filter p m)"
  by (simp add: unique_keys_def distinct_map_filter)

lemma unique_drop_key [simp]: "unique_keys m \<Longrightarrow> unique_keys (drop_key k m)" "unique_keys m \<Longrightarrow> unique_keys (drop_keys q m)"
  by (simp_all add: drop_key_def drop_keys_def)

lemma unique_append: "unique_keys m \<Longrightarrow> unique_keys (drop_key k m @ [(k, v)])"
  by (auto simp: unique_keys_def drop_key_def distinct_map_filter)

lemma unique_latest [simp]: "unique_keys m \<Longrightarrow> unique_keys (keep_latest n m)"
  by (simp add: keep_latest_def unique_keys_def drop_map [symmetric] distinct_drop)

lemma length_latest [simp]: "length (keep_latest n m) \<le> n"
  by (simp add: keep_latest_def)

lemma map_of_drop_key [simp]: "map_of (drop_key k m) j = (if j = k then None else map_of m j)"
  unfolding drop_key_def by (induction m) auto

lemma map_of_drop_keys [simp]: "map_of (drop_keys p m) j = (if p j then None else map_of m j)"
  unfolding drop_keys_def by (induction m) auto

lemma map_of_put: "map_of (drop_key k m @ [(k, v)]) j = (if j = k then Some v else map_of m j)"
  by (simp add: map_add_def split: option.split)

lemma map_of_filter_Some: "unique_keys m \<Longrightarrow> map_of (filter p m) k = Some v \<Longrightarrow> map_of m k = Some v"
  by (metis map_of_SomeD map_of_eq_Some_iff unique_keys_def filter_is_subset subsetD)

lemma map_of_latest_Some: "unique_keys m \<Longrightarrow> map_of (keep_latest n m) k = Some v \<Longrightarrow> map_of m k = Some v"
  unfolding keep_latest_def by (metis map_of_SomeD map_of_eq_Some_iff unique_keys_def in_set_dropD)

lemma length_drop_key: "length (drop_key k m) \<le> length m"
  by (simp add: drop_key_def)

lemma length_drop_key_less: "map_of m k \<noteq> None \<Longrightarrow> length (drop_key k m) < length m"
  using length_filter_less [of "(k, the (map_of m k))" m "\<lambda>e. fst e \<noteq> k"] map_of_SomeD [of m k "the (map_of m k)"] by (auto simp: drop_key_def)

definition cache_ok :: "'v hot_cache \<Rightarrow> bool" where
  "cache_ok c \<longleftrightarrow> unique_keys (hc_entries c) \<and> unique_keys (hc_publications c) \<and>
     length (hc_entries c) \<le> hc_limit c \<and> length (hc_live c) \<le> hc_limit c"

lemmas cache_op_defs = cache_step_def peek_def cache_set_def store_entry_def cache_delete_def delete_keys_def cache_delete_where_def
  cache_clear_def begin_publication_def finish_load_def fail_load_def end_publication_def publish_def discard_published_def Let_def

lemma store_entry_ok: "cache_ok c \<Longrightarrow> cache_ok (store_entry k v cfg expires stored c)"
  by (auto simp: cache_ok_def store_entry_def unique_append intro: order_trans [OF length_drop_key])

lemma end_publication_ok: "cache_ok c \<Longrightarrow> cache_ok (end_publication k p c)"
  by (auto simp: cache_ok_def end_publication_def split: option.split intro: order_trans [OF length_filter_le])

lemma peek_ok: "cache_ok c \<Longrightarrow> cache_ok (snd (peek now cfg k c))"
  using length_drop_key_less [of "hc_entries c" k]
  by (auto simp: cache_ok_def peek_def unique_append split: option.split intro: order_trans [OF length_drop_key])

lemma cache_step_ok:
  assumes "cache_ok c"
  shows "cache_ok (cache_step cfg x now c)"
proof (cases x)
  case (Set k v e t)
  have "cache_ok (c\<lparr>hc_publications := drop_key k (hc_publications c)\<rparr>)" using assms by (simp add: cache_ok_def)
  then show ?thesis using Set by (simp add: cache_step_def cache_set_def store_entry_ok)
next
  case (Finish k p l)
  have "cache_ok (discard_published k p c)" using assms
    by (auto simp: cache_ok_def discard_published_def intro: order_trans [OF length_drop_key])
  then show ?thesis using Finish assms
    by (simp add: cache_step_def finish_load_def Let_def publish_def end_publication_ok store_entry_ok)
next
  case (Begin k)
  then show ?thesis using assms by (simp add: cache_ok_def cache_step_def begin_publication_def Let_def unique_append)
next
  case (Peek k)
  then show ?thesis using peek_ok [OF assms] by (simp add: cache_step_def)
next
  case (Fail k p)
  then show ?thesis using end_publication_ok [OF assms] by (simp add: cache_step_def fail_load_def)
qed (use assms in \<open>auto simp: cache_ok_def cache_step_def cache_delete_def delete_keys_def cache_delete_where_def cache_clear_def drop_keys_def
    unique_keys_def distinct_map_filter intro: order_trans [OF length_drop_key] order_trans [OF length_filter_le] unique_drop_key [unfolded unique_keys_def]\<close>)

lemma cache_run_ok: "cache_ok c \<Longrightarrow> cache_ok (cache_run cfg xs c)"
  unfolding cache_run_def by (induction xs arbitrary: c) (auto simp: cache_step_ok)

lemma cache_run_snoc [simp]: "cache_run cfg (xs @ [(x, t)]) c = cache_step cfg x t (cache_run cfg xs c)"
  by (simp add: cache_run_def)

subsection \<open>Invalidation fences older loads\<close>

text \<open>An operation that invalidates a key: its entry and its publication right are gone.\<close>

fun invalidates :: "string \<Rightarrow> 'v cache_op \<Rightarrow> bool" where
  "invalidates k (Delete j) = (j = k)"
| "invalidates k (DeleteKeys p) = p k"
| "invalidates k Clear = True"
| "invalidates k _ = False"

text \<open>Where an entry may come from: a direct store, or a load whose publication is not older than \<open>n\<close>.\<close>

definition comes_from :: "nat \<Rightarrow> string \<Rightarrow> ('v cache_op \<times> int) list \<Rightarrow> 'v cache_entry \<Rightarrow> bool" where
  "comes_from n k xs e \<longleftrightarrow>
     (\<exists>t. (Set k (en_value e) (en_expires e) (en_stored e), t) \<in> set xs) \<or>
     (\<exists>p l t. (Finish k (Some p) l, t) \<in> set xs \<and> n \<le> pub_id p \<and> ld_cacheable l \<and> ld_value l = en_value e)"

definition fenced :: "nat \<Rightarrow> string \<Rightarrow> ('v cache_op \<times> int) list \<Rightarrow> 'v hot_cache \<Rightarrow> bool" where
  "fenced n k xs c \<longleftrightarrow> n \<le> hc_next c \<and> (\<forall>p. map_of (hc_publications c) k = Some p \<longrightarrow> n \<le> pub_id p) \<and>
     (\<forall>e. map_of (hc_entries c) k = Some e \<longrightarrow> comes_from n k xs e)"

lemma comes_from_more: "comes_from n k xs e \<Longrightarrow> comes_from n k (xs @ ys) e"
  unfolding comes_from_def by auto

lemma store_entry_other: "hc_publications (store_entry j v cfg e t c) = hc_publications c" "hc_next (store_entry j v cfg e t c) = hc_next c"
  by (simp_all add: store_entry_def)

lemma store_entry_Some:
  assumes "cache_ok c" and "map_of (hc_entries (store_entry j v cfg e t c)) k = Some x"
  shows "map_of (hc_entries c) k = Some x \<or> k = j \<and> x = \<lparr>en_value = v, en_stored = t, en_expires = e\<rparr>"
proof -
  have u: "unique_keys (drop_key j (hc_entries c) @ [(j, \<lparr>en_value = v, en_stored = t, en_expires = e\<rparr>)])"
    using assms(1) by (intro unique_append) (simp add: cache_ok_def)
  show ?thesis using assms(2) map_of_latest_Some [OF u, of "hc_limit c" k x] by (auto simp: store_entry_def map_of_put split: if_splits)
qed

lemma end_publication_keeps: "hc_entries (end_publication j p c) = hc_entries c" "hc_next (end_publication j p c) = hc_next c"
  "map_of (hc_publications (end_publication j p c)) k = Some q \<Longrightarrow> map_of (hc_publications c) k = Some q"
  by (auto simp: end_publication_def split: option.splits if_splits)

lemma fenced_Finish:
  assumes "cache_ok c" and "fenced n k xs c"
  shows "fenced n k (xs @ [(Finish j p l, t)]) (cache_step cfg (Finish j p l) t c)"
proof -
  define c1 where "c1 = (if ld_cacheable l then snd (publish j p (ld_value l) cfg (ld_expires l)
    (case ld_stored l of Some t \<Rightarrow> t | None \<Rightarrow> (case p of Some q \<Rightarrow> pub_acquired q | None \<Rightarrow> t)) c) else discard_published j p c)"
  have step: "cache_step cfg (Finish j p l) t c = end_publication j p c1"
    by (simp add: cache_step_def finish_load_def Let_def c1_def)
  have same: "hc_publications c1 = hc_publications c" "hc_next c1 = hc_next c"
    by (auto simp: c1_def publish_def discard_published_def store_entry_other)
  have "comes_from n k (xs @ [(Finish j p l, t)]) e" if e: "map_of (hc_entries c1) k = Some e" for e
  proof (cases "map_of (hc_entries c) k = Some e")
    case True
    then show ?thesis using assms(2) comes_from_more by (auto simp: fenced_def)
  next
    case False
    then obtain s where c: "owns_publication j p c" "ld_cacheable l" "map_of (hc_entries (store_entry j (ld_value l) cfg (ld_expires l) s c)) k = Some e"
      using e by (auto simp: c1_def publish_def discard_published_def split: if_splits)
    have own: "owns_publication j p c" "ld_cacheable l" "k = j" "en_value e = ld_value l"
      using c(1,2) store_entry_Some [OF assms(1) c(3)] False by auto
    then obtain q where "p = Some q" "map_of (hc_publications c) k = Some q" by (auto simp: owns_publication_def)
    then have "(Finish k (Some q) l, t) \<in> set (xs @ [(Finish j p l, t)]) \<and> n \<le> pub_id q \<and> ld_cacheable l \<and> ld_value l = en_value e"
      using own assms(2) by (simp add: fenced_def)
    then show ?thesis unfolding comes_from_def by blast
  qed
  then show ?thesis using assms(2) same end_publication_keeps [of j p c1] unfolding fenced_def step by simp
qed

lemma fenced_step:
  assumes "cache_ok c" and "fenced n k xs c"
  shows "fenced n k (xs @ [(x, t)]) (cache_step cfg x t c)"
proof -
  have more: "map_of (hc_entries c) k = Some e \<Longrightarrow> comes_from n k (xs @ [(x, t)]) e" for e
    using assms(2) comes_from_more by (auto simp: fenced_def)
  have f: "n \<le> hc_next c" "map_of (hc_publications c) k = Some p \<Longrightarrow> n \<le> pub_id p" for p using assms(2) by (simp_all add: fenced_def)
  show ?thesis
  proof (cases x)
    case (Peek j)
    have "map_of (hc_entries (snd (peek t cfg j c))) k = Some e \<Longrightarrow> map_of (hc_entries c) k = Some e" for e
      by (auto simp: peek_def map_of_put split: option.splits if_splits)
    moreover have "hc_publications (snd (peek t cfg j c)) = hc_publications c" "hc_next (snd (peek t cfg j c)) = hc_next c"
      by (auto simp: peek_def split: option.splits)
    ultimately show ?thesis using Peek more f by (simp add: fenced_def cache_step_def)
  next
    case (Set j v e s)
    have ok: "cache_ok (c\<lparr>hc_publications := drop_key j (hc_publications c)\<rparr>)" using assms(1) by (simp add: cache_ok_def)
    have "comes_from n k (xs @ [(x, t)]) y" if "map_of (hc_entries (cache_set j v cfg e s c)) k = Some y" for y
      using store_entry_Some [OF ok, of j v cfg e s k y] that more [of y] Set by (auto simp: cache_set_def comes_from_def)
    then show ?thesis using Set f by (simp add: fenced_def cache_step_def cache_set_def store_entry_other)
  next
    case (DeleteWhere p)
    have "map_of (filter (\<lambda>e. \<not> p (fst e) (en_value (snd e))) (hc_entries c)) k = Some e \<Longrightarrow> map_of (hc_entries c) k = Some e" for e
      using assms(1) map_of_filter_Some by (auto simp: cache_ok_def)
    then show ?thesis using DeleteWhere more f by (simp add: fenced_def cache_step_def cache_delete_where_def)
  next
    case (Begin j)
    have u: "unique_keys (hc_publications c)" using assms(1) by (simp add: cache_ok_def)
    have "map_of (hc_publications (snd (begin_publication t j c))) k = Some p \<Longrightarrow> n \<le> pub_id p" for p
      using f by (auto simp: begin_publication_def Let_def map_of_put split: if_splits)
    then show ?thesis using Begin more f by (auto simp: fenced_def cache_step_def begin_publication_def Let_def)
  next
    case (Finish j p l)
    then show ?thesis using fenced_Finish [OF assms] by simp
  next
    case (Fail j p)
    then show ?thesis using more f end_publication_keeps [of j p c] by (simp add: fenced_def cache_step_def fail_load_def)
  qed (use more f in \<open>simp_all add: fenced_def cache_step_def cache_delete_def delete_keys_def cache_clear_def\<close>)
qed

lemma fenced_run:
  assumes "cache_ok c" and "fenced n k [] c"
  shows "fenced n k xs (cache_run cfg xs c)"
proof (induction xs rule: rev_induct)
  case Nil
  then show ?case using assms(2) by (simp add: cache_run_def)
next
  case (snoc a xs)
  obtain x t where "a = (x, t)" by (cases a)
  then show ?case using fenced_step [OF cache_run_ok [OF assms(1)] snoc] by simp
qed

text \<open>
  C23. Invalidation fences the loads it interrupts: whatever cache operations run, an entry found
  after a key was invalidated was stored directly since, or by a load that began after the
  invalidation. A load that was already running can finish, but cannot publish what it read.
\<close>

theorem invalidation_fences_older_loads:
  assumes "invalidates k x" and "c = cache_run cfg xs (new_cache limit)"
    and "map_of (hc_entries (cache_run cfg ys (cache_step cfg x t c))) k = Some e"
  shows "comes_from (hc_next c) k ys e"
proof -
  have ok: "cache_ok c" unfolding assms(2) by (rule cache_run_ok) (simp add: cache_ok_def new_cache_def unique_keys_def)
  have "fenced (hc_next c) k [] (cache_step cfg x t c)"
    using assms(1) by (cases x) (auto simp: fenced_def cache_step_def cache_delete_def delete_keys_def cache_clear_def)
  from fenced_run [OF cache_step_ok [OF ok] this] assms(3) show ?thesis by (auto simp: fenced_def)
qed

text \<open>The cache never holds more entries than its limit, nor more live publications.\<close>

theorem cache_is_bounded:
  "length (hc_entries (cache_run cfg xs (new_cache limit))) \<le> limit \<and> length (hc_live (cache_run cfg xs (new_cache limit))) \<le> limit"
proof -
  have lim: "hc_limit (cache_step cfg x t c) = hc_limit c" for x t and c :: "'a hot_cache"
    by (auto simp: cache_op_defs split: cache_op.splits option.splits)
  have "hc_limit (cache_run cfg xs (new_cache limit)) = limit"
    by (induction xs rule: rev_induct) (auto simp: cache_run_def new_cache_def lim)
  moreover have "cache_ok (cache_run cfg xs (new_cache limit))"
    by (rule cache_run_ok) (simp add: cache_ok_def new_cache_def unique_keys_def)
  ultimately show ?thesis by (simp add: cache_ok_def)
qed

definition sample_config :: hot_config where "sample_config = hot_cache_config None"
definition sample_load :: "string \<Rightarrow> string loaded" where
  "sample_load v = \<lparr>ld_value = v, ld_cacheable = True, ld_expires = None, ld_stored = None\<rparr>"

text \<open>A load that began before the deletion finishes after it without effect; the next load publishes.\<close>

theorem invalidation_fences_older_loads_witness:
  "comes_from 1 ''k'' [(Finish ''k'' (Some \<lparr>pub_id = 0, pub_acquired = 1\<rparr>) (sample_load ''old''), 3), (Begin ''k'', 4),
     (Finish ''k'' (Some \<lparr>pub_id = 1, pub_acquired = 4\<rparr>) (sample_load ''new''), 5)] \<lparr>en_value = ''new'', en_stored = 4, en_expires = None\<rparr>"
proof -
  let ?c = "cache_run sample_config [(Begin ''k'', 1)] (new_cache 4) :: string hot_cache"
  have "hc_next ?c = 1" by code_simp
  moreover have "comes_from (hc_next ?c) ''k'' [(Finish ''k'' (Some \<lparr>pub_id = 0, pub_acquired = 1\<rparr>) (sample_load ''old''), 3), (Begin ''k'', 4),
     (Finish ''k'' (Some \<lparr>pub_id = 1, pub_acquired = 4\<rparr>) (sample_load ''new''), 5)] \<lparr>en_value = ''new'', en_stored = 4, en_expires = None\<rparr>"
    by (rule invalidation_fences_older_loads [where x = "Delete ''k''" and t = 2 and cfg = sample_config]) (simp, rule refl, code_simp)
  ultimately show ?thesis by simp
qed

end
