(* ===== verification/Request_Tariff.thy ===== *)
theory Request_Tariff
  imports Card_Rules
begin

section \<open>Request tariffs\<close>

text \<open>
  \<open>shared/request-pricing.ts\<close> (a policy's fixed prices), \<open>worker/request-tariff.ts\<close> (the tariff an
  operation declares, frozen at admission, its settlement and the inspection of its receipt), the request
  check of \<open>worker/xai-images.ts\<close> that an image tariff is selected by, and
  \<open>worker/upstream-billing-outcome.ts\<close>. A declared price is a JSON value, because the source checks
  every member of it. \<open>clean_url\<close> stands for \<open>new URL\<close> on an image reference: the text is an
  absolute https URL without user, password and fragment. \<open>num\<close> is the text of a number.
\<close>

subsection \<open>Prices a policy fixes\<close>

definition policy_request_cost :: "int option \<Rightarrow> (string \<Rightarrow> int option) option \<Rightarrow> string \<Rightarrow> int option" where
  "policy_request_cost request_cost request_costs capability =
     (case Option.bind request_costs (\<lambda>m. m capability) of Some n \<Rightarrow> Some n | None \<Rightarrow> request_cost)"

definition lower_letter :: "char \<Rightarrow> bool" where
  "lower_letter c \<longleftrightarrow> 97 \<le> (of_char c :: nat) \<and> (of_char c :: nat) \<le> 122"

fun segments :: "string \<Rightarrow> string list" where
  "segments [] = [[]]"
| "segments (c # s) = (if c = CHR ''.'' then [] # segments s
     else case segments s of x # xs \<Rightarrow> (c # x) # xs | [] \<Rightarrow> [[c]])"

text \<open>\<^verbatim>\<open>^[a-z][a-z0-9_]*(?:\.[a-z][a-z0-9_]*)+$\<close>: two or more dotted names.\<close>

definition capability_text :: "string \<Rightarrow> bool" where
  "capability_text s \<longleftrightarrow> 2 \<le> length (segments s) \<and>
     list_all (\<lambda>x. x \<noteq> [] \<and> lower_letter (hd x) \<and> list_all (\<lambda>c. lower_letter c \<or> is_digit c \<or> c = CHR ''_'') x) (segments s)"

definition bad_costs :: error where "bad_costs = Thrown ''requestCostsMicros''"

fun normalize_cost_entries :: "(string \<times> json) list \<Rightarrow> (string \<times> int) list result" where
  "normalize_cost_entries [] = Inr []"
| "normalize_cost_entries ((k, v) # rest) =
     (if \<not> capability_text k \<or> 128 < length k then Inl bad_costs
      else case safe_count (Some v) of
          None \<Rightarrow> Inl bad_costs
        | Some n \<Rightarrow> rbind (normalize_cost_entries rest) (\<lambda>r. Inr ((k, n) # r)))"

definition normalize_request_costs :: "json option \<Rightarrow> (string \<times> int) list option result" where
  "normalize_request_costs value =
     (if nullish value then Inr None
      else case value of
          Some (JObj kvs) \<Rightarrow> if 64 < length kvs then Inl bad_costs else rbind (normalize_cost_entries kvs) (\<lambda>r. Inr (Some r))
        | _ \<Rightarrow> Inl bad_costs)"

subsection \<open>Image requests a tariff selects\<close>

definition xai_image_models :: "string list" where
  "xai_image_models = [''grok-imagine-image'', ''grok-imagine-image-2.0'', ''grok-imagine-image-quality'']"

definition xai_aspects :: "string list" where
  "xai_aspects = [''1:1'', ''16:9'', ''9:16'', ''4:3'', ''3:4'', ''3:2'', ''2:3'', ''2:1'', ''1:2'', ''19.5:9'', ''9:19.5'', ''20:9'', ''9:20'']"

definition max_image_bytes :: int where "max_image_bytes = 8 * 1024 * 1024"
definition max_images_bytes :: int where "max_images_bytes = 16 * 1024 * 1024"
definition max_envelope_bytes :: int where "max_envelope_bytes = 24 * 1024 * 1024"

definition xai_fail :: "string \<Rightarrow> error" where
  "xai_fail reason = Thrown (''invalid_xai_image_'' @ reason)"

definition base64_letter :: "char \<Rightarrow> bool" where
  "base64_letter c \<longleftrightarrow> is_digit c \<or> lower_letter c \<or> 65 \<le> (of_char c :: nat) \<and> (of_char c :: nat) \<le> 90 \<or> c = CHR ''+'' \<or> c = CHR ''/''"

text \<open>\<open>bytes\<close>: canonical base64 (unused low bits are zero, so encoding the bytes gives the text back).\<close>

definition canonical_tail :: "string \<Rightarrow> bool" where
  "canonical_tail s \<longleftrightarrow> (let code = sextet (code_at s (length s - padding s - 1))
     in if padding s = 1 then code mod 4 = 0 else if padding s = 2 then code mod 16 = 0 else True)"

definition xai_bytes :: "json option \<Rightarrow> int result" where
  "xai_bytes value = (case value of
     Some (JStr s) \<Rightarrow>
       if s = [] \<or> (max_image_bytes + 2) div 3 * 4 < int (length s) \<or> length s mod 4 \<noteq> 0 \<or>
          \<not> list_all base64_letter (take (length s - padding s) s) then Inl (xai_fail ''base64'')
       else if reader_length s = 0 \<or> max_image_bytes < int (reader_length s) \<or> \<not> canonical_tail s then Inl (xai_fail ''base64'')
       else Inr (int (reader_length s))
   | _ \<Rightarrow> Inl (xai_fail ''base64''))"

definition only_keys :: "string list \<Rightarrow> json \<Rightarrow> bool" where
  "only_keys allowed j = list_all (\<lambda>kv. fst kv \<in> set allowed) (entries j)"

definition data_payload :: "string \<Rightarrow> string option" where
  "data_payload url = map_option (\<lambda>p. drop (length p) url)
     (find (\<lambda>p. starts_with p url \<and> length p < length url) [''data:image/png;base64,'', ''data:image/jpeg;base64,'', ''data:image/webp;base64,''])"

definition xai_reference :: "(string \<Rightarrow> bool) \<Rightarrow> json \<Rightarrow> int result" where
  "xai_reference clean_url input =
     (if \<not> is_obj input then Inl (xai_fail ''object'')
      else if \<not> only_keys [''url'', ''type''] input then Inl (xai_fail ''fields'')
      else case member ''url'' input of
          Some (JStr url) \<Rightarrow>
            if \<not> text_is (member ''type'' input) ''image_url'' then Inl (xai_fail ''image'')
            else if starts_with ''data:'' url
            then (case data_payload url of None \<Rightarrow> Inl (xai_fail ''image'') | Some payload \<Rightarrow> xai_bytes (Some (JStr payload)))
            else if 8192 < utf16_length url \<or> \<not> clean_url url then Inl (xai_fail ''image_url'') else Inr 0
        | _ \<Rightarrow> Inl (xai_fail ''image''))"

fun xai_references :: "(string \<Rightarrow> bool) \<Rightarrow> int \<Rightarrow> json list \<Rightarrow> int result" where
  "xai_references clean_url n [] = Inr n"
| "xai_references clean_url n (x # xs) = rbind (xai_reference clean_url x) (\<lambda>k.
     if max_images_bytes < n + k then Inl (xai_fail ''input_limit'') else xai_references clean_url (n + k) xs)"

definition xai_inputs :: "bool \<Rightarrow> json \<Rightarrow> json list result" where
  "xai_inputs edit body =
     (if \<not> edit then if has ''image'' body \<or> has ''images'' body then Inl (xai_fail ''unexpected_reference'') else Inr []
      else if has ''image'' body = has ''images'' body then Inl (xai_fail ''references'')
      else case member ''image'' body of
          Some v \<Rightarrow> Inr [v]
        | None \<Rightarrow> (case member ''images'' body of
            Some (JArr xs) \<Rightarrow> if length xs < 2 \<or> 3 < length xs then Inl (xai_fail ''references'') else Inr xs
          | _ \<Rightarrow> Inl (xai_fail ''references'')))"

record xai_image = image_selection +
  xi_path :: string

definition xai_path :: "bool \<Rightarrow> string" where
  "xai_path edit = (if edit then ''/v1/images/edits'' else ''/v1/images/generations'')"

definition prompt_ok :: "json \<Rightarrow> bool" where
  "prompt_ok body = (case member ''prompt'' body of Some (JStr s) \<Rightarrow> trim s \<noteq> [] \<and> length s \<le> 32768 | _ \<Rightarrow> False)"

definition xai_selection :: "string \<Rightarrow> bool \<Rightarrow> json \<Rightarrow> int \<Rightarrow> int \<Rightarrow> xai_image" where
  "xai_selection model edit body n inputs =
     (let named = (case text_of (member ''quality'' body) of Some q \<Rightarrow> if q \<in> {''low'', ''medium''} then Some q else None | None \<Rightarrow> None);
          alias = model = ''grok-imagine-image-quality''; newer = model = ''grok-imagine-image-2.0''
      in \<lparr>is_model = model, is_serving = (if alias then ''grok-imagine-image-2.0'' else model), is_edit = edit, is_count = n, is_inputs = inputs,
          is_resolution = (if text_is (member ''resolution'' body) ''2k'' then ''2k'' else ''1k''),
          is_quality = (if alias then Some ''low'' else if \<not> newer then None
            else case named of Some q \<Rightarrow> Some q | None \<Rightarrow> Some (if edit then ''medium'' else ''low'')),
          is_basis = (if alias then ''retired_alias'' else if \<not> newer then ''legacy''
            else if named \<noteq> None then ''explicit'' else ''service_default''),
          xi_path = xai_path edit\<rparr>)"

definition prepare_xai_image :: "(rat \<Rightarrow> string) \<Rightarrow> (string \<Rightarrow> bool) \<Rightarrow> string \<Rightarrow> bool \<Rightarrow> json \<Rightarrow> xai_image result" where
  "prepare_xai_image num clean_url model edit body =
     (if model \<notin> set xai_image_models then Inl (xai_fail ''model_or_mode'')
      else if \<not> is_obj body then Inl (xai_fail ''object'')
      else if \<not> only_keys [''model'', ''prompt'', ''n'', ''response_format'', ''aspect_ratio'', ''resolution'', ''image'', ''images'', ''quality''] body
      then Inl (xai_fail ''fields'')
      else case safe_count (member ''n'' body) of
          None \<Rightarrow> Inl (xai_fail ''request'')
        | Some n \<Rightarrow>
            if \<not> text_is (member ''model'' body) model \<or> \<not> text_is (member ''response_format'' body) ''b64_json'' \<or> \<not> prompt_ok body \<or>
               n < 1 \<or> 4 < n then Inl (xai_fail ''request'')
            else if has ''aspect_ratio'' body \<and> \<not> text_in (member ''aspect_ratio'' body) xai_aspects then Inl (xai_fail ''aspect'')
            else if has ''resolution'' body \<and> \<not> text_in (member ''resolution'' body) [''1k'', ''2k''] then Inl (xai_fail ''resolution'')
            else if has ''quality'' body \<and>
               (model \<noteq> ''grok-imagine-image-2.0'' \<or> \<not> text_in (member ''quality'' body) [''low'', ''medium'', ''auto'']) then Inl (xai_fail ''quality'')
            else rbind (xai_inputs edit body) (\<lambda>inputs.
              rbind (xai_references clean_url 0 inputs) (\<lambda>_.
                if max_envelope_bytes < json_body_bytes num body then Inl (xai_fail ''request_limit'')
                else Inr (xai_selection model edit body n (int (length inputs))))))"

subsection \<open>Selecting a tariff\<close>

record successful_tariff =
  st_version :: string
  st_effective :: string
  st_source :: string
  st_micros :: int
  st_parameter :: string
  st_value :: "string option"

datatype request_tariff =
    SuccessfulTariff successful_tariff
  | OutcomeTariff (out_version: string) (out_effective: string) (out_pricing: outcome_pricing) (out_model: string)
  | ImageTariff (img_version: string) (img_effective: string) (img_pricing: json) (img_selection: xai_image) (img_micros: int)
  | SearchTariff (sea_version: string) (sea_effective: string) (sea_pricing: json) (sea_micros: int)

datatype tariff_outcome = Succeeded | Failed | UnknownOutcome | Unsent

primrec tariff_version :: "request_tariff \<Rightarrow> string" where
  "tariff_version (SuccessfulTariff t) = st_version t"
| "tariff_version (OutcomeTariff v e p m) = v"
| "tariff_version (ImageTariff v e p s n) = v"
| "tariff_version (SearchTariff v e p n) = v"

primrec tariff_effective :: "request_tariff \<Rightarrow> string" where
  "tariff_effective (SuccessfulTariff t) = st_effective t"
| "tariff_effective (OutcomeTariff v e p m) = e"
| "tariff_effective (ImageTariff v e p s n) = e"
| "tariff_effective (SearchTariff v e p n) = e"

record tariff_endpoint =
  te_method :: "string option"
  te_path :: "string option"
  te_upstream_path :: "string option"
  te_request_format :: "string option"
  te_response_format :: "string option"
  te_streaming :: "string option"
  te_lifecycle :: bool
  te_responses_lifecycle :: bool
  te_websocket :: bool
  te_passthrough :: bool
  te_query :: "string list"
  te_pricing :: "json option"

definition tariff_unqualified :: error where
  "tariff_unqualified = HttpError 503 ''request_tariff_unqualified''"

definition invalid_parameter :: error where
  "invalid_parameter = HttpError 400 ''invalid_request_tariff_parameter''"

definition invalid_image :: error where
  "invalid_image = HttpError 400 ''invalid_native_image_request''"

text \<open>A POST operation with this path and these formats, without lifecycle, socket, pass-through or query.\<close>

definition plain_operation :: "tariff_endpoint \<Rightarrow> string \<Rightarrow> string \<Rightarrow> string \<Rightarrow> bool" where
  "plain_operation ep path request response \<longleftrightarrow> te_method ep = Some ''POST'' \<and> te_path ep = Some path \<and> te_request_format ep = Some request \<and>
     te_response_format ep = Some response \<and> \<not> te_lifecycle ep \<and> \<not> te_responses_lifecycle ep \<and> \<not> te_websocket ep \<and> \<not> te_passthrough ep \<and>
     te_query ep = []"

definition not_streaming :: "tariff_endpoint \<Rightarrow> bool" where
  "not_streaming ep \<longleftrightarrow> te_streaming ep = None \<or> te_streaming ep = Some []"

definition date_text :: "string \<Rightarrow> bool" where
  "date_text s \<longleftrightarrow> length s = 10 \<and> digits_of 4 (take 4 s) \<and> s ! 4 = CHR ''-'' \<and> digits_of 2 (take 2 (drop 5 s)) \<and> s ! 7 = CHR ''-'' \<and> digits_of 2 (drop 8 s)"

definition versioned_price :: "json \<Rightarrow> (string \<times> string) option" where
  "versioned_price p = (case (text_of (member ''version'' p), text_of (member ''effectiveAt'' p)) of
     (Some v, Some e) \<Rightarrow> if version_text v \<and> date_text e then Some (v, e) else None | _ \<Rightarrow> None)"

definition native_image_mode :: "string \<Rightarrow> bool option" where
  "native_image_mode format = (if format = ''xai.images_generations'' then Some False else if format = ''xai.images_edits'' then Some True else None)"

definition select_image_tariff :: "(rat \<Rightarrow> string) \<Rightarrow> (string \<Rightarrow> bool) \<Rightarrow> tariff_endpoint \<Rightarrow> json \<Rightarrow> json \<Rightarrow> xai_image option \<Rightarrow> request_tariff result" where
  "select_image_tariff num clean_url ep p body prepared =
     (case (native_image_mode (case te_request_format ep of Some f \<Rightarrow> f | None \<Rightarrow> []), versioned_price p) of
        (Some edit, Some (v, e)) \<Rightarrow>
          if \<not> plain_operation ep (xai_path edit) (case te_request_format ep of Some f \<Rightarrow> f | None \<Rightarrow> []) ''xai.images'' \<or> \<not> not_streaming ep
          then Inl tariff_unqualified
          else (case (case prepared of Some x \<Rightarrow> Inr x
              | None \<Rightarrow> prepare_xai_image num clean_url (case text_of (member ''model'' body) of Some m \<Rightarrow> m | None \<Rightarrow> []) edit body) of
              Inl _ \<Rightarrow> Inl invalid_image
            | Inr x \<Rightarrow>
                if is_edit x \<noteq> edit \<or> Some (xi_path x) \<noteq> te_path ep then Inl tariff_unqualified
                else (case image_request_reserve p (image_selection.truncate x) of
                    None \<Rightarrow> Inl tariff_unqualified
                  | Some n \<Rightarrow> Inr (ImageTariff v e p x n)))
      | _ \<Rightarrow> Inl tariff_unqualified)"

definition select_outcome_tariff :: "tariff_endpoint \<Rightarrow> json \<Rightarrow> json \<Rightarrow> request_tariff result" where
  "select_outcome_tariff ep p body = (case versioned_price p of
     None \<Rightarrow> Inl tariff_unqualified
   | Some (v, e) \<Rightarrow>
       if \<not> plain_operation ep ''/v1/responses'' ''openai.responses'' ''openai.responses'' \<or> \<not> not_streaming ep \<and> te_streaming ep \<noteq> Some ''sse'' \<or>
          \<not> text_is (member ''unit'' p) ''request'' \<or> \<not> text_is (member ''outcome'' p) ''xai.responses_violation'' \<or>
          \<not> text_is (member ''receipt'' p) ''xai.usage.cost_in_usd_ticks'' \<or> member ''maximumAdditionalMicros'' p \<noteq> Some (JNum 50000) \<or>
          \<not> text_is (member ''source'' p) ''https://docs.x.ai/developers/pricing#usage-guidelines-violation-fee'' \<or>
          has ''successfulResponseMicros'' p \<or> has ''parameterRates'' p then Inl tariff_unqualified
       else case text_of (member ''model'' body) of
           None \<Rightarrow> Inl invalid_parameter
         | Some m \<Rightarrow>
             if m = [] \<or> 256 < utf16_length m \<or> has ''background'' body \<and> member ''background'' body \<noteq> Some (JBool False) \<or>
                has ''stream'' body \<and> member ''stream'' body \<notin> {Some (JBool True), Some (JBool False)} then Inl invalid_parameter
             else Inr (OutcomeTariff v e \<lparr>op_unit = ''request'', op_outcome = ''xai.responses_violation'', op_additional = 50000,
               op_receipt = ''xai.usage.cost_in_usd_ticks'', op_version = v\<rparr> m))"

definition select_search_tariff :: "tariff_endpoint \<Rightarrow> json \<Rightarrow> request_tariff result" where
  "select_search_tariff ep p =
     (if \<not> text_is (member ''protocol'' p) ''deepseek.search'' \<or> \<not> plain_operation ep ''/v1/tools/search'' ''deepseek.search'' ''deepseek.search'' \<or>
         te_upstream_path ep \<noteq> None \<or> \<not> not_streaming ep then Inl tariff_unqualified
      else case (deepseek_search_reserve (Some p), text_of (member ''version'' p), text_of (member ''effectiveAt'' p)) of
          (Some n, Some v, Some e) \<Rightarrow> Inr (SearchTariff v e p n)
        | _ \<Rightarrow> Inl tariff_unqualified)"

definition source_text :: "string \<Rightarrow> bool" where
  "source_text s \<longleftrightarrow> starts_with ''https://'' s \<and> (let r = drop 8 s in r \<noteq> [] \<and> utf16_length r \<le> 2048 \<and> list_all (\<lambda>c. \<not> is_space c) r)"

text \<open>The two rates of the parameter table, when it has exactly these.\<close>

definition search_type_rates :: "json \<Rightarrow> (int \<times> int) option" where
  "search_type_rates p =
     (let table = member ''parameterRates'' p; rates = get ''rates'' table
      in if \<not> text_is (get ''parameter'' table) ''search_type'' \<or> \<not> is_object rates \<or>
           (case rates of Some j \<Rightarrow> length (entries j) \<noteq> 2 \<or> fst ` set (entries j) \<noteq> {''fast'', ''web''} | None \<Rightarrow> True) then None
         else case (safe_count (get ''web'' rates), safe_count (get ''fast'' rates)) of (Some w, Some f) \<Rightarrow> Some (w, f) | _ \<Rightarrow> None)"

definition select_successful_tariff :: "tariff_endpoint \<Rightarrow> json \<Rightarrow> json \<Rightarrow> request_tariff result" where
  "select_successful_tariff ep p body =
     (case (versioned_price p, text_of (member ''source'' p), search_type_rates p) of
        (Some (v, e), Some src, Some (web, fast)) \<Rightarrow>
          if \<not> plain_operation ep ''/search'' ''perplexity.search'' ''perplexity.search'' \<or> \<not> not_streaming ep \<or> \<not> text_is (member ''unit'' p) ''request'' \<or>
             \<not> source_text src \<or> safe_count (member ''successfulResponseMicros'' p) \<noteq> Some web then Inl tariff_unqualified
          else if \<not> is_obj body \<or> has ''stream'' body \<and> member ''stream'' body \<noteq> Some (JBool False) then Inl invalid_parameter
          else (case member ''search_type'' body of
              None \<Rightarrow> Inr (SuccessfulTariff \<lparr>st_version = v, st_effective = e, st_source = src, st_micros = web, st_parameter = ''search_type'', st_value = None\<rparr>)
            | Some (JStr s) \<Rightarrow>
                if s \<notin> {''web'', ''fast''} then Inl invalid_parameter
                else Inr (SuccessfulTariff \<lparr>st_version = v, st_effective = e, st_source = src,
                  st_micros = (if s = ''web'' then web else fast), st_parameter = ''search_type'', st_value = Some s\<rparr>)
            | Some _ \<Rightarrow> Inl invalid_parameter)
      | _ \<Rightarrow> Inl tariff_unqualified)"

definition select_request_tariff ::
    "(rat \<Rightarrow> string) \<Rightarrow> (string \<Rightarrow> bool) \<Rightarrow> tariff_endpoint \<Rightarrow> json \<Rightarrow> xai_image option \<Rightarrow> request_tariff option result" where
  "select_request_tariff num clean_url ep body prepared = (case te_pricing ep of
     None \<Rightarrow> Inr None
   | Some p \<Rightarrow> rbind
       (if text_is (member ''unit'' p) ''image'' then select_image_tariff num clean_url ep p body prepared
        else if has ''outcome'' p then select_outcome_tariff ep p body
        else if has ''protocol'' p then select_search_tariff ep p
        else select_successful_tariff ep p body) (\<lambda>t. Inr (Some t)))"

definition settle_request_tariff :: "successful_tariff \<Rightarrow> tariff_outcome \<Rightarrow> int \<times> string" where
  "settle_request_tariff t outcome =
     (if outcome = Unsent \<or> outcome = Failed then (0, ''none'')
      else (st_micros t, if outcome = Succeeded then ''manifest_request'' else ''manifest_request_reservation''))"

definition tariff_destination :: "tariff_endpoint \<Rightarrow> json \<Rightarrow> string" where
  "tariff_destination ep p =
     (if text_is (member ''unit'' p) ''image'' then ''https://api.x.ai'' @ (case te_path ep of Some s \<Rightarrow> s | None \<Rightarrow> ''undefined'')
      else if has ''outcome'' p then ''https://api.x.ai/v1/responses''
      else if has ''protocol'' p \<and> text_is (member ''protocol'' p) ''deepseek.search'' then ''https://api.deepseek.com/v1/tools/search''
      else ''https://api.perplexity.ai/search'')"

definition assert_tariff_destination :: "tariff_endpoint \<Rightarrow> string \<Rightarrow> unit result" where
  "assert_tariff_destination ep destination = (case te_pricing ep of
     None \<Rightarrow> Inr () | Some p \<Rightarrow> guard (destination = tariff_destination ep p) tariff_unqualified)"

subsection \<open>Inspecting the receipt of an outcome tariff\<close>

record receipt_inspection =
  ri_invalid :: bool
  ri_identity :: "string option"
  ri_terminal :: "json option"

definition new_inspection :: receipt_inspection where
  "new_inspection = \<lparr>ri_invalid = False, ri_identity = None, ri_terminal = None\<rparr>"

definition inspect_invalid :: "receipt_inspection \<Rightarrow> receipt_inspection" where
  "inspect_invalid s = s\<lparr>ri_invalid := True\<rparr>"

definition inspect_response :: "(rat \<Rightarrow> string) \<Rightarrow> string \<Rightarrow> json \<Rightarrow> bool \<Rightarrow> json \<Rightarrow> receipt_inspection \<Rightarrow> receipt_inspection" where
  "inspect_response num model value streaming response s = (case text_of (member ''id'' response) of
     None \<Rightarrow> inspect_invalid s
   | Some i \<Rightarrow>
       if \<not> text_is (member ''object'' response) ''response'' \<or> i = [] \<or> 256 < utf16_length i \<or> \<not> text_is (member ''model'' response) model \<or>
          ri_identity s \<noteq> None \<and> ri_identity s \<noteq> Some i then inspect_invalid s
       else (let s1 = s\<lparr>ri_identity := Some i\<rparr>; status = string_of num (member ''status'' response)
             in if status \<notin> {''completed'', ''incomplete''}
                then if \<not> streaming \<or> status \<notin> {''queued'', ''in_progress''} then inspect_invalid s1 else s1
                else if streaming \<and> \<not> text_is (member ''type'' value) (''response.'' @ status) then inspect_invalid s1
                else s1\<lparr>ri_terminal := Some response\<rparr>))"

definition inspect_accept :: "(rat \<Rightarrow> string) \<Rightarrow> string \<Rightarrow> bool \<Rightarrow> json \<Rightarrow> receipt_inspection \<Rightarrow> receipt_inspection" where
  "inspect_accept num model streaming value s =
     (if ri_invalid s then s
      else if \<not> is_obj value \<or> ri_terminal s \<noteq> None then inspect_invalid s
      else if streaming \<and> (text_in (member ''type'' value) [''error'', ''response.failed''] \<or> truthy (member ''error'' value)) then inspect_invalid s
      else (let response = (if streaming then member ''response'' value else Some value)
            in if \<not> is_object response
               then if \<not> streaming \<or> response \<noteq> None \<or> string_of num (member ''type'' value) \<in> {''response.completed'', ''response.incomplete''}
                 then inspect_invalid s else s
               else inspect_response num model value streaming (the response) s))"

definition inspect_done :: "receipt_inspection \<Rightarrow> receipt_inspection" where
  "inspect_done s = (if ri_terminal s = None then inspect_invalid s else s)"

definition inspect_result :: "outcome_pricing \<Rightarrow> bool \<Rightarrow> receipt_inspection \<Rightarrow> cost_receipt option" where
  "inspect_result p whole_body s = (if ri_invalid s \<or> ri_terminal s = None then None else request_outcome_cost p (ri_terminal s) whole_body)"

subsection \<open>Charged upstream failures\<close>

record billing_binding =
  bb_provider :: string
  bb_format :: string
  bb_capability :: string
  bb_method :: string
  bb_model :: "string option"

text \<open>\<open>clean\<close> says that the response URL is \<^verbatim>\<open>https://api.novita.ai/openai/v1/chat/completions\<close> without query, fragment and user.\<close>

definition upstream_generation_may_be_charged :: "billing_binding \<Rightarrow> bool \<Rightarrow> int \<Rightarrow> bool" where
  "upstream_generation_may_be_charged b clean status \<longleftrightarrow> status = 499 \<and> bb_provider b = ''novita'' \<and> bb_method b = ''POST'' \<and>
     bb_capability b = ''llm.chat'' \<and> bb_format b = ''openai.chat_completions'' \<and>
     (case bb_model b of Some m \<Rightarrow> m \<noteq> [] | None \<Rightarrow> False) \<and> clean"

subsection \<open>Properties\<close>

definition inspect_run :: "(rat \<Rightarrow> string) \<Rightarrow> string \<Rightarrow> bool \<Rightarrow> json list \<Rightarrow> receipt_inspection" where
  "inspect_run num model streaming vs = fold (inspect_accept num model streaming) vs new_inspection"

definition response_in :: "bool \<Rightarrow> json \<Rightarrow> json option" where
  "response_in streaming v = (if streaming then member ''response'' v else Some v)"

lemma inspect_run_snoc [simp]: "inspect_run num model streaming (vs @ [v]) = inspect_accept num model streaming v (inspect_run num model streaming vs)"
  by (simp add: inspect_run_def)

lemma inspect_invalid_flag [simp]: "ri_invalid (inspect_invalid s)"
  by (simp add: inspect_invalid_def)

text \<open>What a response leaves behind when it does not spoil the inspection.\<close>

lemma inspect_response_valid:
  assumes "\<not> ri_invalid (inspect_response num model v streaming r s)"
  obtains i where "member ''id'' r = Some (JStr i)" "text_is (member ''model'' r) model" "ri_identity s = None \<or> ri_identity s = Some i"
    "ri_identity (inspect_response num model v streaming r s) = Some i"
    "ri_terminal (inspect_response num model v streaming r s) \<in> {ri_terminal s, Some r}"
proof (cases "text_of (member ''id'' r)")
  case (Some i)
  then have "member ''id'' r = Some (JStr i)" by (cases "member ''id'' r" rule: option.exhaust) (auto elim: Json_Access.text_of.elims)
  then show ?thesis using assms Some that by (auto simp: inspect_response_def Let_def split: if_splits)
qed (use assms in \<open>simp add: inspect_response_def\<close>)

text \<open>An event that is accepted came before any terminal one, and only a response changes the state.\<close>

lemma inspect_accept_valid:
  assumes "\<not> ri_invalid (inspect_accept num model streaming v s)"
  shows "\<not> ri_invalid s \<and> ri_terminal s = None \<and> is_obj v \<and>
    (if is_object (response_in streaming v) then inspect_accept num model streaming v s = inspect_response num model v streaming (the (response_in streaming v)) s
     else response_in streaming v = None \<and> inspect_accept num model streaming v s = s)"
  using assms by (auto simp: inspect_accept_def response_in_def Let_def split: if_splits)

definition same_response :: "string \<Rightarrow> bool \<Rightarrow> string option \<Rightarrow> json \<Rightarrow> bool" where
  "same_response model streaming i v \<longleftrightarrow> (case response_in streaming v of None \<Rightarrow> True
     | Some r \<Rightarrow> is_obj r \<and> text_is (member ''model'' r) model \<and> i \<noteq> None \<and> member ''id'' r = map_option JStr i)"

lemma inspect_run_valid:
  assumes "\<not> ri_invalid (inspect_run num model streaming vs)"
  shows "list_all (same_response model streaming (ri_identity (inspect_run num model streaming vs))) vs \<and>
    (\<forall>r. ri_terminal (inspect_run num model streaming vs) = Some r \<longrightarrow> vs \<noteq> [] \<and> response_in streaming (last vs) = Some r \<and> is_obj r)"
  using assms
proof (induction vs rule: rev_induct)
  case Nil
  then show ?case by (simp add: inspect_run_def new_inspection_def)
next
  case (snoc v vs)
  let ?s = "inspect_run num model streaming vs"
  have acc: "\<not> ri_invalid (inspect_accept num model streaming v ?s)" using snoc.prems by simp
  note a = inspect_accept_valid [OF acc]
  have ih: "list_all (same_response model streaming (ri_identity ?s)) vs" using snoc.IH a by blast
  show ?case
  proof (cases "is_object (response_in streaming v)")
    case True
    then obtain r where r: "response_in streaming v = Some r" "is_obj r" by (cases "response_in streaming v") (auto simp: is_obj_def)
    have step: "inspect_accept num model streaming v ?s = inspect_response num model v streaming r ?s" using a True r by simp
    obtain i where i: "member ''id'' r = Some (JStr i)" "text_is (member ''model'' r) model" "ri_identity ?s = None \<or> ri_identity ?s = Some i"
        "ri_identity (inspect_response num model v streaming r ?s) = Some i"
        "ri_terminal (inspect_response num model v streaming r ?s) \<in> {ri_terminal ?s, Some r}"
      using inspect_response_valid [of num model v streaming r ?s] acc step by metis
    have "list_all (same_response model streaming (Some i)) vs"
      using ih i(3) by (auto simp: list_all_iff same_response_def split: option.splits)
    moreover have "same_response model streaming (Some i) v" using r i by (simp add: same_response_def)
    ultimately show ?thesis using a r i step by auto
  next
    case False
    then have "same_response model streaming (ri_identity ?s) v" using a by (simp add: same_response_def)
    then show ?thesis using False a ih by simp
  qed
qed

text \<open>
  A cost receipt of an outcome tariff is read from one response only: it is the response of the last
  event, it has the model of the tariff, every earlier event that carried a response carried the same
  one, and nothing malformed, failed or late was accepted on the way.
\<close>

theorem receipt_is_of_one_response:
  assumes "inspect_result p whole_body (inspect_run num model streaming vs) = Some c"
  shows "\<exists>r i. vs \<noteq> [] \<and> response_in streaming (last vs) = Some r \<and> request_outcome_cost p (Some r) whole_body = Some c \<and>
    list_all (same_response model streaming (Some i)) vs"
proof -
  let ?s = "inspect_run num model streaming vs"
  obtain r where r: "\<not> ri_invalid ?s" "ri_terminal ?s = Some r" "request_outcome_cost p (Some r) whole_body = Some c"
    using assms by (auto simp: inspect_result_def split: if_splits)
  note v = inspect_run_valid [OF r(1)]
  have last_r: "vs \<noteq> []" "response_in streaming (last vs) = Some r" using v r(2) by auto
  have "same_response model streaming (ri_identity ?s) (last vs)" using v last_r(1) by (simp add: list_all_iff)
  then obtain i where "ri_identity ?s = Some i" using last_r(2) by (auto simp: same_response_def)
  then show ?thesis using v last_r r(3) by auto
qed

text \<open>Whatever tariff is selected, its amount is a price: never negative and within the exact integers.\<close>

primrec tariff_micros :: "request_tariff \<Rightarrow> int option" where
  "tariff_micros (SuccessfulTariff t) = Some (st_micros t)"
| "tariff_micros (OutcomeTariff v e p m) = None"
| "tariff_micros (ImageTariff v e p s n) = Some n"
| "tariff_micros (SearchTariff v e p n) = Some n"

lemma image_reserve_safe: "image_request_reserve p r = Some n \<Longrightarrow> safe_int n"
  by (auto simp: image_request_reserve_def Let_def split: if_splits option.splits)

lemma foldr_max_ge: "(0 :: int) \<le> foldr max xs 0"
  by (induction xs) auto

lemma image_reserve_nonneg: "image_request_reserve p r = Some n \<Longrightarrow> 0 \<le> n"
proof -
  assume a: "image_request_reserve p r = Some n"
  then have q: "0 \<le> is_inputs r" "0 \<le> is_count r"
    by (auto simp: image_request_reserve_def qualified_image_selection_def Let_def split: if_splits option.splits)
  have "0 \<le> k * is_inputs r + foldr max ps 0" if "safe_count j = Some k" for j k ps
    using safe_count_bounds [OF that] q(1) foldr_max_ge [of ps] by simp
  then show ?thesis using a q(2) by (auto simp: image_request_reserve_def Let_def simp del: foldr.simps foldr_Cons split: if_splits option.splits)
qed

lemma selected_tariff_is_a_price:
  assumes "select_request_tariff num clean_url ep body prepared = Inr (Some t)" and "tariff_micros t = Some n"
  shows "0 \<le> n \<and> safe_int n"
proof -
  have price: "safe_count j = Some k \<Longrightarrow> 0 \<le> k \<and> safe_int k" for j k by (simp add: safe_count_Some)
  obtain p where p: "(if text_is (member ''unit'' p) ''image'' then select_image_tariff num clean_url ep p body prepared
        else if has ''outcome'' p then select_outcome_tariff ep p body
        else if has ''protocol'' p then select_search_tariff ep p
        else select_successful_tariff ep p body) = Inr t"
    using assms(1) by (auto simp: select_request_tariff_def split: option.splits)
  have image: "select_image_tariff num clean_url ep p body prepared = Inr t \<Longrightarrow> ?thesis"
    using assms(2) image_reserve_safe image_reserve_nonneg by (auto simp: select_image_tariff_def split: if_splits option.splits sum.splits prod.splits)
  have search: "select_search_tariff ep p = Inr t \<Longrightarrow> ?thesis"
    using assms(2) by (auto simp: select_search_tariff_def deepseek_search_reserve_def safe_int_def max_safe_integer_def split: if_splits option.splits)
  have outcome: "select_outcome_tariff ep p body = Inr t \<Longrightarrow> ?thesis"
    using assms(2) by (auto simp: select_outcome_tariff_def split: if_splits option.splits)
  have rates: "search_type_rates p = Some (w, f) \<Longrightarrow> 0 \<le> w \<and> safe_int w \<and> 0 \<le> f \<and> safe_int f" for w f
    by (auto simp: search_type_rates_def Let_def price split: if_splits option.splits dest!: price)
  have "select_successful_tariff ep p body = Inr t \<Longrightarrow> ?thesis"
    using assms(2) rates by (auto simp: select_successful_tariff_def split: if_splits option.splits prod.splits json.splits)
  then show ?thesis using p image search outcome by (simp split: if_splits)
qed

end
