(* ===== verification/Request_Receipt.thy ===== *)
theory Request_Receipt
  imports Request_Tariff Usage_Event Accounting
begin

section \<open>The accounting receipt of a request\<close>

text \<open>
  \<open>worker/proxy-accounting.ts\<close> (the admission price of a request and the usage event its outcome
  becomes) and \<open>worker/reporting-estimate.ts\<close>. The intermediate values of \<open>accountingReceipt\<close>
  are definitions of their own, in the order of the source, over the frozen facts and the outcome. The
  optional fields of the returned event are \<^term>\<open>None\<close> where the source leaves them as the facts have them.
\<close>

subsection \<open>Facts and outcomes\<close>

record request_cost = estimated_cost +
  ec_input :: "int option"
  ec_output :: "int option"
  ec_tariff :: "request_tariff option"

record compiled_model =
  cm_pricing :: "model_pricing option"
  cm_upstream :: "string option"

record accounting_facts =
  fa_event :: usage_event
  fa_model :: "compiled_model option"
  fa_anthropic :: "modifiers option"
  fa_fixed :: "int option"
  fa_cost :: request_cost
  fa_format :: string
  fa_started :: int
  fa_search_price :: "search_price option"
  fa_web_price :: "web_price option"
  fa_google_image :: bool
  fa_google_audio :: bool
  fa_music :: bool
  fa_speech :: bool

record budget_reservation =
  br_reservations :: "ledger_reservation list"
  br_charges :: "(string \<times> charge_request) list option"
  br_reserved :: int

record hosted_usage =
  hu_searches :: int
  hu_complete :: bool

record accounting_outcome =
  ao_occurred :: int
  ao_status_code :: "int option"
  ao_status :: event_status
  ao_billable :: bool
  ao_tokens :: "usage_tokens option"
  ao_reservation :: budget_reservation
  ao_content :: "string option"
  ao_served_tier :: "string option option"
  ao_characters :: "int option"
  ao_hosted :: "hosted_usage option"
  ao_unpriced :: bool
  ao_tariff_outcome :: "tariff_outcome option"
  ao_receipt :: "cost_receipt option"

definition pricing_of :: "accounting_facts \<Rightarrow> model_pricing option" where
  "pricing_of f = Option.bind (fa_model f) cm_pricing"

definition upstream_of :: "accounting_facts \<Rightarrow> string option" where
  "upstream_of f = Option.bind (fa_model f) cm_upstream"

definition retained :: "string option \<Rightarrow> bool" where
  "retained r = (case r of None \<Rightarrow> False | Some s \<Rightarrow> s \<noteq> [])"

subsection \<open>Measured cost\<close>

definition actual_cost :: "compiled_model option \<Rightarrow> usage_tokens \<Rightarrow> int option \<Rightarrow> string \<Rightarrow> modifiers option \<Rightarrow> int option" where
  "actual_cost model t fixed format requested = (case fixed of
     Some n \<Rightarrow> Some n
   | None \<Rightarrow>
       (let pricing = Option.bind model cm_pricing
        in if format = ''anthropic.messages''
           then if unbilled t then Some 0
             else (case anthropic_pricing pricing (Option.bind model cm_upstream) (case requested of Some m \<Rightarrow> m | None \<Rightarrow> no_modifiers)
                 (Some (case anthropic t of Some m \<Rightarrow> m | None \<Rightarrow> no_modifiers)) of
                 None \<Rightarrow> None
               | Some q \<Rightarrow> actual_model_cost q t format)
           else case pricing of None \<Rightarrow> Some 1 | Some p \<Rightarrow> actual_model_cost p t format))"

definition tokens_unbilled :: "accounting_outcome \<Rightarrow> bool" where
  "tokens_unbilled out = (case ao_tokens out of Some t \<Rightarrow> unbilled t | None \<Rightarrow> False)"

definition soft_charged :: "accounting_outcome \<Rightarrow> bool" where
  "soft_charged out \<longleftrightarrow> br_charges (ao_reservation out) \<noteq> None"

definition audio_unbounded :: "accounting_facts \<Rightarrow> bool" where
  "audio_unbounded f \<longleftrightarrow> pricingGap (fa_cost f) = Some AudioUploadBound"

definition anthropic_unpriced :: "accounting_facts \<Rightarrow> accounting_outcome \<Rightarrow> bool" where
  "anthropic_unpriced f out \<longleftrightarrow> ao_unpriced out \<or>
     \<not> tokens_unbilled out \<and> fa_fixed f = None \<and> fa_format f = ''anthropic.messages'' \<and> capability (fa_event f) \<noteq> ''llm.count_tokens'' \<and>
     anthropic_pricing (pricing_of f) (upstream_of f) (case fa_anthropic f of Some m \<Rightarrow> m | None \<Rightarrow> no_modifiers)
       (Some (case Option.bind (ao_tokens out) anthropic of Some m \<Rightarrow> m | None \<Rightarrow> no_modifiers)) = None"

definition claude_web :: "accounting_facts \<Rightarrow> web_price option" where
  "claude_web f = (if fa_format f = ''anthropic.messages'' then fa_web_price f else None)"

definition measured_cost :: "accounting_facts \<Rightarrow> accounting_outcome \<Rightarrow> int option" where
  "measured_cost f out =
     (if anthropic_unpriced f out then None
      else if pricingGap (fa_cost f) \<noteq> None \<and> \<not> soft_charged out \<and> \<not> audio_unbounded f \<and> claude_web f = None then None
      else case ao_tokens out of
          Some t \<Rightarrow> if (soft_charged out \<or> claude_web f \<noteq> None) \<and> pricing_of f = None \<and> fa_fixed f = None then None
            else actual_cost (fa_model f) t (fa_fixed f) (fa_format f) (fa_anthropic f)
        | None \<Rightarrow> (case ao_characters out of None \<Rightarrow> None
            | Some c \<Rightarrow> Some (case fa_fixed f of Some n \<Rightarrow> n | None \<Rightarrow> c)))"

subsection \<open>Hosted searches\<close>

definition search_count :: "accounting_outcome \<Rightarrow> int option" where
  "search_count out = (case Option.bind (ao_tokens out) web_searches of Some (Some n) \<Rightarrow> Some n | _ \<Rightarrow> None)"

definition hosted_of :: "accounting_facts \<Rightarrow> accounting_outcome \<Rightarrow> hosted_usage option" where
  "hosted_of f out = (case claude_web f of
     Some w \<Rightarrow> if wp_search w then Some \<lparr>hu_searches = (case search_count out of Some n \<Rightarrow> n | None \<Rightarrow> 0), hu_complete = (search_count out \<noteq> None)\<rparr>
       else ao_hosted out
   | None \<Rightarrow> ao_hosted out)"

definition search_price_of :: "accounting_facts \<Rightarrow> search_price option" where
  "search_price_of f = (case claude_web f of Some w \<Rightarrow> Some (search_price.truncate w) | None \<Rightarrow> fa_search_price f)"

definition hosted_event :: "accounting_facts \<Rightarrow> accounting_outcome \<Rightarrow> hosted_usage option" where
  "hosted_event f out = (case hosted_of f out of None \<Rightarrow> None
     | Some h \<Rightarrow> if search_price_of f \<noteq> None \<or> 0 < hu_searches h then Some h else None)"

definition tool_fee :: "accounting_facts \<Rightarrow> accounting_outcome \<Rightarrow> int option" where
  "tool_fee f out = (case hosted_of f out of
     None \<Rightarrow> None
   | Some h \<Rightarrow>
       if ao_billable out \<and> (claude_web f \<noteq> None \<or> soft_charged out \<and> br_charges (ao_reservation out) \<noteq> Some []) \<and> fa_fixed f = None \<and>
          ao_tokens out \<noteq> None \<and> \<not> tokens_unbilled out \<and> hu_complete h
       then hosted_search_cost (search_price_of f) (hu_searches h) else None)"

subsection \<open>The debit and its basis\<close>

definition or_fixed :: "accounting_facts \<Rightarrow> int \<Rightarrow> int" where
  "or_fixed f n = (case fa_fixed f of Some k \<Rightarrow> k | None \<Rightarrow> n)"

definition image_card :: "accounting_facts \<Rightarrow> bool" where
  "image_card f = (case pricing_of f of Some (ImageCard _) \<Rightarrow> True | _ \<Rightarrow> False)"

definition unmeasured_cost :: "accounting_facts \<Rightarrow> accounting_outcome \<Rightarrow> int" where
  "unmeasured_cost f out =
     (if anthropic_unpriced f out then br_reserved (ao_reservation out)
      else if audio_unbounded f \<or> claude_web f \<noteq> None then or_fixed f 0
      else if soft_charged out \<and> \<not> image_card f then or_fixed f 0
      else or_fixed f (reserveMicros (fa_cost f)))"

definition debit :: "accounting_facts \<Rightarrow> accounting_outcome \<Rightarrow> int" where
  "debit f out = min max_safe_integer
     ((if ao_billable out then (case measured_cost f out of Some n \<Rightarrow> n | None \<Rightarrow> unmeasured_cost f out) else 0) +
      (case tool_fee f out of Some n \<Rightarrow> n | None \<Rightarrow> 0))"

definition known_no_charge :: "accounting_facts \<Rightarrow> accounting_outcome \<Rightarrow> bool" where
  "known_no_charge f out \<longleftrightarrow> \<not> ao_billable out \<or> tokens_unbilled out \<and> debit f out = 0 \<and> basis (fa_cost f) \<noteq> ''policy_fixed''"

definition measured_basis :: "accounting_facts \<Rightarrow> accounting_outcome \<Rightarrow> string" where
  "measured_basis f out =
     (if ao_characters out \<noteq> None then ''request_character_estimate''
      else case pricing_of f of
          Some (TokenCard p) \<Rightarrow> if tp_upper_bound p then ''manifest_rate_upper_bound'' else ''manifest_pricing''
        | _ \<Rightarrow> ''manifest_pricing'')"

definition plain_basis :: "accounting_facts \<Rightarrow> accounting_outcome \<Rightarrow> string" where
  "plain_basis f out =
     (let m = measured_cost f out; b = basis (fa_cost f)
      in if anthropic_unpriced f out \<and> ao_billable out then ''unpriced_usage''
         else if audio_unbounded f \<and> ao_billable out then if m = None then ''unpriced_usage'' else measured_basis f out
         else if soft_charged out \<and> \<not> image_card f \<and> ao_billable out \<and> m = None \<and> fa_fixed f = None then ''unpriced_usage''
         else if known_no_charge f out then ''none''
         else if pricingGap (fa_cost f) \<noteq> None then ''unpriced_usage''
         else if b = ''unpriced_service_tier'' \<or> b = ''unpriced_modifier'' then if m = None then ''unpriced_usage'' else measured_basis f out
         else if b = ''manifest_pricing'' then if m = None then ''manifest_reservation'' else measured_basis f out
         else b)"

definition claude_basis :: "accounting_facts \<Rightarrow> accounting_outcome \<Rightarrow> string option" where
  "claude_basis f out = (case claude_web f of
     None \<Rightarrow> None
   | Some w \<Rightarrow>
       if fa_fixed f = None \<and> ao_billable out
       then Some (if known_no_charge f out then ''none''
         else if measured_cost f out \<noteq> None \<and> wp_complete w \<and> pricingGap (fa_cost f) = Some HostedToolUsage \<and>
           (\<not> wp_search w \<or> tool_fee f out \<noteq> None) then measured_basis f out
         else ''unpriced_usage'')
       else None)"

definition final_basis :: "accounting_facts \<Rightarrow> accounting_outcome \<Rightarrow> string" where
  "final_basis f out = (case claude_basis f out of
     Some b \<Rightarrow> b
   | None \<Rightarrow> if ao_billable out \<and> fa_fixed f = None \<and> hosted_event f out \<noteq> None then ''unpriced_usage'' else plain_basis f out)"

subsection \<open>Reporting evidence\<close>

definition within_input :: "int \<Rightarrow> int option \<Rightarrow> bool" where
  "within_input bound n = (case n of None \<Rightarrow> True | Some k \<Rightarrow> safe_int k \<and> 0 \<le> k \<and> k \<le> bound)"

definition estimate_tiers :: "token_pricing \<Rightarrow> usage_tokens \<Rightarrow> string option list" where
  "estimate_tiers p t = (case service_tier t of
     Some (Some s) \<Rightarrow> if s = ''auto'' then (if tp_tiers p = [] then [None] else map (\<lambda>c. Some (tier_id c)) (tp_tiers p)) else [Some s]
   | _ \<Rightarrow> if tp_tiers p = [] then [None] else map (\<lambda>c. Some (tier_id c)) (tp_tiers p))"

definition tier_missing :: "usage_tokens \<Rightarrow> bool" where
  "tier_missing t = (case service_tier t of Some (Some s) \<Rightarrow> s = ''auto'' | _ \<Rightarrow> True)"

definition tier_declared :: "token_pricing \<Rightarrow> usage_tokens \<Rightarrow> bool" where
  "tier_declared p t = (case service_tier t of
     Some (Some s) \<Rightarrow> tp_tiers p = [] \<or> list_ex (\<lambda>c. tier_id c = s \<or> s \<in> set (tier_aliases c)) (tp_tiers p) | _ \<Rightarrow> True)"

definition estimate_values :: "token_pricing \<Rightarrow> usage_tokens \<Rightarrow> string \<Rightarrow> int \<Rightarrow> int \<Rightarrow> int option list" where
  "estimate_values p t format i cached =
     concat (map (\<lambda>tier. map (\<lambda>w. actual_model_cost (TokenCard p) (t\<lparr>service_tier := map_option Some tier, cache_write := Some w\<rparr>) format)
       (case cache_write t of None \<Rightarrow> [0, i - cached] | Some w \<Rightarrow> [w])) (estimate_tiers p t))"

definition largest :: "int option list \<Rightarrow> int option" where
  "largest xs = fold (\<lambda>v m. case v of None \<Rightarrow> m | Some n \<Rightarrow> Some (max (case m of None \<Rightarrow> 0 | Some k \<Rightarrow> k) n)) xs None"

definition reporting_estimate :: "model_pricing option \<Rightarrow> usage_tokens option \<Rightarrow> string \<Rightarrow> (int \<times> string) option" where
  "reporting_estimate pricing tokens format = (case (pricing, tokens) of
     (Some (TokenCard p), Some t) \<Rightarrow>
       (case (usage_tokens.input_tokens t, usage_tokens.output_tokens t) of
          (Some i, Some k) \<Rightarrow>
            (let cached = (case cached_tokens t of Some c \<Rightarrow> c | None \<Rightarrow> 0)
             in if format \<notin> {''openai.responses'', ''openai.chat_completions''} \<or> unbilled t \<or> \<not> safe_int i \<or> \<not> safe_int k \<or> i < 0 \<or> k < 0 then None
                else if \<not> tier_missing t \<and> \<not> tier_declared p t then None
                else if \<not> tier_missing t \<and> cache_write t \<noteq> None then None
                else if \<not> within_input i (Some cached) then None
                else if \<not> within_input (i - cached) (cache_write t) then None
                else if \<not> within_input (i - cached) (cache_write5m t) \<or> \<not> within_input (i - cached) (cache_write1h t) then None
                else map_option (\<lambda>n. (n,
                    (if tier_missing t then ''served_tier_unreported_max_declared_rate'' else []) @
                    (if tier_missing t \<and> cache_write t = None then '';'' else []) @
                    (if cache_write t = None then ''cache_write_unreported_max_rate_allocation'' else [])))
                  (largest (estimate_values p t format i cached)))
        | _ \<Rightarrow> None)
   | _ \<Rightarrow> None)"

definition reporting_of :: "accounting_facts \<Rightarrow> accounting_outcome \<Rightarrow> (int \<times> string) option" where
  "reporting_of f out =
     (if ao_billable out \<and> fa_fixed f = None \<and> measured_cost f out = None \<and> debit f out = 0 \<and> pricingGap (fa_cost f) = None
      then reporting_estimate (pricing_of f) (ao_tokens out) (fa_format f) else None)"

definition known_component :: "accounting_facts \<Rightarrow> accounting_outcome \<Rightarrow> int" where
  "known_component f out =
     (if ao_billable out \<and> fa_fixed f = None \<and> ao_tokens out \<noteq> None \<and> \<not> tokens_unbilled out
      then min max_safe_integer
        ((if pricing_of f \<noteq> None \<and> ao_characters out = None \<and> measured_basis f out \<noteq> ''manifest_rate_upper_bound''
          then (case measured_cost f out of Some n \<Rightarrow> n | None \<Rightarrow> 0) else 0) +
         (case tool_fee f out of Some n \<Rightarrow> n | None \<Rightarrow> 0))
      else 0)"

definition reporting_known :: "accounting_facts \<Rightarrow> accounting_outcome \<Rightarrow> int option" where
  "reporting_known f out =
     (let k = known_component f out
      in if starts_with ''unpriced_'' (final_basis f out) \<and> safe_int k \<and> 0 < k \<and> k \<le> debit f out then Some k else None)"

subsection \<open>The receipt\<close>

definition stamped :: "accounting_facts \<Rightarrow> accounting_outcome \<Rightarrow> usage_event" where
  "stamped f out = (fa_event f)\<lparr>occurred_at_ms := ao_occurred out, status_code := ao_status_code out, ev_status := ao_status out,
     duration_ms := Some (ao_occurred out - fa_started f), content_retained := retained (ao_content out), content_ref := ao_content out\<rparr>"

definition moderation_receipt :: "accounting_facts \<Rightarrow> accounting_outcome \<Rightarrow> usage_event" where
  "moderation_receipt f out = (stamped f out)\<lparr>reserved_cost_micros := 0, actual_cost_micros := 0, cost_basis := JStr ''none'',
     reporting_known_cost_micros := None\<rparr>"

definition media_receipt :: "accounting_facts \<Rightarrow> accounting_outcome \<Rightarrow> usage_event" where
  "media_receipt f out = (stamped f out)\<lparr>reserved_cost_micros := br_reserved (ao_reservation out),
     actual_cost_micros := (if ao_billable out then br_reserved (ao_reservation out) else 0),
     cost_basis := JStr (if ao_billable out then ''unpriced_usage'' else ''none''),
     usage_event.input_tokens := None, usage_event.output_tokens := None, usage_event.total_tokens := None,
     pricing_ref := None, pricing_effective_at := None, cached_input_tokens := None, cache_write_input_tokens := None\<rparr>"

definition basis_text :: "Pricing.cost_basis \<Rightarrow> string" where
  "basis_text b = (case b of ProviderReported \<Rightarrow> ''provider_reported'' | ManifestRequest \<Rightarrow> ''manifest_request'')"

definition known_receipt :: "request_tariff \<Rightarrow> cost_receipt option \<Rightarrow> cost_receipt option" where
  "known_receipt t candidate = (case candidate of
     None \<Rightarrow> None
   | Some c \<Rightarrow> if cr_version c = tariff_version t \<and>
       (case t of SearchTariff v e p n \<Rightarrow> cr_basis c = ManifestRequest \<and> (cr_micros c = 0 \<or> cr_micros c = n) | _ \<Rightarrow> True) then Some c else None)"

definition settled_tariff :: "request_tariff \<Rightarrow> accounting_facts \<Rightarrow> accounting_outcome \<Rightarrow> int \<times> string" where
  "settled_tariff t f out = (case t of
     SuccessfulTariff s \<Rightarrow> settle_request_tariff s (case ao_tariff_outcome out of Some r \<Rightarrow> r | None \<Rightarrow> UnknownOutcome)
   | _ \<Rightarrow>
       if ao_tariff_outcome out = Some Unsent then (0, ''none'')
       else case known_receipt t (ao_receipt out) of
           Some c \<Rightarrow> (cr_micros c, basis_text (cr_basis c))
         | None \<Rightarrow> (reserveMicros (fa_cost f), if basis (fa_cost f) = ''manifest_request'' then ''manifest_request_reservation'' else ''unpriced_usage''))"

definition tariff_receipt :: "request_tariff \<Rightarrow> accounting_facts \<Rightarrow> accounting_outcome \<Rightarrow> usage_event" where
  "tariff_receipt t f out =
     (let (micros, b) = settled_tariff t f out;
          inference = (case t of OutcomeTariff v e p m \<Rightarrow> ao_tokens out | _ \<Rightarrow> None)
      in (stamped f out)\<lparr>reserved_cost_micros := br_reserved (ao_reservation out), actual_cost_micros := micros, cost_basis := JStr b,
        pricing_ref := Some (tariff_version t), pricing_effective_at := Some (tariff_effective t),
        usage_event.input_tokens := Option.bind inference usage_tokens.input_tokens,
        usage_event.output_tokens := Option.bind inference usage_tokens.output_tokens,
        usage_event.total_tokens := Option.bind inference usage_tokens.total_tokens,
        cached_input_tokens := Option.bind inference cached_tokens, cache_write_input_tokens := Option.bind inference cache_write\<rparr>)"

definition plain_receipt :: "accounting_facts \<Rightarrow> accounting_outcome \<Rightarrow> usage_event" where
  "plain_receipt f out =
     (let tokens = ao_tokens out; e = (stamped f out)\<lparr>reporting_known_cost_micros := reporting_known f out,
            usage_event.input_tokens := Option.bind tokens usage_tokens.input_tokens,
            usage_event.output_tokens := Option.bind tokens usage_tokens.output_tokens,
            usage_event.total_tokens := Option.bind tokens usage_tokens.total_tokens,
            reasoning_output_tokens := Option.bind (Option.bind tokens reasoning) (\<lambda>x. x),
            cached_input_tokens := Option.bind tokens cached_tokens, cache_write_input_tokens := Option.bind tokens cache_write,
            reserved_cost_micros := br_reserved (ao_reservation out), actual_cost_micros := debit f out,
            cost_basis := JStr (final_basis f out),
            served_service_tier := (case ao_served_tier out of Some x \<Rightarrow> x
              | None \<Rightarrow> Option.bind (Option.bind tokens service_tier) (\<lambda>x. x))\<rparr>;
          e1 = (case reporting_of f out of None \<Rightarrow> e
            | Some (n, why) \<Rightarrow> e\<lparr>reporting_estimated_cost_micros := Some n, reporting_estimate_reason := Some why\<rparr>);
          e2 = (case hosted_event f out of None \<Rightarrow> e1
            | Some h \<Rightarrow> e1\<lparr>hosted_tool_calls := Some (hu_searches h), hosted_tool_calls_complete := Some (hu_complete h),
                hosted_tool_cost_micros := tool_fee f out, hosted_tool_pricing_ref := map_option sp_version (search_price_of f)\<rparr>)
      in case Option.bind tokens image_tokens of None \<Rightarrow> e2
         | Some (tx, im, outp) \<Rightarrow> e2\<lparr>ev_image_usage := Some \<lparr>im_text_input_tokens = tx, im_image_input_tokens = im, im_image_output_tokens = outp\<rparr>\<rparr>)"

definition media_request :: "accounting_facts \<Rightarrow> bool" where
  "media_request f \<longleftrightarrow> (fa_google_image f \<or> fa_google_audio f \<or> fa_music f \<or> fa_speech f \<or>
     fa_format f \<in> {''minimax.speech'', ''minimax.images''}) \<and> fa_fixed f = None"

definition accounting_receipt :: "accounting_facts \<Rightarrow> accounting_outcome \<Rightarrow> usage_event" where
  "accounting_receipt f out =
     (if fa_format f = ''openai.moderations'' then moderation_receipt f out
      else if media_request f then media_receipt f out
      else case (ec_tariff (fa_cost f), fa_fixed f) of
          (Some t, None) \<Rightarrow> tariff_receipt t f out
        | _ \<Rightarrow> plain_receipt f out)"

subsection \<open>The admission price\<close>

definition model_discovery_formats :: "string list" where
  "model_discovery_formats = [''requesty.models_managed'', ''featherless.catalog'', ''cerebras.public_catalog'', ''nvidia.public_catalog'',
     ''chutes.models'', ''venice.models'', ''baseten.models'', ''arcee.models'', ''novita.models'', ''openai.models'', ''anthropic.models'',
     ''ollama.models'', ''synthetic.models'']"

definition minimax_formats :: "string list" where
  "minimax_formats = [''minimax.speech'', ''minimax.images'', ''minimax.music'', ''minimax.search'', ''minimax.video_create'']"

definition priced :: "int \<Rightarrow> string \<Rightarrow> int option \<Rightarrow> int option \<Rightarrow> request_tariff option \<Rightarrow> request_cost" where
  "priced n b i k t = \<lparr>reserveMicros = n, basis = b, pricingGap = None, ec_input = i, ec_output = k, ec_tariff = t\<rparr>"

definition unpriced :: "pricing_gap \<Rightarrow> request_tariff option \<Rightarrow> request_cost" where
  "unpriced gap t = \<lparr>reserveMicros = 0, basis = ''unpriced_request'', pricingGap = Some gap, ec_input = None, ec_output = None, ec_tariff = t\<rparr>"

definition inventory_known :: "(rat \<Rightarrow> string) \<Rightarrow> json \<Rightarrow> tool_knowledge option \<Rightarrow> bool" where
  "inventory_known num body parent \<longleftrightarrow>
     retained_tool_base num body (case parent of Some k \<Rightarrow> k | None \<Rightarrow> TokenOnly) = TokenOnly \<and>
     (case member ''tools'' body of None \<Rightarrow> True
      | Some ts \<Rightarrow> retained_tool_base num (JObj [(''input'', JArr [JObj [(''type'', JStr ''additional_tools''), (''tools'', ts)]])]) TokenOnly = TokenOnly)"

text \<open>The price of a body that is an object, once no tariff for the whole request applies.\<close>

definition estimate_card_cost :: "(rat \<Rightarrow> string) \<Rightarrow> compiled_model option \<Rightarrow> json \<Rightarrow> pricing_endpoint \<Rightarrow> tool_knowledge option \<Rightarrow>
    request_tariff option \<Rightarrow> request_cost" where
  "estimate_card_cost num model body pe parent tariff =
     (let pricing = Option.bind model cm_pricing; upstream = Option.bind model cm_upstream;
          outcome = (case tariff of Some (OutcomeTariff v e p m) \<Rightarrow> Some p | _ \<Rightarrow> None);
          gap0 = (case outcome of Some op \<Rightarrow> outcome_request_pricing_gap num pricing body (pe_format pe) op parent
            | None \<Rightarrow> request_pricing_gap num pricing body (pe_format pe) parent None);
          gap = (case gap0 of Some g \<Rightarrow> Some g
            | None \<Rightarrow> if outcome = None \<or> inventory_known num body parent then None else Some RetainedToolUnknown)
      in case gap of
           Some g \<Rightarrow> unpriced g tariff
         | None \<Rightarrow> (case pricing of
             None \<Rightarrow> if tariff \<noteq> None then unpriced ModelRequestFee tariff else priced 1 ''flat_fallback'' None None None
           | Some c \<Rightarrow> (case (if pe_format pe = ''anthropic.messages'' then anthropic_pricing (Some c) upstream (anthropic_modifiers (Some body)) None
                 else Some c) of
               None \<Rightarrow> priced 0 ''unpriced_modifier'' None None None
             | Some q \<Rightarrow>
                 (let est = estimate_model_cost num q body (Some (pe\<lparr>pe_model := upstream\<rparr>)) outcome
                  in priced (ce_reserve est)
                       (if \<not> ce_available est then ''unpriced_service_tier'' else if tariff \<noteq> None then ''manifest_request'' else ''manifest_pricing'')
                       (ce_input est) (ce_output est) tariff))))"

definition native_search_cost :: "compiled_model option \<Rightarrow> string \<Rightarrow> request_tariff option \<Rightarrow> request_cost" where
  "native_search_cost model cap t = (case t of
     Some (SearchTariff v e p n) \<Rightarrow> if model = None \<and> cap = ''search.web'' then priced n ''manifest_request'' None None t
       else unpriced ModelRequestFee None
   | _ \<Rightarrow> unpriced ModelRequestFee None)"

definition tariffed_cost :: "(rat \<Rightarrow> string) \<Rightarrow> compiled_model option \<Rightarrow> json \<Rightarrow> pricing_endpoint \<Rightarrow> tool_knowledge option \<Rightarrow>
    request_tariff option \<Rightarrow> request_cost" where
  "tariffed_cost num model body pe parent t = (case t of
     Some (SuccessfulTariff s) \<Rightarrow> priced (st_micros s) ''manifest_request'' None None t
   | Some (ImageTariff v e p s n) \<Rightarrow> priced n ''manifest_request'' None None t
   | _ \<Rightarrow>
       if native_image_mode (pe_format pe) \<noteq> None then unpriced OpaqueInputBound None
       else if is_array (Some body) then priced 1 ''flat_fallback'' None None None
       else estimate_card_cost num model body pe parent t)"

definition estimate_cost ::
    "(rat \<Rightarrow> string) \<Rightarrow> (string \<Rightarrow> bool) \<Rightarrow> compiled_model option \<Rightarrow> json \<Rightarrow> int option \<Rightarrow> string \<Rightarrow> pricing_endpoint \<Rightarrow> tariff_endpoint \<Rightarrow>
     tool_knowledge option \<Rightarrow> request_tariff option \<Rightarrow> string option \<Rightarrow> request_cost result" where
  "estimate_cost num clean_url model body fixed cap pe te parent prepared prov =
     (let format = pe_format pe; pricing = Option.bind model cm_pricing; upstream = Option.bind model cm_upstream;
          tariff = (case prepared of Some t \<Rightarrow> Inr (Some t) | None \<Rightarrow> select_request_tariff num clean_url te body None);
          image_gap = (if google_image_request upstream body format
            then request_pricing_gap num pricing (if is_array (Some body) then JObj [] else body) ''google.image_generate'' None None else None)
      in if format = ''openai.moderations'' \<or> format \<in> set model_discovery_formats \<or> cap = ''llm.count_tokens''
         then Inr (priced 0 ''none'' (Some 0) (Some 0) None)
         else if (prov = Some ''github-copilot'' \<or> format \<in> set minimax_formats) \<and> fixed = None then Inr (unpriced OpaqueInputBound None)
         else case fixed of
             Some n \<Rightarrow> Inr (priced n ''policy_fixed'' None None None)
           | None \<Rightarrow>
               if format = ''deepgram.prerecorded'' then Inr (unpriced AudioUploadBound None)
               else if prov = Some ''openrouter'' \<and> cap = ''audio.speech'' \<and> format = ''openai.audio_speech'' then Inr (unpriced OpaqueInputBound None)
               else if cap = ''music.generate'' \<and> format = ''openai.chat_completions'' then Inr (unpriced OpaqueInputBound None)
               else if format = ''deepseek.search'' then rbind tariff (\<lambda>t. Inr (native_search_cost model cap t))
               else if image_gap \<noteq> None then Inr (unpriced (the image_gap) None)
               else if format \<in> {''google.embed_content'', ''google.batch_embed_contents'', ''azure_speech.ssml''} then Inr (unpriced OpaqueInputBound None)
               else rbind tariff (\<lambda>t. Inr (tariffed_cost num model body pe parent t)))"

subsection \<open>Properties\<close>

text \<open>A request priced from its model card has no tariff and no gap, and reserves what the card estimates.\<close>

lemma priced_simps [simp]:
  "basis (priced n b i k t) = b" "reserveMicros (priced n b i k t) = n" "pricingGap (priced n b i k t) = None" "ec_tariff (priced n b i k t) = t"
  "ec_input (priced n b i k t) = i" "ec_output (priced n b i k t) = k" "basis (unpriced g t) = ''unpriced_request''"
  by (simp_all add: priced_def unpriced_def)

lemma estimate_cost_cases:
  assumes "estimate_cost num clean_url model body None cap pe te parent prepared prov = Inr cost"
  obtains "cost = priced 0 ''none'' (Some 0) (Some 0) None" | g where "cost = unpriced g None"
    | t where "cost = native_search_cost model cap t" | t where "cost = tariffed_cost num model body pe parent t"
  using assms unfolding estimate_cost_def Let_def option.case by (simp split: if_split_asm) (metis | blast)+

lemma estimated_from_card:
  assumes "estimate_cost num clean_url (Some model) body None cap pe te parent prepared prov = Inr cost"
    and "basis cost = ''manifest_pricing''" and "cm_pricing model = Some c" and "pe_format pe \<noteq> ''anthropic.messages''"
  shows "ec_tariff cost = None \<and> pricingGap cost = None \<and>
    (let est = estimate_model_cost num c body (Some (pe\<lparr>pe_model := cm_upstream model\<rparr>)) None
     in ce_available est \<and> reserveMicros cost = ce_reserve est \<and> ec_input cost = ce_input est \<and> ec_output cost = ce_output est)"
proof -
  obtain t where t: "cost = estimate_card_cost num (Some model) body pe parent t"
  proof (rule estimate_cost_cases [OF assms(1)])
    fix t assume "cost = tariffed_cost num (Some model) body pe parent t"
    then show ?thesis using that assms(2) by (auto simp: tariffed_cost_def split: option.splits request_tariff.splits if_splits)
  qed (use assms(2) in \<open>auto simp: native_search_cost_def split: option.splits request_tariff.splits if_splits\<close>)
  then have "t = None" using assms(2,3,4)
    by (auto simp: estimate_card_cost_def Let_def split: if_splits option.splits)
  then show ?thesis using t assms(2,3,4)
    by (auto simp: estimate_card_cost_def Let_def split: if_splits option.splits)
qed

text \<open>Usage within what the admission assumed.\<close>

definition within_admission :: "token_pricing \<Rightarrow> json \<Rightarrow> string \<Rightarrow> request_cost \<Rightarrow> usage_tokens \<Rightarrow> bool" where
  "within_admission p body format cost t \<longleftrightarrow> tokens_ok t \<and> billed t format = Some t \<and>
     (case (usage_tokens.input_tokens t, ec_input cost, ec_output cost) of
        (Some i, Some m, Some k) \<Rightarrow> i \<le> m \<and> or_zero (usage_tokens.output_tokens t) \<le> k | _ \<Rightarrow> False) \<and>
     served_as_admitted p body t format \<and> writes_as_requested p body t"

lemma pe_model_format [simp]: "pe_format (pe\<lparr>pe_model := m\<rparr>) = pe_format pe"
  by simp

lemma hard_tool_fee: "br_charges (ao_reservation out) = None \<Longrightarrow> claude_web f = None \<Longrightarrow> tool_fee f out = None"
  by (auto simp: tool_fee_def soft_charged_def split: option.split)

lemma receipt_amounts:
  "actual_cost_micros (moderation_receipt f out) = 0" "reserved_cost_micros (moderation_receipt f out) = 0"
  "actual_cost_micros (media_receipt f out) = (if ao_billable out then br_reserved (ao_reservation out) else 0)"
  "reserved_cost_micros (media_receipt f out) = br_reserved (ao_reservation out)"
  "actual_cost_micros (plain_receipt f out) = debit f out" "reserved_cost_micros (plain_receipt f out) = br_reserved (ao_reservation out)"
  "cost_basis (plain_receipt f out) = JStr (final_basis f out)" "reporting_known_cost_micros (plain_receipt f out) = reporting_known f out"
  by (auto simp: moderation_receipt_def media_receipt_def plain_receipt_def Let_def split: option.splits)


text \<open>
  Work that was never billable is free and reported as free; billable work without a measurement
  under a hard budget keeps its whole bound; and a partial amount on the report is the measured
  component, never the retained reservation.
\<close>

theorem receipt_evidence_is_honest:
  "(\<not> ao_billable out \<longrightarrow> rc_class (reporting_cost (plain_receipt f out)) = NoCharge \<and> rc_amount (reporting_cost (plain_receipt f out)) = Some 0) \<and>
   (ao_billable out \<and> measured_cost f out = None \<and> br_charges (ao_reservation out) = None \<and> claude_web f = None \<and> \<not> audio_unbounded f \<longrightarrow>
      actual_cost_micros (plain_receipt f out) =
        min max_safe_integer (if anthropic_unpriced f out then br_reserved (ao_reservation out) else or_fixed f (reserveMicros (fa_cost f)))) \<and>
   (rc_class (reporting_cost (plain_receipt f out)) = Partial \<longrightarrow> rc_amount (reporting_cost (plain_receipt f out)) = Some (known_component f out))"
proof (intro conjI impI)
  assume nb: "\<not> ao_billable out"
  then have "tool_fee f out = None" by (auto simp: tool_fee_def split: option.split)
  then have "debit f out = 0" "final_basis f out = ''none''" using nb
    by (auto simp: debit_def final_basis_def claude_basis_def plain_basis_def known_no_charge_def Let_def max_safe_integer_def split: option.split)
  then have "base_class (plain_receipt f out) = NoCharge" "usage_counter (Some (actual_cost_micros (plain_receipt f out))) = Some 0"
    by (simp_all add: base_class_def canonical_class_def receipt_amounts usage_counter_def safe_int_def max_safe_integer_def known_basis_classes_def)
  then show "rc_class (reporting_cost (plain_receipt f out)) = NoCharge" "rc_amount (reporting_cost (plain_receipt f out)) = Some 0"
    by (simp_all add: reporting_cost_def)
next
  assume a: "ao_billable out \<and> measured_cost f out = None \<and> br_charges (ao_reservation out) = None \<and> claude_web f = None \<and> \<not> audio_unbounded f"
  then have "tool_fee f out = None" by (simp add: hard_tool_fee)
  then show "actual_cost_micros (plain_receipt f out) =
        min max_safe_integer (if anthropic_unpriced f out then br_reserved (ao_reservation out) else or_fixed f (reserveMicros (fa_cost f)))"
    using a by (simp add: receipt_amounts debit_def unmeasured_cost_def soft_charged_def)
next
  assume p: "rc_class (reporting_cost (plain_receipt f out)) = Partial"
  then have "base_class (plain_receipt f out) = Unknown"
    using base_class_known [of "plain_receipt f out"] by (auto simp: reporting_cost_def split: if_splits)
  then obtain k where k: "partial_amount (plain_receipt f out) = Some k" "rc_amount (reporting_cost (plain_receipt f out)) = Some k"
    using p by (auto simp: reporting_cost_def split: option.splits)
  have "reporting_known f out = Some k" using partial_amount_Some [OF k(1)] by (simp add: receipt_amounts)
  then show "rc_amount (reporting_cost (plain_receipt f out)) = Some (known_component f out)"
    using k(2) by (simp add: reporting_known_def Let_def split: if_split_asm)
qed

definition plain_endpoint :: tariff_endpoint where
  "plain_endpoint = \<lparr>te_method = Some ''POST'', te_path = Some ''/v1/chat'', te_upstream_path = None, te_request_format = Some ''openai.chat'',
     te_response_format = Some ''openai.chat'', te_streaming = None, te_lifecycle = False, te_responses_lifecycle = False, te_websocket = False,
     te_passthrough = False, te_query = [], te_pricing = None\<rparr>"

definition sample_model :: compiled_model where
  "sample_model = \<lparr>cm_pricing = Some (TokenCard sample_card), cm_upstream = Some ''m''\<rparr>"

definition sample_price :: request_cost where
  "sample_price = priced 289 ''manifest_pricing'' (Some 37) (Some 10) None"

definition sample_facts :: accounting_facts where
  "sample_facts = \<lparr>fa_event = sample_event, fa_model = Some sample_model, fa_anthropic = None, fa_fixed = None, fa_cost = sample_price,
     fa_format = ''openai.chat'', fa_started = 0, fa_search_price = None, fa_web_price = None, fa_google_image = False, fa_google_audio = False,
     fa_music = False, fa_speech = False\<rparr>"

definition sample_outcome :: accounting_outcome where
  "sample_outcome = \<lparr>ao_occurred = 9, ao_status_code = Some 200, ao_status = Success, ao_billable = True, ao_tokens = Some sample_usage,
     ao_reservation = \<lparr>br_reservations = [], br_charges = None, br_reserved = 289\<rparr>, ao_content = None, ao_served_tier = None,
     ao_characters = None, ao_hosted = None, ao_unpriced = False, ao_tariff_outcome = None, ao_receipt = None\<rparr>"


end
