(* ===== verification/Published_Input.thy ===== *)
theory Published_Input
  imports Witness_Store Http_Utils
begin

section \<open>Published inputs\<close>

text \<open>
  \<open>worker/published-input-receipt.ts\<close>: the binding of an input that is published once and forwarded
  once, the checks of every member, and the comparisons. Bindings, objects and attempts are JSON values,
  as the source validates them as unknown values; two of them are the same when their canonical texts
  (members sorted by name) are. \<open>origin_ok\<close> is \<open>readPublishedInputOrigin\<close>, which is \<open>new URL\<close>;
  \<open>date_parse\<close> is \<open>Date.parse\<close>. The state machine of a receipt is in \<open>Background_Store\<close>, where
  its row lives.
\<close>

definition published_input_version :: string where "published_input_version = ''clawrouter.published-input.v1''"
definition published_input_slot :: string where "published_input_slot = ''messages[0].content[1].image_url.url''"
definition published_input_max_bytes :: int where "published_input_max_bytes = 8 * 1024 * 1024"
definition published_input_lifetime_ms :: int where "published_input_lifetime_ms = 15 * 60000"

definition published_unavailable :: error where
  "published_unavailable = HttpError 409 ''published_input_unavailable''"

subsection \<open>Members\<close>

definition exact_keys :: "string list \<Rightarrow> json option \<Rightarrow> bool" where
  "exact_keys expected value = (case value of
     Some (JObj kvs) \<Rightarrow> distinct (map fst kvs) \<and> length kvs = length expected \<and> set (map fst kvs) = set expected
   | _ \<Rightarrow> False)"

definition plain_text :: "int \<Rightarrow> json option \<Rightarrow> bool" where
  "plain_text bound value = (case value of
     Some (JStr s) \<Rightarrow> s \<noteq> [] \<and> utf16_length s \<le> bound \<and> list_all (\<lambda>c. 31 < (of_char c :: nat) \<and> (of_char c :: nat) \<noteq> 127) s
   | _ \<Rightarrow> False)"

definition hex_digit :: "char \<Rightarrow> bool" where
  "hex_digit c \<longleftrightarrow> 48 \<le> (of_char c :: nat) \<and> (of_char c :: nat) \<le> 57 \<or> 97 \<le> (of_char c :: nat) \<and> (of_char c :: nat) \<le> 102"

definition hex_text :: "nat \<Rightarrow> string \<Rightarrow> bool" where
  "hex_text n s \<longleftrightarrow> length s = n \<and> list_all hex_digit s"

definition digest_value :: "json option \<Rightarrow> bool" where
  "digest_value value = (case value of Some (JStr s) \<Rightarrow> hex_text 64 s | _ \<Rightarrow> False)"

definition prefixed_hex :: "string \<Rightarrow> nat \<Rightarrow> json option \<Rightarrow> bool" where
  "prefixed_hex p n value = (case value of Some (JStr s) \<Rightarrow> starts_with p s \<and> hex_text n (drop (length p) s) | _ \<Rightarrow> False)"

definition asset_id :: "json option \<Rightarrow> bool" where
  "asset_id = prefixed_hex ''asset_'' 32"

definition positive_count :: "json option \<Rightarrow> int option" where
  "positive_count value = (case safe_count value of Some n \<Rightarrow> if 0 < n then Some n else None | None \<Rightarrow> None)"

subsection \<open>Bindings\<close>

definition valid_published_proof :: "(string \<Rightarrow> int option) \<Rightarrow> json option \<Rightarrow> json option \<Rightarrow> json option \<Rightarrow> bool" where
  "valid_published_proof date_parse credential who proof =
     (if text_is (get ''kind'' proof) ''proxy_key''
      then exact_keys ([''kind'', ''credentialId'', ''principalId'', ''secretSha256''] @
             (case proof of Some p \<Rightarrow> if has ''expiresAt'' p then [''expiresAt''] else [] | None \<Rightarrow> [])) proof \<and>
           get ''credentialId'' proof = credential \<and> plain_text 256 (get ''credentialId'' proof) \<and>
           get ''principalId'' proof = who \<and> digest_value (get ''secretSha256'' proof) \<and>
           (nullish (get ''expiresAt'' proof) \<or> plain_text 256 (get ''expiresAt'' proof) \<and>
              Option.bind (text_of (get ''expiresAt'' proof)) date_parse \<noteq> None)
      else credential = Some JNull \<and> get ''email'' proof = who \<and> plain_text 256 (get ''email'' proof) \<and>
           positive_count (get ''expiresAtMs'' proof) \<noteq> None \<and>
           (if text_is (get ''kind'' proof) ''local''
            then exact_keys [''kind'', ''email'', ''sessionSha256'', ''expiresAtMs''] proof \<and> digest_value (get ''sessionSha256'' proof)
            else text_is (get ''kind'' proof) ''cloudflare_access'' \<and> exact_keys [''kind'', ''email'', ''expiresAtMs''] proof))"

definition valid_published_issuer :: "(string \<Rightarrow> int option) \<Rightarrow> json option \<Rightarrow> bool" where
  "valid_published_issuer date_parse value \<longleftrightarrow>
     exact_keys [''credentialId'', ''principalId'', ''policyId'', ''policyGeneration'', ''tenantId'', ''proof''] value \<and>
     (get ''credentialId'' value = Some JNull \<or> plain_text 256 (get ''credentialId'' value)) \<and>
     (get ''principalId'' value = Some JNull \<or> plain_text 256 (get ''principalId'' value)) \<and>
     plain_text 256 (get ''policyId'' value) \<and> plain_text 256 (get ''policyGeneration'' value) \<and> plain_text 256 (get ''tenantId'' value) \<and>
     is_object (get ''proof'' value) \<and>
     valid_published_proof date_parse (get ''credentialId'' value) (get ''principalId'' value) (get ''proof'' value)"

definition valid_published_owner :: "json option \<Rightarrow> bool" where
  "valid_published_owner owner \<longleftrightarrow>
     exact_keys [''providerId'', ''endpointId'', ''grantKey'', ''lineage'', ''routeSha256'', ''policyGeneration''] owner \<and>
     text_is (get ''providerId'' owner) ''openrouter'' \<and> text_is (get ''endpointId'' owner) ''music_generate'' \<and>
     plain_text 1024 (get ''grantKey'' owner) \<and> (case text_of (get ''grantKey'' owner) of Some s \<Rightarrow> starts_with ''oauth/'' s | None \<Rightarrow> False) \<and>
     plain_text 256 (get ''lineage'' owner) \<and> digest_value (get ''routeSha256'' owner) \<and> plain_text 256 (get ''policyGeneration'' owner)"

definition valid_published_fields :: "json option \<Rightarrow> bool" where
  "valid_published_fields b \<longleftrightarrow>
     exact_keys [''version'', ''id'', ''scope'', ''issuer'', ''owner'', ''generation'', ''publicOrigin'', ''origin'', ''path'', ''modelId'',
       ''upstreamModel'', ''slot'', ''requestDigest'', ''permissionDigest'', ''digest'', ''mime'', ''size'', ''idempotencyDigest'',
       ''verifierDigest'', ''allocatedAt'', ''expiresAt''] b \<and>
     text_is (get ''version'' b) published_input_version \<and> asset_id (get ''id'' b) \<and> prefixed_hex ''http-continuations:'' 64 (get ''scope'' b) \<and>
     text_is (get ''origin'' b) ''https://openrouter.ai'' \<and> text_is (get ''path'' b) ''/api/v1/chat/completions'' \<and>
     plain_text 256 (get ''modelId'' b) \<and> (case text_of (get ''modelId'' b) of Some s \<Rightarrow> starts_with ''openrouter/'' s | None \<Rightarrow> False) \<and>
     text_in (get ''upstreamModel'' b) [''google/lyria-3-pro-preview'', ''google/lyria-3-clip-preview''] \<and>
     text_is (get ''slot'' b) published_input_slot \<and>
     list_all (\<lambda>k. digest_value (get k b)) [''requestDigest'', ''permissionDigest'', ''digest'', ''idempotencyDigest'', ''verifierDigest''] \<and>
     text_in (get ''mime'' b) [''image/png'', ''image/jpeg'', ''image/webp'']"

definition valid_published_numbers :: "json option \<Rightarrow> bool" where
  "valid_published_numbers b = (case (positive_count (get ''size'' b), positive_count (get ''generation'' b),
       positive_count (get ''allocatedAt'' b), positive_count (get ''expiresAt'' b)) of
     (Some bytes, Some _, Some from, Some until) \<Rightarrow>
       bytes \<le> published_input_max_bytes \<and> from < until \<and> until - from \<le> published_input_lifetime_ms
   | _ \<Rightarrow> False)"

definition valid_published_input :: "(string \<Rightarrow> int option) \<Rightarrow> (json option \<Rightarrow> bool) \<Rightarrow> json \<Rightarrow> bool" where
  "valid_published_input date_parse origin_ok b \<longleftrightarrow> valid_published_fields (Some b) \<and> valid_published_numbers (Some b) \<and>
     origin_ok (member ''publicOrigin'' b) \<and> valid_published_owner (member ''owner'' b) \<and>
     valid_published_issuer date_parse (member ''issuer'' b) \<and>
     get ''policyGeneration'' (member ''issuer'' b) = get ''policyGeneration'' (member ''owner'' b)"

definition published_input_key :: "json \<Rightarrow> string" where
  "published_input_key b =
     ''published-input/v1/'' @ drop 19 (case text_of (member ''scope'' b) of Some s \<Rightarrow> s | None \<Rightarrow> []) @ ''/'' @
     (case text_of (member ''id'' b) of Some s \<Rightarrow> s | None \<Rightarrow> [])"

definition proof_expired :: "(string \<Rightarrow> int option) \<Rightarrow> int \<Rightarrow> json option \<Rightarrow> bool" where
  "proof_expired date_parse now proof =
     (if text_is (get ''kind'' proof) ''proxy_key''
      then \<not> nullish (get ''expiresAt'' proof) \<and>
        (case Option.bind (text_of (get ''expiresAt'' proof)) date_parse of Some t \<Rightarrow> t \<le> now | None \<Rightarrow> False)
      else case positive_count (get ''expiresAtMs'' proof) of Some t \<Rightarrow> t \<le> now | None \<Rightarrow> False)"

definition published_input_live :: "(string \<Rightarrow> int option) \<Rightarrow> (json option \<Rightarrow> bool) \<Rightarrow> int \<Rightarrow> json \<Rightarrow> bool" where
  "published_input_live date_parse origin_ok now b \<longleftrightarrow> valid_published_input date_parse origin_ok b \<and>
     0 < now \<and> safe_int now \<and>
     (case (positive_count (member ''allocatedAt'' b), positive_count (member ''expiresAt'' b)) of
        (Some from, Some until) \<Rightarrow> from \<le> now \<and> now < until | _ \<Rightarrow> False) \<and>
     \<not> proof_expired date_parse now (get ''proof'' (member ''issuer'' b))"

subsection \<open>Comparison, objects and attempts\<close>

text \<open>Equality of the canonical texts: the members of an object are compared by name, not by position.\<close>

fun same_json :: "json \<Rightarrow> json \<Rightarrow> bool" and same_members :: "(string \<times> json) list \<Rightarrow> (string \<times> json) list \<Rightarrow> bool"
  and same_elements :: "json list \<Rightarrow> json list \<Rightarrow> bool" where
  "same_json (JObj a) (JObj b) = (length a = length b \<and> same_members a b)"
| "same_json (JArr a) (JArr b) = same_elements a b"
| "same_json a b = (a = b)"
| "same_members [] b = True"
| "same_members ((k, v) # a) b = ((case map_of b k of None \<Rightarrow> False | Some w \<Rightarrow> same_json v w) \<and> same_members a b)"
| "same_elements [] b = (b = [])"
| "same_elements (x # a) [] = False"
| "same_elements (x # a) (y # b) = (same_json x y \<and> same_elements a b)"

definition same_published_input :: "(string \<Rightarrow> int option) \<Rightarrow> (json option \<Rightarrow> bool) \<Rightarrow> json \<Rightarrow> json \<Rightarrow> bool result" where
  "same_published_input date_parse origin_ok a b =
     (if valid_published_input date_parse origin_ok a \<and> valid_published_input date_parse origin_ok b then Inr (same_json a b)
      else Inl published_unavailable)"

definition valid_published_object :: "json \<Rightarrow> json \<Rightarrow> bool" where
  "valid_published_object obj b \<longleftrightarrow> exact_keys [''key'', ''version'', ''etag'', ''digest'', ''mime'', ''size''] (Some obj) \<and>
     text_is (member ''key'' obj) (published_input_key b) \<and> plain_text 256 (member ''version'' obj) \<and> plain_text 256 (member ''etag'' obj) \<and>
     member ''digest'' obj = member ''digest'' b \<and> member ''mime'' obj = member ''mime'' b \<and> member ''size'' obj = member ''size'' b"

definition valid_published_attempt :: "json \<Rightarrow> bool" where
  "valid_published_attempt a \<longleftrightarrow> exact_keys [''admissionDigest'', ''requestId'', ''eventId'', ''reservedMicros'', ''reservations''] (Some a) \<and>
     digest_value (member ''admissionDigest'' a) \<and> plain_text 256 (member ''requestId'' a) \<and> plain_text 256 (member ''eventId'' a) \<and>
     safe_count (member ''reservedMicros'' a) \<noteq> None \<and>
     (case member ''reservations'' a of
        Some (JArr legs) \<Rightarrow> length legs \<le> 8 \<and> list_all (\<lambda>l. exact_keys [''objectName'', ''reservationId''] (Some l) \<and>
          plain_text 1024 (member ''objectName'' l) \<and> plain_text 256 (member ''reservationId'' l)) legs
      | _ \<Rightarrow> False)"

datatype published_state = AssetPending | PublicationUnknown | AssetPublished | ForwardingUnknown

record published_receipt =
  pr_binding :: json
  pr_state :: published_state
  pr_object :: "json option"
  pr_attempt :: "json option"

definition assert_published_verifier :: "(string \<Rightarrow> int option) \<Rightarrow> (json option \<Rightarrow> bool) \<Rightarrow> int \<Rightarrow> published_receipt \<Rightarrow> string \<Rightarrow> unit result" where
  "assert_published_verifier date_parse origin_ok now x verifier =
     guard (published_input_live date_parse origin_ok now (pr_binding x) \<and> hex_text 64 verifier \<and>
       (case text_of (member ''verifierDigest'' (pr_binding x)) of Some d \<Rightarrow> safe_equal d verifier | None \<Rightarrow> False)) published_unavailable"

lemma published_live_valid: "published_input_live date_parse origin_ok now b \<Longrightarrow> valid_published_input date_parse origin_ok b"
  by (simp add: published_input_live_def)

end
