(* ===== verification/Background_Types.thy ===== *)
theory Background_Types
  imports Request_Receipt Continuation_Store Published_Input "HOL-Library.List_Lexorder"
begin

section \<open>Background jobs and managed inputs\<close>

text \<open>
  The records of \<open>worker/background-store.ts\<close> and \<open>worker/managed-input-receipt.ts\<close>: an admitted job
  with its reservation legs, the tombstone it becomes, the state of a managed prediction, and the input
  upload that shares the row of its generation. A stored record is an operation (a live job or a closed
  summary) with the two parts both forms keep: the managed state and the input receipt, whose upload is
  an operation of its own.
\<close>

definition background_observation_ms :: int where "background_observation_ms = 60 * 60000"
definition background_auto_retry_ms :: int where "background_auto_retry_ms = 7 * 86400000"
definition background_replay_ms :: int where "background_replay_ms = 44 * 86400000"
definition background_row_bytes :: int where "background_row_bytes = 64 * 1024"
definition background_active_limit :: nat where "background_active_limit = 16"
definition background_capacity :: nat where "background_capacity = 64"

definition bg_invalid :: error where "bg_invalid = HttpError 400 ''background_request_invalid''"
definition bg_missing :: error where "bg_missing = HttpError 404 ''background_unavailable''"
definition bg_full :: error where "bg_full = HttpError 503 ''background_capacity''"
definition bg_exists :: error where "bg_exists = HttpError 409 ''background_job_exists''"
definition bg_closed :: error where "bg_closed = HttpError 409 ''background_closed''"
definition input_unavailable :: error where "input_unavailable = HttpError 409 ''managed_input_unavailable''"

subsection \<open>Jobs\<close>

datatype settlement = SettlePending | Settled | SettleMissing | SettleConflict | SettleUnavailable
datatype reserve_state = NeverReserved | ReserveSent | ReserveAccepted | ReserveDenied
datatype usage_state = UsagePending | UsageStored | UsageDuplicate | UsageExpired | UsageUnavailable
datatype background_error = AdmissionLost | ObservationUnavailable | ObservationExpired | AccountingUnavailable
datatype live_phase = Admitting | Observing | Outbox
datatype closed_phase = Completed | ReplayExpired

record background_leg =
  lg_intent :: reservation_intent
  lg_reserve :: reserve_state
  lg_uncertain :: bool
  lg_dispatched :: bool
  lg_settlement :: settlement

record background_route =
  ro_params :: "(string \<times> string) list"
  ro_organization :: "string option"
  ro_project :: "string option"

record managed_admission =
  ma_protocol :: string
  ma_provider :: "string option"
  ma_key :: "string option"
  ma_digest :: string
  ma_version :: string
  ma_file_base :: "string option"

record background_admission =
  ad_id :: string
  ad_at :: int
  ad_owner :: continuation_owner
  ad_facts :: accounting_facts
  ad_plan :: reservation_plan
  ad_route :: background_route
  ad_stream :: bool
  ad_managed :: "managed_admission option"

datatype submission = SubmissionPending | SubmissionUnknown | SubmissionBound

record managed_state = managed_admission +
  ms_lost :: "string option"
  ms_files :: "(string \<times> string) list option"
  ms_route :: "background_route option"
  ms_generation :: string
  ms_submission :: submission
  ms_upstream :: "string option"
  ms_terminal :: "string option"

record background_summary =
  bg_id :: string
  bg_admitted :: int
  bg_observe_until :: int
  bg_auto_retry_until :: int
  bg_replay_until :: int
  bg_event_id :: string
  bg_request_id :: string
  bg_amount :: "int option"
  bg_basis :: "json option"
  bg_usage :: usage_state
  bg_settlements :: "settlement list"
  bg_last_error :: "background_error option"

record background_job = background_summary +
  bg_phase :: live_phase
  bg_owner :: continuation_owner
  bg_facts :: "accounting_facts option"
  bg_legs :: "background_leg list"
  bg_reserved :: int
  bg_route :: "background_route option"
  bg_stream :: bool
  bg_response :: "string option"
  bg_egress :: bool
  bg_claimed :: bool
  bg_event :: "usage_event option"
  bg_next_attempt :: int
  bg_attempts :: nat
  bg_content :: "string option"

datatype operation = LiveJob background_job | Closed closed_phase background_summary

primrec op_summary :: "operation \<Rightarrow> background_summary" where
  "op_summary (LiveJob j) = background_summary.truncate j"
| "op_summary (Closed p s) = s"

definition close_job :: "closed_phase \<Rightarrow> background_job \<Rightarrow> operation" where
  "close_job p j = Closed p (background_summary.truncate j)"

definition new_leg :: "reservation_intent \<Rightarrow> background_leg" where
  "new_leg i = \<lparr>lg_intent = i, lg_reserve = NeverReserved, lg_uncertain = False, lg_dispatched = False, lg_settlement = SettlePending\<rparr>"

definition new_background_job :: "background_admission \<Rightarrow> background_job" where
  "new_background_job a =
     \<lparr>bg_id = ad_id a, bg_admitted = ad_at a, bg_observe_until = ad_at a + background_observation_ms,
      bg_auto_retry_until = ad_at a + background_auto_retry_ms, bg_replay_until = ad_at a + background_replay_ms,
      bg_event_id = ev_id (fa_event (ad_facts a)), bg_request_id = request_id (fa_event (ad_facts a)),
      bg_amount = None, bg_basis = None, bg_usage = UsagePending, bg_settlements = map (\<lambda>_. SettlePending) (legs (ad_plan a)), bg_last_error = None,
      bg_phase = Admitting, bg_owner = ad_owner a, bg_facts = Some (ad_facts a), bg_legs = map new_leg (legs (ad_plan a)),
      bg_reserved = plan_reserved (ad_plan a), bg_route = Some (ad_route a), bg_stream = ad_stream a, bg_response = None, bg_egress = False,
      bg_claimed = False, bg_event = None, bg_next_attempt = ad_at a + 60000, bg_attempts = 0, bg_content = None\<rparr>"

definition new_managed_state :: "background_admission \<Rightarrow> managed_state option" where
  "new_managed_state a = map_option (\<lambda>m. managed_admission.extend (m\<lparr>ma_provider := Some (ow_provider (ad_owner a))\<rparr>)
     \<lparr>ms_lost = None, ms_files = None, ms_route = Some (ad_route a), ms_generation = ow_generation (ad_owner a), ms_submission = SubmissionPending,
      ms_upstream = None, ms_terminal = None\<rparr>) (ad_managed a)"

subsection \<open>Managed admissions\<close>

definition managed_protocols :: "string list" where
  "managed_protocols = [''replicate.predictions'', ''fal.queue'', ''kie.jobs'', ''vydra.jobs'', ''dashscope.video'', ''pixverse.video'',
     ''runway.tasks'', ''together.video'', ''google.omni_video'', ''openrouter.video'', ''minimax.video'']"

definition alnum :: "char \<Rightarrow> bool" where
  "alnum c \<longleftrightarrow> is_digit c \<or> lower_letter c \<or> 65 \<le> (of_char c :: nat) \<and> (of_char c :: nat) \<le> 90"

definition charset_text :: "string \<Rightarrow> nat \<Rightarrow> nat \<Rightarrow> string \<Rightarrow> bool" where
  "charset_text extra lo hi s \<longleftrightarrow> lo \<le> length s \<and> length s \<le> hi \<and> list_all (\<lambda>c. alnum c \<or> c \<in> set extra) s"

text \<open>\<^verbatim>\<open>^[a-z0-9][a-z0-9_-]{0,63}$\<close>.\<close>

definition provider_text :: "string \<Rightarrow> bool" where
  "provider_text s \<longleftrightarrow> s \<noteq> [] \<and> length s \<le> 64 \<and> (lower_letter (hd s) \<or> is_digit (hd s)) \<and>
     list_all (\<lambda>c. lower_letter c \<or> is_digit c \<or> c \<in> set ''_-'') s"

text \<open>\<^verbatim>\<open>^https:\/\/[a-z0-9.-]+(?::443)?(?:\/[a-zA-Z0-9_/-]*)?$\<close>.\<close>

definition file_base_text :: "string \<Rightarrow> bool" where
  "file_base_text s \<longleftrightarrow> length s \<le> 2048 \<and> starts_with ''https://'' s \<and>
     (let hostc = (\<lambda>c. lower_letter c \<or> is_digit c \<or> c \<in> set ''.-''); r = drop 8 s; h = takeWhile hostc r; t = dropWhile hostc r;
          t1 = (if starts_with '':443'' t then drop 4 t else t)
      in h \<noteq> [] \<and> (t1 = [] \<or> hd t1 = CHR ''/'' \<and> list_all (\<lambda>c. alnum c \<or> c \<in> set ''_/-'') t1))"

definition valid_managed_metadata :: "managed_admission \<Rightarrow> bool" where
  "valid_managed_metadata m \<longleftrightarrow> ma_protocol m \<in> set managed_protocols \<and>
     (case ma_provider m of Some p \<Rightarrow> provider_text p | None \<Rightarrow> ma_protocol m = ''replicate.predictions'') \<and>
     (case ma_key m of Some k \<Rightarrow> hex_text 64 k | None \<Rightarrow> True) \<and> hex_text 64 (ma_digest m) \<and>
     (case ma_file_base m of Some b \<Rightarrow> file_base_text b | None \<Rightarrow> True) \<and> charset_text ''_./:-'' 1 256 (ma_version m)"

definition or_replicate :: "string option \<Rightarrow> string" where
  "or_replicate p = (case p of Some s \<Rightarrow> s | None \<Rightarrow> ''replicate'')"

text \<open>A fixed policy price that the plan reserves exactly.\<close>

definition fixed_tariff :: "accounting_facts \<Rightarrow> reservation_plan \<Rightarrow> bool" where
  "fixed_tariff f plan = (case fa_fixed f of
     None \<Rightarrow> False
   | Some n \<Rightarrow> basis (fa_cost f) = ''policy_fixed'' \<and> safe_int n \<and> 0 \<le> n \<and> n = reserveMicros (fa_cost f) \<and>
       plan_reserved plan = (if legs plan = [] then 0 else n) \<and> list_all (\<lambda>l. rq_cost (leg_request l) = n) (legs plan))"

definition validate_managed_admission :: "background_admission \<Rightarrow> unit result" where
  "validate_managed_admission a = (case ad_managed a of
     None \<Rightarrow> Inl bg_invalid
   | Some m \<Rightarrow>
       if \<not> valid_managed_metadata m then Inl bg_invalid
       else if ad_stream a \<or> or_replicate (ma_provider m) \<noteq> ow_provider (ad_owner a) then Inl bg_invalid
       else guard (fixed_tariff (ad_facts a) (ad_plan a)) (HttpError 400 ''pricing_required''))"

subsection \<open>Managed inputs\<close>

record input_binding =
  ib_version :: string
  ib_profile :: "string option"
  ib_scope :: string
  ib_job :: string
  ib_owner :: continuation_owner
  ib_generation :: int
  ib_product :: string
  ib_origin :: string
  ib_region :: string
  ib_model_id :: string
  ib_model :: string
  ib_slot :: string
  ib_digest :: string
  ib_create_digest :: string
  ib_size :: int
  ib_mime :: string
  ib_expires :: int

datatype input_state = InputPending | InputDispatchUnknown | InputBound

record input_receipt =
  ir_binding :: input_binding
  ir_state :: input_state
  ir_image :: "string option"
  ir_create_claimed :: bool
  ir_upload :: operation

record input_allocation =
  ia_binding :: input_binding
  ia_admission :: background_admission
  ia_facts :: accounting_facts
  ia_plan :: reservation_plan

definition pixverse_origins :: "(string \<times> string) list" where
  "pixverse_origins = [(''international'', ''https://app-api.pixverse.ai''), (''cn'', ''https://app-api.pixverseai.cn'')]"

definition managed_input_max_bytes :: int where "managed_input_max_bytes = 8 * 1024 * 1024"

definition valid_input_owner :: "continuation_owner \<Rightarrow> bool" where
  "valid_input_owner ow \<longleftrightarrow> ow_provider ow = ''pixverse'' \<and> charset_text ''_-'' 1 64 (ow_endpoint ow) \<and>
     (case ow_grant ow of Some g \<Rightarrow> charset_text ''_./:-'' 1 256 g | None \<Rightarrow> False) \<and>
     (case ow_lineage ow of Some l \<Rightarrow> charset_text ''_-'' 1 128 l | None \<Rightarrow> False) \<and>
     charset_text ''_-'' 1 128 (ow_generation ow) \<and> hex_text 64 (ow_route ow)"

definition valid_managed_input :: "input_binding \<Rightarrow> bool" where
  "valid_managed_input b \<longleftrightarrow> (ib_profile b = None \<or> ib_profile b = Some ''clawrouter.pixverse-image-input.v1'') \<and>
     ib_version b = ''clawrouter.managed-input.v1'' \<and> prefixed_hex ''http-continuations:'' 64 (Some (JStr (ib_scope b))) \<and>
     background_id (ib_job b) \<and> ib_product b = ''pixverse.video'' \<and> ib_slot b = ''image'' \<and>
     map_of pixverse_origins (ib_region b) = Some (ib_origin b) \<and> ib_model b \<in> {''v6'', ''c1''} \<and> charset_text ''._/-'' 1 128 (ib_model_id b) \<and>
     safe_int (ib_generation b) \<and> 1 \<le> ib_generation b \<and> hex_text 64 (ib_digest b) \<and> hex_text 64 (ib_create_digest b) \<and>
     safe_int (ib_size b) \<and> 1 \<le> ib_size b \<and> ib_size b \<le> managed_input_max_bytes \<and>
     ib_mime b \<in> {''image/png'', ''image/jpeg'', ''image/webp''} \<and> safe_int (ib_expires b) \<and> valid_input_owner (ib_owner b)"

definition managed_input_live :: "int \<Rightarrow> input_binding \<Rightarrow> bool" where
  "managed_input_live now b \<longleftrightarrow> valid_managed_input b \<and> now < ib_expires b"

text \<open>An operation of the allocation: its event, its legs and its fixed price name the bound work.\<close>

definition input_operation_ok :: "input_binding \<Rightarrow> accounting_facts \<Rightarrow> reservation_plan \<Rightarrow> bool" where
  "input_operation_ok b f plan \<longleftrightarrow> provider (fa_event f) = ''pixverse'' \<and> grant_key (fa_event f) = ow_grant (ib_owner b) \<and>
     ev_model (fa_event f) = Some (ib_model_id b) \<and> fixed_tariff f plan \<and>
     list_all (\<lambda>l. rq_capability (leg_request l) = capability (fa_event f)) (legs plan)"

definition reservation_ids :: "reservation_plan \<Rightarrow> string set" where
  "reservation_ids plan = (\<lambda>l. rq_id (leg_request l)) ` set (legs plan)"

definition valid_input_allocation :: "int \<Rightarrow> input_allocation \<Rightarrow> bool" where
  "valid_input_allocation now x =
     (let b = ia_binding x; a = ia_admission x; e = fa_event (ad_facts a); u = fa_event (ia_facts x)
      in managed_input_live now b \<and> ib_expires b \<le> ad_at a + 60000 \<and> ad_id a = ib_job b \<and> ib_owner b = ad_owner a \<and>
         (case ad_managed a of Some m \<Rightarrow> ma_protocol m = ''pixverse.video'' \<and> ma_version m = ib_model b | None \<Rightarrow> False) \<and>
         ev_model e = Some (ib_model_id b) \<and> \<not> ad_stream a \<and> ro_params (ad_route a) = [] \<and> ro_organization (ad_route a) = None \<and>
         ro_project (ad_route a) = None \<and> capability e = ''video.generate'' \<and> capability u = ''pixverse.image_upload'' \<and>
         ev_id e \<noteq> ev_id u \<and> request_id e \<noteq> request_id u \<and>
         reservation_ids (ia_plan x) \<inter> reservation_ids (ad_plan a) = {} \<and>
         input_operation_ok b (ad_facts a) (ad_plan a) \<and> input_operation_ok b (ia_facts x) (ia_plan x))"

definition pixverse_id :: "string \<Rightarrow> bool" where
  "pixverse_id s \<longleftrightarrow> s \<noteq> [] \<and> length s \<le> 16 \<and> list_all is_digit s \<and> hd s \<noteq> CHR ''0'' \<and> safe_int (int (digits_value s))"

definition bind_managed_input :: "int \<Rightarrow> string \<Rightarrow> input_receipt \<Rightarrow> input_receipt result" where
  "bind_managed_input now img r =
     (if \<not> managed_input_live now (ir_binding r) then Inl input_unavailable
      else if ir_state r = InputPending \<or> ir_create_claimed r \<or> ir_image r \<noteq> None \<and> ir_image r \<noteq> Some img then Inl input_unavailable
      else if \<not> pixverse_id img then Inl (Thrown ''invalid_pixverse_id'')
      else Inr (r\<lparr>ir_image := Some img, ir_state := InputBound\<rparr>))"

subsection \<open>The table\<close>

record background_record =
  rec_op :: operation
  rec_managed :: "managed_state option"
  rec_input :: "input_receipt option"

datatype row_body = JobRow background_record | AssetRow published_receipt

record background_row =
  row_id :: string
  row_admitted :: int
  row_next :: "int option"
  row_body :: row_body

record background_store =
  bs_rows :: "background_row list"
  bs_closed :: "string list"

definition empty_background :: background_store where
  "empty_background = \<lparr>bs_rows = [], bs_closed = []\<rparr>"

definition live_background :: "background_record \<Rightarrow> bool" where
  "live_background r = (case rec_op r of LiveJob _ \<Rightarrow> True | Closed _ _ \<Rightarrow> False)"

definition rec_summary :: "background_record \<Rightarrow> background_summary" where
  "rec_summary r = op_summary (rec_op r)"

end
