(* ===== verification/Background_Store.thy ===== *)
theory Background_Store
  imports Background_Types
begin

section \<open>The background store\<close>

text \<open>
  \<open>BackgroundStore\<close> of \<open>worker/background-store.ts\<close>: one table with the admitted jobs, their
  tombstones and the published inputs of a scope. Every call runs in one transaction of the scope's
  owner, so an operation returns either an error, which leaves the table alone, or its reply and the new
  table. \<open>now\<close> is \<open>Date.now()\<close> during the call. \<open>bytes\<close> is the length of the row's JSON text.
  \<open>closeBinding\<close> is logged in \<open>bs_closed\<close>. The phase column is a function of the stored value.
\<close>

type_synonym 'a store_op = "background_store \<Rightarrow> ('a \<times> background_store) result"

subsection \<open>Rows\<close>

definition get_record :: "string \<Rightarrow> background_store \<Rightarrow> background_record option" where
  "get_record i s = (case row_at row_id i (bs_rows s) of
     None \<Rightarrow> None
   | Some row \<Rightarrow> (case row_body row of JobRow r \<Rightarrow> Some r | AssetRow _ \<Rightarrow> None))"

definition put_row :: "background_row \<Rightarrow> background_store \<Rightarrow> background_store" where
  "put_row row s = s\<lparr>bs_rows :=
     (if row_at row_id (row_id row) (bs_rows s) = None then bs_rows s @ [row]
      else update_where (\<lambda>r. row_id r = row_id row) (\<lambda>r. r\<lparr>row_next := row_next row, row_body := row_body row\<rparr>) (bs_rows s))\<rparr>"

definition no_response :: "background_job \<Rightarrow> bool" where
  "no_response j \<longleftrightarrow> bg_response j = None \<or> bg_response j = Some []"

definition next_action :: "operation \<Rightarrow> int option" where
  "next_action x = (case x of
     Closed _ _ \<Rightarrow> None
   | LiveJob j \<Rightarrow> Some (foldr min
       ((if bg_event j = None then [bg_observe_until j] else []) @
        (if bg_next_attempt j < bg_auto_retry_until j
         then [if bg_event j = None \<and> no_response j \<and> bg_phase j = Observing then bg_observe_until j else bg_next_attempt j] else []))
       (bg_replay_until j)))"

definition save_record :: "(row_body \<Rightarrow> int) \<Rightarrow> background_record \<Rightarrow> background_store \<Rightarrow> background_store result" where
  "save_record bytes r s =
     (if background_row_bytes < bytes (JobRow r) then Inl (HttpError 413 ''background_metadata_too_large'')
      else Inr (put_row \<lparr>row_id = bg_id (rec_summary r), row_admitted = bg_admitted (rec_summary r), row_next = next_action (rec_op r),
        row_body = JobRow r\<rparr> s))"

definition job_of :: "string \<Rightarrow> background_store \<Rightarrow> (background_record \<times> background_job) result" where
  "job_of i s = (case get_record i s of
     None \<Rightarrow> Inl bg_missing
   | Some r \<Rightarrow> (case rec_op r of Closed _ _ \<Rightarrow> Inl bg_closed | LiveJob j \<Rightarrow> Inr (r, j)))"

definition admitting :: "int \<Rightarrow> string \<Rightarrow> background_store \<Rightarrow> (background_record \<times> background_job) result" where
  "admitting now i s = rbind (job_of i s) (\<lambda>(r, j).
     if bg_phase j \<noteq> Admitting \<or> bg_admitted j + 60000 \<le> now then Inl (HttpError 409 ''background_admission_expired'') else Inr (r, j))"

definition upload_job :: "input_receipt \<Rightarrow> background_job result" where
  "upload_job x = (case ir_upload x of Closed _ _ \<Rightarrow> Inl input_unavailable | LiveJob u \<Rightarrow> Inr u)"

definition upload_of :: "string \<Rightarrow> background_store \<Rightarrow> (background_record \<times> background_job) result" where
  "upload_of i s = rbind (job_of i s) (\<lambda>(r, j). case rec_input r of
     None \<Rightarrow> Inl input_unavailable
   | Some x \<Rightarrow> rbind (upload_job x) (\<lambda>u. if bg_phase u \<noteq> Admitting \<or> bg_event u \<noteq> None then Inl input_unavailable else Inr (r, u)))"

definition save_main :: "(row_body \<Rightarrow> int) \<Rightarrow> background_record \<Rightarrow> operation \<Rightarrow> background_store \<Rightarrow> background_store result" where
  "save_main bytes r x s = save_record bytes (r\<lparr>rec_op := x\<rparr>) s"

definition save_upload :: "(row_body \<Rightarrow> int) \<Rightarrow> string \<Rightarrow> operation \<Rightarrow> background_store \<Rightarrow> background_store result" where
  "save_upload bytes i x s = rbind (job_of i s) (\<lambda>(r, j). case rec_input r of
     None \<Rightarrow> Inl input_unavailable
   | Some rc \<Rightarrow> save_record bytes (r\<lparr>rec_input := Some (rc\<lparr>ir_upload := x\<rparr>)\<rparr>) s)"

subsection \<open>Admission\<close>

definition managed_match :: "int \<Rightarrow> managed_admission \<Rightarrow> string \<Rightarrow> background_record \<Rightarrow> bool" where
  "managed_match now m key r = (case rec_managed r of
     None \<Rightarrow> False
   | Some st \<Rightarrow> ma_protocol st = ma_protocol m \<and> ma_key st = Some key \<and> or_replicate (ma_provider st) = or_replicate (ma_provider m) \<and>
       now < bg_replay_until (rec_summary r))"

definition job_records :: "background_store \<Rightarrow> background_record list" where
  "job_records s = List.map_filter (\<lambda>row. case row_body row of JobRow r \<Rightarrow> Some r | AssetRow _ \<Rightarrow> None) (bs_rows s)"

definition managed_retry :: "int \<Rightarrow> managed_admission \<Rightarrow> string \<Rightarrow> background_store \<Rightarrow> background_record option result" where
  "managed_retry now m gen s =
     (if \<not> valid_managed_metadata m then Inl bg_invalid
      else case ma_key m of
          None \<Rightarrow> Inr None
        | Some key \<Rightarrow> (case find (managed_match now m key) (job_records s) of
            None \<Rightarrow> Inr None
          | Some r \<Rightarrow>
              if (case rec_managed r of Some st \<Rightarrow> ma_digest st \<noteq> ma_digest m | None \<Rightarrow> True) then Inl (HttpError 409 ''idempotency_conflict'')
              else if (case rec_managed r of Some st \<Rightarrow> ms_generation st \<noteq> gen | None \<Rightarrow> True) then Inl (HttpError 409 ''background_owner_changed'')
              else Inr (Some r)))"

definition active_row :: "background_row \<Rightarrow> bool" where
  "active_row row = (case row_body row of
     JobRow r \<Rightarrow> (case rec_op r of LiveJob j \<Rightarrow> bg_phase j \<noteq> Outbox | Closed _ _ \<Rightarrow> False) | AssetRow _ \<Rightarrow> False)"

definition evictable :: "int \<Rightarrow> background_row \<Rightarrow> bool" where
  "evictable now row = (case row_body row of
     JobRow r \<Rightarrow> \<not> live_background r \<and> (rec_managed r = None \<or> bg_replay_until (rec_summary r) \<le> now) | AssetRow _ \<Rightarrow> False)"

definition row_before :: "background_row \<Rightarrow> background_row \<Rightarrow> bool" where
  "row_before a b \<longleftrightarrow> row_admitted a < row_admitted b \<or> row_admitted a = row_admitted b \<and> row_id a < row_id b"

definition first_row :: "background_row list \<Rightarrow> background_row option" where
  "first_row rows = fold (\<lambda>r best. case best of None \<Rightarrow> Some r | Some b \<Rightarrow> if row_before r b then Some r else best) rows None"

definition make_room :: "int \<Rightarrow> background_store \<Rightarrow> background_store result" where
  "make_room now s =
     (if length (bs_rows s) < background_capacity then Inr s
      else case first_row (filter (evictable now) (bs_rows s)) of
          None \<Rightarrow> Inl bg_full
        | Some old \<Rightarrow> Inr (s\<lparr>bs_rows := delete_where (\<lambda>r. row_id r = row_id old) (bs_rows s)\<rparr>))"

definition admitted_record :: "background_admission \<Rightarrow> background_record" where
  "admitted_record a = \<lparr>rec_op = LiveJob (new_background_job a), rec_managed = new_managed_state a, rec_input = None\<rparr>"

definition check_managed :: "int \<Rightarrow> background_admission \<Rightarrow> background_store \<Rightarrow> unit result" where
  "check_managed now a s = (case ad_managed a of
     None \<Rightarrow> Inr ()
   | Some m \<Rightarrow> rbind (validate_managed_admission a) (\<lambda>_. rbind (managed_retry now m (ow_generation (ad_owner a)) s)
       (\<lambda>found. guard (found = None) bg_exists)))"

definition admit :: "(row_body \<Rightarrow> int) \<Rightarrow> int \<Rightarrow> background_admission \<Rightarrow> background_record store_op" where
  "admit bytes now a s =
     (if \<not> background_id (ad_id a) \<or> \<not> safe_int (ad_at a) \<or> 60000 < \<bar>now - ad_at a\<bar> then Inl bg_invalid
      else rbind (check_managed now a s) (\<lambda>_.
        if get_record (ad_id a) s \<noteq> None then Inl bg_exists
        else if background_row_bytes < bytes (JobRow (admitted_record a)) then Inl (HttpError 413 ''background_metadata_too_large'')
        else if background_active_limit \<le> length (filter active_row (bs_rows s)) then Inl bg_full
        else rbind (make_room now s) (\<lambda>s1. rbind (save_record bytes (admitted_record a) s1) (\<lambda>s2. Inr (admitted_record a, s2)))))"

definition admit_managed :: "(row_body \<Rightarrow> int) \<Rightarrow> int \<Rightarrow> background_admission \<Rightarrow> (bool \<times> background_record) store_op" where
  "admit_managed bytes now a s = rbind (validate_managed_admission a) (\<lambda>_. case ad_managed a of
     None \<Rightarrow> Inl bg_invalid
   | Some m \<Rightarrow> rbind (managed_retry now m (ow_generation (ad_owner a)) s) (\<lambda>found. case found of
       Some r \<Rightarrow> Inr ((False, r), s)
     | None \<Rightarrow> rbind (admit bytes now a s) (\<lambda>(r, s1). Inr ((True, r), s1))))"

definition list_records :: "string \<Rightarrow> background_store \<Rightarrow> background_record list" where
  "list_records after s = take 16 (sort_key (\<lambda>r. bg_id (rec_summary r)) (filter (\<lambda>r. after < bg_id (rec_summary r)) (job_records s)))"

subsection \<open>Reservation legs\<close>

definition at_leg :: "(row_body \<Rightarrow> int) \<Rightarrow> int \<Rightarrow> string \<Rightarrow> nat \<Rightarrow> bool \<Rightarrow> (background_leg \<Rightarrow> background_leg result) \<Rightarrow> reservation_intent store_op" where
  "at_leg bytes now i n upload f s = rbind (if upload then upload_of i s else admitting now i s) (\<lambda>(r, j).
     if length (bg_legs j) \<le> n then Inl bg_invalid
     else rbind (f (bg_legs j ! n)) (\<lambda>l.
       let j1 = j\<lparr>bg_legs := (bg_legs j)[n := l]\<rparr>
       in rbind (if upload then save_upload bytes i (LiveJob j1) s else save_main bytes r (LiveJob j1) s) (\<lambda>s1. Inr (lg_intent l, s1))))"

definition send_leg :: "background_leg \<Rightarrow> background_leg result" where
  "send_leg l = (if lg_reserve l = ReserveAccepted \<or> lg_reserve l = ReserveDenied then Inl bg_invalid
     else Inr (l\<lparr>lg_uncertain := (lg_uncertain l \<or> lg_reserve l = ReserveSent), lg_reserve := ReserveSent\<rparr>))"

definition answer_leg :: "bool \<Rightarrow> background_leg \<Rightarrow> background_leg result" where
  "answer_leg granted l = (if lg_reserve l \<noteq> ReserveSent then Inl bg_invalid
     else Inr (l\<lparr>lg_reserve := (if granted then ReserveAccepted else ReserveDenied)\<rparr>))"

definition dispatch_leg :: "background_leg \<Rightarrow> background_leg result" where
  "dispatch_leg l = (if lg_reserve l \<noteq> ReserveAccepted then Inl bg_invalid else Inr (l\<lparr>lg_dispatched := True\<rparr>))"

definition begin_reserve :: "(row_body \<Rightarrow> int) \<Rightarrow> int \<Rightarrow> string \<Rightarrow> nat \<Rightarrow> bool \<Rightarrow> reservation_intent store_op" where
  "begin_reserve bytes now i n upload = at_leg bytes now i n upload send_leg"

definition reserved :: "(row_body \<Rightarrow> int) \<Rightarrow> int \<Rightarrow> string \<Rightarrow> nat \<Rightarrow> bool \<Rightarrow> bool \<Rightarrow> reservation_intent store_op" where
  "reserved bytes now i n granted upload = at_leg bytes now i n upload (answer_leg granted)"

definition leg_dispatched :: "(row_body \<Rightarrow> int) \<Rightarrow> int \<Rightarrow> string \<Rightarrow> nat \<Rightarrow> bool \<Rightarrow> reservation_intent store_op" where
  "leg_dispatched bytes now i n upload = at_leg bytes now i n upload dispatch_leg"

subsection \<open>Dispatch and identity\<close>

definition begin_dispatch :: "(row_body \<Rightarrow> int) \<Rightarrow> int \<Rightarrow> string \<Rightarrow> string option \<Rightarrow> bool \<Rightarrow> background_record store_op" where
  "begin_dispatch bytes now i content for_input s = rbind (admitting now i s) (\<lambda>(r, j).
     if rec_input r \<noteq> None \<and> \<not> for_input then Inl input_unavailable
     else if bg_claimed j then Inl (HttpError 409 ''background_dispatch_claimed'')
     else let r1 = r\<lparr>rec_op := LiveJob (j\<lparr>bg_claimed := True, bg_content := content\<rparr>)\<rparr>
          in rbind (save_record bytes r1 s) (\<lambda>s1. Inr (r1, s1)))"

definition ready_leg :: "background_leg \<Rightarrow> bool" where
  "ready_leg l \<longleftrightarrow> lg_reserve l = ReserveAccepted \<and> lg_dispatched l"

definition begin_egress :: "(row_body \<Rightarrow> int) \<Rightarrow> int \<Rightarrow> string \<Rightarrow> background_record store_op" where
  "begin_egress bytes now i s = rbind (admitting now i s) (\<lambda>(r, j).
     if rec_managed r \<noteq> None \<and> \<not> bg_claimed j then Inl bg_invalid
     else if \<not> list_all ready_leg (bg_legs j) then Inl bg_invalid
     else let r1 = r\<lparr>rec_op := LiveJob (j\<lparr>bg_egress := True, bg_phase := Observing, bg_next_attempt := now + 5000\<rparr>),
                     rec_managed := map_option (\<lambda>m. m\<lparr>ms_submission := SubmissionUnknown\<rparr>) (rec_managed r)\<rparr>
          in rbind (save_record bytes r1 s) (\<lambda>s1. Inr (r1, s1)))"

definition bind_identity :: "(row_body \<Rightarrow> int) \<Rightarrow> int \<Rightarrow> string \<Rightarrow> string \<Rightarrow> unit store_op" where
  "bind_identity bytes now i response s = rbind (job_of i s) (\<lambda>(r, j).
     if bg_event j \<noteq> None \<or> bg_observe_until j \<le> now then Inr ((), s)
     else if bg_phase j \<noteq> Observing then Inl bg_invalid
     else if response = [] \<or> 256 < length response then Inl bg_invalid
     else if \<not> no_response j \<and> bg_response j \<noteq> Some response then Inl (HttpError 502 ''background_identity_conflict'')
     else if rec_managed r \<noteq> None \<and> \<not> charset_text ''_-'' 1 128 response then Inl bg_invalid
     else rbind (save_record bytes (r\<lparr>rec_op := LiveJob (j\<lparr>bg_response := Some response, bg_next_attempt := min (bg_next_attempt j) (now + 5000)\<rparr>),
              rec_managed := map_option (\<lambda>m. m\<lparr>ms_upstream := Some response, ms_submission := SubmissionBound\<rparr>) (rec_managed r)\<rparr>) s)
            (\<lambda>s1. Inr ((), s1)))"

subsection \<open>Freezing the financial receipt\<close>

definition free_leg :: "background_leg \<Rightarrow> background_leg" where
  "free_leg l = (if lg_reserve l = NeverReserved \<or> lg_reserve l = ReserveDenied \<and> \<not> lg_uncertain l then l\<lparr>lg_settlement := Settled\<rparr> else l)"

definition leg_reservation :: "background_leg \<Rightarrow> ledger_reservation" where
  "leg_reservation l = \<lparr>res_id = rq_id (leg_request (lg_intent l)), res_object = leg_object (lg_intent l), res_dispatched = False\<rparr>"

definition job_receipt :: "accounting_outcome \<Rightarrow> accounting_facts \<Rightarrow> background_job \<Rightarrow> usage_event" where
  "job_receipt out f j = accounting_receipt f (out\<lparr>ao_content := (case ao_content out of Some c \<Rightarrow> Some c | None \<Rightarrow> bg_content j),
     ao_reservation := \<lparr>br_reservations = map leg_reservation (bg_legs j), br_charges = None, br_reserved = bg_reserved j\<rparr>\<rparr>)"

definition frozen_job :: "int \<Rightarrow> accounting_outcome \<Rightarrow> background_job \<Rightarrow> background_job result" where
  "frozen_job now out j = (case bg_facts j of
     None \<Rightarrow> Inl (Thrown ''facts'')
   | Some f \<Rightarrow>
       (let e = job_receipt out f j; ls = map free_leg (bg_legs j)
        in Inr (j\<lparr>bg_event := Some e, bg_amount := Some (actual_cost_micros e), bg_basis := Some (cost_basis e), bg_phase := Outbox,
             bg_facts := None, bg_route := None, bg_response := None, bg_legs := ls, bg_settlements := map lg_settlement ls, bg_next_attempt := now\<rparr>)))"

definition freeze_upload :: "(row_body \<Rightarrow> int) \<Rightarrow> int \<Rightarrow> string \<Rightarrow> accounting_outcome \<Rightarrow> operation store_op" where
  "freeze_upload bytes now i out s = (case Option.bind (get_record i s) rec_input of
     None \<Rightarrow> Inl bg_missing
   | Some rc \<Rightarrow> (case ir_upload rc of
       Closed p x \<Rightarrow> Inr (Closed p x, s)
     | LiveJob u \<Rightarrow>
         if bg_event u \<noteq> None then Inr (LiveJob u, s)
         else rbind (frozen_job now out u) (\<lambda>u1. rbind (save_upload bytes i (LiveJob u1) s) (\<lambda>s1. Inr (LiveJob u1, s1)))))"

definition finish_freeze :: "(row_body \<Rightarrow> int) \<Rightarrow> string \<Rightarrow> background_record \<Rightarrow> background_record store_op" where
  "finish_freeze bytes i r s = rbind (save_record bytes r s) (\<lambda>s1. Inr (r, s1\<lparr>bs_closed := bs_closed s1 @ [i]\<rparr>))"

definition open_upload :: "background_record \<Rightarrow> input_receipt option" where
  "open_upload r = (case rec_input r of None \<Rightarrow> None
     | Some rc \<Rightarrow> (case ir_upload rc of LiveJob u \<Rightarrow> if bg_event u = None then Some rc else None | Closed _ _ \<Rightarrow> None))"

definition freeze :: "(row_body \<Rightarrow> int) \<Rightarrow> int \<Rightarrow> string \<Rightarrow> accounting_outcome \<Rightarrow> background_record store_op" where
  "freeze bytes now i out s = (case get_record i s of
     None \<Rightarrow> Inl bg_missing
   | Some r \<Rightarrow> (case rec_op r of
       Closed _ _ \<Rightarrow> Inr (r, s)
     | LiveJob j \<Rightarrow>
         if bg_event j \<noteq> None then Inr (r, s)
         else rbind (frozen_job now out j) (\<lambda>j1.
           let r1 = r\<lparr>rec_op := LiveJob j1\<rparr>
           in case open_upload r of
                None \<Rightarrow> finish_freeze bytes i r1 s
              | Some rc \<Rightarrow> rbind (save_record bytes r1 s) (\<lambda>s1.
                  rbind (freeze_upload bytes now i (out\<lparr>ao_billable := (ir_state rc \<noteq> InputPending)\<rparr>) s1) (\<lambda>(_, s2).
                    finish_freeze bytes i (r1\<lparr>rec_input := Option.bind (get_record i s2) rec_input\<rparr>) s2)))))"

text \<open>An outcome without usage evidence; its reservation is filled in when the receipt is frozen.\<close>

definition bare_outcome :: "int \<Rightarrow> int option \<Rightarrow> event_status \<Rightarrow> bool \<Rightarrow> accounting_outcome" where
  "bare_outcome now code st billable = \<lparr>ao_occurred = now, ao_status_code = code, ao_status = st, ao_billable = billable, ao_tokens = None,
     ao_reservation = \<lparr>br_reservations = [], br_charges = None, br_reserved = 0\<rparr>, ao_content = None, ao_served_tier = None, ao_characters = None,
     ao_hosted = None, ao_unpriced = False, ao_tariff_outcome = None, ao_receipt = None\<rparr>"

subsection \<open>Managed observations\<close>

definition managed_statuses :: "string list" where
  "managed_statuses = [''starting'', ''processing'', ''succeeded'', ''failed'', ''canceled'', ''aborted'']"

definition observe_ok :: "background_record \<Rightarrow> background_job \<Rightarrow> string \<Rightarrow> string \<Rightarrow> int \<Rightarrow> bool" where
  "observe_ok r j upstream st code \<longleftrightarrow>
     (case rec_managed r of Some m \<Rightarrow> ms_submission m = SubmissionBound | None \<Rightarrow> False) \<and> bg_response j = Some upstream \<and>
     st \<in> set managed_statuses \<and> (200 \<le> code \<and> code < 300 \<or> st = ''failed'' \<and> code = 422)"

definition observe_managed ::
    "(row_body \<Rightarrow> int) \<Rightarrow> int \<Rightarrow> string \<Rightarrow> string \<Rightarrow> string \<Rightarrow> int \<Rightarrow> nat option \<Rightarrow> string option \<Rightarrow> unit store_op" where
  "observe_managed bytes now i upstream st code attempt lost s = (case get_record i s of
     None \<Rightarrow> Inr ((), s)
   | Some r \<Rightarrow> (case rec_op r of
       Closed _ _ \<Rightarrow> Inr ((), s)
     | LiveJob j \<Rightarrow>
         if bg_event j \<noteq> None \<or> (case attempt of Some n \<Rightarrow> bg_attempts j \<noteq> n | None \<Rightarrow> False) \<or> bg_observe_until j \<le> now then Inr ((), s)
         else if \<not> observe_ok r j upstream st code then Inl bg_invalid
         else case lost of
             Some why \<Rightarrow>
               if why \<notin> {''expired_or_unknown'', ''deleted'', ''canceled_or_deleted''} \<or> st \<noteq> ''processing'' then Inl bg_invalid
               else rbind (save_record bytes (r\<lparr>rec_op := LiveJob (j\<lparr>bg_last_error := Some ObservationUnavailable\<rparr>),
                        rec_managed := map_option (\<lambda>m. m\<lparr>ms_lost := Some why\<rparr>) (rec_managed r)\<rparr>) s)
                      (\<lambda>s1. rbind (freeze bytes now i (bare_outcome now (Some code) ProviderError True) s1) (\<lambda>(_, s2). Inr ((), s2)))
           | None \<Rightarrow>
               if st = ''starting'' \<or> st = ''processing'' then Inr ((), s)
               else rbind (save_record bytes (r\<lparr>rec_managed := map_option (\<lambda>m. m\<lparr>ms_terminal := Some st\<rparr>) (rec_managed r)\<rparr>) s)
                      (\<lambda>s1. rbind (freeze bytes now i (bare_outcome now (Some code) (if st = ''succeeded'' then Success else ProviderError) True) s1)
                         (\<lambda>(_, s2). Inr ((), s2)))))"

definition invalid_files :: error where "invalid_files = HttpError 400 ''managed_files_invalid''"

definition file_ok :: "string \<times> string \<Rightarrow> bool" where
  "file_ok f \<longleftrightarrow> charset_text ''_-'' 1 128 (fst f) \<and>
     list_ex (\<lambda>p. starts_with p (snd f) \<and> (let r = drop (length p) (snd f)
       in r \<noteq> [] \<and> length r \<le> 64 \<and> list_all (\<lambda>c. lower_letter c \<or> is_digit c \<or> c \<in> set ''.+-'') r)) [''video/'', ''audio/'', ''image/'']"

fun merge_files :: "(string \<times> string) list \<Rightarrow> (string \<times> string) list \<Rightarrow> (string \<times> string) list result" where
  "merge_files acc [] = Inr acc"
| "merge_files acc (f # fs) =
     (if \<not> file_ok f then Inl invalid_files
      else case map_of acc (fst f) of
          Some m \<Rightarrow> if m \<noteq> snd f then Inl (HttpError 409 ''managed_file_conflict'') else merge_files acc fs
        | None \<Rightarrow> if 64 \<le> length acc then Inl invalid_files else merge_files (acc @ [f]) fs)"

definition known_files :: "managed_state \<Rightarrow> (string \<times> string) list" where
  "known_files m = (case ms_files m of Some fs \<Rightarrow> fs | None \<Rightarrow> [])"

definition bind_managed_files :: "(row_body \<Rightarrow> int) \<Rightarrow> int \<Rightarrow> string \<Rightarrow> string \<Rightarrow> (string \<times> string) list \<Rightarrow> (string \<times> string) list store_op" where
  "bind_managed_files bytes now i upstream files s =
     (case get_record i s of
        Some r \<Rightarrow> (case rec_managed r of
          Some m \<Rightarrow>
            if ms_submission m \<noteq> SubmissionBound \<or> ms_upstream m \<noteq> Some upstream \<or> ms_terminal m \<noteq> Some ''succeeded'' \<or> ms_lost m \<noteq> None \<or>
               bg_replay_until (rec_summary r) \<le> now then Inl (HttpError 409 ''managed_files_unavailable'')
            else if 64 < length (known_files m) \<or> 64 < length files then Inl invalid_files
            else rbind (merge_files [] (known_files m)) (\<lambda>old. rbind (merge_files old files) (\<lambda>merged.
              if merged = known_files m then Inr (merged, s)
              else rbind (save_record bytes (r\<lparr>rec_managed := Some (m\<lparr>ms_files := Some merged\<rparr>)\<rparr>) s) (\<lambda>s1. Inr (merged, s1))))
        | None \<Rightarrow> Inl (HttpError 409 ''managed_files_unavailable''))
      | None \<Rightarrow> Inl (HttpError 409 ''managed_files_unavailable''))"

subsection \<open>Acknowledgements\<close>

datatype ack_sink = UsageSink | LegSink nat

definition usage_dispositions :: "(string \<times> usage_state) list" where
  "usage_dispositions = [(''stored'', UsageStored), (''duplicate'', UsageDuplicate), (''expired_by_retention'', UsageExpired), (''unavailable'', UsageUnavailable)]"

definition settle_dispositions :: "(string \<times> settlement) list" where
  "settle_dispositions = [(''settled'', Settled), (''missing'', SettleMissing), (''conflict'', SettleConflict), (''unavailable'', SettleUnavailable)]"

definition usage_final :: "usage_state \<Rightarrow> bool" where
  "usage_final u \<longleftrightarrow> u \<in> {UsageStored, UsageDuplicate, UsageExpired}"

definition fully_accounted :: "'a background_summary_scheme \<Rightarrow> bool" where
  "fully_accounted j \<longleftrightarrow> list_all (\<lambda>x. x = Settled) (bg_settlements j) \<and> usage_final (bg_usage j)"

text \<open>The job after an acknowledgement, or \<^term>\<open>None\<close> when the acknowledgement changes nothing.\<close>

definition ack_job :: "int \<Rightarrow> string \<Rightarrow> ack_sink \<Rightarrow> string \<Rightarrow> background_job \<Rightarrow> background_job option result" where
  "ack_job now event sink disposition j =
     (if (case bg_event j of None \<Rightarrow> True | Some e \<Rightarrow> ev_id e \<noteq> event) \<or> bg_replay_until j \<le> now then Inr None
      else case sink of
          UsageSink \<Rightarrow>
            if usage_final (bg_usage j) then Inr None
            else (case map_of usage_dispositions disposition of None \<Rightarrow> Inl bg_invalid | Some u \<Rightarrow> Inr (Some (j\<lparr>bg_usage := u\<rparr>)))
        | LegSink n \<Rightarrow>
            (case map_of settle_dispositions disposition of
               None \<Rightarrow> Inl bg_invalid
             | Some d \<Rightarrow>
                 if length (bg_legs j) \<le> n then Inl bg_invalid
                 else if lg_settlement (bg_legs j ! n) = Settled then Inr None
                 else (let ls = (bg_legs j)[n := (bg_legs j ! n)\<lparr>lg_settlement := d\<rparr>]
                       in Inr (Some (j\<lparr>bg_legs := ls, bg_settlements := map lg_settlement ls\<rparr>)))))"

definition uploads_closed :: "background_record \<Rightarrow> bool" where
  "uploads_closed r = (case rec_input r of None \<Rightarrow> True | Some rc \<Rightarrow> (case ir_upload rc of Closed _ _ \<Rightarrow> True | LiveJob _ \<Rightarrow> False))"

definition acknowledge_main :: "(row_body \<Rightarrow> int) \<Rightarrow> int \<Rightarrow> string \<Rightarrow> string \<Rightarrow> ack_sink \<Rightarrow> string \<Rightarrow> unit store_op" where
  "acknowledge_main bytes now i event sink disposition s = (case get_record i s of
     None \<Rightarrow> Inl bg_missing
   | Some r \<Rightarrow> (case rec_op r of
       Closed _ _ \<Rightarrow> Inr ((), s)
     | LiveJob j \<Rightarrow> rbind (ack_job now event sink disposition j) (\<lambda>c. case c of
         None \<Rightarrow> Inr ((), s)
       | Some j1 \<Rightarrow> rbind (save_main bytes r (if fully_accounted j1 \<and> uploads_closed r then close_job Completed j1 else LiveJob j1) s) (\<lambda>s1. Inr ((), s1)))))"

definition close_parent :: "(row_body \<Rightarrow> int) \<Rightarrow> string \<Rightarrow> background_store \<Rightarrow> background_store result" where
  "close_parent bytes i s = (case get_record i s of
     None \<Rightarrow> Inr s
   | Some r \<Rightarrow> (case rec_op r of
       Closed _ _ \<Rightarrow> Inr s
     | LiveJob j \<Rightarrow> if bg_event j \<noteq> None \<and> fully_accounted j then save_main bytes r (close_job Completed j) s else Inr s))"

definition acknowledge_upload :: "(row_body \<Rightarrow> int) \<Rightarrow> int \<Rightarrow> string \<Rightarrow> string \<Rightarrow> ack_sink \<Rightarrow> string \<Rightarrow> unit store_op" where
  "acknowledge_upload bytes now i event sink disposition s = (case Option.bind (get_record i s) rec_input of
     None \<Rightarrow> Inl bg_missing
   | Some rc \<Rightarrow> (case ir_upload rc of
       Closed _ _ \<Rightarrow> Inr ((), s)
     | LiveJob u \<Rightarrow> rbind (ack_job now event sink disposition u) (\<lambda>c. case c of
         None \<Rightarrow> Inr ((), s)
       | Some u1 \<Rightarrow>
           if fully_accounted u1
           then rbind (save_upload bytes i (close_job Completed u1) s) (\<lambda>s1. rbind (close_parent bytes i s1) (\<lambda>s2. Inr ((), s2)))
           else rbind (save_upload bytes i (LiveJob u1) s) (\<lambda>s1. Inr ((), s1)))))"

subsection \<open>Recovery\<close>

definition expire_admission :: "(row_body \<Rightarrow> int) \<Rightarrow> int \<Rightarrow> background_record \<Rightarrow> background_job \<Rightarrow> background_record store_op" where
  "expire_admission bytes now r j s =
     (if bg_phase j = Admitting \<or> bg_event j = None \<and> bg_observe_until j \<le> now
      then rbind (save_main bytes r (LiveJob (j\<lparr>bg_last_error := Some (if bg_phase j = Admitting then AdmissionLost else ObservationExpired)\<rparr>)) s)
             (\<lambda>s1. freeze bytes now (bg_id j) (bare_outcome now None ProviderError (bg_egress j)) s1)
      else Inr (r, s))"

definition claim_one :: "(row_body \<Rightarrow> int) \<Rightarrow> int \<Rightarrow> bool \<Rightarrow> background_record \<Rightarrow> background_record option store_op" where
  "claim_one bytes now manual r s = (case rec_op r of
     Closed _ _ \<Rightarrow> Inr (None, s)
   | LiveJob j \<Rightarrow>
       if manual \<and> bg_event j = None then Inl (HttpError 409 ''background_not_final'')
       else if bg_replay_until j \<le> now then rbind (save_main bytes r (close_job ReplayExpired j) s) (\<lambda>s1. Inr (None, s1))
       else rbind (expire_admission bytes now r j s) (\<lambda>(r1, s1). case rec_op r1 of
           Closed _ _ \<Rightarrow> Inr (None, s1)
         | LiveJob j1 \<Rightarrow>
             if bg_auto_retry_until j1 \<le> now \<and> \<not> manual
             then rbind (save_main bytes r1 (LiveJob (j1\<lparr>bg_next_attempt := bg_auto_retry_until j1\<rparr>)) s1) (\<lambda>s2. Inr (None, s2))
             else (let r2 = r1\<lparr>rec_op := LiveJob (j1\<lparr>bg_attempts := Suc (bg_attempts j1), bg_next_attempt := now + 30000\<rparr>)\<rparr>
                   in rbind (save_record bytes r2 s1) (\<lambda>s2. Inr (Some r2, s2)))))"

fun claim_all :: "(row_body \<Rightarrow> int) \<Rightarrow> int \<Rightarrow> bool \<Rightarrow> background_record list \<Rightarrow> background_record list store_op" where
  "claim_all bytes now manual [] s = Inr ([], s)"
| "claim_all bytes now manual (r # rs) s = rbind (claim_one bytes now manual r s) (\<lambda>(w, s1).
     rbind (claim_all bytes now manual rs s1) (\<lambda>(ws, s2). Inr ((case w of Some x \<Rightarrow> x # ws | None \<Rightarrow> ws), s2)))"

definition due_records :: "int \<Rightarrow> background_store \<Rightarrow> background_record list" where
  "due_records now s = List.map_filter (\<lambda>row. case row_body row of JobRow r \<Rightarrow> Some r | AssetRow _ \<Rightarrow> None)
     (take 4 (sort_key (\<lambda>row. case row_next row of Some t \<Rightarrow> t | None \<Rightarrow> 0)
       (filter (\<lambda>row. case row_next row of Some t \<Rightarrow> t \<le> now | None \<Rightarrow> False) (bs_rows s))))"

definition claim :: "(row_body \<Rightarrow> int) \<Rightarrow> int \<Rightarrow> string option \<Rightarrow> background_record list store_op" where
  "claim bytes now i s = (case i of
     Some k \<Rightarrow> claim_all bytes now True (case get_record k s of Some r \<Rightarrow> [r] | None \<Rightarrow> []) s
   | None \<Rightarrow> claim_all bytes now False (due_records now s) s)"

definition retry_delay :: "background_job \<Rightarrow> background_error option \<Rightarrow> int" where
  "retry_delay j err = (let backoff = 5000 * 2 ^ min (bg_attempts j) 10
     in if bg_event j \<noteq> None then min (60 * 60000) backoff else if err \<noteq> None then min 30000 backoff else 5000)"

definition retry :: "(row_body \<Rightarrow> int) \<Rightarrow> int \<Rightarrow> string \<Rightarrow> background_error option \<Rightarrow> nat \<Rightarrow> unit store_op" where
  "retry bytes now i err attempt s = (case get_record i s of
     None \<Rightarrow> Inr ((), s)
   | Some r \<Rightarrow> (case rec_op r of
       Closed _ _ \<Rightarrow> Inr ((), s)
     | LiveJob j \<Rightarrow>
         if bg_attempts j \<noteq> attempt then Inr ((), s)
         else rbind (save_main bytes r (LiveJob (j\<lparr>bg_last_error := err, bg_next_attempt := now + retry_delay j err\<rparr>)) s) (\<lambda>s1. Inr ((), s1))))"

definition next_deadline :: "background_store \<Rightarrow> int option" where
  "next_deadline s = (case List.map_filter row_next (bs_rows s) of [] \<Rightarrow> None | t # ts \<Rightarrow> Some (fold min ts t))"

subsection \<open>Input uploads\<close>

definition input_receipt_of :: "background_record option \<Rightarrow> input_binding \<Rightarrow> input_receipt result" where
  "input_receipt_of r b = (case r of
     None \<Rightarrow> Inl input_unavailable
   | Some x \<Rightarrow> (case rec_input x of
       None \<Rightarrow> Inl input_unavailable
     | Some rc \<Rightarrow> if bg_id (rec_summary x) = ib_job b \<and> valid_managed_input (ir_binding rc) \<and> valid_managed_input b \<and> ir_binding rc = b
         then Inr rc else Inl input_unavailable))"

record input_state_ack =
  mi_binding :: input_binding
  mi_state :: input_state
  mi_image :: "string option"
  mi_create_claimed :: bool
  mi_upstream :: "string option"

definition managed_input_state :: "background_record option \<Rightarrow> input_binding \<Rightarrow> input_state_ack result" where
  "managed_input_state r b =
     (if ib_profile b \<noteq> Some ''clawrouter.pixverse-image-input.v1'' then Inl input_unavailable
      else rbind (input_receipt_of r b) (\<lambda>rc. Inr \<lparr>mi_binding = ir_binding rc, mi_state = ir_state rc, mi_image = ir_image rc,
        mi_create_claimed = ir_create_claimed rc,
        mi_upstream = (case Option.bind r rec_managed of Some m \<Rightarrow> if ms_submission m = SubmissionBound then ms_upstream m else None | None \<Rightarrow> None)\<rparr>))"

definition allocate_input :: "(row_body \<Rightarrow> int) \<Rightarrow> int \<Rightarrow> input_allocation \<Rightarrow> background_record store_op" where
  "allocate_input bytes now x s =
     (if \<not> valid_input_allocation now x then Inl input_unavailable
      else if get_record (ad_id (ia_admission x)) s \<noteq> None then Inl input_unavailable
      else rbind (admit bytes now (ia_admission x) s) (\<lambda>(r, s1).
        let r1 = r\<lparr>rec_input := Some \<lparr>ir_binding = ia_binding x, ir_state = InputPending, ir_image = None, ir_create_claimed = False,
              ir_upload = LiveJob (new_background_job ((ia_admission x)\<lparr>ad_managed := None, ad_facts := ia_facts x, ad_plan := ia_plan x\<rparr>))\<rparr>\<rparr>
        in rbind (save_record bytes r1 s1) (\<lambda>s2. Inr (r1, s2))))"

definition claim_input_upload :: "(row_body \<Rightarrow> int) \<Rightarrow> int \<Rightarrow> input_binding \<Rightarrow> background_job store_op" where
  "claim_input_upload bytes now b s = rbind (admitting now (ib_job b) s) (\<lambda>(r, j). rbind (input_receipt_of (Some r) b) (\<lambda>rc.
     if \<not> managed_input_live now b then Inl input_unavailable
     else rbind (upload_job rc) (\<lambda>u.
       if ir_state rc \<noteq> InputPending \<or> bg_event u \<noteq> None \<or> bg_event j \<noteq> None \<or>
          \<not> list_all (\<lambda>l. lg_reserve l = ReserveAccepted) (bg_legs j @ bg_legs u) then Inl input_unavailable
       else let u1 = u\<lparr>bg_egress := True\<rparr>
            in rbind (save_record bytes (r\<lparr>rec_input := Some (rc\<lparr>ir_state := InputDispatchUnknown, ir_upload := LiveJob u1\<rparr>)\<rparr>) s) (\<lambda>s1. Inr (u1, s1)))))"

definition bind_input_upload :: "(row_body \<Rightarrow> int) \<Rightarrow> int \<Rightarrow> input_binding \<Rightarrow> string \<Rightarrow> input_receipt store_op" where
  "bind_input_upload bytes now b img s = rbind (admitting now (ib_job b) s) (\<lambda>(r, j). rbind (input_receipt_of (Some r) b) (\<lambda>rc.
     rbind (bind_managed_input now img rc) (\<lambda>rc1. rbind (save_record bytes (r\<lparr>rec_input := Some rc1\<rparr>) s) (\<lambda>s1.
       rbind (freeze_upload bytes now (ib_job b) (bare_outcome now (Some 200) Success True) s1) (\<lambda>(_, s2).
         rbind (input_receipt_of (get_record (ib_job b) s2) b) (\<lambda>rc2. Inr (rc2, s2)))))))"

definition claim_input_create :: "(row_body \<Rightarrow> int) \<Rightarrow> int \<Rightarrow> input_binding \<Rightarrow> background_record store_op" where
  "claim_input_create bytes now b s = rbind (admitting now (ib_job b) s) (\<lambda>(r, j). rbind (input_receipt_of (Some r) b) (\<lambda>rc.
     if \<not> managed_input_live now b then Inl input_unavailable
     else if ir_state rc \<noteq> InputBound \<or> ir_image rc = None \<or> ir_create_claimed rc \<or> bg_claimed j then Inl input_unavailable
     else rbind (save_record bytes (r\<lparr>rec_input := Some (rc\<lparr>ir_create_claimed := True\<rparr>)\<rparr>) s) (\<lambda>s1. begin_dispatch bytes now (bg_id j) None True s1)))"

subsection \<open>Published inputs\<close>

definition asset_row :: "(published_receipt \<Rightarrow> bool) \<Rightarrow> background_store \<Rightarrow> published_receipt option" where
  "asset_row p s = find p (List.map_filter (\<lambda>row. case row_body row of AssetRow x \<Rightarrow> Some x | JobRow _ \<Rightarrow> None) (bs_rows s))"

definition asset_key :: "json \<Rightarrow> string" where
  "asset_key b = (case Json_Access.text_of (member ''id'' b) of Some s \<Rightarrow> s | None \<Rightarrow> [])"

record publisher =
  pb_date :: "string \<Rightarrow> int option"
  pb_origin :: "json option \<Rightarrow> bool"
  pb_bytes :: "row_body \<Rightarrow> int"

definition save_published :: "publisher \<Rightarrow> published_receipt \<Rightarrow> published_receipt store_op" where
  "save_published pb x s =
     (if \<not> valid_published_input (pb_date pb) (pb_origin pb) (pr_binding x) \<or> background_row_bytes < pb_bytes pb (AssetRow x) then Inl published_unavailable
      else Inr (x, put_row \<lparr>row_id = asset_key (pr_binding x), row_admitted = (case positive_count (member ''allocatedAt'' (pr_binding x)) of Some t \<Rightarrow> t | None \<Rightarrow> 0),
        row_next = None, row_body = AssetRow x\<rparr> s))"

definition allocate_published :: "publisher \<Rightarrow> int \<Rightarrow> json \<Rightarrow> published_receipt store_op" where
  "allocate_published pb now b s =
     (if \<not> published_input_live (pb_date pb) (pb_origin pb) now b then Inl published_unavailable
      else case asset_row (\<lambda>x. member ''idempotencyDigest'' (pr_binding x) = member ''idempotencyDigest'' b) s of
          Some x \<Rightarrow> rbind (same_published_input (pb_date pb) (pb_origin pb) (pr_binding x) b) (\<lambda>same.
            if same then Inr (x, s) else Inl published_unavailable)
        | None \<Rightarrow>
            if row_at row_id (asset_key b) (bs_rows s) \<noteq> None then Inl published_unavailable
            else if background_capacity \<le> length (bs_rows s) then Inl bg_full
            else save_published pb \<lparr>pr_binding = b, pr_state = AssetPending, pr_object = None, pr_attempt = None\<rparr> s)"

definition published_input :: "publisher \<Rightarrow> int \<Rightarrow> string \<Rightarrow> background_store \<Rightarrow> published_receipt result" where
  "published_input pb now i s =
     (if \<not> asset_id (Some (JStr i)) then Inl published_unavailable
      else case row_at row_id i (bs_rows s) of
          None \<Rightarrow> Inl published_unavailable
        | Some row \<Rightarrow> (case row_body row of
            JobRow _ \<Rightarrow> Inl published_unavailable
          | AssetRow x \<Rightarrow> if published_input_live (pb_date pb) (pb_origin pb) now (pr_binding x) then Inr x else Inl published_unavailable))"

definition claim_publication :: "publisher \<Rightarrow> int \<Rightarrow> json \<Rightarrow> published_receipt store_op" where
  "claim_publication pb now b s = rbind (published_input pb now (asset_key b) s) (\<lambda>x.
     rbind (same_published_input (pb_date pb) (pb_origin pb) (pr_binding x) b) (\<lambda>same.
       if \<not> same \<or> pr_state x \<noteq> AssetPending then Inl published_unavailable
       else save_published pb (x\<lparr>pr_state := PublicationUnknown\<rparr>) s))"

definition bind_published_object :: "publisher \<Rightarrow> int \<Rightarrow> json \<Rightarrow> json \<Rightarrow> published_receipt store_op" where
  "bind_published_object pb now b obj s = rbind (published_input pb now (asset_key b) s) (\<lambda>x.
     if \<not> valid_published_object obj b then Inl published_unavailable
     else rbind (same_published_input (pb_date pb) (pb_origin pb) (pr_binding x) b) (\<lambda>same.
       if \<not> same then Inl published_unavailable
       else if pr_state x = AssetPublished \<and> (case pr_object x of Some o1 \<Rightarrow> same_json o1 obj | None \<Rightarrow> False) then Inr (x, s)
       else if pr_state x \<noteq> PublicationUnknown \<or> pr_object x \<noteq> None then Inl published_unavailable
       else save_published pb (x\<lparr>pr_object := Some obj, pr_state := AssetPublished\<rparr>) s))"

definition claim_forward :: "publisher \<Rightarrow> int \<Rightarrow> json \<Rightarrow> json \<Rightarrow> published_receipt store_op" where
  "claim_forward pb now b attempt s = rbind (published_input pb now (asset_key b) s) (\<lambda>x.
     if \<not> valid_published_attempt attempt then Inl published_unavailable
     else rbind (same_published_input (pb_date pb) (pb_origin pb) (pr_binding x) b) (\<lambda>same.
       if \<not> same \<or> pr_state x \<noteq> AssetPublished \<or> pr_object x = None \<or> pr_attempt x \<noteq> None then Inl published_unavailable
       else save_published pb (x\<lparr>pr_attempt := Some attempt, pr_state := ForwardingUnknown\<rparr>) s))"

end
