(* ===== verification/Background_Safety.thy ===== *)
theory Background_Safety
  imports Background_Store
begin

section \<open>Safety of background recovery\<close>

text \<open>
  Every operation of the background store changes the rows it keeps by a step of one record at a time. A
  locale takes such a step relation (reflexive, transitive, keeping the identifier) and lifts it to the
  table; its interpretation on \<open>record_step\<close> carries the properties: work is dispatched at most once,
  a frozen receipt never changes, a job completes only when everything it owes is settled, and the table
  stays within its bounds.
\<close>

subsection \<open>Steps of rows and tables\<close>

definition asset_rank :: "published_state \<Rightarrow> nat" where
  "asset_rank x = (case x of AssetPending \<Rightarrow> 0 | PublicationUnknown \<Rightarrow> 1 | AssetPublished \<Rightarrow> 2 | ForwardingUnknown \<Rightarrow> 3)"

definition asset_step :: "published_receipt \<Rightarrow> published_receipt \<Rightarrow> bool" where
  "asset_step x y \<longleftrightarrow> pr_binding y = pr_binding x \<and> asset_rank (pr_state x) \<le> asset_rank (pr_state y) \<and>
     (pr_object x \<noteq> None \<longrightarrow> pr_object y = pr_object x) \<and> (pr_attempt x \<noteq> None \<longrightarrow> pr_attempt y = pr_attempt x)"

definition row_step :: "(background_record \<Rightarrow> background_record \<Rightarrow> bool) \<Rightarrow> background_row \<Rightarrow> background_row \<Rightarrow> bool" where
  "row_step rel a b \<longleftrightarrow> row_id b = row_id a \<and> (case row_body a of
     JobRow r \<Rightarrow> (\<exists>q. row_body b = JobRow q \<and> rel r q) | AssetRow x \<Rightarrow> (\<exists>y. row_body b = AssetRow y \<and> asset_step x y))"

definition advances :: "(background_record \<Rightarrow> background_record \<Rightarrow> bool) \<Rightarrow> background_store \<Rightarrow> background_store \<Rightarrow> bool" where
  "advances rel s t \<longleftrightarrow> list_all2 (row_step rel) (bs_rows s) (bs_rows t)"

definition row_named :: "background_row \<Rightarrow> bool" where
  "row_named row = (case row_body row of
     JobRow r \<Rightarrow> row_id row = bg_id (rec_summary r) | AssetRow x \<Rightarrow> row_id row = asset_key (pr_binding x) \<and> starts_with ''asset_'' (row_id row))"

definition ids_ok :: "background_store \<Rightarrow> bool" where
  "ids_ok s \<longleftrightarrow> keyed row_id (bs_rows s) \<and> list_all row_named (bs_rows s)"

lemma asset_step_refl [simp]: "asset_step x x"
  by (simp add: asset_step_def)

lemma asset_step_trans: "asset_step x y \<Longrightarrow> asset_step y z \<Longrightarrow> asset_step x z"
  by (auto simp: asset_step_def)

lemma get_record_Some: "get_record i s = Some r \<longleftrightarrow> (\<exists>row. row_at row_id i (bs_rows s) = Some row \<and> row_body row = JobRow r)"
  by (auto simp: get_record_def split: option.splits row_body.splits)

lemma row_at_elem: "row_at key i t = Some row \<Longrightarrow> row \<in> set t \<and> key row = i"
  by (auto simp: row_at_def find_Some_iff)

lemma row_at_keyed: "keyed key t \<Longrightarrow> row \<in> set t \<Longrightarrow> row_at key (key row) t = Some row"
  by (induction t) (auto simp: keyed_def row_at_def)

lemma ids_okD: "ids_ok s \<Longrightarrow> get_record i s = Some r \<Longrightarrow> bg_id (rec_summary r) = i"
  by (auto simp: ids_ok_def get_record_Some list_all_iff row_named_def dest!: row_at_elem)

lemma bs_closed_advances [simp]: "advances rel s (t\<lparr>bs_closed := xs\<rparr>) = advances rel s t" "ids_ok (s\<lparr>bs_closed := xs\<rparr>) = ids_ok s"
  "get_record i (s\<lparr>bs_closed := xs\<rparr>) = get_record i s"
  by (simp_all add: advances_def ids_ok_def get_record_def)

lemma save_record_Inr: "save_record bytes r s = Inr t \<Longrightarrow> t = put_row \<lparr>row_id = bg_id (rec_summary r), row_admitted = bg_admitted (rec_summary r),
    row_next = next_action (rec_op r), row_body = JobRow r\<rparr> s"
  by (simp add: save_record_def split: if_splits)

lemma put_row_existing:
  "row_at row_id (row_id row) (bs_rows s) \<noteq> None \<Longrightarrow> bs_rows (put_row row s) =
     update_where (\<lambda>r. row_id r = row_id row) (\<lambda>r. r\<lparr>row_next := row_next row, row_body := row_body row\<rparr>) (bs_rows s)"
  by (auto simp: put_row_def)

lemma row_at_update:
  "row_at row_id i (update_where (\<lambda>r. row_id r = k) (\<lambda>r. r\<lparr>row_next := n, row_body := b\<rparr>) t) =
     (if i = k then map_option (\<lambda>r. r\<lparr>row_next := n, row_body := b\<rparr>) (row_at row_id i t) else row_at row_id i t)"
  by (induction t) (auto simp: row_at_def update_where_def)

lemma row_at_snoc: "row_at key i (t @ [row]) = (case row_at key i t of Some x \<Rightarrow> Some x | None \<Rightarrow> if key row = i then Some row else None)"
  by (induction t) (auto simp: row_at_def)

lemma get_record_save:
  assumes "save_record bytes r s = Inr t"
  shows "get_record i t = (if i = bg_id (rec_summary r) then Some r else get_record i s)"
  unfolding save_record_Inr [OF assms] get_record_def put_row_def
  by (auto simp: row_at_update row_at_snoc split: option.splits)

text \<open>The interface of a step relation on records, and what it gives for tables.\<close>

locale record_relation =
  fixes rel :: "background_record \<Rightarrow> background_record \<Rightarrow> bool"
  assumes rel_refl: "rel r r"
    and rel_trans: "rel r q \<Longrightarrow> rel q p \<Longrightarrow> rel r p"
    and rel_id: "rel r q \<Longrightarrow> bg_id (rec_summary q) = bg_id (rec_summary r)"
begin

lemma row_step_refl: "row_step rel a a"
  using rel_refl by (auto simp: row_step_def split: row_body.split)

lemma row_step_trans: "row_step rel a b \<Longrightarrow> row_step rel b c \<Longrightarrow> row_step rel a c"
  by (auto simp: row_step_def intro: rel_trans asset_step_trans split: row_body.splits)

lemma advances_refl: "advances rel s s"
  by (simp add: advances_def list_all2_refl row_step_refl)

lemma advances_trans: "advances rel s t \<Longrightarrow> advances rel t u \<Longrightarrow> advances rel s u"
  unfolding advances_def by (rule list_all2_trans [OF row_step_trans])

lemma advances_ids: "advances rel s t \<Longrightarrow> map row_id (bs_rows t) = map row_id (bs_rows s)"
  unfolding advances_def by (induction rule: list_all2_induct) (auto simp: row_step_def)

lemma advances_row:
  assumes "advances rel s t" and "row_at row_id i (bs_rows s) = Some row"
  shows "\<exists>row1. row_at row_id i (bs_rows t) = Some row1 \<and> row_step rel row row1"
  using assms unfolding advances_def by (induction rule: list_all2_induct) (auto simp: row_at_def row_step_def split: if_splits)

lemma advances_record:
  assumes "advances rel s t" and "get_record i s = Some r"
  shows "\<exists>q. get_record i t = Some q \<and> rel r q"
  using assms advances_row by (fastforce simp: get_record_Some row_step_def)

lemma advances_absent:
  assumes "advances rel s t" and "get_record i s = None"
  shows "get_record i t = None"
  using assms unfolding advances_def get_record_def
  by (induction rule: list_all2_induct) (auto simp: row_at_def row_step_def split: if_splits row_body.splits)

lemma row_step_named: "row_step rel a b \<Longrightarrow> row_named a \<Longrightarrow> row_named b"
  by (auto simp: row_step_def row_named_def asset_step_def rel_id split: row_body.splits)

lemma advances_ids_ok:
  assumes "advances rel s t" and "ids_ok s"
  shows "ids_ok t"
proof -
  have "list_all row_named (bs_rows s) \<Longrightarrow> list_all row_named (bs_rows t)"
    using assms(1) unfolding advances_def by (induction rule: list_all2_induct) (auto intro: row_step_named)
  moreover have "keyed row_id (bs_rows t)" using assms advances_ids by (simp add: ids_ok_def keyed_def)
  ultimately show ?thesis using assms(2) by (simp add: ids_ok_def)
qed

lemma advances_put:
  assumes "ids_ok s" and "row_at row_id (row_id new) (bs_rows s) = Some old"
    and "row_step rel old (old\<lparr>row_next := row_next new, row_body := row_body new\<rparr>)"
  shows "advances rel s (put_row new s)"
proof -
  let ?f = "\<lambda>x. x\<lparr>row_next := row_next new, row_body := row_body new\<rparr>"
  have "row_step rel x (if row_id x = row_id new then ?f x else x)" if "x \<in> set (bs_rows s)" for x
  proof (cases "row_id x = row_id new")
    case True
    have "row_at row_id (row_id x) (bs_rows s) = Some x" using row_at_keyed [where key = row_id, OF _ that] assms(1) by (simp add: ids_ok_def)
    then show ?thesis using True assms(2,3) by simp
  qed (simp add: row_step_refl)
  then show ?thesis using put_row_existing [of new s] assms(2) unfolding advances_def
    by (simp add: update_where_def list_all2_conv_all_nth)
qed

lemma advances_save:
  assumes "ids_ok s" and "get_record i s = Some r" and "rel r q" and "save_record bytes q s = Inr t"
  shows "advances rel s t"
proof -
  obtain row where row: "row_at row_id i (bs_rows s) = Some row" "row_body row = JobRow r" using assms(2) by (auto simp: get_record_Some)
  have "bg_id (rec_summary q) = i" using ids_okD [OF assms(1,2)] rel_id [OF assms(3)] by simp
  then show ?thesis unfolding save_record_Inr [OF assms(4)]
    using row assms(3) by (intro advances_put [OF assms(1)]) (auto simp: row_step_def)
qed

end

subsection \<open>Steps of records\<close>

text \<open>What later steps keep of an operation: a closed one entirely; of a live one its identity, the dispatch claim and the frozen receipt.\<close>

definition op_keeps :: "operation \<Rightarrow> operation \<Rightarrow> bool" where
  "op_keeps x y = (case x of
     Closed p u \<Rightarrow> y = x
   | LiveJob j \<Rightarrow> bg_id (op_summary y) = bg_id j \<and> bg_replay_until (op_summary y) = bg_replay_until j \<and>
       (case y of
          Closed p u \<Rightarrow> (bg_event j \<noteq> None \<longrightarrow> bg_amount u = bg_amount j \<and> bg_basis u = bg_basis j)
        | LiveJob k \<Rightarrow> (bg_claimed j \<longrightarrow> bg_claimed k) \<and>
            (bg_event j \<noteq> None \<longrightarrow> bg_event k = bg_event j \<and> bg_amount k = bg_amount j \<and> bg_basis k = bg_basis j) \<and>
            (bg_phase j = Outbox \<longrightarrow> bg_phase k = Outbox)))"

definition job_ok :: "background_job \<Rightarrow> bool" where
  "job_ok j \<longleftrightarrow> (bg_event j = None \<longleftrightarrow> bg_phase j \<noteq> Outbox) \<and> (bg_event j = None \<longrightarrow> bg_facts j \<noteq> None) \<and>
     (\<forall>e. bg_event j = Some e \<longrightarrow> bg_amount j = Some (actual_cost_micros e) \<and> bg_basis j = Some (cost_basis e)) \<and>
     bg_settlements j = map lg_settlement (bg_legs j) \<and> (bg_egress j \<longrightarrow> list_all (\<lambda>l. lg_reserve l = ReserveAccepted) (bg_legs j))"

definition op_ok :: "operation \<Rightarrow> bool" where
  "op_ok x = (case x of LiveJob j \<Rightarrow> job_ok j | Closed p u \<Rightarrow> p = Completed \<longrightarrow> fully_accounted u \<and> bg_amount u \<noteq> None)"

definition input_rank :: "input_state \<Rightarrow> nat" where
  "input_rank x = (case x of InputPending \<Rightarrow> 0 | InputDispatchUnknown \<Rightarrow> 1 | InputBound \<Rightarrow> 2)"

definition input_keeps :: "input_receipt option \<Rightarrow> input_receipt option \<Rightarrow> bool" where
  "input_keeps a b = (case a of
     None \<Rightarrow> b = None
   | Some x \<Rightarrow> (\<exists>y. b = Some y \<and> ir_binding y = ir_binding x \<and> input_rank (ir_state x) \<le> input_rank (ir_state y) \<and>
       (ir_image x \<noteq> None \<longrightarrow> ir_image y = ir_image x) \<and> (ir_create_claimed x \<longrightarrow> ir_create_claimed y) \<and> op_keeps (ir_upload x) (ir_upload y)))"

definition record_ok :: "background_record \<Rightarrow> bool" where
  "record_ok r \<longleftrightarrow> op_ok (rec_op r) \<and> (\<forall>rc. rec_input r = Some rc \<longrightarrow> op_ok (ir_upload rc)) \<and>
     (\<forall>u. rec_op r = Closed Completed u \<longrightarrow> uploads_closed r)"

definition record_step :: "background_record \<Rightarrow> background_record \<Rightarrow> bool" where
  "record_step r q \<longleftrightarrow> op_keeps (rec_op r) (rec_op q) \<and> input_keeps (rec_input r) (rec_input q) \<and> (record_ok r \<longrightarrow> record_ok q)"

lemma truncate_simps [simp]:
  "bg_id (background_summary.truncate j) = bg_id j" "bg_replay_until (background_summary.truncate j) = bg_replay_until j"
  "bg_amount (background_summary.truncate j) = bg_amount j" "bg_basis (background_summary.truncate j) = bg_basis j"
  "bg_usage (background_summary.truncate j) = bg_usage j" "bg_settlements (background_summary.truncate j) = bg_settlements j"
  "bg_admitted (background_summary.truncate j) = bg_admitted j"
  by (simp_all add: background_summary.truncate_def)

lemma op_keeps_refl [simp]: "op_keeps x x"
  by (cases x) (simp_all add: op_keeps_def)

lemma op_keeps_trans: "op_keeps x y \<Longrightarrow> op_keeps y z \<Longrightarrow> op_keeps x z"
  by (cases x; cases y; cases z) (auto simp: op_keeps_def)

lemma input_keeps_refl [simp]: "input_keeps a a"
  by (cases a) (simp_all add: input_keeps_def)

lemma input_keeps_trans: "input_keeps a b \<Longrightarrow> input_keeps b c \<Longrightarrow> input_keeps a c"
  by (cases a; cases b) (auto simp: input_keeps_def intro: op_keeps_trans)

lemma op_keeps_id: "op_keeps x y \<Longrightarrow> bg_id (op_summary y) = bg_id (op_summary x)"
  by (cases x) (auto simp: op_keeps_def background_summary.truncate_def)

interpretation step: record_relation record_step
  by unfold_locales (auto simp: record_step_def rec_summary_def intro: op_keeps_trans input_keeps_trans op_keeps_id)

abbreviation moves :: "background_store \<Rightarrow> background_store \<Rightarrow> bool" where
  "moves \<equiv> advances record_step"

lemma main_step:
  assumes "op_keeps (rec_op r) x" and "record_ok r \<Longrightarrow> op_ok x" and "\<And>u. x = Closed Completed u \<Longrightarrow> uploads_closed r"
  shows "record_step r (r\<lparr>rec_op := x, rec_managed := m\<rparr>)"
  using assms by (auto simp: record_step_def record_ok_def uploads_closed_def)

lemma main_step': "op_keeps (rec_op r) x \<Longrightarrow> (record_ok r \<Longrightarrow> op_ok x) \<Longrightarrow> (\<And>u. x = Closed Completed u \<Longrightarrow> uploads_closed r) \<Longrightarrow>
    record_step r (r\<lparr>rec_op := x\<rparr>)"
  using main_step [of r x "rec_managed r"] by simp

lemma managed_step: "record_step r (r\<lparr>rec_managed := m\<rparr>)"
  by (auto simp: record_step_def record_ok_def uploads_closed_def)

lemma input_step:
  assumes "rec_input r = Some rc" and "rec_op r = LiveJob j" and "input_keeps (Some rc) (Some rc1)" and "op_ok (ir_upload rc) \<Longrightarrow> record_ok r \<Longrightarrow> op_ok (ir_upload rc1)"
  shows "record_step r (r\<lparr>rec_input := Some rc1\<rparr>)"
  using assms by (auto simp: record_step_def record_ok_def)

lemma job_of_Inr: "job_of i s = Inr (r, j) \<longleftrightarrow> get_record i s = Some r \<and> rec_op r = LiveJob j"
  by (auto simp: job_of_def split: option.splits operation.splits)

lemma admitting_Inr: "admitting now i s = Inr (r, j) \<longleftrightarrow>
    job_of i s = Inr (r, j) \<and> bg_phase j = Admitting \<and> now < bg_admitted j + 60000"
  by (cases "job_of i s") (auto simp: admitting_def split: if_splits)

lemma upload_of_Inr: "upload_of i s = Inr (r, u) \<longleftrightarrow> (\<exists>j rc. job_of i s = Inr (r, j) \<and> rec_input r = Some rc \<and>
    ir_upload rc = LiveJob u \<and> bg_phase u = Admitting \<and> bg_event u = None)"
  by (cases "job_of i s") (auto simp: upload_of_def upload_job_def split: option.splits operation.splits if_splits)

lemma save_upload_moves:
  assumes "ids_ok s" and "save_upload bytes i x s = Inr t" and "get_record i s = Some r" and "rec_input r = Some rc"
    and "op_keeps (ir_upload rc) x" and "op_ok (ir_upload rc) \<Longrightarrow> op_ok x"
  shows "moves s t"
proof -
  obtain j where j: "rec_op r = LiveJob j" and saved: "save_record bytes (r\<lparr>rec_input := Some (rc\<lparr>ir_upload := x\<rparr>)\<rparr>) s = Inr t"
    using assms(2,3,4) by (auto simp: save_upload_def job_of_def split: operation.splits)
  have "record_step r (r\<lparr>rec_input := Some (rc\<lparr>ir_upload := x\<rparr>)\<rparr>)"
    by (rule input_step [OF assms(4) j]) (use assms(5,6) in \<open>auto simp: input_keeps_def\<close>)
  from step.advances_save [OF assms(1,3) this saved] show ?thesis .
qed

subsection \<open>Every operation steps\<close>

definition job_step :: "background_job \<Rightarrow> background_job \<Rightarrow> bool" where
  "job_step j k \<longleftrightarrow> op_keeps (LiveJob j) (LiveJob k) \<and> (job_ok j \<longrightarrow> job_ok k)"

lemma live_moves:
  assumes "ids_ok s" and "job_of i s = Inr (r, j)" and "job_step j k" and "save_record bytes (r\<lparr>rec_op := LiveJob k, rec_managed := m\<rparr>) s = Inr t"
  shows "moves s t"
  using assms(2,3) by (intro step.advances_save [OF assms(1) _ main_step assms(4)]) (auto simp: job_of_Inr job_step_def record_ok_def op_ok_def)

lemma live_moves':
  assumes "ids_ok s" and "job_of i s = Inr (r, j)" and "job_step j k" and "save_record bytes (r\<lparr>rec_op := LiveJob k\<rparr>) s = Inr t"
  shows "moves s t"
  using live_moves [of s i r j k bytes "rec_managed r"] assms by simp

lemma upload_moves:
  assumes "ids_ok s" and "upload_of i s = Inr (r, u)" and "job_step u v" and "save_upload bytes i (LiveJob v) s = Inr t"
  shows "moves s t"
proof -
  obtain j rc where "get_record i s = Some r" "rec_input r = Some rc" "ir_upload rc = LiveJob u"
    using assms(2) by (auto simp: upload_of_Inr job_of_Inr)
  with assms(3) show ?thesis by (intro save_upload_moves [OF assms(1,4)]) (auto simp: job_step_def op_ok_def)
qed

definition leg_safe :: "(background_leg \<Rightarrow> background_leg result) \<Rightarrow> bool" where
  "leg_safe f \<longleftrightarrow> (\<forall>l k. f l = Inr k \<longrightarrow> lg_settlement k = lg_settlement l \<and> (lg_reserve l = ReserveAccepted \<longrightarrow> lg_reserve k = ReserveAccepted))"

lemma leg_safe_ops [simp]: "leg_safe send_leg" "leg_safe (answer_leg granted)" "leg_safe dispatch_leg"
  by (auto simp: leg_safe_def send_leg_def answer_leg_def dispatch_leg_def split: if_splits)

lemma leg_job_step:
  assumes "leg_safe f" and "f (bg_legs j ! n) = Inr l" and "n < length (bg_legs j)"
  shows "job_step j (j\<lparr>bg_legs := (bg_legs j)[n := l]\<rparr>)"
proof -
  have "map lg_settlement ((bg_legs j)[n := l]) = map lg_settlement (bg_legs j)"
    using assms by (auto simp: leg_safe_def map_update list_update_same_conv)
  moreover have "list_all (\<lambda>l. lg_reserve l = ReserveAccepted) ((bg_legs j)[n := l])" if "list_all (\<lambda>l. lg_reserve l = ReserveAccepted) (bg_legs j)"
    using that assms by (auto simp: leg_safe_def list_all_length nth_list_update)
  ultimately show ?thesis by (auto simp: job_step_def op_keeps_def job_ok_def)
qed

lemma at_leg_moves:
  assumes "ids_ok s" and "leg_safe f" and "at_leg bytes now i n upload f s = Inr (x, t)"
  shows "moves s t"
proof (cases upload)
  case True
  then show ?thesis using assms
    by (auto simp: at_leg_def Let_def split: if_splits intro: upload_moves [OF assms(1) _ leg_job_step [OF assms(2)]])
next
  case False
  then show ?thesis using assms
    by (auto simp: at_leg_def Let_def save_main_def admitting_Inr split: if_splits intro: live_moves' [OF assms(1) _ leg_job_step [OF assms(2)]])
qed

lemma begin_dispatch_moves:
  assumes "ids_ok s" and "begin_dispatch bytes now i content b s = Inr (x, t)"
  shows "moves s t"
proof -
  obtain r j where j: "job_of i s = Inr (r, j)" "save_record bytes (r\<lparr>rec_op := LiveJob (j\<lparr>bg_claimed := True, bg_content := content\<rparr>)\<rparr>) s = Inr t"
    using assms(2) by (auto simp: begin_dispatch_def admitting_Inr Let_def split: if_splits)
  show ?thesis by (rule live_moves' [OF assms(1) j(1) _ j(2)]) (simp add: job_step_def op_keeps_def job_ok_def)
qed

lemma begin_egress_moves:
  assumes "ids_ok s" and "begin_egress bytes now i s = Inr (x, t)"
  shows "moves s t"
proof -
  obtain r j m where j: "job_of i s = Inr (r, j)" "bg_phase j = Admitting" "list_all ready_leg (bg_legs j)"
    "save_record bytes (r\<lparr>rec_op := LiveJob (j\<lparr>bg_egress := True, bg_phase := Observing, bg_next_attempt := now + 5000\<rparr>), rec_managed := m\<rparr>) s = Inr t"
    using assms(2) by (auto simp: begin_egress_def admitting_Inr Let_def split: if_splits)
  then show ?thesis
    by (intro live_moves [OF assms(1) j(1) _ j(4)]) (auto simp: job_step_def op_keeps_def job_ok_def ready_leg_def list_all_iff)
qed

lemma bind_identity_moves:
  assumes "ids_ok s" and "bind_identity bytes now i response s = Inr (x, t)"
  shows "moves s t"
proof (cases "t = s")
  case False
  then obtain r j m n where j: "job_of i s = Inr (r, j)"
    "save_record bytes (r\<lparr>rec_op := LiveJob (j\<lparr>bg_response := Some response, bg_next_attempt := n\<rparr>), rec_managed := m\<rparr>) s = Inr t"
    using assms(2) by (auto simp: bind_identity_def split: if_splits)
  then show ?thesis by (intro live_moves [OF assms(1) j(1) _ j(2)]) (simp add: job_step_def op_keeps_def job_ok_def)
qed (simp add: step.advances_refl)

definition open_op :: "operation \<Rightarrow> bool" where
  "open_op x = (case x of LiveJob j \<Rightarrow> bg_event j = None | Closed p u \<Rightarrow> False)"

text \<open>Freezing fixes the receipt once; the upload of the same row is frozen with it.\<close>

lemma free_leg_reserve [simp]: "lg_reserve (free_leg l) = lg_reserve l"
  by (simp add: free_leg_def)

lemma frozen_job_step:
  assumes "frozen_job now out j = Inr k" and "bg_event j = None"
  shows "job_step j k" and "bg_id k = bg_id j" and "bg_event k \<noteq> None"
  using assms by (auto simp: frozen_job_def Let_def job_step_def op_keeps_def job_ok_def list_all_iff split: option.splits)

lemma freeze_upload_cases:
  assumes "freeze_upload bytes now i out s = Inr (x, t)"
  obtains (same) "t = s"
    | (frozen) r j rc u v where "job_of i s = Inr (r, j)" "rec_input r = Some rc" "ir_upload rc = LiveJob u" "bg_event u = None"
        "frozen_job now out u = Inr v" "save_upload bytes i (LiveJob v) s = Inr t"
        "save_record bytes (r\<lparr>rec_input := Some (rc\<lparr>ir_upload := LiveJob v\<rparr>)\<rparr>) s = Inr t"
proof (cases "t = s")
  case False
  then obtain rc u v where u: "Option.bind (get_record i s) rec_input = Some rc" "ir_upload rc = LiveJob u" "bg_event u = None"
      "frozen_job now out u = Inr v" "save_upload bytes i (LiveJob v) s = Inr t"
    using assms by (auto simp: freeze_upload_def split: option.splits operation.splits if_splits)
  then obtain r j where "job_of i s = Inr (r, j)" "rec_input r = Some rc" "save_record bytes (r\<lparr>rec_input := Some (rc\<lparr>ir_upload := LiveJob v\<rparr>)\<rparr>) s = Inr t"
    by (auto simp: save_upload_def job_of_Inr split: bind_splits)
  with u show ?thesis by (intro frozen)
qed (rule same)

lemma freeze_upload_moves:
  assumes "ids_ok s" and "freeze_upload bytes now i out s = Inr (x, t)"
  shows "moves s t"
  using assms(2)
proof (cases rule: freeze_upload_cases)
  case (frozen r j rc u v)
  then show ?thesis using frozen_job_step [OF frozen(5,4)]
    by (intro save_upload_moves [OF assms(1) frozen(6)]) (auto simp: job_of_Inr job_step_def op_ok_def)
qed (simp add: step.advances_refl)

text \<open>The record whose upload was frozen differs from the stored one in that upload only.\<close>

lemma freeze_upload_record:
  assumes "ids_ok s" and "freeze_upload bytes now i out s = Inr (x, t)" and "get_record i s = Some r"
  shows "get_record i t = Some (r\<lparr>rec_input := Option.bind (get_record i t) rec_input\<rparr>)"
  using assms(2)
proof (cases rule: freeze_upload_cases)
  case (frozen q j rc u v)
  have "get_record i s = Some q" "bg_id (rec_summary q) = i" using frozen(1) ids_okD [OF assms(1)] by (auto simp: job_of_Inr)
  then show ?thesis using get_record_save [OF frozen(7), of i] assms(3) by (simp add: rec_summary_def)
qed (use assms(3) in simp)

lemma finish_freeze_moves:
  assumes "ids_ok s" and "get_record i s = Some r" and "record_step r q" and "finish_freeze bytes i q s = Inr (x, t)"
  shows "moves s t"
  using assms(4) step.advances_save [OF assms(1-3)] by (auto simp: finish_freeze_def)

lemma freeze_cases:
  assumes "freeze bytes now i out s = Inr (x, t)"
  obtains (same) "get_record i s = Some x" "t = s"
    | (fresh) r j k where "get_record i s = Some r" "rec_op r = LiveJob j" "bg_event j = None" "frozen_job now out j = Inr k"
        "record_step r (r\<lparr>rec_op := LiveJob k\<rparr>)" "bg_id k = bg_id j"
proof (cases "get_record i s")
  case None
  then show ?thesis using assms by (simp add: freeze_def)
next
  case (Some r)
  show ?thesis
  proof (cases "open_op (rec_op r)")
    case True
    then obtain j where j: "rec_op r = LiveJob j" "bg_event j = None" by (cases "rec_op r") (auto simp: open_op_def)
    then obtain k where k: "frozen_job now out j = Inr k" using assms Some by (auto simp: freeze_def)
    have "record_step r (r\<lparr>rec_op := LiveJob k\<rparr>)"
      using frozen_job_step [OF k j(2)] j(1) by (intro main_step') (auto simp: job_step_def record_ok_def op_ok_def)
    then show ?thesis by (rule fresh [OF Some j k _ frozen_job_step(2) [OF k j(2)]])
  next
    case False
    then show ?thesis using same assms Some by (cases "rec_op r") (auto simp: freeze_def open_op_def)
  qed
qed

lemma freeze_moves:
  assumes "ids_ok s" and "freeze bytes now i out s = Inr (x, t)"
  shows "moves s t"
  using assms(2)
proof (cases rule: freeze_cases)
  case (fresh r j k)
  let ?r = "r\<lparr>rec_op := LiveJob k\<rparr>"
  show ?thesis
  proof (cases "open_upload r")
    case None
    then have "finish_freeze bytes i ?r s = Inr (x, t)" using fresh assms(2) by (simp add: freeze_def Let_def)
    then show ?thesis by (rule finish_freeze_moves [OF assms(1) fresh(1,5)])
  next
    case (Some rc)
    let ?out = "out\<lparr>ao_billable := (ir_state rc \<noteq> InputPending)\<rparr>"
    obtain s1 y s2 where s1: "save_record bytes ?r s = Inr s1" and s2: "freeze_upload bytes now i ?out s1 = Inr (y, s2)"
      and t: "finish_freeze bytes i (?r\<lparr>rec_input := Option.bind (get_record i s2) rec_input\<rparr>) s2 = Inr (x, t)"
      using Some fresh(1-4) assms(2) by (auto simp: freeze_def Let_def)
    have m1: "moves s s1" by (rule step.advances_save [OF assms(1) fresh(1,5) s1])
    note i1 = step.advances_ids_ok [OF m1 assms(1)]
    have m2: "moves s1 s2" by (rule freeze_upload_moves [OF i1 s2])
    note i2 = step.advances_ids_ok [OF m2 i1]
    have "get_record i s1 = Some ?r"
      using get_record_save [OF s1, of i] ids_okD [OF assms(1) fresh(1)] step.rel_id [OF fresh(5)] by simp
    from freeze_upload_record [OF i1 s2 this] have "moves s2 t" by (rule finish_freeze_moves [OF i2 _ step.rel_refl t])
    then show ?thesis using m1 m2 by (blast intro: step.advances_trans)
  qed
qed (simp add: step.advances_refl)

lemma then_freeze_moves:
  assumes "ids_ok s" and "moves s s1" and "freeze bytes now i out s1 = Inr (x, t)"
  shows "moves s t"
  using step.advances_trans [OF assms(2) freeze_moves [OF step.advances_ids_ok [OF assms(2,1)] assms(3)]] .

lemma observe_managed_moves:
  assumes "ids_ok s" and "observe_managed bytes now i upstream st code attempt lost s = Inr (x, t)"
  shows "moves s t"
proof (cases "t = s")
  case False
  then obtain r j where r: "get_record i s = Some r" "rec_op r = LiveJob j"
    using assms(2) by (auto simp: observe_managed_def split: option.splits operation.splits)
  obtain q s1 out y where q: "record_step r q" "save_record bytes q s = Inr s1" "freeze bytes now i out s1 = Inr (y, t)"
  proof (cases lost)
    case None
    then show ?thesis using assms(2) False r that [OF managed_step] by (auto simp: observe_managed_def split: if_splits option.splits)
  next
    case (Some why)
    have "record_step r (r\<lparr>rec_op := LiveJob (j\<lparr>bg_last_error := e\<rparr>), rec_managed := m\<rparr>)" for e m
      using r(2) by (intro main_step) (auto simp: op_keeps_def record_ok_def op_ok_def job_ok_def)
    from that [OF this] show ?thesis using Some assms(2) False r by (auto simp: observe_managed_def split: if_splits option.splits)
  qed
  show ?thesis by (rule then_freeze_moves [OF assms(1) step.advances_save [OF assms(1) r(1) q(1,2)] q(3)])
qed (simp add: step.advances_refl)

lemma bind_managed_files_moves:
  assumes "ids_ok s" and "bind_managed_files bytes now i upstream files s = Inr (x, t)"
  shows "moves s t"
proof (cases "t = s")
  case False
  then obtain r m where "get_record i s = Some r" "save_record bytes (r\<lparr>rec_managed := m\<rparr>) s = Inr t"
    using assms(2) by (auto simp: bind_managed_files_def split: option.splits if_splits)
  then show ?thesis by (rule step.advances_save [OF assms(1) _ managed_step])
qed (simp add: step.advances_refl)

lemma retry_moves:
  assumes "ids_ok s" and "retry bytes now i err attempt s = Inr (x, t)"
  shows "moves s t"
proof (cases "t = s")
  case False
  then obtain r j n where r: "job_of i s = Inr (r, j)" "save_record bytes (r\<lparr>rec_op := LiveJob (j\<lparr>bg_last_error := err, bg_next_attempt := n\<rparr>)\<rparr>) s = Inr t"
    using assms(2) by (auto simp: retry_def save_main_def job_of_Inr split: option.splits operation.splits if_splits)
  show ?thesis by (rule live_moves' [OF assms(1) r(1) _ r(2)]) (simp add: job_step_def op_keeps_def job_ok_def)
qed (simp add: step.advances_refl)

text \<open>An acknowledgement keeps the frozen receipt, and a job whose receipt is frozen may close.\<close>

lemma ack_job_step:
  assumes "ack_job now event sink disposition j = Inr (Some k)"
  shows "job_step j k" and "bg_event k \<noteq> None"
  using assms
  by (auto simp: ack_job_def Let_def job_step_def op_keeps_def job_ok_def list_all_length nth_list_update
      split: if_splits option.splits ack_sink.splits)

lemma close_step:
  assumes "job_step j k" and "p = Completed \<Longrightarrow> fully_accounted k \<and> bg_event k \<noteq> None"
  shows "op_keeps (LiveJob j) (close_job p k)" and "op_ok (LiveJob j) \<Longrightarrow> op_ok (close_job p k)"
  using assms by (auto simp: job_step_def op_keeps_def op_ok_def close_job_def job_ok_def fully_accounted_def)

lemma close_job_Closed: "close_job p k = Closed q u \<longleftrightarrow> p = q \<and> u = background_summary.truncate k"
  by (auto simp: close_job_def)

lemma save_main_moves:
  assumes "ids_ok s" and "get_record i s = Some r" and "op_keeps (rec_op r) x" and "op_ok (rec_op r) \<Longrightarrow> op_ok x"
    and "\<And>u. x = Closed Completed u \<Longrightarrow> uploads_closed r" and "save_main bytes r x s = Inr t"
  shows "moves s t"
  using assms(3-5) by (intro step.advances_save [OF assms(1,2) main_step' assms(6) [unfolded save_main_def]]) (auto simp: record_ok_def)

lemma acknowledge_main_moves:
  assumes "ids_ok s" and "acknowledge_main bytes now i event sink disposition s = Inr (x, t)"
  shows "moves s t"
proof (cases "t = s")
  case False
  then obtain r j k where r: "get_record i s = Some r" "rec_op r = LiveJob j" "ack_job now event sink disposition j = Inr (Some k)"
      "save_main bytes r (if fully_accounted k \<and> uploads_closed r then close_job Completed k else LiveJob k) s = Inr t"
    using assms(2) by (auto simp: acknowledge_main_def split: option.splits operation.splits)
  show ?thesis
    by (rule save_main_moves [OF assms(1) r(1) _ _ _ r(4)])
      (use ack_job_step [OF r(3)] close_step [of j k Completed] r(2) in \<open>auto simp: close_job_Closed job_step_def op_ok_def split: if_splits\<close>)
qed (simp add: step.advances_refl)

lemma close_parent_moves:
  assumes "ids_ok s" and "close_parent bytes i s = Inr t" and "\<And>r. get_record i s = Some r \<Longrightarrow> uploads_closed r"
  shows "moves s t"
proof (cases "t = s")
  case False
  then obtain r j where r: "get_record i s = Some r" "rec_op r = LiveJob j" "bg_event j \<noteq> None" "fully_accounted j"
      "save_main bytes r (close_job Completed j) s = Inr t"
    using assms(2) by (auto simp: close_parent_def split: option.splits operation.splits if_splits)
  have "job_step j j" by (simp add: job_step_def)
  from close_step [OF this, of Completed] show ?thesis
    using r assms(3) by (intro save_main_moves [OF assms(1) r(1) _ _ _ r(5)]) auto
qed (simp add: step.advances_refl)

lemma acknowledge_upload_moves:
  assumes "ids_ok s" and "acknowledge_upload bytes now i event sink disposition s = Inr (x, t)"
  shows "moves s t"
proof (cases "t = s")
  case False
  then obtain r rc u v where r: "get_record i s = Some r" "rec_input r = Some rc" "ir_upload rc = LiveJob u"
      and v: "ack_job now event sink disposition u = Inr (Some v)"
    using assms(2) by (auto simp: acknowledge_upload_def split: option.splits operation.splits bind_splits)
  note ack = ack_job_step [OF v]
  show ?thesis
  proof (cases "fully_accounted v")
    case True
    then obtain s1 where s1: "save_upload bytes i (close_job Completed v) s = Inr s1" and t: "close_parent bytes i s1 = Inr t"
      using assms(2) r v by (auto simp: acknowledge_upload_def)
    have m: "moves s s1"
      by (rule save_upload_moves [OF assms(1) s1 r(1,2)]) (use close_step [OF ack(1), of Completed] True ack(2) r(3) in auto)
    obtain j where "save_record bytes (r\<lparr>rec_input := Some (rc\<lparr>ir_upload := close_job Completed v\<rparr>)\<rparr>) s = Inr s1"
      using s1 r by (auto simp: save_upload_def job_of_Inr)
    from get_record_save [OF this, of i] have "get_record i s1 = Some (r\<lparr>rec_input := Some (rc\<lparr>ir_upload := close_job Completed v\<rparr>)\<rparr>)"
      using ids_okD [OF assms(1) r(1)] by (simp add: rec_summary_def)
    then have "moves s1 t"
      by (intro close_parent_moves [OF step.advances_ids_ok [OF m assms(1)] t]) (simp add: uploads_closed_def close_job_def)
    then show ?thesis by (rule step.advances_trans [OF m])
  next
    case False
    then have "save_upload bytes i (LiveJob v) s = Inr t" using assms(2) r v by (auto simp: acknowledge_upload_def)
    then show ?thesis using ack r by (intro save_upload_moves [OF assms(1) _ r(1,2)]) (auto simp: job_step_def op_ok_def)
  qed
qed (simp add: step.advances_refl)

text \<open>Recovery works on rows it has read before: each step touches its own row only.\<close>

definition only_row :: "string \<Rightarrow> background_store \<Rightarrow> background_store \<Rightarrow> bool" where
  "only_row i s t \<longleftrightarrow> (\<forall>k. k \<noteq> i \<longrightarrow> get_record k t = get_record k s)"

lemma only_row_refl [simp]: "only_row i s s"
  by (simp add: only_row_def)

lemma only_row_trans: "only_row i s t \<Longrightarrow> only_row i t u \<Longrightarrow> only_row i s u"
  by (simp add: only_row_def)

lemma save_only_row: "save_record bytes r s = Inr t \<Longrightarrow> bg_id (rec_summary r) = i \<Longrightarrow> only_row i s t"
  by (simp add: only_row_def get_record_save)

lemma freeze_upload_only_row:
  assumes "ids_ok s" and "freeze_upload bytes now i out s = Inr (x, t)"
  shows "only_row i s t"
  using assms(2)
proof (cases rule: freeze_upload_cases)
  case (frozen r j rc u v)
  then have "bg_id (rec_summary r) = i" using ids_okD [OF assms(1)] by (simp add: job_of_Inr)
  then show ?thesis by (intro save_only_row [OF frozen(7)]) (simp add: rec_summary_def)
qed simp

lemma finish_freeze_result:
  assumes "finish_freeze bytes i q s = Inr (x, t)" and "bg_id (rec_summary q) = i"
  shows "get_record i t = Some x" and "only_row i s t"
  using assms by (auto simp: finish_freeze_def get_record_save only_row_def)

lemma freeze_result:
  assumes "ids_ok s" and "freeze bytes now i out s = Inr (x, t)"
  shows "get_record i t = Some x \<and> only_row i s t"
  using assms(2)
proof (cases rule: freeze_cases)
  case (fresh r j k)
  let ?r = "r\<lparr>rec_op := LiveJob k\<rparr>"
  have id: "bg_id (rec_summary (?r\<lparr>rec_input := z\<rparr>)) = i" "bg_id (rec_summary ?r) = i" for z
    using fresh(2,6) ids_okD [OF assms(1) fresh(1)] by (simp_all add: rec_summary_def)
  show ?thesis
  proof (cases "open_upload r")
    case None
    then have "finish_freeze bytes i ?r s = Inr (x, t)" using fresh assms(2) by (simp add: freeze_def Let_def)
    from finish_freeze_result [OF this id(2)] show ?thesis by simp
  next
    case (Some rc)
    let ?out = "out\<lparr>ao_billable := (ir_state rc \<noteq> InputPending)\<rparr>"
    obtain s1 y s2 where s1: "save_record bytes ?r s = Inr s1" and s2: "freeze_upload bytes now i ?out s1 = Inr (y, s2)"
      and t: "finish_freeze bytes i (?r\<lparr>rec_input := Option.bind (get_record i s2) rec_input\<rparr>) s2 = Inr (x, t)"
      using Some fresh(1-4) assms(2) by (auto simp: freeze_def Let_def)
    have "ids_ok s1" by (rule step.advances_ids_ok [OF step.advances_save [OF assms(1) fresh(1,5) s1] assms(1)])
    then have "only_row i s s2" using save_only_row [OF s1 id(2)] freeze_upload_only_row [OF _ s2] by (blast intro: only_row_trans)
    then show ?thesis using finish_freeze_result [OF t id(1)] by (blast intro: only_row_trans)
  qed
qed simp

lemma expire_admission_result:
  assumes "ids_ok s" and "get_record i s = Some r" and "rec_op r = LiveJob j" and "expire_admission bytes now r j s = Inr (x, t)"
  shows "moves s t \<and> get_record i t = Some x \<and> only_row i s t"
proof (cases "t = s \<and> x = r")
  case False
  have i: "bg_id j = i" using ids_okD [OF assms(1,2)] assms(3) by (simp add: rec_summary_def)
  obtain e out s1 where s1: "save_main bytes r (LiveJob (j\<lparr>bg_last_error := e\<rparr>)) s = Inr s1" and t: "freeze bytes now i out s1 = Inr (x, t)"
    using False assms(4) i by (auto simp: expire_admission_def split: if_splits)
  have m: "moves s s1"
    by (rule save_main_moves [OF assms(1,2) _ _ _ s1]) (use assms(3) in \<open>auto simp: op_keeps_def op_ok_def job_ok_def\<close>)
  have "only_row i s s1" using s1 i by (intro save_only_row [of bytes]) (auto simp: save_main_def rec_summary_def)
  then show ?thesis using m freeze_result [OF step.advances_ids_ok [OF m assms(1)] t] then_freeze_moves [OF assms(1) m t]
    by (blast intro: only_row_trans)
qed (use assms(2) in \<open>simp add: step.advances_refl\<close>)

lemma save_main_result:
  assumes "ids_ok s" and "get_record i s = Some r" and "op_keeps (rec_op r) x" and "op_ok (rec_op r) \<Longrightarrow> op_ok x"
    and "\<And>u. x = Closed Completed u \<Longrightarrow> uploads_closed r" and "save_main bytes r x s = Inr t"
  shows "moves s t \<and> only_row i s t"
proof -
  have "bg_id (rec_summary (r\<lparr>rec_op := x\<rparr>)) = i" using ids_okD [OF assms(1,2)] op_keeps_id [OF assms(3)] by (simp add: rec_summary_def)
  then show ?thesis using save_main_moves [OF assms] save_only_row assms(6) by (auto simp: save_main_def)
qed

lemma claim_one_result:
  assumes "ids_ok s" and "get_record i s = Some r" and "claim_one bytes now manual r s = Inr (w, t)"
  shows "moves s t \<and> only_row i s t"
proof (cases "rec_op r")
  case (Closed p u)
  then show ?thesis using assms(3) by (simp add: claim_one_def step.advances_refl)
next
  case (LiveJob j)
  show ?thesis
  proof (cases "bg_replay_until j \<le> now")
    case True
    then have "save_main bytes r (close_job ReplayExpired j) s = Inr t" using assms(3) LiveJob by (auto simp: claim_one_def split: if_splits)
    then show ?thesis using close_step [of j j ReplayExpired] LiveJob
      by (intro save_main_result [OF assms(1,2)]) (auto simp: job_step_def close_job_def)
  next
    case False
    then obtain r1 s1 where s1: "expire_admission bytes now r j s = Inr (r1, s1)"
      using assms(3) LiveJob by (auto simp: claim_one_def split: if_splits)
    have closed: "t = s1" if "rec_op r1 = Closed p u" for p u
      using that assms(3) LiveJob False s1 by (auto simp: claim_one_def split: if_splits)
    have steps: "job_step k (k\<lparr>bg_attempts := a, bg_next_attempt := n\<rparr>)" "job_step k (k\<lparr>bg_next_attempt := n\<rparr>)" for k a n
      by (simp_all add: job_step_def op_keeps_def job_ok_def)
    have live: "\<exists>k1. job_step k k1 \<and> save_main bytes r1 (LiveJob k1) s1 = Inr t" if "rec_op r1 = LiveJob k" for k
      using that assms(3) LiveJob False s1 steps(1) [of k "now + 30000" "Suc (bg_attempts k)"] steps(2) [of k "bg_auto_retry_until k"]
      by (cases "bg_auto_retry_until k \<le> now \<and> \<not> manual") (auto simp: claim_one_def save_main_def Let_def split: if_splits)
    have e: "moves s s1" "get_record i s1 = Some r1" "only_row i s s1" using expire_admission_result [OF assms(1,2) LiveJob s1] by auto
    note i1 = step.advances_ids_ok [OF e(1) assms(1)]
    have "moves s1 t \<and> only_row i s1 t"
    proof (cases "rec_op r1")
      case (LiveJob k)
      then obtain k1 where "job_step k k1" "save_main bytes r1 (LiveJob k1) s1 = Inr t" using live by blast
      then show ?thesis using LiveJob by (intro save_main_result [OF i1 e(2)]) (auto simp: job_step_def op_ok_def)
    qed (use closed in \<open>simp add: step.advances_refl\<close>)
    then show ?thesis using e by (blast intro: step.advances_trans only_row_trans)
  qed
qed

lemma claim_all_moves:
  assumes "ids_ok s" and "\<forall>r \<in> set rs. get_record (bg_id (rec_summary r)) s = Some r" and "distinct (map (\<lambda>r. bg_id (rec_summary r)) rs)"
    and "claim_all bytes now manual rs s = Inr (ws, t)"
  shows "moves s t"
  using assms
proof (induction rs arbitrary: s ws)
  case (Cons r rs)
  obtain w s1 ws1 where one: "claim_one bytes now manual r s = Inr (w, s1)" and rest: "claim_all bytes now manual rs s1 = Inr (ws1, t)"
    using Cons.prems(4) by auto
  have r: "moves s s1" "only_row (bg_id (rec_summary r)) s s1"
    using claim_one_result [OF Cons.prems(1) _ one] Cons.prems(2) by auto
  have "get_record (bg_id (rec_summary q)) s1 = Some q" if "q \<in> set rs" for q
  proof -
    have "bg_id (rec_summary q) \<noteq> bg_id (rec_summary r)" using that Cons.prems(3) by (auto simp: image_iff)
    then show ?thesis using that Cons.prems(2) r(2) by (simp add: only_row_def)
  qed
  then have "moves s1 t" using Cons.prems(3) by (intro Cons.IH [OF step.advances_ids_ok [OF r(1) Cons.prems(1)] _ _ rest]) auto
  then show ?case by (rule step.advances_trans [OF r(1)])
qed (simp add: step.advances_refl)

lemma map_filter_keys:
  assumes "\<And>x y. f x = Some y \<Longrightarrow> x \<in> set xs \<Longrightarrow> h y = g x"
  shows "map h (List.map_filter f xs) = map g (filter (\<lambda>x. f x \<noteq> None) xs)"
  using assms by (induction xs) (auto simp: List.map_filter_simps split: option.split)

lemma stored_record:
  assumes "ids_ok s" and "row \<in> set (bs_rows s)" and "row_body row = JobRow r"
  shows "bg_id (rec_summary r) = row_id row" and "get_record (row_id row) s = Some r"
proof -
  show "bg_id (rec_summary r) = row_id row" using assms by (auto simp: ids_ok_def list_all_iff row_named_def)
  have "row_at row_id (row_id row) (bs_rows s) = Some row" by (rule row_at_keyed) (use assms in \<open>simp_all add: ids_ok_def\<close>)
  then show "get_record (row_id row) s = Some r" using assms(3) by (simp add: get_record_def)
qed

lemma due_records_stored:
  assumes "ids_ok s"
  shows "\<forall>r \<in> set (due_records now s). get_record (bg_id (rec_summary r)) s = Some r"
    and "distinct (map (\<lambda>r. bg_id (rec_summary r)) (due_records now s))"
proof -
  let ?f = "\<lambda>row. case row_body row of JobRow r \<Rightarrow> Some r | AssetRow _ \<Rightarrow> None"
  define rows where "rows = take 4 (sort_key (\<lambda>row. case row_next row of Some t \<Rightarrow> t | None \<Rightarrow> 0)
       (filter (\<lambda>row. case row_next row of Some t \<Rightarrow> t \<le> now | None \<Rightarrow> False) (bs_rows s)))"
  have sub: "set rows \<subseteq> set (bs_rows s)" by (auto simp: rows_def dest!: in_set_takeD)
  have due: "due_records now s = List.map_filter ?f rows" by (simp add: due_records_def rows_def)
  have named: "bg_id (rec_summary r) = row_id row" "get_record (row_id row) s = Some r" if "?f row = Some r" "row \<in> set rows" for row r
    using stored_record [OF assms] that sub by (auto split: row_body.splits)
  show "\<forall>r \<in> set (due_records now s). get_record (bg_id (rec_summary r)) s = Some r"
  proof
    fix r assume "r \<in> set (due_records now s)"
    then obtain row where "row \<in> set rows" "?f row = Some r" by (auto simp: due List.map_filter_def)
    with named show "get_record (bg_id (rec_summary r)) s = Some r" by simp
  qed
  have "distinct (map row_id (filter q (bs_rows s)))" for q
    using assms by (simp add: ids_ok_def keyed_def distinct_map_filter)
  then have "distinct (map row_id (sort_key k (filter q (bs_rows s))))" for k :: "background_row \<Rightarrow> int" and q
    by (metis distinct_map distinct_sort set_sort)
  then have "distinct (map row_id rows)" unfolding rows_def take_map [symmetric] by (rule distinct_take)
  then show "distinct (map (\<lambda>r. bg_id (rec_summary r)) (due_records now s))"
    unfolding due using map_filter_keys [of ?f rows "\<lambda>r. bg_id (rec_summary r)" row_id] named by (simp add: distinct_map_filter)
qed

lemma claim_moves:
  assumes "ids_ok s" and "claim bytes now i s = Inr (ws, t)"
  shows "moves s t"
proof (cases i)
  case None
  then show ?thesis using assms(2) by (intro claim_all_moves [OF assms(1) due_records_stored [OF assms(1)]]) (simp add: claim_def)
next
  case (Some k)
  then show ?thesis using assms ids_okD [OF assms(1)]
    by (intro claim_all_moves [OF assms(1)]) (auto simp: claim_def split: option.splits)
qed

text \<open>Input uploads.\<close>

lemma input_receipt_of_Inr: "input_receipt_of (Some r) b = Inr rc \<Longrightarrow> rec_input r = Some rc"
  by (auto simp: input_receipt_of_def split: option.splits if_splits)

lemma save_input_moves:
  assumes "ids_ok s" and "job_of i s = Inr (r, j)" and "rec_input r = Some rc" and "input_keeps (Some rc) (Some rc1)"
    and "op_ok (ir_upload rc) \<Longrightarrow> op_ok (ir_upload rc1)" and "save_record bytes (r\<lparr>rec_input := Some rc1\<rparr>) s = Inr t"
  shows "moves s t"
  using assms(2,5) by (intro step.advances_save [OF assms(1) _ input_step [OF assms(3) _ assms(4)] assms(6)]) (auto simp: job_of_Inr)

lemma claim_input_upload_moves:
  assumes "ids_ok s" and "claim_input_upload bytes now b s = Inr (x, t)"
  shows "moves s t"
proof -
  obtain r j rc u where r: "job_of (ib_job b) s = Inr (r, j)" "rec_input r = Some rc" and u: "ir_upload rc = LiveJob u" "ir_state rc = InputPending"
      "bg_event u = None" "list_all (\<lambda>l. lg_reserve l = ReserveAccepted) (bg_legs u)"
      and t: "save_record bytes (r\<lparr>rec_input := Some (rc\<lparr>ir_state := InputDispatchUnknown, ir_upload := LiveJob (u\<lparr>bg_egress := True\<rparr>)\<rparr>)\<rparr>) s = Inr t"
    using assms(2) by (auto simp: claim_input_upload_def admitting_Inr upload_job_def Let_def dest!: input_receipt_of_Inr split: if_splits operation.splits)
  show ?thesis
    by (rule save_input_moves [OF assms(1) r _ _ t]) (use u in \<open>auto simp: input_keeps_def op_keeps_def input_rank_def op_ok_def job_ok_def\<close>)
qed

lemma bind_input_upload_moves:
  assumes "ids_ok s" and "bind_input_upload bytes now b img s = Inr (x, t)"
  shows "moves s t"
proof -
  obtain r j rc rc1 s1 y where r: "job_of (ib_job b) s = Inr (r, j)" "rec_input r = Some rc" and bound: "bind_managed_input now img rc = Inr rc1"
      and s1: "save_record bytes (r\<lparr>rec_input := Some rc1\<rparr>) s = Inr s1" and t: "freeze_upload bytes now (ib_job b) (bare_outcome now (Some 200) Success True) s1 = Inr (y, t)"
    using assms(2) by (auto simp: bind_input_upload_def admitting_Inr dest: input_receipt_of_Inr)
  have rc1: "rc1 = rc\<lparr>ir_image := Some img, ir_state := InputBound\<rparr>" "ir_image rc = None \<or> ir_image rc = Some img"
    using bound by (auto simp: bind_managed_input_def split: if_splits)
  have m: "moves s s1"
    by (rule save_input_moves [OF assms(1) r _ _ s1]) (use rc1 in \<open>auto simp: input_keeps_def input_rank_def split: input_state.split\<close>)
  show ?thesis by (rule step.advances_trans [OF m freeze_upload_moves [OF step.advances_ids_ok [OF m assms(1)] t]])
qed

lemma claim_input_create_moves:
  assumes "ids_ok s" and "claim_input_create bytes now b s = Inr (x, t)"
  shows "moves s t"
proof -
  obtain r j rc s1 where r: "job_of (ib_job b) s = Inr (r, j)" "rec_input r = Some rc"
      and s1: "save_record bytes (r\<lparr>rec_input := Some (rc\<lparr>ir_create_claimed := True\<rparr>)\<rparr>) s = Inr s1" and t: "begin_dispatch bytes now (bg_id j) None True s1 = Inr (x, t)"
    using assms(2) by (auto simp: claim_input_create_def admitting_Inr dest: input_receipt_of_Inr split: if_splits)
  have m: "moves s s1" by (rule save_input_moves [OF assms(1) r _ _ s1]) (auto simp: input_keeps_def)
  show ?thesis by (rule step.advances_trans [OF m begin_dispatch_moves [OF step.advances_ids_ok [OF m assms(1)] t]])
qed

text \<open>Published inputs.\<close>

lemma published_input_row:
  assumes "published_input pb now i s = Inr x"
  shows "\<exists>row. row_at row_id i (bs_rows s) = Some row \<and> row_body row = AssetRow x"
  using assms by (auto simp: published_input_def split: if_splits option.splits row_body.splits)

lemma save_published_moves:
  assumes "ids_ok s" and "published_input pb now i s = Inr x" and "asset_step x y" and "save_published pb y s = Inr (z, t)"
  shows "moves s t"
proof -
  obtain row where row: "row_at row_id i (bs_rows s) = Some row" "row_body row = AssetRow x" using published_input_row [OF assms(2)] by blast
  then have "asset_key (pr_binding x) = i" using assms(1) by (auto simp: ids_ok_def list_all_iff row_named_def dest!: row_at_elem)
  then have "asset_key (pr_binding y) = i" using assms(3) by (simp add: asset_step_def)
  then show ?thesis using assms(3,4) row
    by (auto simp: save_published_def row_step_def split: if_splits intro!: step.advances_put [OF assms(1)])
qed

lemma claim_publication_moves:
  assumes "ids_ok s" and "claim_publication pb now b s = Inr (z, t)"
  shows "moves s t"
proof -
  obtain x where x: "published_input pb now (asset_key b) s = Inr x" "pr_state x = AssetPending" "save_published pb (x\<lparr>pr_state := PublicationUnknown\<rparr>) s = Inr (z, t)"
    using assms(2) by (auto simp: claim_publication_def split: if_splits)
  show ?thesis by (rule save_published_moves [OF assms(1) x(1) _ x(3)]) (simp add: asset_step_def asset_rank_def x(2))
qed

lemma bind_published_object_moves:
  assumes "ids_ok s" and "bind_published_object pb now b obj s = Inr (z, t)"
  shows "moves s t"
proof (cases "t = s")
  case False
  then obtain x where x: "published_input pb now (asset_key b) s = Inr x" "pr_state x = PublicationUnknown" "pr_object x = None"
      "save_published pb (x\<lparr>pr_object := Some obj, pr_state := AssetPublished\<rparr>) s = Inr (z, t)"
    using assms(2) by (auto simp: bind_published_object_def split: if_splits)
  show ?thesis by (rule save_published_moves [OF assms(1) x(1) _ x(4)]) (simp add: asset_step_def asset_rank_def x(2,3))
qed (simp add: step.advances_refl)

lemma claim_forward_moves:
  assumes "ids_ok s" and "claim_forward pb now b attempt s = Inr (z, t)"
  shows "moves s t"
proof -
  obtain x where x: "published_input pb now (asset_key b) s = Inr x" "pr_state x = AssetPublished" "pr_attempt x = None"
      "save_published pb (x\<lparr>pr_attempt := Some attempt, pr_state := ForwardingUnknown\<rparr>) s = Inr (z, t)"
    using assms(2) by (auto simp: claim_forward_def split: if_splits)
  show ?thesis by (rule save_published_moves [OF assms(1) x(1) _ x(4)]) (simp add: asset_step_def asset_rank_def x(2,3))
qed

end
