(* ===== verification/Background_Runs.thy ===== *)
theory Background_Runs
  imports Background_Safety
begin

section \<open>Runs of the background store\<close>

text \<open>
  Every operation as a transaction of the scope's owner: an error leaves the table as it was. An operation
  either steps the rows that are there or enters one new row, dropping at most rows that are closed. From
  this come the bounds of the table, and that over any sequence of operations work is dispatched at most
  once, a frozen receipt is never replaced, and live work is never dropped.
\<close>

datatype background_op =
    Admit int background_admission
  | AdmitManaged int background_admission
  | AllocateInput int input_allocation
  | BeginReserve int string nat bool
  | Reserved int string nat bool bool
  | LegDispatched int string nat bool
  | BeginDispatch int string "string option"
  | BeginEgress int string
  | BindIdentity int string string
  | Freeze int string accounting_outcome
  | FreezeUpload int string accounting_outcome
  | ObserveManaged int string string string int "nat option" "string option"
  | BindFiles int string string "(string \<times> string) list"
  | Acknowledge int string string ack_sink string
  | AcknowledgeUpload int string string ack_sink string
  | Claim int "string option"
  | Retry int string "background_error option" nat
  | ClaimInputUpload int input_binding
  | BindInputUpload int input_binding string
  | ClaimInputCreate int input_binding
  | AllocatePublished int json
  | ClaimPublication int json
  | BindPublished int json json
  | ClaimForward int json json

fun commit :: "('a \<times> background_store) result \<Rightarrow> background_store \<Rightarrow> background_store" where
  "commit (Inr (x, t)) s = t"
| "commit (Inl e) s = s"

primrec background_exec :: "publisher \<Rightarrow> background_op \<Rightarrow> background_store \<Rightarrow> background_store" where
  "background_exec pb (Admit now a) s = commit (admit (pb_bytes pb) now a s) s"
| "background_exec pb (AdmitManaged now a) s = commit (admit_managed (pb_bytes pb) now a s) s"
| "background_exec pb (AllocateInput now x) s = commit (allocate_input (pb_bytes pb) now x s) s"
| "background_exec pb (BeginReserve now i n up) s = commit (begin_reserve (pb_bytes pb) now i n up s) s"
| "background_exec pb (Reserved now i n ok up) s = commit (reserved (pb_bytes pb) now i n ok up s) s"
| "background_exec pb (LegDispatched now i n up) s = commit (leg_dispatched (pb_bytes pb) now i n up s) s"
| "background_exec pb (BeginDispatch now i c) s = commit (begin_dispatch (pb_bytes pb) now i c False s) s"
| "background_exec pb (BeginEgress now i) s = commit (begin_egress (pb_bytes pb) now i s) s"
| "background_exec pb (BindIdentity now i response) s = commit (bind_identity (pb_bytes pb) now i response s) s"
| "background_exec pb (Freeze now i out) s = commit (freeze (pb_bytes pb) now i out s) s"
| "background_exec pb (FreezeUpload now i out) s = commit (freeze_upload (pb_bytes pb) now i out s) s"
| "background_exec pb (ObserveManaged now i up st code attempt lost) s = commit (observe_managed (pb_bytes pb) now i up st code attempt lost s) s"
| "background_exec pb (BindFiles now i up files) s = commit (bind_managed_files (pb_bytes pb) now i up files s) s"
| "background_exec pb (Acknowledge now i event sink d) s = commit (acknowledge_main (pb_bytes pb) now i event sink d s) s"
| "background_exec pb (AcknowledgeUpload now i event sink d) s = commit (acknowledge_upload (pb_bytes pb) now i event sink d s) s"
| "background_exec pb (Claim now i) s = commit (claim (pb_bytes pb) now i s) s"
| "background_exec pb (Retry now i err attempt) s = commit (retry (pb_bytes pb) now i err attempt s) s"
| "background_exec pb (ClaimInputUpload now b) s = commit (claim_input_upload (pb_bytes pb) now b s) s"
| "background_exec pb (BindInputUpload now b img) s = commit (bind_input_upload (pb_bytes pb) now b img s) s"
| "background_exec pb (ClaimInputCreate now b) s = commit (claim_input_create (pb_bytes pb) now b s) s"
| "background_exec pb (AllocatePublished now b) s = commit (allocate_published pb now b s) s"
| "background_exec pb (ClaimPublication now b) s = commit (claim_publication pb now b s) s"
| "background_exec pb (BindPublished now b obj) s = commit (bind_published_object pb now b obj s) s"
| "background_exec pb (ClaimForward now b attempt) s = commit (claim_forward pb now b attempt s) s"

definition background_run :: "publisher \<Rightarrow> background_op list \<Rightarrow> background_store \<Rightarrow> background_store" where
  "background_run pb ops s = fold (background_exec pb) ops s"

text \<open>The identifier an operation may enter into the table.\<close>

fun op_enters :: "background_op \<Rightarrow> string option" where
  "op_enters (Admit now a) = Some (ad_id a)"
| "op_enters (AdmitManaged now a) = Some (ad_id a)"
| "op_enters (AllocateInput now x) = Some (ad_id (ia_admission x))"
| "op_enters (AllocatePublished now b) = Some (asset_key b)"
| "op_enters x = None"

subsection \<open>Entering a row\<close>

definition row_ok :: "background_row \<Rightarrow> bool" where
  "row_ok row = (row_named row \<and> (case row_body row of JobRow r \<Rightarrow> record_ok r | AssetRow x \<Rightarrow> True))"

definition background_inv :: "background_store \<Rightarrow> bool" where
  "background_inv s \<longleftrightarrow> keyed row_id (bs_rows s) \<and> list_all row_ok (bs_rows s) \<and> length (bs_rows s) \<le> background_capacity \<and>
     length (filter active_row (bs_rows s)) \<le> background_active_limit"

definition closed_row :: "background_row \<Rightarrow> bool" where
  "closed_row row = (case row_body row of JobRow r \<Rightarrow> \<not> live_background r | AssetRow x \<Rightarrow> False)"

definition enters :: "background_row \<Rightarrow> background_store \<Rightarrow> background_store \<Rightarrow> bool" where
  "enters row s t \<longleftrightarrow> row_at row_id (row_id row) (bs_rows s) = None \<and> row_ok row \<and>
     (\<exists>p. bs_rows t = filter p (bs_rows s) @ [row] \<and> (\<forall>x \<in> set (bs_rows s). p x \<or> closed_row x) \<and> length (filter p (bs_rows s)) < background_capacity) \<and>
     (active_row row \<longrightarrow> length (filter active_row (bs_rows s)) < background_active_limit)"

lemma background_inv_ids: "background_inv s \<Longrightarrow> ids_ok s"
  by (auto simp: background_inv_def ids_ok_def row_ok_def list_all_iff)

lemma first_row_member: "first_row rows = Some x \<Longrightarrow> x \<in> set rows"
proof -
  have "fold (\<lambda>r best. case best of None \<Rightarrow> Some r | Some b \<Rightarrow> if row_before r b then Some r else best) rows acc = Some x \<Longrightarrow>
      x \<in> set rows \<or> acc = Some x" for acc
    by (induction rows arbitrary: acc) (auto split: option.splits if_splits)
  then show "first_row rows = Some x \<Longrightarrow> x \<in> set rows" by (auto simp: first_row_def)
qed

lemma make_room_filter:
  assumes "background_inv s" and "make_room now s = Inr t"
  shows "\<exists>p. bs_rows t = filter p (bs_rows s) \<and> (\<forall>x \<in> set (bs_rows s). p x \<or> closed_row x) \<and> length (filter p (bs_rows s)) < background_capacity"
proof (cases "length (bs_rows s) < background_capacity")
  case True
  then show ?thesis using assms(2) by (intro exI [where x = "\<lambda>_. True"]) (simp add: make_room_def)
next
  case False
  then obtain old where old: "first_row (filter (evictable now) (bs_rows s)) = Some old"
      and t: "t = s\<lparr>bs_rows := delete_where (\<lambda>r. row_id r = row_id old) (bs_rows s)\<rparr>"
    using assms(2) by (auto simp: make_room_def split: option.splits)
  have mem: "old \<in> set (bs_rows s)" "evictable now old" using first_row_member [OF old] by auto
  let ?p = "\<lambda>r. row_id r \<noteq> row_id old"
  have "x = old" if "x \<in> set (bs_rows s)" "row_id x = row_id old" for x
    using assms(1) that mem(1) by (auto simp: background_inv_def keyed_def distinct_map inj_on_def)
  moreover have "closed_row old" using mem(2) by (auto simp: evictable_def closed_row_def split: row_body.splits)
  moreover have "length (filter ?p (bs_rows s)) < length (bs_rows s)" by (rule length_filter_less [OF mem(1)]) simp
  ultimately show ?thesis using t assms(1) by (intro exI [where x = ?p]) (auto simp: delete_where_def background_inv_def)
qed

definition job_row :: "background_record \<Rightarrow> background_row" where
  "job_row r = \<lparr>row_id = bg_id (rec_summary r), row_admitted = bg_admitted (rec_summary r), row_next = next_action (rec_op r), row_body = JobRow r\<rparr>"

lemma new_job_ok: "job_ok (new_background_job a)"
  by (simp add: job_ok_def new_background_job_def new_leg_def)

lemma new_job_fields [simp]:
  "bg_id (new_background_job a) = ad_id a" "bg_phase (new_background_job a) = Admitting" "bg_claimed (new_background_job a) = False"
  "bg_event (new_background_job a) = None"
  by (simp_all add: new_background_job_def)

lemma admitted_id [simp]: "bg_id (rec_summary (admitted_record a)) = ad_id a"
  by (simp add: rec_summary_def admitted_record_def)

lemma starts_with_disjoint: "starts_with ''bg_'' i \<Longrightarrow> starts_with ''asset_'' i \<Longrightarrow> False"
  by (cases i) auto

lemma absent_row:
  assumes "ids_ok s" and "get_record i s = None" and "background_id i"
  shows "row_at row_id i (bs_rows s) = None"
proof (cases "row_at row_id i (bs_rows s)")
  case (Some row)
  then have "row \<in> set (bs_rows s)" "row_id row = i" by (auto dest: row_at_elem)
  moreover obtain x where "row_body row = AssetRow x" using assms(2) Some by (auto simp: get_record_def split: row_body.splits)
  ultimately have "starts_with ''asset_'' i" using assms(1) by (auto simp: ids_ok_def list_all_iff row_named_def dest!: bspec [of _ _ row])
  then show ?thesis using assms(3) starts_with_disjoint by (auto simp: background_id_def)
qed simp

lemma row_at_filter_None: "row_at key i t = None \<Longrightarrow> row_at key i (filter p t) = None"
  by (auto simp: row_at_def find_None_iff)

lemma admit_enters:
  assumes "background_inv s" and "admit bytes now a s = Inr (r, t)"
  shows "r = admitted_record a \<and> background_id (ad_id a) \<and> enters (job_row r) s t"
proof -
  obtain s1 where a: "background_id (ad_id a)" "get_record (ad_id a) s = None" "length (filter active_row (bs_rows s)) < background_active_limit"
      and s1: "make_room now s = Inr s1" and t: "save_record bytes (admitted_record a) s1 = Inr t" and r: "r = admitted_record a"
    using assms(2) by (auto simp: admit_def not_le split: if_splits)
  obtain p where p: "bs_rows s1 = filter p (bs_rows s)" "\<forall>x \<in> set (bs_rows s). p x \<or> closed_row x" "length (filter p (bs_rows s)) < background_capacity"
    using make_room_filter [OF assms(1) s1] by blast
  have absent: "row_at row_id (ad_id a) (bs_rows s) = None" by (rule absent_row [OF background_inv_ids [OF assms(1)] a(2,1)])
  have "bs_rows t = filter p (bs_rows s) @ [job_row r]"
    using save_record_Inr [OF t] row_at_filter_None [OF absent, of p] by (simp add: put_row_def p(1) r job_row_def)
  moreover have "row_ok (job_row r)"
    using new_job_ok by (simp add: r job_row_def row_ok_def row_named_def record_ok_def admitted_record_def op_ok_def)
  ultimately show ?thesis using r a p absent by (auto simp: enters_def job_row_def)
qed

lemma enters_replace:
  assumes "enters row s t" and "row_id new = row_id row" and "row_ok (row\<lparr>row_next := row_next new, row_body := row_body new\<rparr>)"
    and "active_row row"
  shows "enters (row\<lparr>row_next := row_next new, row_body := row_body new\<rparr>) s (put_row new t)"
proof -
  let ?f = "\<lambda>x. x\<lparr>row_next := row_next new, row_body := row_body new\<rparr>"
  obtain p where p: "bs_rows t = filter p (bs_rows s) @ [row]" "\<forall>x \<in> set (bs_rows s). p x \<or> closed_row x" "length (filter p (bs_rows s)) < background_capacity"
    using assms(1) by (auto simp: enters_def)
  have absent: "row_at row_id (row_id row) (bs_rows s) = None" using assms(1) by (simp add: enters_def)
  then have "\<forall>x \<in> set (bs_rows s). row_id x \<noteq> row_id row" by (auto simp: row_at_def find_None_iff)
  then have "update_where (\<lambda>r. row_id r = row_id new) ?f (filter p (bs_rows s)) = filter p (bs_rows s)"
    unfolding update_where_def by (intro map_idI) (auto simp: assms(2))
  moreover have "row_at row_id (row_id new) (bs_rows t) \<noteq> None"
    using row_at_filter_None [OF absent, of p] by (simp add: p(1) row_at_snoc assms(2))
  ultimately have "bs_rows (put_row new t) = filter p (bs_rows s) @ [?f row]"
    by (simp add: put_row_existing p(1) update_where_def assms(2))
  then show ?thesis using assms absent p(2,3) by (auto simp: enters_def)
qed

lemma allocate_input_enters:
  assumes "background_inv s" and "allocate_input bytes now x s = Inr (r, t)"
  shows "\<exists>row. row_id row = ad_id (ia_admission x) \<and> enters row s t"
proof -
  let ?a = "ia_admission x"
  let ?rc = "\<lparr>ir_binding = ia_binding x, ir_state = InputPending, ir_image = None, ir_create_claimed = False,
              ir_upload = LiveJob (new_background_job (?a\<lparr>ad_managed := None, ad_facts := ia_facts x, ad_plan := ia_plan x\<rparr>))\<rparr>"
  obtain q s1 where q: "admit bytes now ?a s = Inr (q, s1)" and t: "save_record bytes (q\<lparr>rec_input := Some ?rc\<rparr>) s1 = Inr t"
    using assms(2) by (auto simp: allocate_input_def Let_def split: if_splits)
  have e: "q = admitted_record ?a" "enters (job_row q) s s1" using admit_enters [OF assms(1) q] by auto
  let ?new = "job_row (q\<lparr>rec_input := Some ?rc\<rparr>)"
  have "enters ((job_row q)\<lparr>row_next := row_next ?new, row_body := row_body ?new\<rparr>) s (put_row ?new s1)"
    using new_job_ok by (intro enters_replace [OF e(2)])
      (simp_all add: e(1) job_row_def rec_summary_def admitted_record_def row_ok_def row_named_def record_ok_def op_ok_def active_row_def)
  moreover have "put_row ?new s1 = t" using save_record_Inr [OF t] by (simp add: job_row_def)
  ultimately show ?thesis using e(1) by (intro exI conjI) (auto simp: job_row_def)
qed

lemma allocate_published_enters:
  assumes "background_inv s" and "allocate_published pb now b s = Inr (x, t)"
  shows "t = s \<or> (\<exists>row. row_id row = asset_key b \<and> enters row s t)"
proof (cases "t = s")
  case False
  let ?x = "\<lparr>pr_binding = b, pr_state = AssetPending, pr_object = None, pr_attempt = None\<rparr>"
  have b: "published_input_live (pb_date pb) (pb_origin pb) now b" "row_at row_id (asset_key b) (bs_rows s) = None"
      "length (bs_rows s) < background_capacity" "save_published pb ?x s = Inr (x, t)"
    using assms(2) False by (auto simp: allocate_published_def not_le split: if_splits option.splits)
  have "asset_id (member ''id'' b)" using published_live_valid [OF b(1)] by (simp add: valid_published_input_def valid_published_fields_def)
  then have "starts_with ''asset_'' (asset_key b)" by (auto simp: asset_id_def prefixed_hex_def asset_key_def split: option.splits json.splits)
  then obtain adm where row: "enters \<lparr>row_id = asset_key b, row_admitted = adm, row_next = None, row_body = AssetRow ?x\<rparr> s t"
    using b(2-4) by (force simp: save_published_def put_row_def enters_def row_ok_def row_named_def active_row_def split: if_splits
        intro: exI [where x = "\<lambda>_. True"])
  then show ?thesis by (intro disjI2 exI [where x = "\<lparr>row_id = asset_key b, row_admitted = adm, row_next = None, row_body = AssetRow ?x\<rparr>"]) simp
qed simp

subsection \<open>One operation\<close>

lemma commit_moves: "(\<And>x t. r = Inr (x, t) \<Longrightarrow> moves s t) \<Longrightarrow> moves s (commit r s)"
  by (cases r) (auto intro: step.advances_refl)

lemmas operation_moves = begin_dispatch_moves begin_egress_moves bind_identity_moves freeze_moves freeze_upload_moves
  observe_managed_moves bind_managed_files_moves acknowledge_main_moves acknowledge_upload_moves claim_moves retry_moves
  claim_input_upload_moves bind_input_upload_moves claim_input_create_moves claim_publication_moves bind_published_object_moves claim_forward_moves

lemma admit_managed_cases:
  assumes "admit_managed bytes now a s = Inr (x, t)"
  shows "t = s \<or> (\<exists>r. admit bytes now a s = Inr (r, t))"
  using assms by (auto simp: admit_managed_def split: option.splits)

lemma enters_or_moves:
  assumes "background_inv s"
  shows "moves s (background_exec pb op s) \<or> (\<exists>row. op_enters op = Some (row_id row) \<and> enters row s (background_exec pb op s))"
proof (cases "op_enters op")
  case None
  note ids = background_inv_ids [OF assms]
  have "moves s (background_exec pb op s)"
    using None by (cases op) (simp_all add: begin_reserve_def reserved_def leg_dispatched_def,
        (rule commit_moves, (erule operation_moves [OF ids] | (erule at_leg_moves [OF ids, rotated], simp)))+)
  then show ?thesis ..
next
  case (Some i)
  have admit: "\<exists>row. row_id row = ad_id a \<and> enters row s t" if "admit bytes now a s = Inr (r, t)" for bytes now a r t
    using admit_enters [OF assms that] by (intro exI [where x = "job_row r"]) (auto simp: job_row_def)
  have "background_exec pb op s = s \<or> (\<exists>row. row_id row = i \<and> enters row s (background_exec pb op s))"
  proof (cases op)
    case (Admit now a)
    then show ?thesis using Some admit by (cases "admit (pb_bytes pb) now a s") auto
  next
    case (AdmitManaged now a)
    then show ?thesis using Some admit admit_managed_cases by (cases "admit_managed (pb_bytes pb) now a s") fastforce+
  next
    case (AllocateInput now x)
    then show ?thesis using Some allocate_input_enters [OF assms] by (cases "allocate_input (pb_bytes pb) now x s") auto
  next
    case (AllocatePublished now b)
    then show ?thesis using Some allocate_published_enters [OF assms, of pb now b] by (cases "allocate_published pb now b s") auto
  qed (use Some in simp_all)
  then show ?thesis using Some step.advances_refl by auto
qed

lemma moves_inv:
  assumes "moves s t" and "background_inv s"
  shows "background_inv t"
proof -
  have rows: "list_all2 (row_step record_step) (bs_rows s) (bs_rows t)" using assms(1) by (simp add: advances_def)
  have active: "row_step record_step a b \<Longrightarrow> active_row b \<Longrightarrow> active_row a" for a b
    by (auto simp: row_step_def active_row_def record_step_def op_keeps_def split: row_body.splits operation.splits)
  have ok: "row_step record_step a b \<Longrightarrow> row_ok a \<Longrightarrow> row_ok b" for a b
    using step.row_step_named [of a b] unfolding row_ok_def by (auto simp: row_step_def record_step_def split: row_body.splits)
  have "list_all row_ok (bs_rows s) \<Longrightarrow> list_all row_ok (bs_rows t)" using rows by (induction rule: list_all2_induct) (auto dest: ok)
  moreover have "length (filter active_row (bs_rows t)) \<le> length (filter active_row (bs_rows s))"
    using rows by (induction rule: list_all2_induct) (auto dest: active)
  ultimately show ?thesis using assms step.advances_ids [OF assms(1)] list_all2_lengthD [OF rows] by (auto simp: background_inv_def keyed_def)
qed

lemma enters_inv:
  assumes "enters row s t" and "background_inv s"
  shows "background_inv t"
proof -
  obtain p where p: "bs_rows t = filter p (bs_rows s) @ [row]" "length (filter p (bs_rows s)) < background_capacity" using assms(1) by (auto simp: enters_def)
  have fresh: "row_id row \<notin> row_id ` set (bs_rows s)" using assms(1) by (auto simp: enters_def row_at_def find_None_iff)
  have "length (filter active_row (filter p (bs_rows s))) \<le> length (filter active_row (bs_rows s))"
    by (simp add: filter_filter conj_commute) (metis filter_filter length_filter_le)
  then show ?thesis using assms fresh p
    by (auto simp: background_inv_def keyed_def distinct_map_filter enters_def list_all_iff)
qed

lemma exec_inv: "background_inv s \<Longrightarrow> background_inv (background_exec pb op s)"
  using enters_or_moves moves_inv enters_inv by blast

lemma run_inv: "background_inv s \<Longrightarrow> background_inv (background_run pb ops s)"
  by (induction ops arbitrary: s) (simp_all add: background_run_def exec_inv)

lemma empty_inv: "background_inv empty_background"
  by (simp add: background_inv_def empty_background_def keyed_def)

lemmas reachable_inv = run_inv [OF empty_inv]

subsection \<open>Sequences of operations\<close>

lemma row_at_filter:
  assumes "keyed row_id rows"
  shows "row_at row_id i (filter p rows) = (case row_at row_id i rows of None \<Rightarrow> None | Some x \<Rightarrow> if p x then Some x else None)"
  using assms
proof (induction rows)
  case (Cons a rows)
  have "row_at row_id (row_id a) rows = None" "row_at row_id (row_id a) (filter p rows) = None"
    using Cons.prems by (auto simp: image_iff row_at_def keyed_def find_None_iff)
  then show ?case using Cons by (auto simp: row_at_def keyed_def)
qed (simp add: row_at_def)

lemma get_record_enters:
  assumes "enters row s t" and "background_inv s" and "row_id row \<noteq> i"
  shows "get_record i t = get_record i s \<or> get_record i t = None \<and> (\<exists>r. get_record i s = Some r \<and> \<not> live_background r)"
proof -
  obtain p where p: "bs_rows t = filter p (bs_rows s) @ [row]" "\<forall>x \<in> set (bs_rows s). p x \<or> closed_row x"
    using assms(1) by (auto simp: enters_def)
  have keyed: "keyed row_id (bs_rows s)" using assms(2) by (simp add: background_inv_def)
  have rows: "row_at row_id i (filter p (bs_rows s)) = (case row_at row_id i (bs_rows s) of None \<Rightarrow> None | Some x \<Rightarrow> if p x then Some x else None)"
    by (rule row_at_filter [OF keyed])
  show ?thesis
  proof (cases "row_at row_id i (bs_rows s)")
    case (Some x)
    then have "p x \<or> closed_row x" using p(2) by (auto dest: row_at_elem)
    then show ?thesis using Some rows assms(3)
      by (auto simp: get_record_def p(1) row_at_snoc closed_row_def split: row_body.splits)
  qed (use rows assms(3) in \<open>simp add: get_record_def p(1) row_at_snoc\<close>)
qed

lemma exec_record:
  assumes "background_inv s" and "op_enters op \<noteq> Some i" and "get_record i s = Some r"
  shows "(\<exists>q. get_record i (background_exec pb op s) = Some q \<and> record_step r q) \<or>
    get_record i (background_exec pb op s) = None \<and> \<not> live_background r"
  using enters_or_moves [OF assms(1), of pb op]
proof (elim disjE exE conjE)
  assume "moves s (background_exec pb op s)"
  from step.advances_record [OF this assms(3)] show ?thesis ..
next
  fix row assume "op_enters op = Some (row_id row)" "enters row s (background_exec pb op s)"
  with get_record_enters [OF _ assms(1)] assms(2,3) show ?thesis using step.rel_refl by fastforce
qed

lemma exec_absent:
  assumes "background_inv s" and "op_enters op \<noteq> Some i" and "get_record i s = None"
  shows "get_record i (background_exec pb op s) = None"
  using enters_or_moves [OF assms(1), of pb op]
proof (elim disjE exE conjE)
  assume "moves s (background_exec pb op s)"
  from step.advances_absent [OF this assms(3)] show ?thesis .
next
  fix row assume "op_enters op = Some (row_id row)" "enters row s (background_exec pb op s)"
  with get_record_enters [OF _ assms(1)] assms(2,3) show ?thesis by fastforce
qed

lemma run_absent:
  assumes "background_inv s" and "Some i \<notin> op_enters ` set ops" and "get_record i s = None"
  shows "get_record i (background_run pb ops s) = None"
  using assms
proof (induction ops arbitrary: s)
  case (Cons op ops)
  have "get_record i (background_exec pb op s) = None" by (rule exec_absent [OF Cons.prems(1) _ Cons.prems(3)]) (use Cons.prems(2) in auto)
  with Cons exec_inv show ?case by (simp add: background_run_def)
qed (simp add: background_run_def)

lemma run_record:
  assumes "background_inv s" and "Some i \<notin> op_enters ` set ops" and "get_record i s = Some r" and "get_record i (background_run pb ops s) = Some q"
  shows "record_step r q"
  using assms
proof (induction ops arbitrary: s r)
  case (Cons op ops)
  let ?s = "background_exec pb op s"
  have rest: "get_record i (background_run pb ops ?s) = Some q" "Some i \<notin> op_enters ` set ops" "op_enters op \<noteq> Some i"
    using Cons.prems(2,4) by (auto simp: background_run_def)
  have inv: "background_inv ?s" by (rule exec_inv [OF Cons.prems(1)])
  have "get_record i ?s \<noteq> None" using run_absent [OF inv rest(2), of pb] rest(1) by auto
  then obtain r1 where r1: "get_record i ?s = Some r1" "record_step r r1" using exec_record [OF Cons.prems(1) rest(3) Cons.prems(3), of pb] by auto
  from step.rel_trans [OF r1(2) Cons.IH [OF inv rest(2) r1(1) rest(1)]] show ?case .
qed (simp add: background_run_def step.rel_refl)

lemma claimed_persists: "record_step r q \<Longrightarrow> rec_op r = LiveJob j \<Longrightarrow> rec_op q = LiveJob k \<Longrightarrow> bg_claimed j \<Longrightarrow> bg_claimed k"
  by (simp add: record_step_def op_keeps_def)

lemma begin_dispatch_claims:
  assumes "ids_ok s" and "begin_dispatch bytes now i content b s = Inr (r, t)"
  shows "\<exists>j. get_record i t = Some r \<and> rec_op r = LiveJob j \<and> bg_claimed j"
proof -
  obtain q j where q: "job_of i s = Inr (q, j)" and r: "r = q\<lparr>rec_op := LiveJob (j\<lparr>bg_claimed := True, bg_content := content\<rparr>)\<rparr>"
      and t: "save_record bytes r s = Inr t"
    using assms(2) by (auto simp: begin_dispatch_def admitting_Inr Let_def split: if_splits)
  have "bg_id j = i" using q ids_okD [OF assms(1)] by (auto simp: job_of_Inr rec_summary_def dest!: ids_okD [OF assms(1)])
  then show ?thesis using get_record_save [OF t, of i] r by (simp add: rec_summary_def)
qed

lemma claimed_dispatch_refused:
  assumes "\<And>r j. get_record i s = Some r \<Longrightarrow> rec_op r = LiveJob j \<Longrightarrow> bg_claimed j"
  shows "\<exists>e. begin_dispatch bytes now i content b s = Inl e"
proof (cases "begin_dispatch bytes now i content b s")
  case (Inr x)
  then show ?thesis using assms by (cases x) (auto simp: begin_dispatch_def admitting_Inr job_of_Inr Let_def split: if_splits)
qed simp

definition sample_publisher :: publisher where
  "sample_publisher = \<lparr>pb_date = (\<lambda>_. None), pb_origin = (\<lambda>_. True), pb_bytes = (\<lambda>_. 900)\<rparr>"

definition sample_job :: string where
  "sample_job = ''bg_'' @ replicate 32 (CHR ''a'')"

definition sample_admission :: background_admission where
  "sample_admission = \<lparr>ad_id = sample_job, ad_at = 1000,
     ad_owner = \<lparr>ow_provider = ''p'', ow_endpoint = ''e'', ow_grant = None, ow_lineage = None, ow_route = ''r'', ow_generation = ''g''\<rparr>,
     ad_facts = sample_facts, ad_plan = \<lparr>plan_reserved = 0, legs = []\<rparr>,
     ad_route = \<lparr>ro_params = [], ro_organization = None, ro_project = None\<rparr>, ad_stream = False, ad_managed = None\<rparr>"

definition sample_admitted :: "background_op list" where
  "sample_admitted = [Admit 1000 sample_admission]"

definition sample_frozen :: "background_op list" where
  "sample_frozen = [Admit 1000 sample_admission, BeginEgress 2000 sample_job, Freeze 3000 sample_job sample_outcome]"

text \<open>
  The recovery table of a scope is bounded: after any sequence of operations it holds at most 64 rows,
  of which at most 16 are jobs still admitting or observing, and no identifier occurs twice.
\<close>

theorem background_table_is_bounded:
  "length (bs_rows (background_run pb ops empty_background)) \<le> 64 \<and>
   length (filter active_row (bs_rows (background_run pb ops empty_background))) \<le> 16 \<and>
   distinct (map row_id (bs_rows (background_run pb ops empty_background)))"
  using reachable_inv [of pb ops] by (simp add: background_inv_def background_capacity_def background_active_limit_def keyed_def)

text \<open>
  C24. Generation is dispatched at most once: once a dispatch of a job is claimed, every later claim for that
  identifier is refused, whatever operations run in between (evictions, recovery claims and alarms
  included), unless the identifier itself is admitted again.
\<close>

theorem dispatch_is_claimed_once:
  assumes "begin_dispatch (pb_bytes pb) now i content b (background_run pb before empty_background) = Inr (r, s)"
    and "Some i \<notin> op_enters ` set after"
  shows "\<exists>e. begin_dispatch (pb_bytes pb) now1 i content1 b1 (background_run pb after s) = Inl e"
proof (rule claimed_dispatch_refused)
  note inv = reachable_inv [of pb before]
  have s: "background_inv s" using begin_dispatch_moves [OF background_inv_ids [OF inv] assms(1)] moves_inv inv by blast
  obtain j where j: "get_record i s = Some r" "rec_op r = LiveJob j" "bg_claimed j"
    using begin_dispatch_claims [OF background_inv_ids [OF inv] assms(1)] by blast
  fix q k assume "get_record i (background_run pb after s) = Some q" "rec_op q = LiveJob k"
  then show "bg_claimed k" using claimed_persists [OF run_record [OF s assms(2) j(1)] j(2)] j(3) by blast
qed

theorem dispatch_is_claimed_once_witness:
  "\<exists>r s. begin_dispatch (pb_bytes sample_publisher) 2000 sample_job None False (background_run sample_publisher sample_admitted empty_background) = Inr (r, s) \<and>
     (\<exists>e. begin_dispatch (pb_bytes sample_publisher) 5000 sample_job None False
        (background_run sample_publisher [BeginDispatch 3000 sample_job None, Claim 4000 None] s) = Inl e)"
proof -
  let ?d = "begin_dispatch (pb_bytes sample_publisher) 2000 sample_job None False (background_run sample_publisher sample_admitted empty_background)"
  have "\<not> isl ?d" by code_simp
  then obtain r s where d: "?d = Inr (r, s)" by (cases ?d) auto
  from dispatch_is_claimed_once [OF d, of "[BeginDispatch 3000 sample_job None, Claim 4000 None]"] d show ?thesis by simp
qed

text \<open>
  C25. A frozen financial receipt is immutable: once a job has its usage event, no sequence of operations
  replaces it, and the tombstone the job becomes carries the amount of that event.
\<close>

theorem frozen_receipt_is_immutable:
  assumes "get_record i (background_run pb before empty_background) = Some r" and "rec_op r = LiveJob j" and "bg_event j = Some e"
    and "Some i \<notin> op_enters ` set after" and "get_record i (background_run pb (before @ after) empty_background) = Some q"
  shows "case rec_op q of
      LiveJob k \<Rightarrow> bg_event k = Some e \<and> bg_amount k = Some (actual_cost_micros e) \<and> bg_phase k = Outbox
    | Closed p u \<Rightarrow> bg_amount u = Some (actual_cost_micros e)"
proof -
  let ?s = "background_run pb before empty_background"
  have q: "get_record i (background_run pb after ?s) = Some q" using assms(5) by (simp add: background_run_def)
  have "record_step r q" by (rule run_record [OF reachable_inv assms(4,1) q])
  then have keeps: "op_keeps (LiveJob j) (rec_op q)" using assms(2) by (simp add: record_step_def)
  have "record_ok r" using reachable_inv [of pb before] assms(1)
    by (auto simp: background_inv_def list_all_iff row_ok_def get_record_Some dest!: row_at_elem)
  then have "job_ok j" using assms(2) by (simp add: record_ok_def op_ok_def)
  then have "bg_amount j = Some (actual_cost_micros e)" "bg_phase j = Outbox" using assms(3) by (auto simp: job_ok_def)
  then show ?thesis using keeps assms(3) by (auto simp: op_keeps_def split: operation.split)
qed

definition sample_op :: "background_op list \<Rightarrow> operation option" where
  "sample_op ops = map_option rec_op (get_record sample_job (background_run sample_publisher ops empty_background))"

theorem frozen_receipt_is_immutable_witness:
  "\<exists>q. get_record sample_job (background_run sample_publisher (sample_frozen @ [Freeze 4000 sample_job (sample_outcome\<lparr>ao_billable := False\<rparr>)]) empty_background) = Some q \<and>
     (case rec_op q of LiveJob k \<Rightarrow> bg_amount k = Some 188 | Closed p u \<Rightarrow> bg_amount u = Some 188)"
proof -
  let ?after = "[Freeze 4000 sample_job (sample_outcome\<lparr>ao_billable := False\<rparr>)]"
  have "case sample_op sample_frozen of Some (LiveJob j) \<Rightarrow> map_option actual_cost_micros (bg_event j) = Some 188 | _ \<Rightarrow> False" by code_simp
  then obtain r j e where r: "get_record sample_job (background_run sample_publisher sample_frozen empty_background) = Some r" "rec_op r = LiveJob j"
      "bg_event j = Some e" "actual_cost_micros e = 188"
    by (auto simp: sample_op_def split: option.splits operation.splits)
  have "sample_op (sample_frozen @ ?after) \<noteq> None" by code_simp
  then obtain q where q: "get_record sample_job (background_run sample_publisher (sample_frozen @ ?after) empty_background) = Some q"
    by (auto simp: sample_op_def)
  from frozen_receipt_is_immutable [OF r(1-3) _ q] q r(4) show ?thesis by (auto split: operation.splits)
qed

text \<open>
  C26. Live work is never dropped: an operation keeps the row of a live job (another admission evicts closed
  rows only), and a job is marked complete only when every settlement is settled, its usage is recorded, its
  amount is known and the upload of its input is closed too.
\<close>

theorem live_work_is_kept:
  assumes "get_record i (background_run pb ops empty_background) = Some r" and "live_background r" and "op_enters op \<noteq> Some i"
  shows "\<exists>q. get_record i (background_exec pb op (background_run pb ops empty_background)) = Some q \<and>
    (\<forall>u. rec_op q = Closed Completed u \<longrightarrow> list_all (\<lambda>x. x = Settled) (bg_settlements u) \<and>
       bg_usage u \<in> {UsageStored, UsageDuplicate, UsageExpired} \<and> bg_amount u \<noteq> None \<and> uploads_closed q)"
proof -
  let ?t = "background_exec pb op (background_run pb ops empty_background)"
  obtain q where q: "get_record i ?t = Some q" using exec_record [OF reachable_inv assms(3,1)] assms(2) by auto
  have "record_ok q" using exec_inv [OF reachable_inv, of pb op pb ops] q
    by (auto simp: background_inv_def list_all_iff row_ok_def get_record_Some dest!: row_at_elem)
  then show ?thesis using q by (auto simp: record_ok_def op_ok_def fully_accounted_def usage_final_def)
qed

definition sample_settled :: "background_op list" where
  "sample_settled = sample_frozen @ [Claim 3500 None]"

theorem live_work_is_kept_witness:
  "\<exists>q u. get_record sample_job (background_exec sample_publisher (Acknowledge 4000 sample_job (ev_id sample_event) UsageSink ''stored'')
       (background_run sample_publisher sample_settled empty_background)) = Some q \<and>
     rec_op q = Closed Completed u \<and> list_all (\<lambda>x. x = Settled) (bg_settlements u) \<and> bg_amount u \<noteq> None"
proof -
  let ?op = "Acknowledge 4000 sample_job (ev_id sample_event) UsageSink ''stored''"
  have "case sample_op sample_settled of Some (LiveJob j) \<Rightarrow> True | _ \<Rightarrow> False" by code_simp
  then obtain r where r: "get_record sample_job (background_run sample_publisher sample_settled empty_background) = Some r" "live_background r"
    by (auto simp: sample_op_def live_background_def split: option.splits operation.splits)
  have "case sample_op (sample_settled @ [?op]) of Some (Closed Completed u) \<Rightarrow> True | _ \<Rightarrow> False" by code_simp
  then obtain q u where "get_record sample_job (background_exec sample_publisher ?op (background_run sample_publisher sample_settled empty_background)) = Some q"
      "rec_op q = Closed Completed u"
    by (auto simp: sample_op_def background_run_def split: option.splits operation.splits closed_phase.splits)
  with live_work_is_kept [OF r, of ?op] show ?thesis by auto
qed

end
