(* ===== verification/Refresh_Ownership.thy ===== *)
theory Refresh_Ownership
  imports Json_Access
begin

section \<open>Ownership of refresh tokens\<close>

text \<open>
  \<open>worker/refresh-ownership.ts\<close>: one durable object maps the fingerprint of every refresh token to the
  grant that owns it and records whether the token was ever sent. \<open>fp\<close> is the object's keyed fingerprint
  (an HMAC whose random key never leaves it), \<open>parse\<close> is \<open>JSON.parse\<close> (\<^term>\<open>None\<close> when it throws). The listing
  of the key-value store is the concatenation of its pages, each entry with what its owner answered and
  the legacy text that is read when the owner does not know the grant.
\<close>

record ownership_entry =
  oe_owner :: string
  oe_used :: bool

type_synonym ownership = "string \<Rightarrow> ownership_entry option"

record ownership_request =
  or_key :: "json option"
  or_token :: "json option"
  or_current :: "json option"
  or_consume :: "json option"

record discovered_grant =
  dg_name :: string
  dg_reply :: "(bool \<times> json option) option"
  dg_raw :: "string option"

definition max_secret_bytes :: int where "max_secret_bytes = 64 * 1024"

definition bounded_secret :: "json option \<Rightarrow> string result" where
  "bounded_secret v = (case v of
     Some (JStr s) \<Rightarrow> if s \<noteq> [] \<and> int (length s) \<le> max_secret_bytes then Inr s else Inl (HttpError 400 ''invalid_upstream_grant'')
   | _ \<Rightarrow> Inl (HttpError 400 ''invalid_upstream_grant''))"

text \<open>\<^verbatim>\<open>^oauth\/(?:tenants\/)?[^/]+\/[^/]+$\<close>.\<close>

definition owner_key :: "string \<Rightarrow> bool" where
  "owner_key k = (case split_on (CHR ''/'') k of
     [p, a, b] \<Rightarrow> p = ''oauth'' \<and> a \<noteq> [] \<and> b \<noteq> []
   | [p, t, a, b] \<Rightarrow> p = ''oauth'' \<and> t = ''tenants'' \<and> a \<noteq> [] \<and> b \<noteq> []
   | _ \<Rightarrow> False)"

definition other_token :: "(string \<Rightarrow> json option) \<Rightarrow> discovered_grant \<Rightarrow> json option result" where
  "other_token parse d = (case dg_reply d of
     None \<Rightarrow> Inl (HttpError 503 ''refresh_ownership_unavailable'')
   | Some (known, tok) \<Rightarrow>
       if known then Inr tok
       else (case dg_raw d of
           None \<Rightarrow> Inr None
         | Some raw \<Rightarrow>
             if \<not> starts_with ''{'' (trim raw) then Inr None
             else (case parse raw of None \<Rightarrow> Inl (Thrown ''SyntaxError'') | Some v \<Rightarrow> Inr (member ''refreshToken'' v))))"

fun discover_owner :: "(string \<Rightarrow> json option) \<Rightarrow> (string \<Rightarrow> string) \<Rightarrow> string \<Rightarrow> string \<Rightarrow> discovered_grant list \<Rightarrow> string option result" where
  "discover_owner parse fp key f [] = Inr None"
| "discover_owner parse fp key f (d # ds) =
     (if dg_name d = key then discover_owner parse fp key f ds
      else rbind (other_token parse d) (\<lambda>tok. case text_of tok of
          Some t \<Rightarrow> if t \<noteq> [] \<and> fp t = f then Inr (Some (dg_name d)) else discover_owner parse fp key f ds
        | None \<Rightarrow> discover_owner parse fp key f ds))"

definition reserve_refresh_ownership ::
    "(string \<Rightarrow> json option) \<Rightarrow> (string \<Rightarrow> string) \<Rightarrow> discovered_grant list \<Rightarrow> ownership_request \<Rightarrow> ownership \<Rightarrow> (int \<times> ownership) result" where
  "reserve_refresh_ownership parse fp ds q idx = (case text_of (or_key q) of
     None \<Rightarrow> Inl (HttpError 400 ''invalid_upstream_grant'')
   | Some key \<Rightarrow>
       if \<not> owner_key key then Inl (HttpError 400 ''invalid_upstream_grant'')
       else rbind (bounded_secret (or_token q)) (\<lambda>t. case idx (fp t) of
           Some r \<Rightarrow>
             if oe_owner r \<noteq> key then Inr (409, idx)
             else if oe_used r \<and> \<not> truthy (or_current q) then Inr (422, idx)
             else Inr (204, if truthy (or_consume q) then idx(fp t \<mapsto> \<lparr>oe_owner = key, oe_used = True\<rparr>) else idx)
         | None \<Rightarrow> rbind (discover_owner parse fp key (fp t) ds) (\<lambda>owner. case owner of
             Some n \<Rightarrow> Inr (409, idx(fp t \<mapsto> \<lparr>oe_owner = n, oe_used = False\<rparr>))
           | None \<Rightarrow> Inr (204, idx(fp t \<mapsto> \<lparr>oe_owner = key, oe_used = (or_consume q = Some (JBool True))\<rparr>)))))"

definition token_owned :: error where "token_owned = HttpError 409 ''refresh_token_already_owned''"
definition token_spent :: error where "token_spent = HttpError 409 ''refresh_token_previously_used''"
definition ownership_unavailable :: error where "ownership_unavailable = HttpError 503 ''refresh_ownership_unavailable''"

text \<open>The caller's side: the status of the index decides; a failure inside the index is a status that is not ok.\<close>

definition claim_refresh_ownership ::
    "(string \<Rightarrow> json option) \<Rightarrow> (string \<Rightarrow> string) \<Rightarrow> discovered_grant list \<Rightarrow> string \<Rightarrow> string \<Rightarrow> bool \<Rightarrow> bool \<Rightarrow> ownership \<Rightarrow> unit result \<times> ownership" where
  "claim_refresh_ownership parse fp ds key t current consume idx =
     (case reserve_refresh_ownership parse fp ds \<lparr>or_key = Some (JStr key), or_token = Some (JStr t),
         or_current = Some (JBool current), or_consume = Some (JBool consume)\<rparr> idx of
        Inl e \<Rightarrow> (Inl ownership_unavailable, idx)
      | Inr (st, idx1) \<Rightarrow>
          (if st = 409 then Inl token_owned else if st = 422 then Inl token_spent
           else if 200 \<le> st \<and> st < 300 then Inr () else Inl ownership_unavailable, idx1))"

text \<open>What later claims keep of the index: an owner is permanent, and so is the mark of use.\<close>

definition index_keeps :: "ownership \<Rightarrow> ownership \<Rightarrow> bool" where
  "index_keeps a b \<longleftrightarrow> (\<forall>f r. a f = Some r \<longrightarrow> (\<exists>q. b f = Some q \<and> oe_owner q = oe_owner r \<and> (oe_used r \<longrightarrow> oe_used q)))"

lemma index_keeps_refl [simp]: "index_keeps a a"
  by (simp add: index_keeps_def)

lemma index_keeps_trans: "index_keeps a b \<Longrightarrow> index_keeps b c \<Longrightarrow> index_keeps a c"
  unfolding index_keeps_def by metis

lemma index_keeps_fresh: "a f = None \<Longrightarrow> index_keeps a (a(f \<mapsto> r))"
  by (auto simp: index_keeps_def)

lemma index_keeps_use: "a f = Some r \<Longrightarrow> index_keeps a (a(f \<mapsto> \<lparr>oe_owner = oe_owner r, oe_used = True\<rparr>))"
  by (auto simp: index_keeps_def)

lemma reserve_keeps:
  assumes "reserve_refresh_ownership parse fp ds q idx = Inr (st, idx1)"
  shows "index_keeps idx idx1"
proof -
  obtain key t where kt: "text_of (or_key q) = Some key" "owner_key key" "bounded_secret (or_token q) = Inr t"
    using assms by (auto simp: reserve_refresh_ownership_def split: option.splits if_splits)
  show ?thesis
  proof (cases "idx (fp t)")
    case None
    then show ?thesis using assms kt index_keeps_fresh [of idx "fp t"]
      by (auto simp: reserve_refresh_ownership_def split: option.splits)
  next
    case (Some r)
    then show ?thesis using assms kt index_keeps_use [of idx "fp t" r, OF Some]
      by (auto simp: reserve_refresh_ownership_def split: if_splits)
  qed
qed

lemma claim_keeps: "index_keeps idx (snd (claim_refresh_ownership parse fp ds key t current consume idx))"
  by (auto simp: claim_refresh_ownership_def split: sum.split dest: reserve_keeps)

lemma bounded_secret_Inr: "bounded_secret (Some (JStr t)) = Inr x \<longleftrightarrow> x = t \<and> t \<noteq> [] \<and> int (length t) \<le> max_secret_bytes"
  by (auto simp: bounded_secret_def)

text \<open>A claim that is granted: the key is an owner key, and the entry is its own or new.\<close>

lemma claim_granted:
  assumes "claim_refresh_ownership parse fp ds key t current consume idx = (Inr (), idx1)"
  obtains (own) r where "idx (fp t) = Some r" "oe_owner r = key" "oe_used r \<longrightarrow> current"
        "idx1 = (if consume then idx(fp t \<mapsto> \<lparr>oe_owner = key, oe_used = True\<rparr>) else idx)"
    | (fresh) "idx (fp t) = None" "idx1 = idx(fp t \<mapsto> \<lparr>oe_owner = key, oe_used = consume\<rparr>)"
proof -
  obtain st where r: "reserve_refresh_ownership parse fp ds \<lparr>or_key = Some (JStr key), or_token = Some (JStr t),
         or_current = Some (JBool current), or_consume = Some (JBool consume)\<rparr> idx = Inr (st, idx1)" "200 \<le> st" "st < 300"
    using assms by (auto simp: claim_refresh_ownership_def split: sum.splits if_splits)
  show ?thesis
  proof (cases "idx (fp t)")
    case None
    with r have "idx1 = idx(fp t \<mapsto> \<lparr>oe_owner = key, oe_used = consume\<rparr>)"
      by (auto simp: reserve_refresh_ownership_def bounded_secret_Inr split: if_splits option.splits)
    with None show ?thesis by (rule fresh)
  next
    case (Some e)
    with r have "oe_owner e = key" "oe_used e \<longrightarrow> current" "idx1 = (if consume then idx(fp t \<mapsto> \<lparr>oe_owner = key, oe_used = True\<rparr>) else idx)"
      by (auto simp: reserve_refresh_ownership_def bounded_secret_Inr split: if_splits)
    with Some show ?thesis by (rule own)
  qed
qed

lemma claim_owned:
  assumes "claim_refresh_ownership parse fp ds key t current consume idx = (Inr (), idx1)"
  shows "\<exists>r. idx1 (fp t) = Some r \<and> oe_owner r = key \<and> (consume \<longrightarrow> oe_used r)"
  using assms by (cases rule: claim_granted) auto

lemma claim_foreign:
  assumes "idx (fp t) = Some r" and "oe_owner r \<noteq> key"
  shows "\<exists>e. claim_refresh_ownership parse fp ds key t current consume idx = (Inl e, idx)"
  using assms by (cases "owner_key key"; cases "t \<noteq> [] \<and> int (length t) \<le> max_secret_bytes")
    (simp_all add: claim_refresh_ownership_def reserve_refresh_ownership_def bounded_secret_def)

lemma claim_used:
  assumes "idx (fp t) = Some r" and "oe_used r"
  shows "\<exists>e. claim_refresh_ownership parse fp ds key t False consume idx = (Inl e, idx)"
  using assms by (cases "owner_key key"; cases "t \<noteq> [] \<and> int (length t) \<le> max_secret_bytes")
    (simp_all add: claim_refresh_ownership_def reserve_refresh_ownership_def bounded_secret_def)

text \<open>The index under any sequence of requests; a request that fails leaves it alone.\<close>

definition ownership_run ::
    "(string \<Rightarrow> json option) \<Rightarrow> (string \<Rightarrow> string) \<Rightarrow> (discovered_grant list \<times> ownership_request) list \<Rightarrow> ownership \<Rightarrow> ownership" where
  "ownership_run parse fp qs idx = fold (\<lambda>(ds, q) i. case reserve_refresh_ownership parse fp ds q i of Inl e \<Rightarrow> i | Inr (st, i1) \<Rightarrow> i1) qs idx"

lemma ownership_run_keeps: "index_keeps idx (ownership_run parse fp qs idx)"
proof (induction qs arbitrary: idx)
  case (Cons a qs)
  obtain ds q where a: "a = (ds, q)" by (cases a)
  let ?i = "case reserve_refresh_ownership parse fp ds q idx of Inl e \<Rightarrow> idx | Inr (st, i1) \<Rightarrow> i1"
  have "index_keeps idx ?i" by (auto split: sum.split dest: reserve_keeps)
  then show ?case using Cons.IH [of ?i] by (simp add: ownership_run_def a index_keeps_trans)
qed (simp add: ownership_run_def)

text \<open>
  C27. A refresh token has one owner for ever: after a grant claimed a token, whatever requests the index
  serves, no other grant can claim it, and if the claim consumed the token then it cannot be installed
  again as a fresh one, not even by its owner.
\<close>

theorem refresh_token_has_one_owner:
  assumes "claim_refresh_ownership parse fp ds key t current consume idx = (Inr (), idx1)"
  shows "(\<forall>ds1 other current1 consume1. other \<noteq> key \<longrightarrow>
      (\<exists>e. fst (claim_refresh_ownership parse fp ds1 other t current1 consume1 (ownership_run parse fp qs idx1)) = Inl e)) \<and>
    (consume \<longrightarrow> (\<forall>ds1 any consume1. \<exists>e. fst (claim_refresh_ownership parse fp ds1 any t False consume1 (ownership_run parse fp qs idx1)) = Inl e))"
proof -
  obtain r where r: "idx1 (fp t) = Some r" "oe_owner r = key" "consume \<longrightarrow> oe_used r" using claim_owned [OF assms] by blast
  obtain q where q: "ownership_run parse fp qs idx1 (fp t) = Some q" "oe_owner q = key" "consume \<longrightarrow> oe_used q"
    using ownership_run_keeps [of idx1 parse fp qs] r unfolding index_keeps_def by metis
  show ?thesis
  proof (intro conjI allI impI)
    fix ds1 other current1 consume1 assume "other \<noteq> key"
    with q(2) show "\<exists>e. fst (claim_refresh_ownership parse fp ds1 other t current1 consume1 (ownership_run parse fp qs idx1)) = Inl e"
      using claim_foreign [of "ownership_run parse fp qs idx1" fp t q other parse ds1 current1 consume1] q(1) by auto
  next
    fix ds1 any consume1 assume consume
    with q(3) show "\<exists>e. fst (claim_refresh_ownership parse fp ds1 any t False consume1 (ownership_run parse fp qs idx1)) = Inl e"
      using claim_used [of "ownership_run parse fp qs idx1" fp t q parse ds1 any consume1] q(1) by auto
  qed
qed

theorem refresh_token_has_one_owner_witness:
  "\<exists>e. fst (claim_refresh_ownership (\<lambda>_. None) (\<lambda>t. t) [] ''oauth/p/b'' ''secret'' True True
     (ownership_run (\<lambda>_. None) (\<lambda>t. t) [] (snd (claim_refresh_ownership (\<lambda>_. None) (\<lambda>t. t) [] ''oauth/p/a'' ''secret'' False False Map.empty)))) = Inl e"
proof -
  let ?c = "claim_refresh_ownership (\<lambda>_. None) (\<lambda>t. t) [] ''oauth/p/a'' ''secret'' False False Map.empty"
  have "fst ?c = Inr ()" by code_simp
  then have "?c = (Inr (), snd ?c)" by (metis prod.collapse)
  from conjunct1 [OF refresh_token_has_one_owner [OF this, of "[]"]] show ?thesis by simp
qed

end
