(* ===== verification/Grant_Refresh.thy ===== *)
theory Grant_Refresh
  imports Refresh_Ownership Grant_Selection
begin

section \<open>Refreshing a grant's credential\<close>

text \<open>
  The refresh machine of \<open>worker/grant-credentials.ts\<close> (\<open>performRefresh\<close>, \<open>recordRefreshFailure\<close>,
  \<open>diagnoseUnsettled\<close>, \<open>deferRefresh\<close>, \<open>schedule\<close>) with \<open>worker/grant-refresh-diagnosis.ts\<close>. The
  record has the fields these functions read and write; the others are carried along by the spread of the
  source. Times the source stores as ISO texts are the milliseconds they denote (\<^term>\<open>None\<close> when absent
  or unparsable). A call runs in an environment \<open>refresh_env\<close>: the clock, \<open>Math.random\<close>, \<open>Date.parse\<close>, the
  fresh attempt identifier, the listing the ownership index sees, whether the final write succeeds, and
  what another writer did to the stored record while the provider was answering. What the provider did is
  an \<open>egress\<close>; a crash after the request was sent is one of its cases.
\<close>

datatype failure_class = Permanent | RetryAfter | Transient | Ambiguous | PersistFailed

record refresh_failure =
  rf_error :: string
  rf_http :: "int option"
  rf_class :: failure_class
  rf_first :: int
  rf_last :: int
  rf_count :: int
  rf_next :: "int option"

record refresh_diagnosis =
  rd_success :: "int option"
  rd_failure :: "refresh_failure option"

record refresh_config =
  rg_token_url :: "string option"
  rg_secret_config :: "string option"

record credential_record =
  cr_generation :: int
  cr_enabled :: "bool option"
  cr_status :: credential_status
  cr_access :: "string option"
  cr_refresh_token :: "string option"
  cr_token_type :: "string option"
  cr_scopes :: "string list option"
  cr_expires :: "int option"
  cr_refresh_expires :: "int option"
  cr_next_refresh :: "int option"
  cr_attempt :: "(string \<times> int) option"
  cr_diagnosis :: "refresh_diagnosis option"
  cr_sync_pending :: bool
  cr_updated :: int
  cr_key :: "string option"
  cr_refresh :: "refresh_config option"
  cr_next_quota :: "int option"
  cr_keep_warm :: bool
  cr_next_warm :: "int option"
  cr_service_account :: bool

record refresh_env =
  re_now :: int
  re_random :: rat
  re_date :: "string \<Rightarrow> int option"
  re_attempt :: string
  re_parse :: "string \<Rightarrow> json option"
  re_fp :: "string \<Rightarrow> string"
  re_listing :: "discovered_grant list"
  re_secret :: "string \<Rightarrow> string option"
  re_native :: "credential_record \<Rightarrow> unit result"
  re_put_ok :: bool
  re_meanwhile :: "credential_record option \<Rightarrow> credential_record option"

datatype egress =
    Crashed
  | NetworkFailed
  | Answered (eg_status: int) (eg_retry: "string option") (eg_payload: "json option") (eg_expiry: "int option")

record refresh_world =
  rw_record :: "credential_record option"
  rw_index :: ownership
  rw_alarm :: "int option"
  rw_sent :: "(string option \<times> string option) list"

subsection \<open>Diagnosis\<close>

definition permanent_refresh_failure :: "int \<Rightarrow> json option \<Rightarrow> bool" where
  "permanent_refresh_failure status code \<longleftrightarrow> status \<in> {400, 401} \<and> text_in code [''invalid_grant'', ''invalid_token'', ''refresh_token_reused'']"

definition safe_oauth_errors :: "string list" where
  "safe_oauth_errors = [''invalid_grant'', ''invalid_token'', ''refresh_token_reused'', ''invalid_client'', ''unauthorized_client'', ''invalid_request'',
     ''unsupported_grant_type'', ''invalid_scope'', ''temporarily_unavailable'', ''server_error'', ''network_error'', ''invalid_response'',
     ''outcome_unknown'', ''persistence_failed'']"

definition safe_oauth_error :: "json option \<Rightarrow> string" where
  "safe_oauth_error code = (case text_of code of Some s \<Rightarrow> if s \<in> set safe_oauth_errors then s else ''unknown_error'' | None \<Rightarrow> ''unknown_error'')"

definition max_date :: int where "max_date = 8640000000000000"

definition retry_ceiling :: "int \<Rightarrow> int" where
  "retry_ceiling attempt = min 120000 (30000 * 2 ^ nat (min 10 (max 0 (attempt - 1))))"

definition retry_delay_ms :: "refresh_env \<Rightarrow> int \<Rightarrow> int option \<Rightarrow> int" where
  "retry_delay_ms env attempt expires =
     (let ceiling = retry_ceiling attempt;
          delay = \<lfloor>of_int ceiling / 2 + re_random env * of_int ceiling / 2\<rfloor>
      in case expires of
           Some t \<Rightarrow> if 2000 < t - re_now env then min delay (max 1000 ((t - re_now env) div 2)) else delay
         | None \<Rightarrow> delay)"

definition provider_time :: "refresh_env \<Rightarrow> string option \<Rightarrow> rat option" where
  "provider_time env retry = (case retry of
     None \<Rightarrow> None
   | Some s \<Rightarrow> (case parse_decimal s of Some q \<Rightarrow> Some (of_int (re_now env) + q * 1000) | None \<Rightarrow> map_option of_int (re_date env s)))"

definition refresh_retry_at :: "refresh_env \<Rightarrow> int \<Rightarrow> int option \<Rightarrow> string option \<Rightarrow> int" where
  "refresh_retry_at env attempt expires retry =
     (let own = max (re_now env + 1000) (re_now env + retry_delay_ms env attempt expires)
      in case provider_time env retry of
           Some q \<Rightarrow> if q \<le> of_int max_date then max own \<lfloor>q\<rfloor> else own
         | None \<Rightarrow> own)"

subsection \<open>The stored record\<close>

definition min_alarm_delay_ms :: int where "min_alarm_delay_ms = 1000"

definition present :: "string option \<Rightarrow> bool" where
  "present s \<longleftrightarrow> s \<noteq> None \<and> s \<noteq> Some []"

definition schedule_times :: "credential_record \<Rightarrow> int list" where
  "schedule_times r =
     List.map_filter (\<lambda>t. t)
       [if cr_attempt r \<noteq> None \<or> \<not> (present (cr_refresh_token r) \<or> cr_service_account r) then None
        else if cr_next_refresh r \<noteq> None then cr_next_refresh r else map_option (\<lambda>t. t - refresh_margin_ms) (cr_expires r),
        cr_next_quota r, if cr_keep_warm r then cr_next_warm r else None]"

definition schedule_refresh :: "int \<Rightarrow> credential_record \<Rightarrow> refresh_world \<Rightarrow> refresh_world" where
  "schedule_refresh now r w = w\<lparr>rw_alarm :=
     (if cr_enabled r \<noteq> Some True \<or> cr_status r = ReauthRequired then None
      else case schedule_times r of [] \<Rightarrow> None | t # ts \<Rightarrow> Some (max (now + min_alarm_delay_ms) (fold min ts t)))\<rparr>"

definition same_refresh_attempt :: "credential_record option \<Rightarrow> credential_record \<Rightarrow> bool" where
  "same_refresh_attempt current attempted = (case current of
     None \<Rightarrow> False
   | Some c \<Rightarrow> cr_generation c = cr_generation attempted \<and> map_option fst (cr_attempt c) = map_option fst (cr_attempt attempted))"

definition at_risk :: "failure_class \<Rightarrow> bool" where
  "at_risk c \<longleftrightarrow> c = Ambiguous \<or> c = PersistFailed"

definition last_failure :: "credential_record \<Rightarrow> refresh_failure option" where
  "last_failure r = Option.bind (cr_diagnosis r) rd_failure"

definition rejected_record ::
    "refresh_env \<Rightarrow> credential_record \<Rightarrow> int option \<Rightarrow> json option \<Rightarrow> failure_class option \<Rightarrow> string option \<Rightarrow> credential_record" where
  "rejected_record env c status code outcome retry =
     (let permanent = (case status of Some n \<Rightarrow> permanent_refresh_failure n code | None \<Rightarrow> False);
          cls = (case outcome of Some k \<Rightarrow> k | None \<Rightarrow> if permanent then Permanent else if status = Some 429 \<or> present retry then RetryAfter else Transient);
          count = min max_safe_integer ((case last_failure c of Some f \<Rightarrow> rf_count f | None \<Rightarrow> 0) + 1);
          retry_at = (if permanent \<or> at_risk cls then None else Some (refresh_retry_at env count (cr_expires c) retry))
      in c\<lparr>cr_status := (if permanent then ReauthRequired else cr_status c),
           cr_generation := (if permanent then cr_generation c + 1 else cr_generation c),
           cr_attempt := (if at_risk cls then cr_attempt c else None),
           cr_sync_pending := True,
           cr_updated := (if permanent then re_now env else cr_updated c),
           cr_next_refresh := retry_at,
           cr_diagnosis := Some \<lparr>rd_success = Option.bind (cr_diagnosis c) rd_success,
             rd_failure = Some \<lparr>rf_error = safe_oauth_error code, rf_http = status, rf_class = cls,
               rf_first = (case last_failure c of Some f \<Rightarrow> rf_first f | None \<Rightarrow> re_now env), rf_last = re_now env, rf_count = count, rf_next = retry_at\<rparr>\<rparr>\<rparr>)"

datatype failure_outcome = OwnerMissing | Superseded credential_record | Recorded credential_record

definition record_refresh_failure ::
    "refresh_env \<Rightarrow> credential_record \<Rightarrow> int option \<Rightarrow> json option \<Rightarrow> failure_class option \<Rightarrow> string option \<Rightarrow> refresh_world \<Rightarrow>
     failure_outcome \<times> refresh_world" where
  "record_refresh_failure env r status code outcome retry w = (case rw_record w of
     None \<Rightarrow> (OwnerMissing, w)
   | Some c \<Rightarrow>
       if cr_generation c \<noteq> cr_generation r \<or> cr_attempt r \<noteq> None \<and> \<not> same_refresh_attempt (Some c) r then (Superseded c, w)
       else let q = rejected_record env c status code outcome retry
            in (Recorded q, schedule_refresh (re_now env) q (w\<lparr>rw_record := Some q\<rparr>)))"

definition unsettled :: "credential_record \<Rightarrow> bool" where
  "unsettled r \<longleftrightarrow> cr_attempt r \<noteq> None \<and> (case last_failure r of Some f \<Rightarrow> \<not> at_risk (rf_class f) | None \<Rightarrow> True)"

subsection \<open>The refresh itself\<close>

datatype refresh_reply = Refreshed credential_record | RefreshFailed error

definition refresh_failed :: error where "refresh_failed = HttpError 502 ''grant_refresh_failed''"

text \<open>The exception that ends a refresh after its failure was recorded; a superseded owner answers with its record.\<close>

definition after_failure :: "failure_outcome \<Rightarrow> error \<Rightarrow> refresh_reply" where
  "after_failure x e = (case x of
     OwnerMissing \<Rightarrow> RefreshFailed (HttpError 409 ''grant_credential_missing'') | Superseded c \<Rightarrow> Refreshed c | Recorded c \<Rightarrow> RefreshFailed e)"

definition fail_with ::
    "refresh_env \<Rightarrow> credential_record \<Rightarrow> int option \<Rightarrow> json option \<Rightarrow> failure_class option \<Rightarrow> string option \<Rightarrow> (failure_outcome \<Rightarrow> error) \<Rightarrow> refresh_world \<Rightarrow>
     refresh_reply \<times> refresh_world" where
  "fail_with env r status code outcome retry e w = (let (x, w1) = record_refresh_failure env r status code outcome retry w in (after_failure x (e x), w1))"

definition rejection :: "failure_outcome \<Rightarrow> error" where
  "rejection x = (case x of
     Recorded c \<Rightarrow> if cr_status c = ReauthRequired then HttpError 401 ''grant_reauthorization_required'' else refresh_failed | _ \<Rightarrow> refresh_failed)"

definition text_code :: "string \<Rightarrow> json option" where "text_code s = Some (JStr s)"

definition ok_status :: "int \<Rightarrow> bool" where "ok_status n \<longleftrightarrow> 200 \<le> n \<and> n < 300"

definition split_scopes :: "string \<Rightarrow> string list" where
  "split_scopes s = take 128 (filter (\<lambda>x. x \<noteq> []) (split_on (CHR '' '') (map (\<lambda>c. if is_space c then CHR '' '' else c) s)))"

definition refresh_expiry_from_seconds :: "int \<Rightarrow> json option \<Rightarrow> int option" where
  "refresh_expiry_from_seconds now v = (case safe_count v of
     Some n \<Rightarrow> if safe_int (now + n * 1000) \<and> now + n * 1000 \<le> max_date then Some (now + n * 1000) else None
   | None \<Rightarrow> None)"

text \<open>\<open>expires_in\<close> as a date: \<^term>\<open>None\<close> when it is not a positive number, an error when the date is out of range.\<close>

definition expires_at :: "int \<Rightarrow> json option \<Rightarrow> int option result" where
  "expires_at now v = (case v of
     Some (JNum q) \<Rightarrow>
       if 0 < q then (if of_int now + q * 1000 \<le> of_int max_date then Inr (Some \<lfloor>of_int now + q * 1000\<rfloor>) else Inl (Thrown ''RangeError''))
       else Inr None
   | _ \<Rightarrow> Inr None)"

definition updated_record :: "refresh_env \<Rightarrow> bool \<Rightarrow> json \<Rightarrow> int option \<Rightarrow> credential_record \<Rightarrow> credential_record result" where
  "updated_record env native payload native_expiry r =
     rbind (bounded_secret (member ''access_token'' payload)) (\<lambda>access.
     rbind (case text_of (member ''refresh_token'' payload) of
         Some t \<Rightarrow> if t = [] then Inr (cr_refresh_token r) else rbind (bounded_secret (Some (JStr t))) (\<lambda>x. Inr (Some x))
       | None \<Rightarrow> Inr (cr_refresh_token r)) (\<lambda>refresh.
     rbind (if native then Inr native_expiry else expires_at (re_now env) (member ''expires_in'' payload)) (\<lambda>expiry.
       Inr (r\<lparr>cr_status := Active, cr_attempt := None, cr_generation := cr_generation r + 1, cr_sync_pending := True,
         cr_access := Some access, cr_refresh_token := refresh,
         cr_token_type := (case text_of (member ''token_type'' payload) of Some t \<Rightarrow> if t = [] then cr_token_type r else Some t | None \<Rightarrow> cr_token_type r),
         cr_scopes := (case text_of (member ''scope'' payload) of Some t \<Rightarrow> Some (split_scopes t) | None \<Rightarrow> cr_scopes r),
         cr_expires := (case expiry of Some t \<Rightarrow> Some t | None \<Rightarrow> cr_expires r),
         cr_refresh_expires := (case refresh_expiry_from_seconds (re_now env) (member ''refresh_token_expires_in'' payload) of
             Some t \<Rightarrow> Some t | None \<Rightarrow> cr_refresh_expires r),
         cr_next_refresh := None, cr_diagnosis := Some \<lparr>rd_success = Some (re_now env), rd_failure = None\<rparr>, cr_updated := re_now env\<rparr>))))"

definition claim_token :: "refresh_env \<Rightarrow> credential_record \<Rightarrow> bool \<Rightarrow> bool \<Rightarrow> refresh_world \<Rightarrow> unit result \<times> refresh_world" where
  "claim_token env r current consume w = (case (cr_key r, cr_refresh_token r) of
     (Some k, Some t) \<Rightarrow>
       if k = [] \<or> t = [] then (Inr (), w)
       else let (x, idx) = claim_refresh_ownership (re_parse env) (re_fp env) (re_listing env) k t current consume (rw_index w) in (x, w\<lparr>rw_index := idx\<rparr>)
   | _ \<Rightarrow> (Inr (), w))"

text \<open>After a good answer: reserve the token the provider issued, and store the result unless the owner moved on.\<close>

definition settle_refresh :: "refresh_env \<Rightarrow> credential_record \<Rightarrow> int \<Rightarrow> credential_record \<Rightarrow> refresh_world \<Rightarrow> refresh_reply \<times> refresh_world" where
  "settle_refresh env r status u w =
     (let (x, w1) = claim_token env u (cr_refresh_token u = cr_refresh_token r) False w;
          lost = fail_with env r (Some status) (text_code ''persistence_failed'') (Some PersistFailed) None (\<lambda>_. HttpError 502 ''grant_refresh_persist_failed'') w1
      in case x of
           Inl e \<Rightarrow> lost
         | Inr _ \<Rightarrow>
             if \<not> same_refresh_attempt (rw_record w1) r then (Refreshed (case rw_record w1 of Some c \<Rightarrow> c | None \<Rightarrow> r), w1)
             else if \<not> re_put_ok env then lost
             else (Refreshed u, w1\<lparr>rw_record := Some u\<rparr>))"

definition payload_error :: "json \<Rightarrow> json option" where
  "payload_error p = (if nullish (member ''error'' p) then text_code ''invalid_response'' else member ''error'' p)"

definition handle_answer ::
    "refresh_env \<Rightarrow> bool \<Rightarrow> credential_record \<Rightarrow> int \<Rightarrow> string option \<Rightarrow> json option \<Rightarrow> int option \<Rightarrow> refresh_world \<Rightarrow> refresh_reply \<times> refresh_world" where
  "handle_answer env native r status retry payload expiry w =
     (if \<not> native \<and> 300 \<le> status \<and> status < 400
      then fail_with env r (Some status) (text_code ''invalid_response'') (Some Transient) retry (\<lambda>_. refresh_failed) w
      else case payload of
          None \<Rightarrow> fail_with env r (Some status) (text_code ''invalid_response'') (if native \<or> ok_status status then Some Ambiguous else None) retry (\<lambda>_. refresh_failed) w
        | Some p \<Rightarrow>
            if \<not> ok_status status \<or> (case text_of (member ''access_token'' p) of Some a \<Rightarrow> a = [] | None \<Rightarrow> True)
            then fail_with env r (Some status) (payload_error p) (if ok_status status then Some Ambiguous else None) retry rejection w
            else (case updated_record env native p expiry r of
                Inl e \<Rightarrow> fail_with env r (Some status) (text_code ''invalid_response'') (if ok_status status then Some Ambiguous else None) retry (\<lambda>_. refresh_failed) w
              | Inr u \<Rightarrow> settle_refresh env r status u w))"

text \<open>The attempt is durable before the request leaves.\<close>

definition send_refresh :: "refresh_env \<Rightarrow> bool \<Rightarrow> credential_record \<Rightarrow> egress \<Rightarrow> refresh_world \<Rightarrow> refresh_reply \<times> refresh_world" where
  "send_refresh env native r x w =
     (let r1 = r\<lparr>cr_attempt := Some (re_attempt env, cr_generation r)\<rparr>;
          w1 = w\<lparr>rw_record := Some r1, rw_sent := rw_sent w @ [(cr_key r, cr_refresh_token r)]\<rparr>;
          w2 = w1\<lparr>rw_record := re_meanwhile env (rw_record w1)\<rparr>
      in case x of
           Crashed \<Rightarrow> (RefreshFailed (Thrown ''crash''), w2)
         | NetworkFailed \<Rightarrow> fail_with env r1 None (text_code ''network_error'') (Some Ambiguous) None (\<lambda>_. refresh_failed) w2
         | Answered status retry payload expiry \<Rightarrow> handle_answer env native r1 status retry payload expiry w2)"

definition unavailable_config :: "refresh_env \<Rightarrow> credential_record \<Rightarrow> refresh_config option \<Rightarrow> error option" where
  "unavailable_config env r shared = (case (case cr_refresh r of Some c \<Rightarrow> Some c | None \<Rightarrow> shared) of
     None \<Rightarrow> Some (HttpError 400 ''grant_refresh_unavailable'')
   | Some c \<Rightarrow>
       if \<not> present (rg_token_url c) then Some (HttpError 400 ''grant_refresh_unavailable'')
       else if present (rg_secret_config c) \<and> (case rg_secret_config c of Some k \<Rightarrow> re_secret env k = None | None \<Rightarrow> False)
       then Some (HttpError 503 ''provider_not_configured'') else None)"

definition claimed_send :: "refresh_env \<Rightarrow> bool \<Rightarrow> credential_record \<Rightarrow> egress \<Rightarrow> refresh_world \<Rightarrow> refresh_reply \<times> refresh_world" where
  "claimed_send env native r x w = (case claim_token env r True True w of
     (Inl e, w1) \<Rightarrow> (RefreshFailed e, w1)
   | (Inr _, w1) \<Rightarrow> send_refresh env native r x w1)"

definition perform_refresh ::
    "refresh_env \<Rightarrow> credential_record \<Rightarrow> string \<Rightarrow> refresh_config option \<Rightarrow> egress \<Rightarrow> refresh_world \<Rightarrow> refresh_reply \<times> refresh_world" where
  "perform_refresh env r prov shared x w =
     (if cr_enabled r \<noteq> Some True then (RefreshFailed (HttpError 409 ''grant_disabled''), w)
      else case rw_record w of
          None \<Rightarrow> (Refreshed r, w)
        | Some c \<Rightarrow>
            if cr_generation c \<noteq> cr_generation r then (Refreshed c, w)
            else if cr_attempt c \<noteq> None
            then (RefreshFailed (HttpError 502 ''grant_refresh_at_risk''),
                  if unsettled c then snd (record_refresh_failure env c None (text_code ''outcome_unknown'') (Some Ambiguous) None w) else w)
            else if (case cr_next_refresh c of Some t \<Rightarrow> re_now env < t | None \<Rightarrow> False) then (RefreshFailed refresh_failed, w)
            else if prov = ''minimax'' then (case re_native env r of Inl e \<Rightarrow> (RefreshFailed e, w) | Inr _ \<Rightarrow> claimed_send env True r x w)
            else (case unavailable_config env r shared of
                Some e \<Rightarrow> fail_with env r None (text_code ''invalid_client'') None None (\<lambda>_. e) w
              | None \<Rightarrow> claimed_send env False r x w))"

subsection \<open>Around the refresh\<close>

text \<open>
  \<open>vertex_live\<close> is \<open>vertexRefresh.live\<close>; \<open>stale\<close> holds for a canonical record whose availability was diagnosed
  before that field was published.
\<close>

definition diagnose_unsettled :: "refresh_env \<Rightarrow> bool \<Rightarrow> bool \<Rightarrow> credential_record \<Rightarrow> refresh_world \<Rightarrow> refresh_world" where
  "diagnose_unsettled env vertex_live stale r w =
     (if vertex_live then w
      else if unsettled r then snd (record_refresh_failure env r None (text_code ''outcome_unknown'') (Some Ambiguous) None w)
      else if stale \<and> (cr_attempt r \<noteq> None \<or> cr_next_refresh r \<noteq> None) then w\<lparr>rw_record := Some (r\<lparr>cr_sync_pending := True\<rparr>)\<rparr>
      else w)"

definition deferred_record :: "refresh_env \<Rightarrow> credential_record \<Rightarrow> credential_record" where
  "deferred_record env r =
     (let t = refresh_retry_at env (case last_failure r of Some f \<Rightarrow> rf_count f | None \<Rightarrow> 1) (cr_expires r) None
      in r\<lparr>cr_sync_pending := True, cr_next_refresh := Some t,
           cr_diagnosis := map_option (\<lambda>d. d\<lparr>rd_failure := map_option (\<lambda>f. f\<lparr>rf_next := Some t\<rparr>) (rd_failure d)\<rparr>) (cr_diagnosis r)\<rparr>)"

definition defer_refresh :: "refresh_env \<Rightarrow> credential_record \<Rightarrow> refresh_world \<Rightarrow> refresh_world" where
  "defer_refresh env r w =
     (if cr_attempt r = None \<and> \<not> (case cr_next_refresh r of Some t \<Rightarrow> re_now env < t | None \<Rightarrow> False)
      then (let q = deferred_record env r in schedule_refresh (re_now env) q (w\<lparr>rw_record := Some q\<rparr>))
      else schedule_refresh (re_now env) r w)"

subsection \<open>What a refresh does to the index and the log\<close>

lemma schedule_refresh_simps [simp]:
  "rw_record (schedule_refresh now r w) = rw_record w" "rw_index (schedule_refresh now r w) = rw_index w" "rw_sent (schedule_refresh now r w) = rw_sent w"
  by (simp_all add: schedule_refresh_def)

lemma record_refresh_failure_frame [simp]:
  "rw_index (snd (record_refresh_failure env r st code out ra w)) = rw_index w" "rw_sent (snd (record_refresh_failure env r st code out ra w)) = rw_sent w"
  by (auto simp: record_refresh_failure_def Let_def split: option.split)

lemma fail_with_snd [simp]: "snd (fail_with env r st code out ra e w) = snd (record_refresh_failure env r st code out ra w)"
  by (simp add: fail_with_def split: prod.split)

lemma claim_token_frame: "index_keeps (rw_index w) (rw_index (snd (claim_token env r current consume w)))"
  "rw_sent (snd (claim_token env r current consume w)) = rw_sent w" "rw_record (snd (claim_token env r current consume w)) = rw_record w"
  using claim_keeps [of "rw_index w" "re_parse env" "re_fp env" "re_listing env"]
  by (auto simp: claim_token_def split: option.split prod.split) (metis snd_conv)+

lemma settle_refresh_frame: "index_keeps (rw_index w) (rw_index (snd (settle_refresh env r st u w)))" "rw_sent (snd (settle_refresh env r st u w)) = rw_sent w"
proof -
  obtain x w1 where c: "claim_token env u (cr_refresh_token u = cr_refresh_token r) False w = (x, w1)" by fastforce
  have "index_keeps (rw_index w) (rw_index w1)" "rw_sent w1 = rw_sent w" using claim_token_frame [where w = w and env = env and r = u and current = "cr_refresh_token u = cr_refresh_token r" and consume = False] c by simp_all
  then show "index_keeps (rw_index w) (rw_index (snd (settle_refresh env r st u w)))" "rw_sent (snd (settle_refresh env r st u w)) = rw_sent w"
    by (auto simp: settle_refresh_def c Let_def split: sum.split)
qed

lemma handle_answer_frame:
  "index_keeps (rw_index w) (rw_index (snd (handle_answer env native r st ra p e w)))" "rw_sent (snd (handle_answer env native r st ra p e w)) = rw_sent w"
  by (auto simp: handle_answer_def settle_refresh_frame split: option.split sum.split)

lemma send_refresh_frame:
  "index_keeps (rw_index w) (rw_index (snd (send_refresh env native r x w)))"
  "rw_sent (snd (send_refresh env native r x w)) = rw_sent w @ [(cr_key r, cr_refresh_token r)]"
  using handle_answer_frame [where w = "w\<lparr>rw_sent := l, rw_record := z\<rparr>" and env = env for z l]
  by (auto simp: send_refresh_def Let_def split: egress.split)

text \<open>A token is logged as sent only when the index holds it for this grant, marked as used.\<close>

definition claimed_by :: "(string \<Rightarrow> string) \<Rightarrow> ownership \<Rightarrow> string option \<times> string option \<Rightarrow> bool" where
  "claimed_by fp idx e = (case e of
     (Some k, Some t) \<Rightarrow> k = [] \<or> t = [] \<or> (\<exists>r. idx (fp t) = Some r \<and> oe_owner r = k \<and> oe_used r) | _ \<Rightarrow> True)"

lemma claimed_by_keeps: "claimed_by fp a e \<Longrightarrow> index_keeps a b \<Longrightarrow> claimed_by fp b e"
  unfolding claimed_by_def index_keeps_def by (auto split: option.splits prod.splits) metis

lemma claim_token_claims:
  assumes "claim_token env r current True w = (Inr (), w1)"
  shows "claimed_by (re_fp env) (rw_index w1) (cr_key r, cr_refresh_token r)"
  using assms by (auto simp: claim_token_def claimed_by_def split: option.splits if_splits prod.splits dest!: claim_owned)

lemma claimed_send_logs:
  "index_keeps (rw_index w) (rw_index (snd (claimed_send env native r x w)))"
  "rw_sent (snd (claimed_send env native r x w)) = rw_sent w \<or>
   rw_sent (snd (claimed_send env native r x w)) = rw_sent w @ [(cr_key r, cr_refresh_token r)] \<and>
   claimed_by (re_fp env) (rw_index (snd (claimed_send env native r x w))) (cr_key r, cr_refresh_token r)"
proof -
  obtain c w1 where c: "claim_token env r True True w = (c, w1)" by fastforce
  have f: "index_keeps (rw_index w) (rw_index w1)" "rw_sent w1 = rw_sent w" using claim_token_frame [where w = w and env = env and r = r and current = True and consume = True] c by simp_all
  note s = send_refresh_frame [where w = w1 and env = env and native = native and r = r and x = x]
  show "index_keeps (rw_index w) (rw_index (snd (claimed_send env native r x w)))"
    using f index_keeps_trans [OF f(1) s(1)] by (simp add: claimed_send_def c split: sum.split)
  show "rw_sent (snd (claimed_send env native r x w)) = rw_sent w \<or>
    rw_sent (snd (claimed_send env native r x w)) = rw_sent w @ [(cr_key r, cr_refresh_token r)] \<and>
    claimed_by (re_fp env) (rw_index (snd (claimed_send env native r x w))) (cr_key r, cr_refresh_token r)"
  proof (cases c)
    case (Inr u)
    then have "claimed_by (re_fp env) (rw_index w1) (cr_key r, cr_refresh_token r)" using claim_token_claims [of env r True w w1] c by simp
    from claimed_by_keeps [OF this s(1)] show ?thesis using Inr f(2) s(2) by (simp add: claimed_send_def c)
  qed (simp add: claimed_send_def c f(2))
qed

lemma perform_refresh_logs:
  "index_keeps (rw_index w) (rw_index (snd (perform_refresh env r prov shared x w)))"
  "rw_sent (snd (perform_refresh env r prov shared x w)) = rw_sent w \<or>
   rw_sent (snd (perform_refresh env r prov shared x w)) = rw_sent w @ [(cr_key r, cr_refresh_token r)] \<and>
   claimed_by (re_fp env) (rw_index (snd (perform_refresh env r prov shared x w))) (cr_key r, cr_refresh_token r)"
  using claimed_send_logs [where w = w and env = env and r = r and x = x]
  by (auto simp: perform_refresh_def split: option.split sum.split)

subsection \<open>Tokens are sent by one grant\<close>

text \<open>
  The credential objects of all grants share one index. Any object may refresh, any request may reach the
  index, and administrators may write any record at any time.
\<close>

record refresh_system =
  sy_objects :: "string \<Rightarrow> credential_record option"
  sy_index :: ownership
  sy_sent :: "(string option \<times> string option) list"

definition object_world :: "string \<Rightarrow> refresh_system \<Rightarrow> refresh_world" where
  "object_world n s = \<lparr>rw_record = sy_objects s n, rw_index = sy_index s, rw_alarm = None, rw_sent = sy_sent s\<rparr>"

inductive refresh_reachable :: "(string \<Rightarrow> string) \<Rightarrow> refresh_system \<Rightarrow> bool" for fp where
  start: "refresh_reachable fp \<lparr>sy_objects = objs, sy_index = Map.empty, sy_sent = []\<rparr>"
| refresh: "refresh_reachable fp s \<Longrightarrow> re_fp env = fp \<Longrightarrow> perform_refresh env r prov shared x (object_world n s) = (y, w) \<Longrightarrow>
    refresh_reachable fp \<lparr>sy_objects = (sy_objects s)(n := rw_record w), sy_index = rw_index w, sy_sent = rw_sent w\<rparr>"
| install: "refresh_reachable fp s \<Longrightarrow> refresh_reachable fp (s\<lparr>sy_objects := objs\<rparr>)"
| request: "refresh_reachable fp s \<Longrightarrow> reserve_refresh_ownership parse fp ds q (sy_index s) = Inr (st, idx) \<Longrightarrow>
    refresh_reachable fp (s\<lparr>sy_index := idx\<rparr>)"

lemma reachable_claimed: "refresh_reachable fp s \<Longrightarrow> \<forall>e \<in> set (sy_sent s). claimed_by fp (sy_index s) e"
proof (induction rule: refresh_reachable.induct)
  case (refresh s env r prov shared x n y w)
  let ?w = "object_world n s"
  have w: "snd (perform_refresh env r prov shared x ?w) = w" using refresh(3) by simp
  have k: "index_keeps (sy_index s) (rw_index w)" using perform_refresh_logs(1) [of ?w env r prov shared x] w by (simp add: object_world_def)
  show ?case using perform_refresh_logs(2) [where w = ?w and env = env and r = r and prov = prov and shared = shared and x = x] w refresh(2,4) claimed_by_keeps [OF _ k]
    by (auto simp: object_world_def)
next
  case (request s parse ds q st idx)
  then show ?case using reserve_keeps claimed_by_keeps by fastforce
qed simp_all

definition sample_env :: refresh_env where
  "sample_env = \<lparr>re_now = 5000, re_random = 0, re_date = (\<lambda>_. None), re_attempt = ''a1'', re_parse = (\<lambda>_. None), re_fp = (\<lambda>t. t), re_listing = [],
     re_secret = (\<lambda>_. None), re_native = (\<lambda>_. Inr ()), re_put_ok = True, re_meanwhile = (\<lambda>c. c)\<rparr>"

definition sample_credential :: "string \<Rightarrow> credential_record" where
  "sample_credential k = \<lparr>cr_generation = 1, cr_enabled = Some True, cr_status = Active, cr_access = Some ''old'', cr_refresh_token = Some ''secret'',
     cr_token_type = None, cr_scopes = None, cr_expires = Some 4000, cr_refresh_expires = None, cr_next_refresh = None, cr_attempt = None, cr_diagnosis = None,
     cr_sync_pending = False, cr_updated = 0, cr_key = Some k, cr_refresh = Some \<lparr>rg_token_url = Some ''https://t'', rg_secret_config = None\<rparr>,
     cr_next_quota = None, cr_keep_warm = False, cr_next_warm = None, cr_service_account = False\<rparr>"

text \<open>Two grants hold the same token; the first one has sent it.\<close>

definition sample_shared :: refresh_system where
  "sample_shared = \<lparr>sy_objects = (\<lambda>n. if n = ''oauth/p/a'' \<or> n = ''oauth/p/b'' then Some (sample_credential n) else None), sy_index = Map.empty, sy_sent = []\<rparr>"

definition sample_sent :: refresh_world where
  "sample_sent = snd (perform_refresh sample_env (sample_credential ''oauth/p/a'') ''p'' None NetworkFailed (object_world ''oauth/p/a'' sample_shared))"

text \<open>
  C28. A refresh token is sent to its provider by one grant only: in every reachable state of all
  credential objects and their ownership index, two sends of the same token were made by the same grant,
  whatever records administrators install, copies of another grant's token included.
\<close>

theorem refresh_token_is_sent_by_one_grant:
  assumes "refresh_reachable fp s" and "(Some k, Some t) \<in> set (sy_sent s)" and "(Some k1, Some t) \<in> set (sy_sent s)"
    and "k \<noteq> []" and "k1 \<noteq> []" and "t \<noteq> []"
  shows "k = k1"
proof -
  have "claimed_by fp (sy_index s) (Some k, Some t)" "claimed_by fp (sy_index s) (Some k1, Some t)"
    using reachable_claimed [OF assms(1)] assms(2,3) by blast+
  then show ?thesis using assms(4-6) by (auto simp: claimed_by_def)
qed

theorem refresh_token_is_sent_by_one_grant_witness:
  "\<exists>s. refresh_reachable (\<lambda>t. t) s \<and> sy_sent s = [(Some ''oauth/p/a'', Some ''secret'')] \<and>
     rw_sent (snd (perform_refresh sample_env (sample_credential ''oauth/p/b'') ''p'' None Crashed (object_world ''oauth/p/b'' s))) = sy_sent s \<and>
     ''oauth/p/a'' = hd (map (the \<circ> fst) (sy_sent s))"
proof -
  let ?s = "\<lparr>sy_objects = (sy_objects sample_shared)(''oauth/p/a'' := rw_record sample_sent), sy_index = rw_index sample_sent, sy_sent = rw_sent sample_sent\<rparr>"
  have "refresh_reachable (\<lambda>t. t) sample_shared" unfolding sample_shared_def by (rule refresh_reachable.start)
  then have reach: "refresh_reachable (\<lambda>t. t) ?s"
    unfolding sample_sent_def by (rule refresh_reachable.refresh [where env = sample_env]) (auto simp: sample_env_def intro: prod.collapse [symmetric])
  have sent: "rw_sent sample_sent = [(Some ''oauth/p/a'', Some ''secret'')]" by code_simp
  have "rw_sent (snd (perform_refresh sample_env (sample_credential ''oauth/p/b'') ''p'' None Crashed (object_world ''oauth/p/b'' ?s))) = rw_sent sample_sent"
    by code_simp
  moreover have "''oauth/p/a'' = hd (map (the \<circ> fst) (sy_sent ?s))"
    by (rule refresh_token_is_sent_by_one_grant [OF reach, of _ "''secret''"]) (simp_all add: sent)
  ultimately show ?thesis using reach sent by (intro exI [where x = ?s]) simp
qed

subsection \<open>An uncertain refresh is not repeated\<close>

datatype refresh_op =
    DoRefresh refresh_env credential_record string "refresh_config option" egress
  | Diagnose refresh_env bool bool
  | Defer refresh_env

primrec refresh_exec :: "refresh_op \<Rightarrow> refresh_world \<Rightarrow> refresh_world" where
  "refresh_exec (DoRefresh env r prov shared x) w = snd (perform_refresh env r prov shared x w)"
| "refresh_exec (Diagnose env lv stale) w = (case rw_record w of None \<Rightarrow> w | Some c \<Rightarrow> diagnose_unsettled env lv stale c w)"
| "refresh_exec (Defer env) w = (case rw_record w of None \<Rightarrow> w | Some c \<Rightarrow> defer_refresh env c w)"

definition attempt_open :: "refresh_world \<Rightarrow> bool" where
  "attempt_open w = (case rw_record w of Some c \<Rightarrow> cr_attempt c \<noteq> None | None \<Rightarrow> False)"

lemma rejected_attempt: "at_risk k \<Longrightarrow> cr_attempt (rejected_record env c st code (Some k) ra) = cr_attempt c"
  by (simp add: rejected_record_def Let_def)

lemma failure_keeps_attempt:
  assumes "attempt_open w" and "at_risk k"
  shows "attempt_open (snd (record_refresh_failure env r st code (Some k) ra w))"
  using assms by (auto simp: attempt_open_def record_refresh_failure_def rejected_attempt Let_def split: option.splits)

lemma open_attempt_blocks:
  assumes "attempt_open w"
  shows "attempt_open (refresh_exec op w) \<and> rw_sent (refresh_exec op w) = rw_sent w"
proof -
  obtain c where c: "rw_record w = Some c" "cr_attempt c \<noteq> None" using assms by (auto simp: attempt_open_def split: option.splits)
  have f: "attempt_open (snd (record_refresh_failure env r st code (Some Ambiguous) ra w))" for env r st code ra
    by (rule failure_keeps_attempt [OF assms]) (simp add: at_risk_def)
  show ?thesis
  proof (cases op)
    case (DoRefresh env r prov shared x)
    then show ?thesis using assms f c by (simp add: perform_refresh_def)
  next
    case (Diagnose env lv stale)
    moreover have "attempt_open (w\<lparr>rw_record := Some (c\<lparr>cr_sync_pending := True\<rparr>)\<rparr>)" using c by (simp add: attempt_open_def)
    ultimately show ?thesis using assms f c by (simp add: diagnose_unsettled_def)
  next
    case (Defer env)
    then show ?thesis using c by (auto simp: defer_refresh_def attempt_open_def)
  qed
qed

lemma open_attempt_blocks_all: "attempt_open w \<Longrightarrow> attempt_open (fold refresh_exec ops w) \<and> rw_sent (fold refresh_exec ops w) = rw_sent w"
proof (induction ops arbitrary: w)
  case (Cons op ops)
  then show ?case using open_attempt_blocks [OF Cons.prems, of op] by simp
qed simp

text \<open>What the router cannot know the outcome of: no answer, or an answer of success without a usable token.\<close>

definition uncertain :: "egress \<Rightarrow> bool" where
  "uncertain x = (case x of
     Crashed \<Rightarrow> True
   | NetworkFailed \<Rightarrow> True
   | Answered st ra p e \<Rightarrow> ok_status st \<and>
       (case p of None \<Rightarrow> True | Some v \<Rightarrow> (case text_of (member ''access_token'' v) of Some a \<Rightarrow> a = [] | None \<Rightarrow> True)))"

lemma uncertain_send_open:
  assumes "uncertain x" and "re_meanwhile env = (\<lambda>c. c)"
  shows "attempt_open (snd (send_refresh env native r x w))"
proof -
  let ?w = "w\<lparr>rw_record := Some (r\<lparr>cr_attempt := Some (re_attempt env, cr_generation r)\<rparr>), rw_sent := rw_sent w @ [(cr_key r, cr_refresh_token r)]\<rparr>"
  have o: "attempt_open ?w" by (simp add: attempt_open_def)
  note f = failure_keeps_attempt [OF o, of Ambiguous]
  show ?thesis
  proof (cases x)
    case (Answered st ra p e)
    then show ?thesis using assms f
      by (auto simp: send_refresh_def Let_def handle_answer_def uncertain_def ok_status_def at_risk_def split: option.splits)
  qed (use assms o f in \<open>simp_all add: send_refresh_def Let_def at_risk_def\<close>)
qed

text \<open>
  C29. A refresh whose outcome is uncertain is never repeated: when a request left and there was no answer,
  a crash, or a success without a usable token, then no later refresh, diagnosis or deferral sends
  anything, until the record is replaced.
\<close>

theorem uncertain_refresh_is_never_replayed:
  assumes "perform_refresh env r prov shared x w = (y, w1)" and "rw_sent w1 \<noteq> rw_sent w" and "uncertain x" and "re_meanwhile env = (\<lambda>c. c)"
  shows "rw_sent (fold refresh_exec ops w1) = rw_sent w1"
proof -
  have w1: "w1 = snd (perform_refresh env r prov shared x w)" using assms(1) by simp
  obtain native where n: "w1 = snd (claimed_send env native r x w)"
    using assms(2) unfolding w1 perform_refresh_def by (auto split: if_splits option.splits sum.splits)
  obtain c w2 where c: "claim_token env r True True w = (c, w2)" by fastforce
  have "rw_sent w2 = rw_sent w" using claim_token_frame(2) [of env r True True w] c by simp
  then have "w1 = snd (send_refresh env native r x w2)" using assms(2) n c by (auto simp: claimed_send_def split: sum.splits)
  then show ?thesis using open_attempt_blocks_all uncertain_send_open [OF assms(3,4)] by simp
qed

theorem uncertain_refresh_is_never_replayed_witness:
  "rw_sent (fold refresh_exec [DoRefresh sample_env (sample_credential ''oauth/p/a'') ''p'' None Crashed, Diagnose sample_env False False] sample_sent) =
   [(Some ''oauth/p/a'', Some ''secret'')]"
proof -
  let ?w = "object_world ''oauth/p/a'' sample_shared"
  obtain y where p: "perform_refresh sample_env (sample_credential ''oauth/p/a'') ''p'' None NetworkFailed ?w = (y, sample_sent)"
    unfolding sample_sent_def by (metis prod.collapse)
  have sent: "rw_sent sample_sent = [(Some ''oauth/p/a'', Some ''secret'')]" by code_simp
  then have "rw_sent sample_sent \<noteq> rw_sent ?w" by (simp add: object_world_def sample_shared_def)
  moreover have "uncertain NetworkFailed" by (simp add: uncertain_def)
  moreover have "re_meanwhile sample_env = (\<lambda>c. c)" by (simp add: sample_env_def)
  ultimately have "rw_sent (fold refresh_exec [DoRefresh sample_env (sample_credential ''oauth/p/a'') ''p'' None Crashed, Diagnose sample_env False False] sample_sent) = rw_sent sample_sent"
    by (rule uncertain_refresh_is_never_replayed [OF p])
  with sent show ?thesis by (rule trans [rotated])
qed

text \<open>A retry is never earlier than a second from now, and without a \<open>Retry-After\<close> it is within two minutes.\<close>

theorem refresh_retry_is_bounded:
  assumes "0 \<le> re_random env" and "re_random env < 1"
  shows "re_now env + 1000 \<le> refresh_retry_at env attempt expires retry \<and> refresh_retry_at env attempt expires None \<le> re_now env + 120000"
proof
  show "re_now env + 1000 \<le> refresh_retry_at env attempt expires retry" by (auto simp: refresh_retry_at_def Let_def split: option.split)
  have c: "retry_ceiling attempt \<le> 120000" "0 \<le> retry_ceiling attempt" by (simp_all add: retry_ceiling_def)
  have "re_random env * of_int (retry_ceiling attempt) \<le> 1 * of_int (retry_ceiling attempt)"
    using assms c by (intro mult_right_mono) auto
  then have "of_int (retry_ceiling attempt) / 2 + re_random env * of_int (retry_ceiling attempt) / 2 \<le> of_int (retry_ceiling attempt)" by simp
  then have "\<lfloor>of_int (retry_ceiling attempt) / 2 + re_random env * of_int (retry_ceiling attempt) / 2\<rfloor> \<le> retry_ceiling attempt" by (simp add: floor_le_iff)
  then obtain d where d: "d = \<lfloor>of_int (retry_ceiling attempt) / 2 + re_random env * of_int (retry_ceiling attempt) / 2\<rfloor>" and le: "d \<le> 120000"
    using c(1) order_trans by blast
  have "retry_delay_ms env attempt expires =
      (case expires of Some t \<Rightarrow> if 2000 < t - re_now env then min d (max 1000 ((t - re_now env) div 2)) else d | None \<Rightarrow> d)"
    by (simp only: retry_delay_ms_def Let_def d)
  with le have "retry_delay_ms env attempt expires \<le> 120000" by (auto split: option.split)
  then show "refresh_retry_at env attempt expires None \<le> re_now env + 120000" by (simp add: refresh_retry_at_def provider_time_def)
qed

end
