(* ===== verification/Assignments.thy ===== *)
theory Assignments
  imports Grant_Selection Json_Access Js_Date "HOL-Library.List_Lexorder"
begin

section \<open>Group assignments of users\<close>

text \<open>
  \<open>worker/assignment-evaluator.ts\<close> with the user table of \<open>worker/authority.ts\<close> that applies it
  (\<open>putUser\<close>, \<open>createUser\<close>, \<open>updateUserProfile\<close>, \<open>reconcileUserAssignments\<close>), \<open>normalizeUser\<close> of
  \<open>worker/authority-users.ts\<close> and \<open>normalizeAssignmentRule\<close> of \<open>worker/admin.ts\<close>. An object keyed by rule
  identifiers is an association list in insertion order; reading it also finds the members every object
  inherits, and assigning to \<open>__proto__\<close> creates no member. The digest of the rule text is the parameter
  \<open>digest\<close>; the size limits of the bounded evaluation are the parameter \<open>fits\<close>.
\<close>

record assignment_entry =
  ae_groups :: "string list"
  ae_revoke :: bool

record assignment_state =
  st_revision :: string
  st_assignments :: "(string \<times> assignment_entry) list"
  st_updated :: "string option"

record user_record =
  us_role :: "string option"
  us_tenant :: "string option"
  us_enabled :: "bool option"
  us_groups :: "string list option"
  us_retention :: "bool option"
  us_state :: "assignment_state option"
  us_overrides :: "json option"

type_synonym access_user = "string \<times> user_record"

datatype rule_kind = ExactEmail | EmailDomain | GithubOrg | GithubTeam

record assignment_rule =
  ru_id :: string
  ru_version :: int
  ru_enabled :: bool
  ru_kind :: rule_kind
  ru_subject :: string
  ru_groups :: "string list"
  ru_policies :: "string list"
  ru_priority :: int
  ru_revoke :: bool
  ru_provenance :: string
  ru_generated :: string

record assignment_evidence =
  ev_orgs :: "string list"
  ev_teams :: "string list"

datatype rule_match = Match | NoMatch | Unknown

subsection \<open>Groups and evidence\<close>

definition group_name :: "string \<Rightarrow> string" where
  "group_name g = to_lower (trim g)"

definition normalize_groups :: "string list \<Rightarrow> string list" where
  "normalize_groups gs = sort_by lex_less (first_unique (filter (\<lambda>g. g \<noteq> []) (map group_name gs)))"

definition type_error :: error where "type_error = Thrown ''TypeError''"

text \<open>\<open>normalizeGroups\<close> of a value that need not be an array of strings.\<close>

definition json_groups :: "json \<Rightarrow> string list result" where
  "json_groups v = (case v of
     JArr xs \<Rightarrow> if list_all (\<lambda>x. text_of (Some x) \<noteq> None) xs then Inr (normalize_groups (List.map_filter (\<lambda>x. text_of (Some x)) xs)) else Inl type_error
   | _ \<Rightarrow> Inl type_error)"

definition normalize_assignment_evidence :: "json option \<Rightarrow> assignment_evidence option result" where
  "normalize_assignment_evidence v =
     (if \<not> truthy v then Inr None
      else if (case text_of (get ''source'' v) of Some s \<Rightarrow> group_name s \<noteq> ''github'' | None \<Rightarrow> True) \<or> get ''verified'' v \<noteq> Some (JBool True)
      then Inl (Thrown ''GitHub assignment evidence must be explicitly verified'')
      else rbind (if nullish (get ''githubOrgs'' v) then Inr [] else json_groups (the (get ''githubOrgs'' v))) (\<lambda>orgs.
           rbind (if nullish (get ''githubTeams'' v) then Inr [] else json_groups (the (get ''githubTeams'' v))) (\<lambda>teams.
             Inr (Some \<lparr>ev_orgs = orgs, ev_teams = teams\<rparr>))))"

text \<open>\<open>String(value)\<close> of a number: \<open>num\<close> prints what is not an integer below \<open>1e21\<close>.\<close>

definition scalar_string :: "(rat \<Rightarrow> string) \<Rightarrow> json option \<Rightarrow> string" where
  "scalar_string num v = (case v of
     Some (JStr s) \<Rightarrow> trim s
   | Some (JNum q) \<Rightarrow> trim (if of_int \<lfloor>q\<rfloor> = q \<and> \<bar>q\<bar> < 10 ^ 21 then show_int \<lfloor>q\<rfloor> else num q)
   | _ \<Rightarrow> [])"

definition record_items :: "json option \<Rightarrow> json list" where
  "record_items v = filter (\<lambda>x. is_object (Some x) \<or> is_array (Some x)) (elements v)"

definition org_entry :: "(rat \<Rightarrow> string) \<Rightarrow> json \<Rightarrow> (string \<times> string) option" where
  "org_entry num org =
     (let key = scalar_string num (member ''id'' org); name = to_lower (scalar_string num (member ''name'' org))
      in if key \<noteq> [] \<and> name \<noteq> [] then Some (key, name) else None)"

definition team_name :: "(rat \<Rightarrow> string) \<Rightarrow> (string \<times> string) list \<Rightarrow> json \<Rightarrow> string option" where
  "team_name num names team =
     (case map_of (rev names) (scalar_string num (member ''org_id'' team)) of
        Some org \<Rightarrow> (let name = to_lower (scalar_string num (member ''name'' team)) in if name \<noteq> [] then Some (org @ ''/'' @ name) else None)
      | None \<Rightarrow> None)"

definition evidence_from_identity :: "(rat \<Rightarrow> string) \<Rightarrow> json option \<Rightarrow> string \<Rightarrow> assignment_evidence option" where
  "evidence_from_identity num v expected =
     (let email = (case text_of (get ''email'' v) of Some s \<Rightarrow> group_name s | None \<Rightarrow> []);
          orgs = record_items (get ''orgs'' v); teams = record_items (get ''teams'' v);
          names = List.map_filter (org_entry num) orgs;
          org_groups = normalize_groups (map (\<lambda>x. scalar_string num (member ''name'' x)) orgs);
          team_groups = normalize_groups (List.map_filter (team_name num names) teams)
      in if email = [] \<or> email \<noteq> group_name expected \<or> \<not> text_is (get ''type'' (get ''idp'' v)) ''github''
            \<or> \<not> is_array (get ''orgs'' v) \<or> \<not> is_array (get ''teams'' v)
            \<or> length orgs \<noteq> length (elements (get ''orgs'' v)) \<or> length teams \<noteq> length (elements (get ''teams'' v))
            \<or> length (first_unique (map fst names)) \<noteq> length orgs \<or> length team_groups \<noteq> length teams
         then None else Some \<lparr>ev_orgs = org_groups, ev_teams = team_groups\<rparr>)"

subsection \<open>Rules\<close>

definition bad_rule :: error where "bad_rule = HttpError 400 ''invalid_assignment_rule''"

definition rule_strings :: "json option \<Rightarrow> string list result" where
  "rule_strings v = (case v of
     None \<Rightarrow> Inr []
   | Some (JArr xs) \<Rightarrow> if list_all (\<lambda>x. text_of (Some x) \<noteq> None) xs then Inr (List.map_filter (\<lambda>x. text_of (Some x)) xs) else Inl bad_rule
   | _ \<Rightarrow> Inl bad_rule)"

definition rule_boolean :: "json option \<Rightarrow> bool \<Rightarrow> bool result" where
  "rule_boolean v fallback = (case v of None \<Rightarrow> Inr fallback | Some (JBool b) \<Rightarrow> Inr b | _ \<Rightarrow> Inl bad_rule)"

definition rule_kind_of :: "json option \<Rightarrow> rule_kind result" where
  "rule_kind_of v = (case v of
     None \<Rightarrow> Inr ExactEmail
   | Some j \<Rightarrow> (case map_of [(''exact_email'', ExactEmail), (''email_domain'', EmailDomain), (''github_org'', GithubOrg), (''github_team'', GithubTeam)]
                  (case text_of v of Some s \<Rightarrow> s | None \<Rightarrow> []) of Some k \<Rightarrow> Inr k | None \<Rightarrow> Inl bad_rule))"

definition rule_priority :: "json option \<Rightarrow> int result" where
  "rule_priority v = (case v of
     None \<Rightarrow> Inr 100
   | Some j \<Rightarrow> (case safe_integer j of Some n \<Rightarrow> if 0 \<le> n then Inr n else Inl bad_rule | None \<Rightarrow> Inl bad_rule))"

definition rule_text :: "json option \<Rightarrow> string result" where
  "rule_text v = (case text_of v of Some s \<Rightarrow> if trim s \<noteq> [] then Inr (trim s) else Inl bad_rule | None \<Rightarrow> Inl bad_rule)"

definition assignment_group :: "string \<Rightarrow> string" where
  "assignment_group i = ''assignment.'' @ i"

text \<open>The rule an administrator's body becomes, under the identifier \<open>i\<close> of its path.\<close>

definition normalize_assignment_rule :: "string \<Rightarrow> json \<Rightarrow> assignment_rule result" where
  "normalize_assignment_rule i body =
     rbind (rule_kind_of (member ''kind'' body)) (\<lambda>kind.
     rbind (rule_text (member ''subject'' body)) (\<lambda>subject.
     rbind (rule_strings (member ''groups'' body)) (\<lambda>groups.
     rbind (rule_strings (member ''policyIds'' body)) (\<lambda>policies.
     rbind (rule_priority (member ''priority'' body)) (\<lambda>priority.
     rbind (rule_boolean (member ''enabled'' body) True) (\<lambda>enabled.
     rbind (rule_boolean (member ''revokeOnLoss'' body) True) (\<lambda>revoke.
     rbind (case member ''provenance'' body of None \<Rightarrow> Inr ''cloudflare_access'' | v \<Rightarrow> rule_text v) (\<lambda>provenance.
       Inr \<lparr>ru_id = i, ru_version = 1, ru_enabled = enabled, ru_kind = kind, ru_subject = to_lower subject, ru_groups = normalize_groups groups,
            ru_policies = first_unique policies, ru_priority = priority, ru_revoke = revoke, ru_provenance = provenance,
            ru_generated = assignment_group i\<rparr>))))))))"

definition json_field :: "string \<Rightarrow> string \<Rightarrow> string" where
  "json_field k v = json_string k @ '':'' @ v"

definition json_flag :: "bool \<Rightarrow> string" where
  "json_flag b = (if b then ''true'' else ''false'')"

primrec kind_text :: "rule_kind \<Rightarrow> string" where
  "kind_text ExactEmail = ''exact_email''"
| "kind_text EmailDomain = ''email_domain''"
| "kind_text GithubOrg = ''github_org''"
| "kind_text GithubTeam = ''github_team''"

definition revision_rule :: "assignment_rule \<Rightarrow> string" where
  "revision_rule r = ''{'' @ join '','' [json_field ''ruleId'' (json_string (ru_id r)), json_field ''version'' (show_int (ru_version r)),
     json_field ''enabled'' (json_flag (ru_enabled r)), json_field ''kind'' (json_string (kind_text (ru_kind r))), json_field ''subject'' (json_string (ru_subject r)),
     json_field ''groups'' (json_strings (ru_groups r)), json_field ''policyIds'' (json_strings (ru_policies r)), json_field ''priority'' (show_int (ru_priority r)),
     json_field ''revokeOnLoss'' (json_flag (ru_revoke r)), json_field ''provenance'' (json_string (ru_provenance r))] @ ''}''"

definition assignment_rules_revision :: "assignment_rule list \<Rightarrow> string" where
  "assignment_rules_revision rules = ''['' @ join '','' (map revision_rule rules) @ '']''"

subsection \<open>Evaluation\<close>

definition assignment_match :: "assignment_rule \<Rightarrow> string \<Rightarrow> assignment_evidence option \<Rightarrow> rule_match" where
  "assignment_match r email evidence =
     (if \<not> ru_enabled r then NoMatch
      else case ru_kind r of
          ExactEmail \<Rightarrow> if email = ru_subject r then Match else NoMatch
        | EmailDomain \<Rightarrow> (case split_on (CHR ''@'') email of _ # d # _ \<Rightarrow> if d = ru_subject r then Match else NoMatch | _ \<Rightarrow> NoMatch)
        | k \<Rightarrow> (case evidence of
              None \<Rightarrow> Unknown
            | Some e \<Rightarrow> if ru_subject r \<in> set (if k = GithubOrg then ev_orgs e else ev_teams e) then Match else NoMatch))"

definition entry_of_rule :: "assignment_rule \<Rightarrow> assignment_entry" where
  "entry_of_rule r = \<lparr>ae_groups = normalize_groups (ru_groups r @ (if ru_policies r \<noteq> [] then [ru_generated r] else [])), ae_revoke = ru_revoke r\<rparr>"

text \<open>The names every object inherits; a read finds them, with a value that has no \<open>groups\<close>.\<close>

definition inherited_names :: "string list" where
  "inherited_names = [''__proto__'', ''constructor'', ''hasOwnProperty'', ''isPrototypeOf'', ''propertyIsEnumerable'', ''toLocaleString'', ''toString'',
     ''valueOf'', ''__defineGetter__'', ''__defineSetter__'', ''__lookupGetter__'', ''__lookupSetter__'']"

definition object_read :: "(string \<times> assignment_entry) list \<Rightarrow> string \<Rightarrow> assignment_entry option option" where
  "object_read m k = (case map_of m k of Some e \<Rightarrow> Some (Some e) | None \<Rightarrow> if k \<in> set inherited_names then Some None else None)"

fun alist_put :: "string \<Rightarrow> 'v \<Rightarrow> (string \<times> 'v) list \<Rightarrow> (string \<times> 'v) list" where
  "alist_put k v [] = [(k, v)]"
| "alist_put k v ((j, w) # m) = (if j = k then (k, v) # m else (j, w) # alist_put k v m)"

definition object_put :: "string \<Rightarrow> 'v \<Rightarrow> (string \<times> 'v) list \<Rightarrow> (string \<times> 'v) list" where
  "object_put k v m = (if k = ''__proto__'' then m else alist_put k v m)"

record evaluation =
  ek_assignments :: "(string \<times> assignment_entry option) list"
  ek_matched :: "string list"
  ek_retained :: "string list"

definition keeps_previous :: "assignment_rule \<Rightarrow> rule_match \<Rightarrow> bool" where
  "keeps_previous r m \<longleftrightarrow> m = Unknown \<or> m = NoMatch \<and> ru_enabled r \<and> \<not> ru_revoke r"

definition evaluate_rule ::
    "string \<Rightarrow> assignment_evidence option \<Rightarrow> (string \<times> assignment_entry) list \<Rightarrow> assignment_rule \<Rightarrow> evaluation \<Rightarrow> evaluation" where
  "evaluate_rule email evidence prev r k =
     (let m = assignment_match r email evidence
      in if m = Match then k\<lparr>ek_assignments := object_put (ru_id r) (Some (entry_of_rule r)) (ek_assignments k), ek_matched := ek_matched k @ [ru_id r]\<rparr>
         else if keeps_previous r m
         then (case object_read prev (ru_id r) of
             Some v \<Rightarrow> k\<lparr>ek_assignments := object_put (ru_id r) v (ek_assignments k), ek_retained := ek_retained k @ [ru_id r]\<rparr>
           | None \<Rightarrow> k)
         else k)"

definition evaluate_rules ::
    "string \<Rightarrow> assignment_evidence option \<Rightarrow> (string \<times> assignment_entry) list \<Rightarrow> assignment_rule list \<Rightarrow> evaluation" where
  "evaluate_rules email evidence prev rules = fold (evaluate_rule email evidence prev) rules \<lparr>ek_assignments = [], ek_matched = [], ek_retained = []\<rparr>"

definition no_assignments :: assignment_state where
  "no_assignments = \<lparr>st_revision = [], st_assignments = [], st_updated = None\<rparr>"

definition state_of :: "user_record \<Rightarrow> assignment_state" where
  "state_of u = (case us_state u of Some s \<Rightarrow> s | None \<Rightarrow> no_assignments)"

definition groups_of :: "user_record \<Rightarrow> string list" where
  "groups_of u = (case us_groups u of Some gs \<Rightarrow> gs | None \<Rightarrow> [])"

definition manual_groups :: "user_record \<Rightarrow> string list" where
  "manual_groups u = filter (\<lambda>g. g \<notin> (\<Union>e \<in> snd ` set (st_assignments (state_of u)). set (ae_groups e)) \<and> \<not> starts_with ''assignment.'' g) (groups_of u)"

text \<open>Members named by array indices come first, in numeric order, whatever the order of insertion.\<close>

definition index_name :: "string \<Rightarrow> bool" where
  "index_name s \<longleftrightarrow> s \<noteq> [] \<and> list_all (\<lambda>c. CHR ''0'' \<le> c \<and> c \<le> CHR ''9'') s \<and> (hd s \<noteq> CHR ''0'' \<or> length s = 1) \<and> read_digits s < 4294967295"

definition object_order :: "(string \<times> 'v) list \<Rightarrow> (string \<times> 'v) list" where
  "object_order m = sort_by (\<lambda>a b. read_digits (fst a) < read_digits (fst b)) (filter (\<lambda>e. index_name (fst e)) m) @ filter (\<lambda>e. \<not> index_name (fst e)) m"

record evaluated =
  ed_changed :: bool
  ed_user :: access_user
  ed_matched :: "string list"
  ed_retained :: "string list"

definition evaluate_assignments ::
    "string \<Rightarrow> access_user \<Rightarrow> assignment_rule list \<Rightarrow> string \<Rightarrow> string \<Rightarrow> assignment_evidence option \<Rightarrow> bool \<Rightarrow> evaluated result" where
  "evaluate_assignments now user rules legacy revision evidence force =
     (let (email, u) = user;
          prev = state_of u;
          same = (st_revision prev = legacy \<or> st_revision prev = revision)
      in if \<not> force \<and> same
         then Inr \<lparr>ed_changed = False, ed_user = user, ed_matched = sort_by lex_less (map fst (st_assignments prev)), ed_retained = []\<rparr>
         else (let k = evaluate_rules email evidence (st_assignments prev) rules;
                   own = map (\<lambda>(i, v). (i, the v)) (ek_assignments k);
                   groups = normalize_groups (manual_groups u @ concat (map (\<lambda>e. ae_groups (snd e)) (object_order own)))
               in if list_ex (\<lambda>e. snd e = None) (ek_assignments k) then Inl type_error
                  else if same \<and> object_order (st_assignments prev) = object_order own \<and> normalize_groups (groups_of u) = groups
                  then Inr \<lparr>ed_changed = False, ed_user = user, ed_matched = ek_matched k, ed_retained = ek_retained k\<rparr>
                  else Inr \<lparr>ed_changed = True,
                         ed_user = (email, u\<lparr>us_role := Some (case us_role u of Some r \<Rightarrow> r | None \<Rightarrow> ''user''), us_groups := Some groups,
                           us_state := Some \<lparr>st_revision = revision, st_assignments = own, st_updated = Some now\<rparr>\<rparr>),
                         ed_matched = ek_matched k, ed_retained = ek_retained k\<rparr>))"

definition legacy_entry :: "string \<times> json \<Rightarrow> (string \<times> assignment_entry) option result" where
  "legacy_entry e = (if \<not> is_array (member ''groups'' (snd e)) then Inr None
     else rbind (json_groups (the (member ''groups'' (snd e)))) (\<lambda>gs. Inr (Some (fst e, \<lparr>ae_groups = gs, ae_revoke = (member ''revokeOnLoss'' (snd e) = Some (JBool True))\<rparr>))))"

fun legacy_entries :: "(string \<times> json) list \<Rightarrow> (string \<times> assignment_entry) list result" where
  "legacy_entries [] = Inr []"
| "legacy_entries (e # es) = rbind (legacy_entry e) (\<lambda>x. rbind (legacy_entries es) (\<lambda>xs. Inr (case x of Some y \<Rightarrow> y # xs | None \<Rightarrow> xs)))"

definition own_entries :: "json option \<Rightarrow> (string \<times> json) list option" where
  "own_entries v = (case v of
     Some (JObj es) \<Rightarrow> Some es | Some (JArr xs) \<Rightarrow> Some (zip (map show_nat [0..<length xs]) xs) | _ \<Rightarrow> None)"

definition with_legacy_assignment_state :: "access_user \<Rightarrow> json option \<Rightarrow> access_user result" where
  "with_legacy_assignment_state user legacy =
     (if us_state (snd user) \<noteq> None then Inr user
      else case own_entries (get ''assignments'' legacy) of
          None \<Rightarrow> Inr user
        | Some es \<Rightarrow> rbind (legacy_entries es) (\<lambda>m.
            Inr (fst user, (snd user)\<lparr>us_state := Some \<lparr>st_revision = [], st_assignments = m, st_updated = text_of (get ''updatedAt'' legacy)\<rparr>\<rparr>)))"

subsection \<open>The user table\<close>

type_synonym user_table = "string \<Rightarrow> user_record option"

definition normalize_user :: "access_user \<Rightarrow> access_user result" where
  "normalize_user user = (case normalize_email (fst user) of
     None \<Rightarrow> Inl (HttpError 400 ''authority_error'')
   | Some email \<Rightarrow> (let u = snd user in
       Inr (email, \<lparr>us_role = Some (case us_role u of Some r \<Rightarrow> r | None \<Rightarrow> ''user''),
         us_tenant = Some (case us_tenant u of Some t \<Rightarrow> t | None \<Rightarrow> ''default''),
         us_enabled = Some (case us_enabled u of Some b \<Rightarrow> b | None \<Rightarrow> True),
         us_groups = Some (sort_by lex_less (filter (\<lambda>g. g \<noteq> []) (map group_name (first_unique (groups_of u))))),
         us_retention = Some (case us_retention u of Some b \<Rightarrow> b | None \<Rightarrow> False),
         us_state = us_state u, us_overrides = (if truthy (us_overrides u) then us_overrides u else None)\<rparr>)))"

definition get_user :: "user_table \<Rightarrow> string \<Rightarrow> access_user option" where
  "get_user t email = Option.bind (normalize_email email) (\<lambda>e. map_option (\<lambda>u. (e, u)) (t e))"

definition put_user :: "access_user \<Rightarrow> user_table \<Rightarrow> user_table result" where
  "put_user user t = rbind (normalize_user user) (\<lambda>(e, u). Inr (t(e \<mapsto> u)))"

definition profile_update :: "access_user \<Rightarrow> user_record option \<Rightarrow> access_user result" where
  "profile_update raw cur = normalize_user (fst raw, (snd raw)\<lparr>
     us_role := Some (case Option.bind cur us_role of Some r \<Rightarrow> r | None \<Rightarrow> ''user''), us_overrides := Option.bind cur us_overrides\<rparr>)"

definition update_user_profile :: "access_user \<Rightarrow> user_table \<Rightarrow> (access_user \<times> user_table) result" where
  "update_user_profile raw t = rbind (profile_update raw (map_option snd (get_user t (fst raw)))) (\<lambda>user.
     rbind (put_user user t) (\<lambda>t1. Inr (user, t1)))"

definition create_user :: "access_user \<Rightarrow> user_table \<Rightarrow> user_table result" where
  "create_user user t = (case get_user t (fst user) of Some _ \<Rightarrow> Inr t | None \<Rightarrow> put_user user t)"

fun initialize_users :: "access_user list \<Rightarrow> user_table \<Rightarrow> user_table result" where
  "initialize_users [] t = Inr t"
| "initialize_users (user # users) t =
     rbind (if get_user t (fst user) = None then put_user user t else Inr t) (initialize_users users)"

record reconcile_request =
  rc_email :: string
  rc_rules :: "assignment_rule list"
  rc_legacy :: "json option"
  rc_evidence :: "assignment_evidence option"
  rc_force :: bool

definition prepared_revision :: "(string \<Rightarrow> string) \<Rightarrow> assignment_rule list \<Rightarrow> string" where
  "prepared_revision digest rules = ''assignment-rules.v1:sha256:'' @ digest (assignment_rules_revision rules)"

definition reconcile_user_assignments ::
    "(string \<Rightarrow> string) \<Rightarrow> string \<Rightarrow> bool \<Rightarrow> reconcile_request \<Rightarrow> user_table \<Rightarrow> (evaluated \<times> user_table) result" where
  "reconcile_user_assignments digest now fits q t =
     (if \<not> fits then Inl (HttpError 503 ''assignment_materialization_unavailable'')
      else case get_user t (rc_email q) of
          None \<Rightarrow> Inl (HttpError 404 ''unknown_user'')
        | Some user \<Rightarrow>
            rbind (with_legacy_assignment_state user (rc_legacy q)) (\<lambda>candidate.
            rbind (evaluate_assignments now candidate (rc_rules q) (assignment_rules_revision (rc_rules q)) (prepared_revision digest (rc_rules q))
                (rc_evidence q) (rc_force q)) (\<lambda>r.
            rbind (if ed_changed r then put_user (ed_user r) t else Inr t) (\<lambda>t1. Inr (r, t1)))))"

subsection \<open>Normalised groups\<close>

lemma lower_char_space [simp]: "is_space (lower_char c) = is_space c"
proof -
  have "(of_char (lower_char c) :: nat) = (if 65 \<le> (of_char c :: nat) \<and> (of_char c :: nat) \<le> 90 then of_char c + 32 else of_char c)"
    by (auto simp: lower_char_def Let_def)
  moreover have "c = CHR '' '' \<longleftrightarrow> (of_char c :: nat) = 32" for c :: char
  proof -
    have "(of_char (CHR '' '') :: nat) = 32" by simp
    then show ?thesis by (metis of_char_eq_iff)
  qed
  ultimately show ?thesis by (auto simp: is_space_def split: if_splits)
qed

lemma lower_char_idem [simp]: "lower_char (lower_char c) = lower_char c"
  by (auto simp: lower_char_def Let_def)

lemma trim_lower: "trim (to_lower s) = to_lower (trim s)"
proof -
  have "is_space \<circ> lower_char = is_space" by (auto simp: fun_eq_iff)
  then show ?thesis by (simp add: trim_def to_lower_def dropWhile_map rev_map)
qed

lemma dropWhile_head: "dropWhile p xs = [] \<or> \<not> p (hd (dropWhile p xs))"
  by (metis hd_dropWhile)

lemma dropWhile_clean: "xs = [] \<or> \<not> p (hd xs) \<Longrightarrow> dropWhile p xs = xs"
  by (cases xs) auto

lemma trim_idem [simp]: "trim (trim s) = trim s"
proof -
  let ?a = "dropWhile is_space s" let ?b = "dropWhile is_space (rev ?a)"
  have "?b = [] \<or> \<not> is_space (last ?b)"
  proof (cases "?b = []")
    case False
    then have "last ?b = last (rev ?a)" by (metis dropWhile_eq_Nil_conv last_appendR takeWhile_dropWhile_id)
    also have "\<dots> = hd ?a" by (cases "?a = []") (use False in \<open>auto simp: last_rev\<close>)
    finally show ?thesis using dropWhile_head [of is_space s] False by (metis dropWhile.simps(1) rev_is_Nil_conv)
  qed simp
  then have "dropWhile is_space (rev ?b) = rev ?b" by (intro dropWhile_clean) (auto simp: hd_rev)
  moreover have "dropWhile is_space ?b = ?b" by (rule dropWhile_clean) (rule dropWhile_head)
  ultimately show ?thesis by (simp add: trim_def)
qed

lemma to_lower_idem [simp]: "to_lower (to_lower s) = to_lower s"
  by (simp add: to_lower_def)

lemma group_name_idem [simp]: "group_name (group_name g) = group_name g"
  by (simp add: group_name_def trim_lower)

lemma lex_less_iff: "lex_less xs ys \<longleftrightarrow> xs < ys"
  by (induction xs ys rule: lex_less.induct) (auto simp: less_char_def)

lemma sorted_insert_by: "sorted ys \<Longrightarrow> sorted (insert_by lex_less x ys)"
  by (induction ys) (auto simp: lex_less_iff)

lemma length_insert_by [simp]: "length (insert_by lt x ys) = Suc (length ys)"
  by (induction ys) auto

lemma sort_by_lex: "sorted (sort_by lex_less xs)" "length (sort_by lt xs) = length xs"
proof -
  have "sorted ys \<Longrightarrow> sorted (fold (insert_by lex_less) xs ys)" for ys
    by (induction xs arbitrary: ys) (auto simp: sorted_insert_by)
  moreover have "length (fold (insert_by lt) zs ys) = length zs + length ys" for zs ys by (induction zs arbitrary: ys) auto
  ultimately show "sorted (sort_by lex_less xs)" "length (sort_by lt xs) = length xs" by (simp_all add: sort_by_def)
qed

lemma set_normalize_groups: "set (normalize_groups gs) = group_name ` set gs - {[]}"
  by (auto simp: normalize_groups_def)

lemma normalize_groups_canonical: "sorted (normalize_groups gs)" "distinct (normalize_groups gs)"
proof -
  show "sorted (normalize_groups gs)" by (simp add: normalize_groups_def sort_by_lex)
  have "distinct (first_unique (filter (\<lambda>g. g \<noteq> []) (map group_name gs)))" by simp
  then show "distinct (normalize_groups gs)"
    unfolding normalize_groups_def by (metis card_distinct distinct_card set_sort_by sort_by_lex(2))
qed

lemma normalize_groups_eq: "normalize_groups a = normalize_groups b \<longleftrightarrow> group_name ` set a - {[]} = group_name ` set b - {[]}"
  by (metis normalize_groups_canonical set_normalize_groups sorted_distinct_set_unique)

lemma normalize_groups_idem [simp]: "normalize_groups (normalize_groups gs) = normalize_groups gs"
  unfolding normalize_groups_eq set_normalize_groups by (auto simp: image_iff) (metis Diff_iff empty_iff group_name_idem imageI insert_iff)+

subsection \<open>What the rules contribute\<close>

definition contribution :: "string \<Rightarrow> assignment_evidence option \<Rightarrow> (string \<times> assignment_entry) list \<Rightarrow> assignment_rule \<Rightarrow> assignment_entry option option" where
  "contribution email evidence prev r =
     (if assignment_match r email evidence = Match then Some (Some (entry_of_rule r))
      else if keeps_previous r (assignment_match r email evidence) then object_read prev (ru_id r) else None)"

definition contributed :: "string \<Rightarrow> assignment_evidence option \<Rightarrow> (string \<times> assignment_entry) list \<Rightarrow> assignment_rule \<Rightarrow> (string \<times> assignment_entry option) option" where
  "contributed email evidence prev r = (if ru_id r = ''__proto__'' then None else map_option (\<lambda>v. (ru_id r, v)) (contribution email evidence prev r))"

lemma alist_put_fresh: "k \<notin> fst ` set m \<Longrightarrow> alist_put k v m = m @ [(k, v)]"
  by (induction m) auto

lemma evaluate_rule_simps:
  "ek_assignments (evaluate_rule email evidence prev r k) =
     (case contribution email evidence prev r of Some v \<Rightarrow> object_put (ru_id r) v (ek_assignments k) | None \<Rightarrow> ek_assignments k)"
  "ek_matched (evaluate_rule email evidence prev r k) = ek_matched k @ (if assignment_match r email evidence = Match then [ru_id r] else [])"
  "ek_retained (evaluate_rule email evidence prev r k) = ek_retained k @
     (if assignment_match r email evidence \<noteq> Match \<and> contribution email evidence prev r \<noteq> None then [ru_id r] else [])"
  by (auto simp: evaluate_rule_def contribution_def Let_def split: option.split)

lemma fold_evaluate_rule:
  assumes "distinct (map ru_id rules)" and "fst ` set (ek_assignments k) \<inter> ru_id ` set rules = {}"
  shows "ek_assignments (fold (evaluate_rule email evidence prev) rules k) = ek_assignments k @ List.map_filter (contributed email evidence prev) rules"
  using assms
proof (induction rules arbitrary: k)
  case (Cons r rules)
  have fresh: "ru_id r \<notin> fst ` set (ek_assignments k)" using Cons.prems by auto
  have step: "ek_assignments (evaluate_rule email evidence prev r k) = ek_assignments k @ List.map_filter (contributed email evidence prev) [r]"
    by (simp add: evaluate_rule_simps contributed_def object_put_def alist_put_fresh [OF fresh] List.map_filter_def split: option.split)
  have "e \<in> set (List.map_filter (contributed email evidence prev) [r]) \<Longrightarrow> fst e = ru_id r" for e
    by (auto simp: set_map_filter contributed_def simp del: List.map_filter_simps split: if_splits)
  then have "fst ` set (ek_assignments (evaluate_rule email evidence prev r k)) \<inter> ru_id ` set rules = {}"
    using Cons.prems unfolding step set_append image_Un by (simp add: disjoint_iff del: List.map_filter_simps) (metis (no_types, lifting) imageE image_eqI)
  from Cons.IH [OF _ this] Cons.prems(1) show ?case unfolding step by (simp add: List.map_filter_def)
qed (simp add: List.map_filter_def)

lemma evaluate_rules_assignments:
  "distinct (map ru_id rules) \<Longrightarrow> ek_assignments (evaluate_rules email evidence prev rules) = List.map_filter (contributed email evidence prev) rules"
  unfolding evaluate_rules_def using fold_evaluate_rule [of rules "\<lparr>ek_assignments = [], ek_matched = [], ek_retained = []\<rparr>"] by simp

lemma set_object_order [simp]: "set (object_order m) = set m"
  by (auto simp: object_order_def)

definition own_assignments :: "evaluation \<Rightarrow> (string \<times> assignment_entry) list" where
  "own_assignments k = map (\<lambda>(i, v). (i, the v)) (ek_assignments k)"

definition entry_groups :: "(string \<times> assignment_entry) list \<Rightarrow> string set" where
  "entry_groups m = (\<Union>e \<in> snd ` set m. set (ae_groups e))"

text \<open>A forced evaluation that succeeds: the groups are the manual ones and those of the entries kept.\<close>

lemma evaluate_forced:
  assumes "evaluate_assignments now (email, u) rules legacy revision evidence True = Inr r"
  defines "k \<equiv> evaluate_rules email evidence (st_assignments (state_of u)) rules"
  shows "\<forall>e \<in> set (ek_assignments k). snd e \<noteq> None"
    and "set (normalize_groups (groups_of (snd (ed_user r)))) = group_name ` (set (manual_groups u) \<union> entry_groups (own_assignments k)) - {[]}"
    and "ed_matched r = ek_matched k" and "ed_retained r = ek_retained k"
    and "if ed_changed r
      then ed_user r = (email, u\<lparr>us_role := Some (case us_role u of Some r \<Rightarrow> r | None \<Rightarrow> ''user''), us_groups := us_groups (snd (ed_user r)),
          us_state := Some \<lparr>st_revision = revision, st_assignments = own_assignments k, st_updated = Some now\<rparr>\<rparr>) \<and>
        groups_of (snd (ed_user r)) = normalize_groups (groups_of (snd (ed_user r)))
      else ed_user r = (email, u) \<and> (st_revision (state_of u) = legacy \<or> st_revision (state_of u) = revision)"
proof -
  let ?own = "own_assignments k"
  let ?groups = "normalize_groups (manual_groups u @ concat (map (\<lambda>e. ae_groups (snd e)) (object_order ?own)))"
  let ?same = "st_revision (state_of u) = legacy \<or> st_revision (state_of u) = revision"
  let ?idle = "?same \<and> object_order (st_assignments (state_of u)) = object_order ?own \<and> normalize_groups (groups_of u) = ?groups"
  have ok: "\<not> list_ex (\<lambda>e. snd e = None) (ek_assignments k)"
    using assms(1) by (auto simp: evaluate_assignments_def k_def Let_def split: if_splits)
  then show "\<forall>e \<in> set (ek_assignments k). snd e \<noteq> None" by (auto simp: list_ex_iff)
  have r: "r = (if ?idle then \<lparr>ed_changed = False, ed_user = (email, u), ed_matched = ek_matched k, ed_retained = ek_retained k\<rparr>
      else \<lparr>ed_changed = True,
         ed_user = (email, u\<lparr>us_role := Some (case us_role u of Some r \<Rightarrow> r | None \<Rightarrow> ''user''), us_groups := Some ?groups,
           us_state := Some \<lparr>st_revision = revision, st_assignments = ?own, st_updated = Some now\<rparr>\<rparr>),
         ed_matched = ek_matched k, ed_retained = ek_retained k\<rparr>)"
    using assms(1) ok by (cases ?idle) (auto simp: own_assignments_def evaluate_assignments_def k_def [symmetric] Let_def split: if_splits)
  have "normalize_groups (groups_of (snd (ed_user r))) = ?groups" using r by (auto simp: groups_of_def)
  then show "set (normalize_groups (groups_of (snd (ed_user r)))) = group_name ` (set (manual_groups u) \<union> entry_groups (own_assignments k)) - {[]}"
    by (auto simp: set_normalize_groups entry_groups_def)
  show "ed_matched r = ek_matched k" "ed_retained r = ek_retained k" using r by auto
  show "if ed_changed r
      then ed_user r = (email, u\<lparr>us_role := Some (case us_role u of Some r \<Rightarrow> r | None \<Rightarrow> ''user''), us_groups := us_groups (snd (ed_user r)),
          us_state := Some \<lparr>st_revision = revision, st_assignments = own_assignments k, st_updated = Some now\<rparr>\<rparr>) \<and>
        groups_of (snd (ed_user r)) = normalize_groups (groups_of (snd (ed_user r)))
      else ed_user r = (email, u) \<and> (st_revision (state_of u) = legacy \<or> st_revision (state_of u) = revision)"
    using r by (auto simp: groups_of_def)
qed

subsection \<open>Properties of an evaluation\<close>

definition gives :: "string \<Rightarrow> assignment_evidence option \<Rightarrow> (string \<times> assignment_entry) list \<Rightarrow> string \<Rightarrow> assignment_rule \<Rightarrow> bool" where
  "gives email evidence prev g r \<longleftrightarrow>
     (if assignment_match r email evidence = Match then g \<in> set (ae_groups (entry_of_rule r))
      else keeps_previous r (assignment_match r email evidence) \<and> (\<exists>e. map_of prev (ru_id r) = Some e \<and> g \<in> set (ae_groups e)))"

lemma own_assignments_groups:
  assumes "distinct (map ru_id rules)" and "''__proto__'' \<notin> ru_id ` set rules"
    and "\<forall>e \<in> set (ek_assignments (evaluate_rules email evidence prev rules)). snd e \<noteq> None"
  shows "g \<in> entry_groups (own_assignments (evaluate_rules email evidence prev rules)) \<longleftrightarrow> (\<exists>r \<in> set rules. gives email evidence prev g r)"
proof -
  let ?k = "evaluate_rules email evidence prev rules"
  have in_k: "(i, v) \<in> set (ek_assignments ?k) \<longleftrightarrow> (\<exists>r \<in> set rules. i = ru_id r \<and> contribution email evidence prev r = Some v)" for i v
    unfolding evaluate_rules_assignments [OF assms(1)] set_map_filter mem_Collect_eq using assms(2) by (intro bex_cong refl) (auto simp: contributed_def image_iff)
  have some: "contribution email evidence prev r = Some v \<Longrightarrow> r \<in> set rules \<Longrightarrow> v \<noteq> None" for r v
    using in_k [of "ru_id r" v] assms(3) by fastforce
  have "g \<in> entry_groups (own_assignments ?k) \<longleftrightarrow> (\<exists>i v. (i, v) \<in> set (ek_assignments ?k) \<and> g \<in> set (ae_groups (the v)))"
    by (force simp: entry_groups_def own_assignments_def)
  also have "\<dots> \<longleftrightarrow> (\<exists>r \<in> set rules. \<exists>v. contribution email evidence prev r = Some v \<and> g \<in> set (ae_groups (the v)))"
    unfolding in_k by blast
  also have "\<dots> \<longleftrightarrow> (\<exists>r \<in> set rules. gives email evidence prev g r)"
  proof (intro bex_cong refl)
    fix r assume r: "r \<in> set rules"
    show "(\<exists>v. contribution email evidence prev r = Some v \<and> g \<in> set (ae_groups (the v))) \<longleftrightarrow> gives email evidence prev g r"
      using some [OF _ r] by (auto simp: contribution_def gives_def object_read_def split: if_splits option.splits)
  qed
  finally show ?thesis .
qed


subsection \<open>Evaluating again\<close>

lemma contribution_again:
  assumes "distinct (map ru_id rules)" and "r \<in> set rules"
    and "\<forall>e \<in> set (ek_assignments (evaluate_rules email evidence prev rules)). snd e \<noteq> None"
  defines "own \<equiv> own_assignments (evaluate_rules email evidence prev rules)"
  shows "contributed email evidence own r = contributed email evidence prev r"
    and "contribution email evidence own r = None \<longleftrightarrow> contribution email evidence prev r = None"
proof -
  let ?k = "evaluate_rules email evidence prev rules"
  have in_k: "(ru_id r, v) \<in> set (ek_assignments ?k) \<longleftrightarrow> contributed email evidence prev r = Some (ru_id r, v)" for v
  proof -
    have "(ru_id r, v) \<in> set (ek_assignments ?k) \<longleftrightarrow> (\<exists>x \<in> set rules. contributed email evidence prev x = Some (ru_id r, v))"
      by (simp only: evaluate_rules_assignments [OF assms(1)] set_map_filter mem_Collect_eq)
    moreover have "x \<in> set rules \<Longrightarrow> contributed email evidence prev x = Some (ru_id r, v) \<Longrightarrow> x = r" for x
      using assms(1,2) by (auto simp: contributed_def distinct_map inj_on_def split: if_splits)
    ultimately show ?thesis using assms(2) by blast
  qed
  have keys: "distinct (map fst (ek_assignments ?k))"
  proof -
    have "map fst (ek_assignments ?k) = map ru_id (filter (\<lambda>r. contributed email evidence prev r \<noteq> None) rules)"
      unfolding evaluate_rules_assignments [OF assms(1)] List.map_filter_def
      by (auto simp: contributed_def)
    then show ?thesis using assms(1) by (simp add: distinct_map_filter)
  qed
  have own: "map_of own (ru_id r) = (case contributed email evidence prev r of Some (_, v) \<Rightarrow> Some (the v) | None \<Rightarrow> None)"
  proof (cases "contributed email evidence prev r")
    case None
    then have "ru_id r \<notin> fst ` set own" using in_k by (force simp: own_def own_assignments_def)
    then show ?thesis using None by (simp add: map_of_eq_None_iff)
  next
    case (Some e)
    then obtain v where v: "contributed email evidence prev r = Some (ru_id r, v)" by (auto simp: contributed_def split: if_splits)
    then have "(ru_id r, the v) \<in> set own" using in_k [of v] by (force simp: own_def own_assignments_def)
    moreover have "distinct (map fst own)" using keys by (simp add: own_def own_assignments_def comp_def case_prod_unfold)
    ultimately show ?thesis using v by simp
  qed
  have kept: "contribution email evidence prev r = Some v \<Longrightarrow> ru_id r \<noteq> ''__proto__'' \<Longrightarrow> v \<noteq> None" for v
    using in_k [of v] assms(3) by (fastforce simp: contributed_def)
  have same: "contribution email evidence own r = contribution email evidence prev r"
    if d: "ru_id r \<noteq> ''__proto__''" and m: "assignment_match r email evidence \<noteq> Match" "keeps_previous r (assignment_match r email evidence)"
  proof -
    have read: "contribution email evidence p r = object_read p (ru_id r)" for p using m by (simp add: contribution_def)
    have "map_of own (ru_id r) = (case object_read prev (ru_id r) of Some v \<Rightarrow> Some (the v) | None \<Rightarrow> None)"
      unfolding own using d read [of prev] by (simp add: contributed_def split: option.split)
    then show ?thesis using kept [OF _ d] unfolding read by (cases "object_read prev (ru_id r)") (auto simp: object_read_def split: if_splits option.splits)
  qed
  then show "contributed email evidence own r = contributed email evidence prev r"
    by (auto simp: contributed_def contribution_def)
  show "contribution email evidence own r = None \<longleftrightarrow> contribution email evidence prev r = None"
    using same by (cases "ru_id r = ''__proto__''") (auto simp: contribution_def object_read_def inherited_names_def split: option.split)
qed

lemma evaluate_rules_again:
  assumes "distinct (map ru_id rules)"
    and "\<forall>e \<in> set (ek_assignments (evaluate_rules email evidence prev rules)). snd e \<noteq> None"
  shows "evaluate_rules email evidence (own_assignments (evaluate_rules email evidence prev rules)) rules = evaluate_rules email evidence prev rules"
proof -
  let ?own = "own_assignments (evaluate_rules email evidence prev rules)"
  note again = contribution_again [OF assms(1) _ assms(2)]
  have "fold (evaluate_rule email evidence ?own) xs k = fold (evaluate_rule email evidence prev) xs k" if "set xs \<subseteq> set rules" for xs k
    using that
  proof (induction xs arbitrary: k)
    case (Cons r xs)
    have r: "r \<in> set rules" using Cons.prems by simp
    have "ek_assignments (evaluate_rule email evidence ?own r k) = ek_assignments (evaluate_rule email evidence prev r k)"
      using again [OF r] by (auto simp: evaluate_rule_simps contributed_def object_put_def split: option.splits if_splits)
    then have "evaluate_rule email evidence ?own r k = evaluate_rule email evidence prev r k"
      using again(2) [OF r] by (simp add: evaluate_rule_simps evaluation.equality)
    then show ?case using Cons by simp
  qed simp
  then show ?thesis by (simp add: evaluate_rules_def)
qed

subsection \<open>Reachable user tables\<close>

definition users_ok :: "user_table \<Rightarrow> bool" where
  "users_ok t \<longleftrightarrow> (\<forall>e u. t e = Some u \<longrightarrow> normalize_email e = Some e \<and> (\<forall>g \<in> set (groups_of u). group_name g = g \<and> g \<noteq> []))"

inductive users_reachable :: "(string \<Rightarrow> string) \<Rightarrow> user_table \<Rightarrow> bool" for digest where
  empty: "users_reachable digest (\<lambda>_. None)"
| put: "users_reachable digest t \<Longrightarrow> put_user user t = Inr t1 \<Longrightarrow> users_reachable digest t1"
| profile: "users_reachable digest t \<Longrightarrow> update_user_profile user t = Inr (x, t1) \<Longrightarrow> users_reachable digest t1"
| create: "users_reachable digest t \<Longrightarrow> create_user user t = Inr t1 \<Longrightarrow> users_reachable digest t1"
| initialize: "users_reachable digest t \<Longrightarrow> initialize_users users t = Inr t1 \<Longrightarrow> users_reachable digest t1"
| reconcile: "users_reachable digest t \<Longrightarrow> reconcile_user_assignments digest now fits q t = Inr (r, t1) \<Longrightarrow> users_reachable digest t1"

lemma normalize_email_idem: "normalize_email v = Some e \<Longrightarrow> normalize_email e = Some e"
  by (auto simp: normalize_email_def Let_def trim_lower split: if_splits)

lemma normalize_user_Inr:
  assumes "normalize_user user = Inr (e, u)"
  shows "normalize_email (fst user) = Some e" "normalize_email e = Some e" "set (groups_of u) = group_name ` set (groups_of (snd user)) - {[]}"
    "us_state u = us_state (snd user)"
  using assms normalize_email_idem by (auto simp: normalize_user_def Let_def groups_of_def split: option.splits)

lemma put_user_ok: "users_ok t \<Longrightarrow> put_user user t = Inr t1 \<Longrightarrow> users_ok t1"
  unfolding users_ok_def by (cases "normalize_user user") (fastforce simp: put_user_def normalize_user_Inr split: if_splits)+

lemma initialize_users_ok: "users_ok t \<Longrightarrow> initialize_users users t = Inr t1 \<Longrightarrow> users_ok t1"
proof (induction users arbitrary: t)
  case (Cons user users)
  then show ?case
    by (cases "if get_user t (fst user) = None then put_user user t else Inr t") (auto split: if_splits dest: put_user_ok)
qed simp

lemma reachable_users_ok: "users_reachable digest t \<Longrightarrow> users_ok t"
proof (induction rule: users_reachable.induct)
  case empty
  show ?case by (simp add: users_ok_def)
next
  case (reconcile t now fits q r t1)
  then show ?case
    by (auto simp: reconcile_user_assignments_def rbind_Inr put_user_ok split: if_splits option.splits)
qed (auto simp: update_user_profile_def create_user_def rbind_Inr initialize_users_ok intro: put_user_ok split: option.splits)

lemma with_legacy_groups: "with_legacy_assignment_state (e, u) legacy = Inr (e1, u1) \<Longrightarrow> e1 = e \<and> groups_of u1 = groups_of u \<and> (us_state u \<noteq> None \<longrightarrow> u1 = u)"
  by (auto simp: with_legacy_assignment_state_def rbind_Inr groups_of_def split: option.splits if_splits)

text \<open>Evaluating the result of an evaluation: nothing changes.\<close>

lemma evaluate_again:
  assumes ev: "evaluate_assignments now (email, u) rules legacy revision evidence True = Inr r" and d: "distinct (map ru_id rules)"
    and clean: "\<forall>g \<in> set (groups_of u). group_name g = g \<and> g \<noteq> []"
    and ch: "ed_changed r" and v: "set (groups_of v) = set (groups_of (snd (ed_user r)))" "us_state v = us_state (snd (ed_user r))"
  shows "evaluate_assignments now1 (email, v) rules legacy revision evidence True =
    Inr \<lparr>ed_changed = False, ed_user = (email, v), ed_matched = ed_matched r, ed_retained = ed_retained r\<rparr>"
proof -
  let ?k = "evaluate_rules email evidence (st_assignments (state_of u)) rules" and ?own = "own_assignments (evaluate_rules email evidence (st_assignments (state_of u)) rules)"
  note f = evaluate_forced [OF ev]
  have user: "us_state (snd (ed_user r)) = Some \<lparr>st_revision = revision, st_assignments = ?own, st_updated = Some now\<rparr>"
    using f(5) ch by (metis (no_types, lifting) snd_conv user_record.select_convs(6) user_record.surjective user_record.update_convs(6))
  have state: "state_of v = \<lparr>st_revision = revision, st_assignments = ?own, st_updated = Some now\<rparr>" using user v(2) by (simp add: state_of_def)
  have again: "evaluate_rules email evidence ?own rules = ?k" by (rule evaluate_rules_again [OF d f(1)])
  have ok: "\<not> list_ex (\<lambda>e. snd e = None) (ek_assignments ?k)" using f(1) by (auto simp: list_ex_iff)
  have held: "set (groups_of v) = group_name ` (set (manual_groups u) \<union> entry_groups ?own) - {[]}" using f(2,5) ch v(1) by simp
  have manual: "set (manual_groups v) = {g \<in> set (groups_of v). g \<notin> entry_groups ?own \<and> \<not> starts_with ''assignment.'' g}"
    by (auto simp: manual_groups_def state entry_groups_def)
  have old: "g \<in> set (manual_groups u) \<Longrightarrow> group_name g = g \<and> g \<noteq> [] \<and> \<not> starts_with ''assignment.'' g" for g
    using clean by (auto simp: manual_groups_def)
  have "group_name ` set (groups_of v) - {[]} = group_name ` (set (manual_groups v) \<union> entry_groups ?own) - {[]}"
    unfolding manual
  proof (intro equalityI subsetI)
    fix g assume "g \<in> group_name ` set (groups_of v) - {[]}"
    then have g: "g \<in> set (groups_of v)" "g \<noteq> []" "group_name g = g" unfolding held by auto
    show "g \<in> group_name ` ({g \<in> set (groups_of v). g \<notin> entry_groups ?own \<and> \<not> starts_with ''assignment.'' g} \<union> entry_groups ?own) - {[]}"
    proof (cases "g \<in> group_name ` entry_groups ?own")
      case False
      then have "g \<in> set (manual_groups u)" "g \<notin> entry_groups ?own" using g old unfolding held by (auto simp: image_iff)
      then have "g \<in> {g \<in> set (groups_of v). g \<notin> entry_groups ?own \<and> \<not> starts_with ''assignment.'' g}" using g old [of g] by simp
      then show ?thesis using g(2,3) by force
    qed (use g in auto)
  next
    fix g assume "g \<in> group_name ` ({g \<in> set (groups_of v). g \<notin> entry_groups ?own \<and> \<not> starts_with ''assignment.'' g} \<union> entry_groups ?own) - {[]}"
    then have "g \<in> group_name ` set (groups_of v) \<or> g \<in> set (groups_of v)" "g \<noteq> []" unfolding held by auto
    moreover have "g \<in> set (groups_of v) \<Longrightarrow> group_name g = g" unfolding held by auto
    ultimately show "g \<in> group_name ` set (groups_of v) - {[]}" by (metis Diff_iff empty_iff image_eqI insert_iff)
  qed
  then have "normalize_groups (groups_of v) = normalize_groups (manual_groups v @ concat (map (\<lambda>e. ae_groups (snd e)) (object_order ?own)))"
    unfolding normalize_groups_eq by (simp add: entry_groups_def)
  then show ?thesis
    unfolding evaluate_assignments_def Let_def prod.case state assignment_state.simps again own_assignments_def [symmetric] using ok f(3,4) by simp
qed

lemma revision_not_empty: "prepared_revision digest rules \<noteq> []" "assignment_rules_revision rules \<noteq> []"
  by (simp_all add: prepared_revision_def assignment_rules_revision_def)

text \<open>What a reconciliation read and stored.\<close>

lemma reconcile_cases:
  assumes "reconcile_user_assignments digest now fits q t = Inr (r, t1)"
  obtains e u u1 where "fits" "normalize_email (rc_email q) = Some e" "t e = Some u" "with_legacy_assignment_state (e, u) (rc_legacy q) = Inr (e, u1)"
    "evaluate_assignments now (e, u1) (rc_rules q) (assignment_rules_revision (rc_rules q)) (prepared_revision digest (rc_rules q)) (rc_evidence q) (rc_force q) = Inr r"
    "(if ed_changed r then put_user (ed_user r) t else Inr t) = Inr t1"
proof -
  from assms obtain e u where eu: "fits" "normalize_email (rc_email q) = Some e" "t e = Some u"
    by (cases "normalize_email (rc_email q)") (auto simp: reconcile_user_assignments_def get_user_def split: if_splits option.splits)
  then obtain c where c: "with_legacy_assignment_state (e, u) (rc_legacy q) = Inr c"
      "evaluate_assignments now c (rc_rules q) (assignment_rules_revision (rc_rules q)) (prepared_revision digest (rc_rules q)) (rc_evidence q) (rc_force q) = Inr r"
      "(if ed_changed r then put_user (ed_user r) t else Inr t) = Inr t1"
    using assms by (auto simp: reconcile_user_assignments_def get_user_def rbind_Inr)
  then show ?thesis using eu that with_legacy_groups [of e u "rc_legacy q"] by (cases c) auto
qed

lemma user_kept:
  "x = (email, u\<lparr>us_role := a, us_groups := b, us_state := Some st\<rparr>) \<Longrightarrow> fst x = email"
  "x = (email, u\<lparr>us_role := a, us_groups := b, us_state := Some st\<rparr>) \<Longrightarrow> us_state (snd x) \<noteq> None"
  by simp_all

lemma reconcile_changed:
  assumes t: "users_ok t" "t e = Some u" "with_legacy_assignment_state (e, u) (rc_legacy q) = Inr (e, u1)" "normalize_email (rc_email q) = Some e" "rc_force q"
    and ev: "evaluate_assignments now (e, u1) (rc_rules q) (assignment_rules_revision (rc_rules q)) (prepared_revision digest (rc_rules q)) (rc_evidence q) True = Inr r"
    and d: "distinct (map ru_id (rc_rules q))" and ch: "ed_changed r" "put_user (ed_user r) t = Inr t1"
  shows "\<exists>v r1. t1 e = Some v \<and> set (groups_of v) = set (normalize_groups (groups_of (snd (ed_user r)))) \<and>
    reconcile_user_assignments digest now1 True q t1 = Inr (r1, t1) \<and> \<not> ed_changed r1 \<and> ed_matched r1 = ed_matched r \<and> ed_retained r1 = ed_retained r"
proof -
  note f = evaluate_forced [OF ev]
  have clean: "\<forall>g \<in> set (groups_of u1). group_name g = g \<and> g \<noteq> []" using t(1,2) with_legacy_groups [OF t(3)] by (simp add: users_ok_def)
  have user: "fst (ed_user r) = e" "us_state (snd (ed_user r)) \<noteq> None" 
    using f(5) [unfolded if_P [OF ch(1)], THEN conjunct1] by (rule user_kept)+
  obtain e1 v where n: "normalize_user (ed_user r) = Inr (e1, v)" "t1 = t(e1 \<mapsto> v)" using ch(2) by (auto simp: put_user_def rbind_Inr)
  note nv = normalize_user_Inr [OF n(1)]
  have e1: "e1 = e" using nv(1) user(1) normalize_email_idem [OF t(4)] by simp
  have g: "set (groups_of v) = set (groups_of (snd (ed_user r)))" using f(5) ch(1) nv(3) by (metis set_normalize_groups)
  have "with_legacy_assignment_state (e, v) (rc_legacy q) = Inr (e, v)" using nv(4) user(2) by (simp add: with_legacy_assignment_state_def)
  then have "reconcile_user_assignments digest now1 True q t1 = Inr (\<lparr>ed_changed = False, ed_user = (e, v), ed_matched = ed_matched r, ed_retained = ed_retained r\<rparr>, t1)"
    using t(4,5) n(2) e1 evaluate_again [OF ev d clean ch(1) g nv(4)] by (simp add: reconcile_user_assignments_def get_user_def)
  then show ?thesis using n(2) e1 nv(3) by (simp add: set_normalize_groups)
qed

lemma evaluate_unchanged:
  "evaluate_assignments now user rules legacy revision evidence force = Inr r \<Longrightarrow> \<not> ed_changed r \<Longrightarrow>
   evaluate_assignments now1 user rules legacy revision evidence force = Inr r"
  by (cases user) (auto simp: evaluate_assignments_def Let_def split: if_splits)

lemma reconcile_unchanged:
  assumes t: "users_ok t" "t e = Some u" "with_legacy_assignment_state (e, u) (rc_legacy q) = Inr (e, u1)" "normalize_email (rc_email q) = Some e" "rc_force q"
    and ev: "evaluate_assignments now (e, u1) (rc_rules q) (assignment_rules_revision (rc_rules q)) (prepared_revision digest (rc_rules q)) (rc_evidence q) True = Inr r"
    and ch: "\<not> ed_changed r"
  shows "set (groups_of u) = set (normalize_groups (groups_of (snd (ed_user r)))) \<and> reconcile_user_assignments digest now1 True q t = Inr (r, t)"
proof -
  have same: "st_revision (state_of u1) = assignment_rules_revision (rc_rules q) \<or> st_revision (state_of u1) = prepared_revision digest (rc_rules q)" "ed_user r = (e, u1)"
    using evaluate_forced(5) [OF ev] ch by auto
  have "us_state u \<noteq> None"
  proof
    assume "us_state u = None"
    then have "st_revision (state_of u1) = []" using t(3)
      by (auto simp: with_legacy_assignment_state_def rbind_Inr state_of_def no_assignments_def split: option.splits)
    then show False using same(1) revision_not_empty by metis
  qed
  then have u: "u1 = u" using with_legacy_groups [OF t(3)] by simp
  have "reconcile_user_assignments digest now1 True q t = Inr (r, t)"
    using t ch evaluate_unchanged [OF ev ch, of now1] by (simp add: reconcile_user_assignments_def get_user_def u)
  then show ?thesis using t(1,2) same(2) u by (auto simp: users_ok_def set_normalize_groups image_iff)
qed

text \<open>
  C31. After a forced reconciliation of a user in any reachable table, the stored user holds an
  \<open>assignment.\<close> group only when one of the rules gives it, whatever was written into the groups before; and
  reconciling again with the same rules and evidence reports the same rules and changes nothing.
\<close>

theorem reconciliation_is_settled:
  assumes "users_reachable digest t" and "reconcile_user_assignments digest now fits q t = Inr (r, t1)" and "rc_force q"
    and "distinct (map ru_id (rc_rules q))" and "''__proto__'' \<notin> ru_id ` set (rc_rules q)"
  shows "\<exists>e u0 u1 u r1. normalize_email (rc_email q) = Some e \<and> t e = Some u0 \<and> with_legacy_assignment_state (e, u0) (rc_legacy q) = Inr (e, u1) \<and> t1 e = Some u \<and>
      (\<forall>g \<in> set (groups_of u). starts_with ''assignment.'' g \<longrightarrow>
         (\<exists>h. g = group_name h \<and> (\<exists>x \<in> set (rc_rules q). gives e (rc_evidence q) (st_assignments (state_of u1)) h x))) \<and>
      reconcile_user_assignments digest now1 fits q t1 = Inr (r1, t1) \<and> \<not> ed_changed r1 \<and> ed_matched r1 = ed_matched r \<and> ed_retained r1 = ed_retained r"
proof -
  let ?L = "assignment_rules_revision (rc_rules q)" and ?R = "prepared_revision digest (rc_rules q)"
  obtain e u u1 where q: "fits" "normalize_email (rc_email q) = Some e" "t e = Some u" "with_legacy_assignment_state (e, u) (rc_legacy q) = Inr (e, u1)"
    and ev0: "evaluate_assignments now (e, u1) (rc_rules q) ?L ?R (rc_evidence q) (rc_force q) = Inr r"
    and t1: "(if ed_changed r then put_user (ed_user r) t else Inr t) = Inr t1"
    by (rule reconcile_cases [OF assms(2)])
  have ev: "evaluate_assignments now (e, u1) (rc_rules q) ?L ?R (rc_evidence q) True = Inr r" using ev0 assms(3) by simp
  note ok = reachable_users_ok [OF assms(1)] and f = evaluate_forced [OF ev]
  obtain v r1 where v: "t1 e = Some v" "set (groups_of v) = set (normalize_groups (groups_of (snd (ed_user r))))"
    and again: "reconcile_user_assignments digest now1 fits q t1 = Inr (r1, t1)" "\<not> ed_changed r1" "ed_matched r1 = ed_matched r" "ed_retained r1 = ed_retained r"
    using reconcile_changed [OF ok q(3,4,2) assms(3) ev assms(4), of t1 now1] reconcile_unchanged [OF ok q(3,4,2) assms(3) ev, of now1] t1 q(1,3)
    by (cases "ed_changed r") auto
  have clean: "\<forall>g \<in> set (groups_of u1). group_name g = g" using ok q(3) with_legacy_groups [OF q(4)] by (simp add: users_ok_def)
  have "\<exists>h. g = group_name h \<and> (\<exists>x \<in> set (rc_rules q). gives e (rc_evidence q) (st_assignments (state_of u1)) h x)"
    if g: "g \<in> set (groups_of v)" "starts_with ''assignment.'' g" for g
  proof -
    obtain h where h: "g = group_name h" "h \<in> set (manual_groups u1) \<or> (\<exists>x \<in> set (rc_rules q). gives e (rc_evidence q) (st_assignments (state_of u1)) h x)"
      using g(1) unfolding v(2) f(2) own_assignments_groups [OF assms(4,5) f(1), symmetric] by auto
    moreover have "h \<notin> set (manual_groups u1)" using g(2) h(1) clean by (auto simp: manual_groups_def)
    ultimately show ?thesis by blast
  qed
  with q(2-4) v(1) again show ?thesis by blast
qed

subsection \<open>A worked example\<close>

definition sample_rules :: "assignment_rule list" where
  "sample_rules = map (\<lambda>(i, k, s, gs, ps). \<lparr>ru_id = i, ru_version = 1, ru_enabled = True, ru_kind = k, ru_subject = s, ru_groups = gs, ru_policies = ps,
     ru_priority = 100, ru_revoke = True, ru_provenance = ''access'', ru_generated = assignment_group i\<rparr>)
     [(''staff'', EmailDomain, ''x.io'', [''Staff''], []), (''ops'', GithubTeam, ''x/ops'', [], [''p''])]"

definition sample_user :: access_user where
  "sample_user = (''a@x.io'', \<lparr>us_role = None, us_tenant = None, us_enabled = None, us_groups = Some [''Zeta'', ''assignment.root''], us_retention = None,
     us_state = None, us_overrides = None\<rparr>)"

definition sample_reconcile :: reconcile_request where
  "sample_reconcile = \<lparr>rc_email = '' A@x.io'', rc_rules = sample_rules, rc_legacy = None, rc_evidence = Some \<lparr>ev_orgs = [], ev_teams = [''x/ops'']\<rparr>, rc_force = True\<rparr>"

definition sample_users :: user_table where
  "sample_users = (case put_user sample_user (\<lambda>_. None) of Inr t \<Rightarrow> t | Inl e \<Rightarrow> (\<lambda>_. None))"

lemma sample_users_reachable: "users_reachable digest sample_users"
proof -
  have "\<not> isl (put_user sample_user (\<lambda>_. None))" by code_simp
  then obtain t where t: "put_user sample_user (\<lambda>_. None) = Inr t" by (cases "put_user sample_user (\<lambda>_. None)") auto
  from put [OF empty this] show ?thesis by (simp add: sample_users_def t)
qed


theorem reconciliation_is_settled_witness:
  "\<exists>t1 r. users_reachable (\<lambda>s. s) sample_users \<and> reconcile_user_assignments (\<lambda>s. s) ''now'' True sample_reconcile sample_users = Inr (r, t1) \<and>
     (\<exists>r1. reconcile_user_assignments (\<lambda>s. s) ''later'' True sample_reconcile t1 = Inr (r1, t1) \<and> \<not> ed_changed r1 \<and> ed_matched r1 = [''staff'', ''ops''])"
proof -
  have ok: "(case reconcile_user_assignments (\<lambda>s. s) ''now'' True sample_reconcile sample_users of Inr (r, t1) \<Rightarrow> ed_matched r = [''staff'', ''ops''] | Inl e \<Rightarrow> False)"
    by code_simp
  then obtain r t1 where r: "reconcile_user_assignments (\<lambda>s. s) ''now'' True sample_reconcile sample_users = Inr (r, t1)" "ed_matched r = [''staff'', ''ops'']"
    by (auto split: sum.splits prod.splits)
  have q: "rc_force sample_reconcile" "distinct (map ru_id (rc_rules sample_reconcile))" "''__proto__'' \<notin> ru_id ` set (rc_rules sample_reconcile)" by code_simp+
  from reconciliation_is_settled [OF sample_users_reachable r(1) q, of "''later''"] r show ?thesis using sample_users_reachable by metis
qed



end
