(* ===== verification/Responses_Scope.thy ===== *)
theory Responses_Scope
  imports Background_Runs
begin

section \<open>The object that hosts continuations and background jobs\<close>

text \<open>
  \<open>worker/responses-scope.ts\<close>: one durable object holds the continuation store and the background store,
  runs every mutation on one serialized tail and owns one alarm. A mutation is a transaction: an error
  leaves both stores as they were; the alarm is rescheduled either way. Network calls do not hold the tail,
  so a handler takes one \<open>pause\<close> per call: the clock, the fate of the message, and what other requests did to
  the whole system before the call arrived and before its reply was read.
\<close>

record responses_scope =
  sc_jobs :: background_store
  sc_continuations :: continuation_store
  sc_alarm :: "int option"

record scope_system =
  sy_scope :: responses_scope
  sy_world :: world

record pause =
  pa_now :: int
  pa_link :: link
  pa_before :: "scope_system \<Rightarrow> scope_system"
  pa_after :: "scope_system \<Rightarrow> scope_system"

subsection \<open>The alarm\<close>

definition scope_deadlines :: "responses_scope \<Rightarrow> int list" where
  "scope_deadlines s = List.map_filter (\<lambda>x. x) [continuation_deadline (sc_continuations s), next_deadline (sc_jobs s)]"

definition schedule_scope :: "int \<Rightarrow> bool \<Rightarrow> responses_scope \<Rightarrow> responses_scope" where
  "schedule_scope now fired s = s\<lparr>sc_alarm := (case scope_deadlines s of
     [] \<Rightarrow> None
   | d # ds \<Rightarrow> (let goal = max (now + 1000) (fold min ds d)
       in case (if fired then None else sc_alarm s) of
            None \<Rightarrow> Some goal
          | Some set_for \<Rightarrow> if set_for > goal then Some goal else Some set_for))\<rparr>"

text \<open>\<open>serial\<close>: the operation, then the schedule, whatever the operation answered.\<close>

definition serial :: "int \<Rightarrow> bool \<Rightarrow> bool \<Rightarrow> (responses_scope \<Rightarrow> ('a \<times> responses_scope) result) \<Rightarrow> responses_scope \<Rightarrow> 'a result \<times> responses_scope" where
  "serial now schedule fired f s = (case f s of
     Inl e \<Rightarrow> (Inl e, if schedule then schedule_scope now fired s else s)
   | Inr (x, s1) \<Rightarrow> (Inr x, if schedule then schedule_scope now fired s1 else s1))"

text \<open>An operation of the background store, with the bindings it closes in the other store.\<close>

definition on_jobs :: "(background_store \<Rightarrow> ('a \<times> background_store) result) \<Rightarrow> responses_scope \<Rightarrow> ('a \<times> responses_scope) result" where
  "on_jobs f s = rbind (f (sc_jobs s)) (\<lambda>(x, jobs).
     Inr (x, s\<lparr>sc_jobs := jobs\<lparr>bs_closed := []\<rparr>, sc_continuations := fold close_background (bs_closed jobs) (sc_continuations s)\<rparr>))"

definition mutate :: "int \<Rightarrow> (background_store \<Rightarrow> ('a \<times> background_store) result) \<Rightarrow> scope_system \<Rightarrow> 'a result \<times> scope_system" where
  "mutate now f y = (let (x, s) = serial now True False (on_jobs f) (sy_scope y) in (x, y\<lparr>sy_scope := s\<rparr>))"

subsection \<open>Handlers\<close>

definition scope_alarm :: "publisher \<Rightarrow> int \<Rightarrow> responses_scope \<Rightarrow> background_record list result \<times> responses_scope" where
  "scope_alarm pb now s = serial now True True
     (\<lambda>s. on_jobs (claim (pb_bytes pb) now None) (s\<lparr>sc_continuations := continuation_expire now (sc_continuations s)\<rparr>)) s"

text \<open>
  A continuation request. \<open>response\<close> is the identity the request carries and \<open>keyed_right\<close> tells whether its key is
  the one that is claimed; a job of the request must be its own, and a stored registration commits the
  job's identity in the same transaction. Owners are compared as records; the source compares their texts,
  which every caller writes with one order of members.
\<close>

definition owner_conflict :: error where "owner_conflict = HttpError 409 ''background_owner_conflict''"

definition registered_identity :: "(row_body \<Rightarrow> int) \<Rightarrow> int \<Rightarrow> string option \<Rightarrow> background_record option \<Rightarrow> continuation_reply \<Rightarrow> responses_scope \<Rightarrow> (unit \<times> responses_scope) result" where
  "registered_identity bytes now response job reply s = (case (job, response, reply) of
     (Some r, Some v, Outcome out owned) \<Rightarrow>
       if live_background r \<and> out = ''stored'' then on_jobs (bind_identity bytes now (bg_id (rec_summary r)) v) s else Inr ((), s)
   | _ \<Rightarrow> Inr ((), s))"

definition owned_by :: "continuation_owner option \<Rightarrow> background_record \<Rightarrow> bool" where
  "owned_by ow r = (case rec_op r of LiveJob j \<Rightarrow> ow = Some (bg_owner j) | Closed p u \<Rightarrow> True)"

definition job_flags :: "background_record option \<Rightarrow> background_flags" where
  "job_flags job = (case job of
     None \<Rightarrow> \<lparr>bf_closed = False, bf_retired = False, bf_stream = False\<rparr>
   | Some r \<Rightarrow> (case rec_op r of
         LiveJob j \<Rightarrow> \<lparr>bf_closed = (bg_event j \<noteq> None), bf_retired = False, bf_stream = bg_stream j\<rparr>
       | Closed p u \<Rightarrow> \<lparr>bf_closed = True, bf_retired = True, bf_stream = False\<rparr>))"

definition continuation_request ::
    "(rat \<Rightarrow> string) \<Rightarrow> (row_body \<Rightarrow> int) \<Rightarrow> int \<Rightarrow> continuation_input \<Rightarrow> string option \<Rightarrow> responses_scope \<Rightarrow> (continuation_reply \<times> responses_scope) result" where
  "continuation_request num bytes now inp response s =
     (let job = (case ci_job inp of Some i \<Rightarrow> if i = [] then None else get_record i (sc_jobs s) | None \<Rightarrow> None);
          named = (case ci_job inp of Some i \<Rightarrow> i \<noteq> [] | None \<Rightarrow> False)
      in if (case job of Some r \<Rightarrow> rec_managed r \<noteq> None | None \<Rightarrow> False) then Inl (HttpError 409 ''background_protocol_conflict'')
         else if named \<and> (case job of None \<Rightarrow> True | Some r \<Rightarrow> \<not> owned_by (valid_owner (ci_owner inp)) r) then Inl owner_conflict
         else rbind (continuation_handle num now inp (job_flags job) (sc_continuations s)) (\<lambda>(st, reply).
              rbind (registered_identity bytes now response job reply (s\<lparr>sc_continuations := st\<rparr>)) (\<lambda>(_, s1). Inr (reply, s1))))"

definition scope_continuation ::
    "(rat \<Rightarrow> string) \<Rightarrow> (row_body \<Rightarrow> int) \<Rightarrow> int \<Rightarrow> continuation_input \<Rightarrow> string option \<Rightarrow> bool \<Rightarrow> responses_scope \<Rightarrow> continuation_reply result \<times> responses_scope" where
  "scope_continuation num bytes now inp response keyed_right s =
     (if (case ci_job inp of Some i \<Rightarrow> i \<noteq> [] \<and> (response = None \<or> \<not> keyed_right) | None \<Rightarrow> False)
      then (Inl (HttpError 400 ''background_identity_invalid''), s)
      else serial now (ci_action inp \<noteq> ''resolve'') False (continuation_request num bytes now inp response) s)"

subsection \<open>Reserving the budget of a job\<close>

definition pause_of :: "pause list \<Rightarrow> pause" where
  "pause_of ps = (case ps of p # _ \<Rightarrow> p | [] \<Rightarrow> \<lparr>pa_now = 0, pa_link = Delivered, pa_before = (\<lambda>y. y), pa_after = (\<lambda>y. y)\<rparr>)"

definition call_world :: "pause \<Rightarrow> (world \<Rightarrow> 'a \<times> world) \<Rightarrow> scope_system \<Rightarrow> 'a \<times> scope_system" where
  "call_world p f y = (let y1 = pa_before p y; (x, w) = f (sy_world y1) in (x, pa_after p (y1\<lparr>sy_world := w\<rparr>)))"

definition http_error :: "error \<Rightarrow> error" where
  "http_error e = (case e of HttpError st code \<Rightarrow> e | Thrown m \<Rightarrow> HttpError 503 ''accounting_unavailable'')"

definition failed_status :: "error \<Rightarrow> int" where
  "failed_status e = (case e of HttpError st code \<Rightarrow> st | Thrown m \<Rightarrow> 503)"

text \<open>A refused or unanswered leg: the refusal is recorded and the job frozen as never billed.\<close>

definition reserve_failed :: "publisher \<Rightarrow> int \<Rightarrow> string \<Rightarrow> nat \<Rightarrow> bool \<Rightarrow> error \<Rightarrow> scope_system \<Rightarrow> unit result \<times> scope_system" where
  "reserve_failed pb now i n upload e y =
     (let (x, y1) = mutate now (\<lambda>s. rbind (if failed_status e = 402 then map_sum (\<lambda>x. x) snd (reserved (pb_bytes pb) now i n False upload s) else Inr s)
            (\<lambda>s1. freeze (pb_bytes pb) now i
               (bare_outcome now (Some (failed_status e)) (if failed_status e = 402 then Denied else ProviderError) False) s1)) y
      in case x of Inl e1 \<Rightarrow> (Inl e1, y1) | Inr _ \<Rightarrow> (Inl (http_error e), y1))"

fun reserve_legs :: "publisher \<Rightarrow> string \<Rightarrow> bool \<Rightarrow> nat list \<Rightarrow> pause list \<Rightarrow> scope_system \<Rightarrow> unit result \<times> scope_system" where
  "reserve_legs pb i upload [] ps y = (Inr (), y)"
| "reserve_legs pb i upload (n # ns) ps y =
     (let p = pause_of ps; now = pa_now p
      in case mutate now (begin_reserve (pb_bytes pb) now i n upload) y of
           (Inl e, y1) \<Rightarrow> (Inl e, y1)
         | (Inr intent, y1) \<Rightarrow> (case call_world p (reserve_ledger_intent (pa_link p) now intent) y1 of
               (Inl e, y2) \<Rightarrow> reserve_failed pb now i n upload e y2
             | (Inr _, y2) \<Rightarrow> (case mutate now (reserved (pb_bytes pb) now i n True upload) y2 of
                   (Inl e, y3) \<Rightarrow> reserve_failed pb now i n upload e y3
                 | (Inr _, y3) \<Rightarrow> reserve_legs pb i upload ns (tl ps) y3)))"

definition scope_admit :: "publisher \<Rightarrow> int \<Rightarrow> background_admission \<Rightarrow> pause list \<Rightarrow> scope_system \<Rightarrow> unit result \<times> scope_system" where
  "scope_admit pb now a ps y = (case mutate now (admit (pb_bytes pb) now a) y of
     (Inl e, y1) \<Rightarrow> (Inl e, y1)
   | (Inr r, y1) \<Rightarrow> reserve_legs pb (ad_id a) False [0..<length (legs (ad_plan a))] ps y1)"

subsection \<open>Dispatching a job\<close>

fun mark_legs :: "publisher \<Rightarrow> string \<Rightarrow> (nat \<times> background_leg) list \<Rightarrow> pause list \<Rightarrow> scope_system \<Rightarrow> unit result \<times> scope_system" where
  "mark_legs pb i [] ps y = (Inr (), y)"
| "mark_legs pb i ((n, l) # ls) ps y =
     (let p = pause_of ps; now = pa_now p
      in case call_world p (mark_budget_dispatched [pa_link p] now [leg_reservation l]) y of
           (Inl e, y1) \<Rightarrow> (Inl e, y1)
         | (Inr _, y1) \<Rightarrow> (case mutate now (leg_dispatched (pb_bytes pb) now i n False) y1 of
               (Inl e, y2) \<Rightarrow> (Inl e, y2)
             | (Inr _, y2) \<Rightarrow> mark_legs pb i ls (tl ps) y2))"

definition job_legs :: "background_record \<Rightarrow> background_leg list" where
  "job_legs r = (case rec_op r of LiveJob j \<Rightarrow> bg_legs j | Closed p u \<Rightarrow> [])"

definition scope_dispatch :: "publisher \<Rightarrow> int \<Rightarrow> string \<Rightarrow> string option \<Rightarrow> pause list \<Rightarrow> int \<Rightarrow> scope_system \<Rightarrow> unit result \<times> scope_system" where
  "scope_dispatch pb now i content ps later y = (case mutate now (begin_dispatch (pb_bytes pb) now i content False) y of
     (Inl e, y1) \<Rightarrow> (Inl e, y1)
   | (Inr r, y1) \<Rightarrow>
       (case (case mark_legs pb i (zip [0..<length (job_legs r)] (job_legs r)) ps y1 of
              (Inl e, y2) \<Rightarrow> (Inl e, y2)
            | (Inr _, y2) \<Rightarrow> (case mutate later (begin_egress (pb_bytes pb) later i) y2 of (x, y3) \<Rightarrow> (map_sum (\<lambda>e. e) (\<lambda>_. ()) x, y3))) of
          (Inr _, y4) \<Rightarrow> (Inr (), y4)
        | (Inl e, y4) \<Rightarrow>
            (case mutate later (freeze (pb_bytes pb) later i ((bare_outcome later (Some 503) ProviderError False)\<lparr>ao_content := content\<rparr>)) y4 of
               (Inl e1, y5) \<Rightarrow> (Inl e1, y5) | (Inr _, y5) \<Rightarrow> (Inl e, y5))))"

subsection \<open>Observing a response\<close>

record observation =
  ob_id :: string
  ob_status :: string
  ob_terminal :: bool
  ob_tokens :: "usage_tokens option"

definition observed_outcome :: "int \<Rightarrow> int \<Rightarrow> observation \<Rightarrow> background_job \<Rightarrow> accounting_outcome" where
  "observed_outcome now code seen j =
     (bare_outcome now (Some code) (if ob_status seen = ''completed'' \<or> ob_status seen = ''incomplete'' then Success else ProviderError) True)
       \<lparr>ao_tokens := ob_tokens seen, ao_content := bg_content j\<rparr>"

definition observe_job :: "publisher \<Rightarrow> int \<Rightarrow> string \<Rightarrow> observation \<Rightarrow> int \<Rightarrow> nat option \<Rightarrow> background_store \<Rightarrow> (unit \<times> background_store) result" where
  "observe_job pb now i seen code attempt s = (case get_record i s of
     None \<Rightarrow> Inr ((), s)
   | Some r \<Rightarrow> (case rec_op r of
         Closed p u \<Rightarrow> Inr ((), s)
       | LiveJob j \<Rightarrow>
           if bg_event j \<noteq> None \<or> attempt \<noteq> None \<and> attempt \<noteq> Some (bg_attempts j) \<or> bg_observe_until j \<le> now then Inr ((), s)
           else if rec_managed r \<noteq> None then Inl (HttpError 409 ''background_protocol_conflict'')
           else rbind (bind_identity (pb_bytes pb) now i (ob_id seen) s) (\<lambda>(_, s1).
             if ob_terminal seen then rbind (freeze (pb_bytes pb) now i (observed_outcome now code seen j) s1) (\<lambda>(_, s2). Inr ((), s2)) else Inr ((), s1))))"

definition scope_observe :: "publisher \<Rightarrow> int \<Rightarrow> string \<Rightarrow> observation \<Rightarrow> int \<Rightarrow> nat option \<Rightarrow> scope_system \<Rightarrow> unit result \<times> scope_system" where
  "scope_observe pb now i seen code attempt y = mutate now (observe_job pb now i seen code attempt) y"

subsection \<open>Runs of the object\<close>

datatype scope_op =
    JobStep int background_op
  | ObserveStep int string observation int "nat option"
  | AlarmFires int
  | ContinuationStep int continuation_input "string option" bool

definition publishes :: "background_op \<Rightarrow> bool" where
  "publishes op = (case op of AllocatePublished _ _ \<Rightarrow> True | ClaimPublication _ _ \<Rightarrow> True | BindPublished _ _ _ \<Rightarrow> True | ClaimForward _ _ _ \<Rightarrow> True | _ \<Rightarrow> False)"

primrec op_time :: "scope_op \<Rightarrow> int" where
  "op_time (JobStep now op) = now"
| "op_time (ObserveStep now i seen code attempt) = now"
| "op_time (AlarmFires now) = now"
| "op_time (ContinuationStep now inp response keyed_right) = now"

primrec scope_exec :: "(rat \<Rightarrow> string) \<Rightarrow> publisher \<Rightarrow> scope_op \<Rightarrow> responses_scope \<Rightarrow> responses_scope" where
  "scope_exec num pb (JobStep now op) s = snd (serial now (\<not> publishes op) False (on_jobs (\<lambda>jobs. Inr ((), background_exec pb op jobs))) s)"
| "scope_exec num pb (ObserveStep now i seen code attempt) s = snd (serial now True False (on_jobs (observe_job pb now i seen code attempt)) s)"
| "scope_exec num pb (AlarmFires now) s = snd (scope_alarm pb now s)"
| "scope_exec num pb (ContinuationStep now inp response keyed_right) s = snd (scope_continuation num (pb_bytes pb) now inp response keyed_right s)"

definition empty_scope :: responses_scope where
  "empty_scope = \<lparr>sc_jobs = empty_background, sc_continuations = empty_continuations, sc_alarm = None\<rparr>"

definition scope_run :: "(rat \<Rightarrow> string) \<Rightarrow> publisher \<Rightarrow> scope_op list \<Rightarrow> responses_scope" where
  "scope_run num pb ops = fold (scope_exec num pb) ops empty_scope"

definition covered :: "int \<Rightarrow> responses_scope \<Rightarrow> bool" where
  "covered t s \<longleftrightarrow> (\<forall>d \<in> set (scope_deadlines s). \<exists>a. sc_alarm s = Some a \<and> a \<le> max d (t + 1000))"

lemma fold_min_le: "x \<in> set (d # ds) \<Longrightarrow> fold min ds d \<le> (x :: int)"
proof -
  have "fold min ds d \<le> d \<and> (\<forall>x \<in> set ds. fold min ds d \<le> x)" for d :: int
    by (induction ds arbitrary: d) (simp, metis fold_simps(2) min.boundedE set_ConsD)
  then show "x \<in> set (d # ds) \<Longrightarrow> fold min ds d \<le> x" by auto
qed

lemma scope_deadlines_alarm [simp]: "scope_deadlines (s\<lparr>sc_alarm := a\<rparr>) = scope_deadlines s"
  by (simp add: scope_deadlines_def)

lemma schedule_covers: "now \<le> t \<Longrightarrow> covered t (schedule_scope now fired s)"
proof -
  assume t: "now \<le> t"
  show ?thesis
  proof (cases "scope_deadlines s")
    case (Cons d ds)
    have low: "max (now + 1000) (fold min ds d) \<le> max x (t + 1000)" if "x \<in> set (d # ds)" for x
      using fold_min_le [OF that] t by auto
    show ?thesis unfolding covered_def
    proof
      fix x assume "x \<in> set (scope_deadlines (schedule_scope now fired s))"
      then have "x \<in> set (d # ds)" using Cons by (simp add: schedule_scope_def)
      from low [OF this] show "\<exists>a. sc_alarm (schedule_scope now fired s) = Some a \<and> a \<le> max x (t + 1000)"
        by (auto simp: schedule_scope_def Cons Let_def split: option.split)
    qed
  qed (simp add: covered_def schedule_scope_def)
qed

lemma put_row_quiet:
  assumes "row \<in> set (bs_rows (put_row new s))" and "row_next new = None" and "row_next row = Some d"
  shows "row \<in> set (bs_rows s)"
  using assms by (auto simp: put_row_def update_where_def split: if_splits)

lemma commit_rows: "row \<in> set (bs_rows (commit r s)) \<Longrightarrow> row \<in> set (bs_rows s) \<or> (\<exists>x t. r = Inr (x, t) \<and> row \<in> set (bs_rows t))"
  by (cases r) auto

lemma published_rows:
  assumes "publishes op" and "row \<in> set (bs_rows (background_exec pb op s))" and "row_next row = Some d"
  shows "row \<in> set (bs_rows s)"
proof -
  have save: "save_published pb x s = Inr (y, t) \<Longrightarrow> row \<in> set (bs_rows t) \<Longrightarrow> row \<in> set (bs_rows s)" for x y t
    using put_row_quiet [OF _ _ assms(3)] by (auto simp: save_published_def split: if_splits)
  show ?thesis
  proof (cases op)
    case (AllocatePublished now b)
    then show ?thesis using assms(2) by (auto simp: allocate_published_def split: option.splits if_splits dest!: commit_rows dest: save)
  next
    case (ClaimPublication now b)
    then show ?thesis using assms(2) by (auto simp: claim_publication_def split: if_splits dest!: commit_rows dest: save)
  next
    case (BindPublished now b obj)
    then show ?thesis using assms(2) by (auto simp: bind_published_object_def split: if_splits dest!: commit_rows dest: save)
  next
    case (ClaimForward now b attempt)
    then show ?thesis using assms(2) by (auto simp: claim_forward_def split: if_splits dest!: commit_rows dest: save)
  qed (use assms(1) in \<open>simp_all add: publishes_def\<close>)
qed

lemma in_mapped: "y \<in> set (List.map_filter f xs) \<longleftrightarrow> (\<exists>x \<in> set xs. f x = Some y)"
  by (induction xs) (auto simp: List.map_filter_simps split: option.split)

lemma next_deadline_in: "next_deadline s = Some d \<Longrightarrow> \<exists>row \<in> set (bs_rows s). row_next row = Some d"
proof -
  have "fold min ts t \<in> set (t # ts)" for t :: int and ts by (induction ts arbitrary: t) (auto simp: min_def)
  then show "next_deadline s = Some d \<Longrightarrow> \<exists>row \<in> set (bs_rows s). row_next row = Some d"
    by (auto simp: next_deadline_def split: list.splits) (metis in_mapped list.set_intros)
qed

lemma next_deadline_le: "row \<in> set (bs_rows s) \<Longrightarrow> row_next row = Some d \<Longrightarrow> \<exists>e. next_deadline s = Some e \<and> e \<le> d"
proof -
  assume "row \<in> set (bs_rows s)" "row_next row = Some d"
  then have d: "d \<in> set (List.map_filter row_next (bs_rows s))" by (auto simp: in_mapped)
  then show ?thesis using fold_min_le by (cases "List.map_filter row_next (bs_rows s)") (auto simp: next_deadline_def)
qed

lemma continuation_deadline_le: "c \<in> set (cs_rows st) \<Longrightarrow> \<exists>e. continuation_deadline st = Some e \<and> e \<le> cn_expires c"
proof -
  assume c: "c \<in> set (cs_rows st)"
  then obtain x xs where x: "map cn_expires (cs_rows st) = x # xs" "cn_expires c \<in> set (x # xs)"
    by (metis (no_types, lifting) image_eqI list.set_map list.exhaust set_empty empty_iff)
  then have low: "fold min xs x \<le> cn_expires c" by (intro fold_min_le)
  then show ?thesis
    by (cases "witness_deadline (cs_witnesses st)") (auto simp: continuation_deadline_def x(1) List.map_filter_def)
qed

lemma close_background_expires: "map cn_expires (cs_rows (fold close_background is st)) = map cn_expires (cs_rows st)"
  "cs_witnesses (fold close_background is st) = cs_witnesses st"
proof -
  have one: "map cn_expires (cs_rows (close_background i st)) = map cn_expires (cs_rows st)" "cs_witnesses (close_background i st) = cs_witnesses st" for i st
    by (simp_all add: close_background_def update_where_def comp_def if_distrib [of cn_expires] cong: if_cong)
  show "map cn_expires (cs_rows (fold close_background is st)) = map cn_expires (cs_rows st)" "cs_witnesses (fold close_background is st) = cs_witnesses st"
    by (induction "is" arbitrary: st) (simp_all add: one)
qed

lemma close_background_deadline [simp]: "continuation_deadline (fold close_background is st) = continuation_deadline st"
  by (simp add: continuation_deadline_def close_background_expires)

lemma in_scope_deadlines: "d \<in> set (scope_deadlines s) \<longleftrightarrow> continuation_deadline (sc_continuations s) = Some d \<or> next_deadline (sc_jobs s) = Some d"
  unfolding scope_deadlines_def in_mapped by auto

lemma resolve_keeps:
  assumes "continuation_request num bytes now inp response s = Inr (x, s1)" and "ci_action inp = ''resolve''"
  shows "s1 = s"
proof -
  have handle: "continuation_handle num now inp flags st = Inr (st1, reply) \<Longrightarrow> st1 = st \<and> (\<forall>out owned. reply \<noteq> Outcome out owned)" for flags st st1 reply
    using assms(2) by (auto simp: continuation_handle_def Let_def split: if_splits)
  have id: "registered_identity bytes now response job reply y = Inr (z, s1) \<Longrightarrow> (\<forall>out owned. reply \<noteq> Outcome out owned) \<Longrightarrow> s1 = y" for job reply y z
    by (auto simp: registered_identity_def split: option.splits continuation_reply.splits)
  show ?thesis using assms(1) by (auto simp: continuation_request_def Let_def split: if_splits option.splits dest!: handle dest: id)
qed

lemma exec_covered:
  assumes "covered t s" and "op_time op \<le> t"
  shows "covered t (scope_exec num pb op s)"
proof (cases op)
  case (JobStep now bop)
  show ?thesis
  proof (cases "publishes bop")
    case True
    let ?s = "scope_exec num pb op s"
    have s1: "sc_alarm ?s = sc_alarm s" "continuation_deadline (sc_continuations ?s) = continuation_deadline (sc_continuations s)"
        "bs_rows (sc_jobs ?s) = bs_rows (background_exec pb bop (sc_jobs s))"
      using JobStep True by (simp_all add: serial_def on_jobs_def)
    have jobs: "\<exists>e. next_deadline (sc_jobs s) = Some e \<and> e \<le> d" if "next_deadline (sc_jobs ?s) = Some d" for d
      using next_deadline_in [OF that] next_deadline_le published_rows [OF True] unfolding s1(3) by blast
    show ?thesis unfolding covered_def
    proof
      fix d assume "d \<in> set (scope_deadlines ?s)"
      then obtain e where "e \<in> set (scope_deadlines s)" "e \<le> d" using jobs s1(2) unfolding in_scope_deadlines by (metis order_refl)
      with assms(1) show "\<exists>a. sc_alarm ?s = Some a \<and> a \<le> max d (t + 1000)" unfolding covered_def s1(1) by fastforce
    qed
  next
    case False
    then show ?thesis using JobStep assms(2) schedule_covers by (simp add: serial_def split: sum.split)
  qed
next
  case (ObserveStep now i seen code attempt)
  then show ?thesis using assms(2) schedule_covers by (simp add: serial_def split: sum.split prod.split)
next
  case (AlarmFires now)
  then show ?thesis using assms(2) schedule_covers by (simp add: scope_alarm_def serial_def split: sum.split prod.split)
next
  case (ContinuationStep now inp response ok)
  have "continuation_request num (pb_bytes pb) now inp response s = Inr (x, s1) \<Longrightarrow> ci_action inp = ''resolve'' \<Longrightarrow> covered t s1" for x s1
    using resolve_keeps assms(1) by blast
  then show ?thesis using ContinuationStep assms schedule_covers by (simp add: scope_continuation_def serial_def split: sum.split prod.split)
qed

lemma run_covered: "\<forall>op \<in> set ops. op_time op \<le> t \<Longrightarrow> covered t (scope_run num pb ops)"
proof -
  have "covered t s \<Longrightarrow> \<forall>op \<in> set ops. op_time op \<le> t \<Longrightarrow> covered t (fold (scope_exec num pb) ops s)" for s
    by (induction ops arbitrary: s) (simp_all add: exec_covered)
  moreover have "scope_deadlines empty_scope = []"
    by (simp add: scope_deadlines_def empty_scope_def empty_background_def empty_continuations_def empty_witnesses_def continuation_deadline_def next_deadline_def
        witness_deadline_def List.map_filter_def)
  then have "covered t empty_scope" by (simp add: covered_def)
  ultimately show "\<forall>op \<in> set ops. op_time op \<le> t \<Longrightarrow> covered t (scope_run num pb ops)" by (simp add: scope_run_def)
qed

text \<open>
  C32. Pending work is never forgotten: after any sequence of job operations, continuation requests and alarms up
  to a time, failed ones included, every row that still has an action to take has an alarm set no later
  than its time, or a second after the last operation when that time has passed; so does every stored
  continuation for its expiry.
\<close>

theorem pending_work_has_an_alarm:
  assumes "\<forall>op \<in> set ops. op_time op \<le> t"
  shows "(\<forall>row \<in> set (bs_rows (sc_jobs (scope_run num pb ops))). \<forall>d. row_next row = Some d \<longrightarrow>
      (\<exists>a. sc_alarm (scope_run num pb ops) = Some a \<and> a \<le> max d (t + 1000))) \<and>
    (\<forall>c \<in> set (cs_rows (sc_continuations (scope_run num pb ops))). \<exists>a. sc_alarm (scope_run num pb ops) = Some a \<and> a \<le> max (cn_expires c) (t + 1000))"
proof (intro conjI ballI allI impI)
  let ?s = "scope_run num pb ops"
  have cov: "\<exists>a. sc_alarm ?s = Some a \<and> a \<le> max d (t + 1000)" if "e \<in> set (scope_deadlines ?s)" "e \<le> d" for d e
    using run_covered [OF assms] that unfolding covered_def by fastforce
  fix row d assume "row \<in> set (bs_rows (sc_jobs ?s))" "row_next row = Some d"
  from next_deadline_le [OF this] cov show "\<exists>a. sc_alarm ?s = Some a \<and> a \<le> max d (t + 1000)" unfolding in_scope_deadlines by blast
next
  let ?s = "scope_run num pb ops"
  have cov: "\<exists>a. sc_alarm ?s = Some a \<and> a \<le> max d (t + 1000)" if "e \<in> set (scope_deadlines ?s)" "e \<le> d" for d e
    using run_covered [OF assms] that unfolding covered_def by fastforce
  fix c assume "c \<in> set (cs_rows (sc_continuations ?s))"
  from continuation_deadline_le [OF this] cov show "\<exists>a. sc_alarm ?s = Some a \<and> a \<le> max (cn_expires c) (t + 1000)" unfolding in_scope_deadlines by blast
qed

subsection \<open>A dispatched generation is funded\<close>

text \<open>
  The reservation of a leg is in its ledger, marked as dispatched, and young enough to be kept until \<open>t\<close>.
\<close>

definition funded :: "int \<Rightarrow> world \<Rightarrow> background_leg \<Rightarrow> bool" where
  "funded t w l = (case lookup_reservation (shards w (leg_object (lg_intent l))) (rq_id (leg_request (lg_intent l))) of
     None \<Rightarrow> False | Some r \<Rightarrow> dispatch_started r \<and> t \<le> created_at_ms r + charge_retention_ms)"

definition timely :: "int \<Rightarrow> pause \<Rightarrow> bool" where
  "timely t p \<longleftrightarrow> pa_now p \<le> t \<and> t \<le> pa_now p + charge_retention_ms - reservation_lease_ms"

text \<open>What is asked of the other requests: they are requests to the ledgers, so they keep the ledgers' invariant and what is dispatched.\<close>

definition considerate :: "int \<Rightarrow> (scope_system \<Rightarrow> scope_system) \<Rightarrow> bool" where
  "considerate t f \<longleftrightarrow> (\<forall>y. world_inv (sy_world y) \<longrightarrow> world_inv (sy_world (f y)) \<and> (\<forall>l. funded t (sy_world y) l \<longrightarrow> funded t (sy_world (f y)) l))"

lemma dispatch_funds:
  assumes "ledger_inv l0" and "dispatch now i (maintain now l0) = (DispatchReply, l1)" and "now \<le> t" and "t \<le> now + charge_retention_ms - reservation_lease_ms"
  shows "\<exists>r. lookup_reservation l1 i = Some r \<and> dispatch_started r \<and> t \<le> created_at_ms r + charge_retention_ms"
proof -
  obtain r where r: "lookup_reservation (maintain now l0) i = Some r" "now < created_at_ms r + reservation_lease_ms"
      "l1 = update_reservation i start_dispatch (maintain now l0)"
    using assms(2) by (auto simp: dispatch_def split: option.splits if_splits)
  moreover have "reservation_id r = i" using r(1) by (auto simp: lookup_reservation_def dest: row_at_elem)
  ultimately show ?thesis using assms(4) by (simp add: lookup_update)
qed

definition kept_row :: "int \<Rightarrow> string \<Rightarrow> ledger \<Rightarrow> bool" where
  "kept_row t j l \<longleftrightarrow> (\<exists>r. lookup_reservation l j = Some r \<and> dispatch_started r \<and> t \<le> created_at_ms r + charge_retention_ms)"

lemma funded_iff: "funded t w g \<longleftrightarrow> kept_row t (rq_id (leg_request (lg_intent g))) (shards w (leg_object (lg_intent g)))"
  by (auto simp: funded_def kept_row_def split: option.splits)

lemma kept_maintain: "ledger_inv l \<Longrightarrow> kept_row t j l \<Longrightarrow> now \<le> t \<Longrightarrow> kept_row t j (maintain now l)"
proof -
  assume l: "ledger_inv l" "kept_row t j l" "now \<le> t"
  then obtain r where r: "lookup_reservation l j = Some r" "dispatch_started r" "t \<le> created_at_ms r + charge_retention_ms" by (auto simp: kept_row_def)
  have "receipt_ok r" using l(1) r(1) receipt_ok_lookup by blast
  from maintained_retained [OF this, of now] r(3) l(3) obtain m where m: "maintained now r = Some m" by fastforce
  then show ?thesis using r l(1) maintained_Some [OF m] by (auto simp: kept_row_def lookup_maintain)
qed

lemma kept_update:
  assumes f: "\<And>r. reservation_id (f r) = reservation_id r \<and> (dispatch_started r \<longrightarrow> dispatch_started (f r)) \<and> created_at_ms (f r) = created_at_ms r"
    and k: "kept_row t j l"
  shows "kept_row t j (update_reservation i f l)"
proof -
  obtain r where r: "lookup_reservation l j = Some r" "dispatch_started r" "t \<le> created_at_ms r + charge_retention_ms" using k by (auto simp: kept_row_def)
  have "lookup_reservation (update_reservation i f l) j = Some (if reservation_id r = i then f r else r)" using f r(1) by (simp add: lookup_update)
  then show ?thesis unfolding kept_row_def using f [of r] r by auto
qed

lemma kept_insert: "lookup_reservation l (reservation_id r) = None \<Longrightarrow> kept_row t j l \<Longrightarrow> kept_row t j (schedule_alarm now (insert_reservation r l))"
  by (auto simp: kept_row_def lookup_insert)

lemma fetch_keeps_rows:
  assumes "ledger_inv l" and "kept_row t j l" and "now \<le> t"
  shows "kept_row t j (snd (ledger_fetch now q l))"
proof -
  note m = kept_maintain [OF assms]
  show ?thesis
  proof (cases q)
    case (PostCharge c)
    then show ?thesis using m
      by (auto simp: ledger_fetch_def charge_def Let_def split: option.split intro!: kept_insert simp del: charge_fields.simps)
        (auto simp: kept_row_def)
  next
    case (PostReserve r)
    then show ?thesis using m kept_insert [of "maintain now l" "receipt_of now r"]
      by (auto simp: ledger_fetch_def reserve_state Let_def receipt_of_def)
  next
    case (PostDispatch i)
    then show ?thesis using m dispatch_state [of now i "maintain now l"] kept_update [of start_dispatch] by (auto simp: ledger_fetch_def Let_def)
  next
    case (PostSettle i a)
    then show ?thesis using m by (auto simp: ledger_fetch_def settle_def Let_def finalize_at_def split: option.split intro!: kept_update)
  qed (use m in \<open>simp_all add: ledger_fetch_def Let_def\<close>)
qed

text \<open>Every request to a ledger keeps the invariant and what is funded, whatever becomes of its messages.\<close>

lemma considerate_ask:
  assumes "now \<le> t" and "\<And>r. q = PostReserve r \<Longrightarrow> 0 \<le> rq_cost r"
  shows "considerate t (\<lambda>y. y\<lparr>sy_world := snd (ask k now obj q (sy_world y))\<rparr>)"
proof -
  have "world_inv (snd (ask k now obj q w)) \<and> (\<forall>g. funded t w g \<longrightarrow> funded t (snd (ask k now obj q w)) g)" if w: "world_inv w" for w
    using fetch_keeps_ledger_inv [OF _ assms(2)] fetch_keeps_rows [OF _ _ assms(1)] w
    by (auto simp: ask_def world_inv_def funded_iff split: prod.split) (metis snd_conv)+
  then show ?thesis by (simp add: considerate_def)
qed

lemma considerate_comp: "considerate t f \<Longrightarrow> considerate t g \<Longrightarrow> considerate t (\<lambda>y. g (f y))"
  by (simp add: considerate_def)

lemma considerate_scope: "considerate t (\<lambda>y. y\<lparr>sy_scope := h (sy_scope y)\<rparr>)"
  by (simp add: considerate_def)

lemma mark_world:
  assumes w: "world_inv w" and m: "mark_budget_dispatched [k] now [leg_reservation l] w = (x, w1)" and t: "now \<le> t" "t \<le> now + charge_retention_ms - reservation_lease_ms"
  shows "world_inv w1" and "funded t w g \<Longrightarrow> funded t w1 g" and "x = Inr () \<Longrightarrow> funded t w1 l"
proof -
  let ?o = "leg_object (lg_intent l)" and ?i = "rq_id (leg_request (lg_intent l))"
  have inv: "ledger_inv (shards w o1)" for o1 using w by (simp add: world_inv_def)
  have w1: "w1 = w \<or> w1 = w\<lparr>shards := (shards w)(?o := snd (dispatch now ?i (maintain now (shards w ?o))))\<rparr>"
    and x: "x = Inr () \<Longrightarrow> w1 = w\<lparr>shards := (shards w)(?o := snd (dispatch now ?i (maintain now (shards w ?o))))\<rparr> \<and>
        fst (dispatch now ?i (maintain now (shards w ?o))) = DispatchReply"
    using m by (auto simp: leg_reservation_def ask_def ledger_fetch_def Let_def split: prod.splits if_splits)
  show "world_inv w1" using w1 w ledger_inv_dispatch [OF ledger_inv_maintain [OF inv]] by (auto simp: world_inv_def)
  show "funded t w1 g" if g: "funded t w g"
    using w1 g fetch_keeps_rows [OF inv _ t(1), of "rq_id (leg_request (lg_intent g))" "leg_object (lg_intent g)" "PostDispatch ?i"]
    by (auto simp: funded_iff ledger_fetch_def Let_def)
  show "funded t w1 l" if "x = Inr ()"
    using x [OF that] dispatch_funds [OF inv _ t, of ?i ?o] by (auto simp: funded_def prod_eq_iff split: option.splits)
qed

lemma mutate_world [simp]: "sy_world (snd (mutate now f y)) = sy_world y"
  by (simp add: mutate_def split: prod.split)

lemma mutate_world': "mutate now f y = (x, y1) \<Longrightarrow> sy_world y1 = sy_world y"
  using mutate_world [of now f y] by simp

lemma call_mark:
  assumes "world_inv (sy_world y)" and "timely t p" and "considerate t (pa_before p)" and "considerate t (pa_after p)"
    and "call_world p (mark_budget_dispatched [pa_link p] (pa_now p) [leg_reservation l]) y = (x, y1)"
  shows "world_inv (sy_world y1)" and "funded t (sy_world y) g \<Longrightarrow> funded t (sy_world y1) g" and "x = Inr () \<Longrightarrow> funded t (sy_world y1) l"
proof -
  obtain w where w: "mark_budget_dispatched [pa_link p] (pa_now p) [leg_reservation l] (sy_world (pa_before p y)) = (x, w)"
      "y1 = pa_after p ((pa_before p y)\<lparr>sy_world := w\<rparr>)"
    using assms(5) by (auto simp: call_world_def Let_def split: prod.splits)
  have b: "world_inv (sy_world (pa_before p y))" "funded t (sy_world y) g \<Longrightarrow> funded t (sy_world (pa_before p y)) g"
    using assms(1,3) by (auto simp: considerate_def)
  note m = mark_world [OF b(1) w(1), of t] and t = assms(2) [unfolded timely_def]
  have "world_inv (sy_world ((pa_before p y)\<lparr>sy_world := w\<rparr>))" using m(1) t by simp
  then show "world_inv (sy_world y1)" "funded t (sy_world y) g \<Longrightarrow> funded t (sy_world y1) g" "x = Inr () \<Longrightarrow> funded t (sy_world y1) l"
    using assms(4) w(2) m t b(2) by (auto simp: considerate_def)
qed

lemma mark_legs_funds:
  assumes "mark_legs pb i ls ps y = (Inr (), y1)" and "world_inv (sy_world y)" and "length ls \<le> length ps"
    and "\<forall>p \<in> set ps. timely t p \<and> considerate t (pa_before p) \<and> considerate t (pa_after p)" and "\<forall>g \<in> G. funded t (sy_world y) g"
  shows "\<forall>g \<in> G \<union> snd ` set ls. funded t (sy_world y1) g"
  using assms
proof (induction ls arbitrary: ps y G)
  case (Cons e ls)
  obtain n l where e: "e = (n, l)" by (cases e)
  obtain p qs where ps: "ps = p # qs" using Cons.prems(3) by (cases ps) auto
  obtain y2 y3 r where c: "call_world p (mark_budget_dispatched [pa_link p] (pa_now p) [leg_reservation l]) y = (Inr (), y2)"
      "mutate (pa_now p) (leg_dispatched (pb_bytes pb) (pa_now p) i n False) y2 = (Inr r, y3)" "mark_legs pb i ls qs y3 = (Inr (), y1)"
    using Cons.prems(1) unfolding e ps by (auto simp: Let_def pause_of_def split: prod.splits sum.splits)
  have p: "timely t p" "considerate t (pa_before p)" "considerate t (pa_after p)" using Cons.prems(4) ps by auto
  note m = call_mark [OF Cons.prems(2) p c(1)]
  have "\<forall>g \<in> insert l G. funded t (sy_world y3) g" using Cons.prems(5) m mutate_world' [OF c(2)] by auto
  from Cons.IH [OF c(3) _ _ _ this] show ?case using m(1) mutate_world' [OF c(2)] Cons.prems(3,4) ps e by auto
qed simp

text \<open>
  C33. When the dispatch of a background job succeeds, every reservation of the job is in its ledger and marked
  as dispatched there, whatever other requests did to the object and the ledgers in between; so no expiry
  of a lease can free the budget of a generation that may have been sent.
\<close>

theorem dispatched_generation_is_funded:
  assumes "scope_dispatch pb now i content ps later y = (Inr (), y1)" and "world_inv (sy_world y)"
    and "get_record i (sc_jobs (sy_scope y)) = Some r" and "length (job_legs r) \<le> length ps"
    and "\<forall>p \<in> set ps. timely t p \<and> considerate t (pa_before p) \<and> considerate t (pa_after p)"
  shows "\<forall>l \<in> set (job_legs r). funded t (sy_world y1) l"
proof -
  obtain q y2 y3 x where d: "mutate now (begin_dispatch (pb_bytes pb) now i content False) y = (Inr q, y2)"
      "mark_legs pb i (zip [0..<length (job_legs q)] (job_legs q)) ps y2 = (Inr (), y3)"
      "mutate later (begin_egress (pb_bytes pb) later i) y3 = (x, y1)"
    using assms(1) by (auto simp: scope_dispatch_def split: prod.splits sum.splits)
  have "begin_dispatch (pb_bytes pb) now i content False (sc_jobs (sy_scope y)) = Inr (q, s) \<Longrightarrow> job_legs q = job_legs r" for s
    using assms(3) by (auto simp: begin_dispatch_def admitting_Inr job_of_Inr Let_def job_legs_def split: if_splits)
  then have q: "job_legs q = job_legs r"
    using d(1) by (auto simp: mutate_def serial_def on_jobs_def split: prod.splits sum.splits)
  have "snd ` set (zip [0..<length (job_legs q)] (job_legs q)) = set (job_legs q)"
    by (metis (no_types) length_upt list.set_map map_snd_zip diff_zero)
  then show ?thesis
    using mark_legs_funds [OF d(2), of t "{}"] assms(2,4,5) q mutate_world' [OF d(1)] mutate_world' [OF d(3)] by simp
qed

text \<open>
  A second dispatch of a job loses before anything is sent: it is refused, the ledgers are not called and
  both stores keep what they hold, so it cannot refund what the first dispatch authorised.
\<close>

theorem duplicate_dispatch_changes_nothing:
  assumes "get_record i (sc_jobs (sy_scope y)) = Some r" and "rec_op r = LiveJob j" and "bg_claimed j"
  shows "\<exists>e. fst (scope_dispatch pb now i content ps later y) = Inl e \<and> sy_world (snd (scope_dispatch pb now i content ps later y)) = sy_world y \<and>
    sc_jobs (sy_scope (snd (scope_dispatch pb now i content ps later y))) = sc_jobs (sy_scope y) \<and>
    sc_continuations (sy_scope (snd (scope_dispatch pb now i content ps later y))) = sc_continuations (sy_scope y)"
proof -
  obtain e where "begin_dispatch (pb_bytes pb) now i content False (sc_jobs (sy_scope y)) = Inl e"
    using assms by (cases "begin_dispatch (pb_bytes pb) now i content False (sc_jobs (sy_scope y))")
      (auto simp: begin_dispatch_def admitting_Inr job_of_Inr split: if_splits)
  then show ?thesis by (simp add: scope_dispatch_def mutate_def serial_def on_jobs_def schedule_scope_def)
qed

subsection \<open>Worked examples\<close>

definition funded_admission :: background_admission where
  "funded_admission = sample_admission\<lparr>ad_plan := \<lparr>plan_reserved = 60, legs = [\<lparr>leg_kind = PolicyLeg, leg_object = ''t:p'', leg_request = example_request\<rparr>]\<rparr>\<rparr>"

definition sample_scope :: "background_op list \<Rightarrow> scope_system" where
  "sample_scope ops = \<lparr>sy_scope = empty_scope\<lparr>sc_jobs := background_run sample_publisher ops empty_background\<rparr>, sy_world = empty_world\<lparr>shards := (\<lambda>_. example_ledger)\<rparr>\<rparr>"

definition funded_ops :: "background_op list" where
  "funded_ops = [Admit 1000 funded_admission, BeginReserve 1000 sample_job 0 False, Reserved 1000 sample_job 0 True False]"

definition sample_pause :: pause where
  "sample_pause = \<lparr>pa_now = 2000, pa_link = Delivered, pa_before = (\<lambda>y. y\<lparr>sy_world := snd (ask Delivered 1500 ''t:p'' (PostSettle ''other'' (JNum 0)) (sy_world y))\<rparr>), pa_after = (\<lambda>y. y)\<rparr>"

definition sample_run :: responses_scope where
  "sample_run = scope_run (\<lambda>_. []) sample_publisher [JobStep 1000 (Admit 1000 sample_admission)]"

theorem pending_work_has_an_alarm_witness:
  "\<exists>row d a. row \<in> set (bs_rows (sc_jobs sample_run)) \<and> row_next row = Some d \<and> sc_alarm sample_run = Some a \<and> a \<le> max d 2000"
proof -
  have "list_ex (\<lambda>row. row_next row \<noteq> None) (bs_rows (sc_jobs sample_run))" by code_simp
  then obtain row d where row: "row \<in> set (bs_rows (sc_jobs sample_run))" "row_next row = Some d" by (auto simp: list_ex_iff)
  have "\<forall>op \<in> set [JobStep 1000 (Admit 1000 sample_admission)]. op_time op \<le> 1000" by simp
  from pending_work_has_an_alarm [OF this, of "\<lambda>_. []" sample_publisher] row show ?thesis unfolding sample_run_def by force
qed

theorem dispatched_generation_is_funded_witness:
  "\<exists>r y1. get_record sample_job (sc_jobs (sy_scope (sample_scope funded_ops))) = Some r \<and> length (job_legs r) = 1 \<and>
     scope_dispatch sample_publisher 2000 sample_job None [sample_pause] 2000 (sample_scope funded_ops) = (Inr (), y1) \<and>
     (\<forall>l \<in> set (job_legs r). funded 2000 (sy_world y1) l)"
proof -
  have "case get_record sample_job (sc_jobs (sy_scope (sample_scope funded_ops))) of Some r \<Rightarrow> length (job_legs r) = 1 | None \<Rightarrow> False" by code_simp
  then obtain r where r: "get_record sample_job (sc_jobs (sy_scope (sample_scope funded_ops))) = Some r" "length (job_legs r) = 1" by (auto split: option.splits)
  have "fst (scope_dispatch sample_publisher 2000 sample_job None [sample_pause] 2000 (sample_scope funded_ops)) = Inr ()" by code_simp
  then obtain y1 where y1: "scope_dispatch sample_publisher 2000 sample_job None [sample_pause] 2000 (sample_scope funded_ops) = (Inr (), y1)"
    by (cases "scope_dispatch sample_publisher 2000 sample_job None [sample_pause] 2000 (sample_scope funded_ops)") auto
  have w: "world_inv (sy_world (sample_scope funded_ops))" using example_ledger_inv by (simp add: sample_scope_def world_inv_def)
  have p: "\<forall>p \<in> set [sample_pause]. timely 2000 p \<and> considerate 2000 (pa_before p) \<and> considerate 2000 (pa_after p)"
    using considerate_ask [of 1500 2000 "PostSettle ''other'' (JNum 0)" Delivered "''t:p''"]
    by (simp add: sample_pause_def timely_def considerate_def [of _ "\<lambda>y. y"] charge_retention_ms_def reservation_lease_ms_def)
  from dispatched_generation_is_funded [OF y1 w r(1) _ p] r y1 show ?thesis by auto
qed

theorem duplicate_dispatch_changes_nothing_witness:
  "sy_world (snd (scope_dispatch sample_publisher 3000 sample_job None [] 3000 (sample_scope (sample_admitted @ [BeginDispatch 2000 sample_job None])))) =
   sy_world (sample_scope (sample_admitted @ [BeginDispatch 2000 sample_job None]))"
proof -
  let ?y = "sample_scope (sample_admitted @ [BeginDispatch 2000 sample_job None])"
  have "case get_record sample_job (sc_jobs (sy_scope ?y)) of Some r \<Rightarrow> (case rec_op r of LiveJob j \<Rightarrow> bg_claimed j | Closed p u \<Rightarrow> False) | None \<Rightarrow> False" by code_simp
  then obtain r j where "get_record sample_job (sc_jobs (sy_scope ?y)) = Some r" "rec_op r = LiveJob j" "bg_claimed j" by (auto split: option.splits operation.splits)
  from duplicate_dispatch_changes_nothing [OF this, of sample_publisher 3000 None "[]" 3000] show ?thesis by auto
qed

end
