(* ===== verification/Soft_Budget.thy ===== *)
theory Soft_Budget
  imports Accounting Hot_Cache
begin

section \<open>Soft budgets\<close>

text \<open>
  \<open>worker/soft-budget.ts\<close>: a policy in soft mode reserves nothing. The ledgers are asked for their status while
  the request is under way; an exhausted cap is remembered in a hot cache that denies later requests
  before they are dispatched, and aborts this one when its answer arrives before delivery. The answers
  arrive in any order and may be lost, so a request is a sequence of events. Messages are left out of the
  errors.
\<close>

definition soft_budget_policy :: "string option \<Rightarrow> bool" where
  "soft_budget_policy mode \<longleftrightarrow> mode = Some ''soft''"

type_synonym exhausted_cache = "unit hot_cache"

definition new_exhausted :: exhausted_cache where "new_exhausted = new_cache 4096"

definition newline :: string where "newline = [CHR 0x0A]"

definition leg_key :: "reservation_intent \<Rightarrow> string" where
  "leg_key l = join newline [leg_object l, (case rq_scope (leg_request l) of Some s \<Rightarrow> s | None \<Rightarrow> ''undefined''), rq_window (leg_request l), show_int (rq_limit (leg_request l))]"

definition soft_denial :: "reservation_intent \<Rightarrow> error" where
  "soft_denial l = HttpError 402 (exhausted_code (leg_kind l))"

definition no_cost :: estimated_cost where
  "no_cost = \<lparr>reserveMicros = 0, basis = ''none'', pricingGap = None\<rparr>"

definition soft_plan :: "(leg_kind \<Rightarrow> string) \<Rightarrow> authorized_identity \<Rightarrow> string \<Rightarrow> provider_connection option \<Rightarrow> int \<Rightarrow> reservation_plan result" where
  "soft_plan fresh auth cap connection t = plan_budget_reservation fresh auth cap no_cost connection t True"

subsection \<open>Before the dispatch\<close>

fun preflight_legs :: "int \<Rightarrow> hot_config \<Rightarrow> reservation_intent list \<Rightarrow> exhausted_cache \<Rightarrow> error option \<times> exhausted_cache" where
  "preflight_legs now cfg [] c = (None, c)"
| "preflight_legs now cfg (l # ls) c =
     (if rq_limit (leg_request l) = 0 then (Some (soft_denial l), c)
      else case peek now cfg (leg_key l) c of
          (Some _, c1) \<Rightarrow> (Some (soft_denial l), c1)
        | (None, c1) \<Rightarrow> preflight_legs now cfg ls c1)"

definition soft_budget_preflight ::
    "(leg_kind \<Rightarrow> string) \<Rightarrow> authorized_identity \<Rightarrow> string \<Rightarrow> provider_connection option \<Rightarrow> int \<Rightarrow> int \<Rightarrow> hot_config \<Rightarrow> exhausted_cache \<Rightarrow>
     (error option \<times> exhausted_cache) result" where
  "soft_budget_preflight fresh auth cap connection t now cfg c = rbind (soft_plan fresh auth cap connection t) (\<lambda>p. Inr (preflight_legs now cfg (legs p) c))"

subsection \<open>While the request is under way\<close>

datatype status_answer = StatusFailed | StatusRead "int option"

definition status_request :: "reservation_intent \<Rightarrow> ledger_request" where
  "status_request l = GetStatus (Some (rq_policy (leg_request l))) (Some (rq_window (leg_request l)))
     (Some (Some (of_int (rq_limit (leg_request l))))) (rq_scope (leg_request l))"

definition status_answer_of :: "ledger_reply option \<Rightarrow> status_answer" where
  "status_answer_of r = (case r of
     None \<Rightarrow> StatusFailed
   | Some (StatusReply p w lm sp rest) \<Rightarrow> StatusRead (if safe_int sp then Some sp else None)
   | Some _ \<Rightarrow> StatusRead None)"

record soft_request =
  sb_legs :: "reservation_intent list"
  sb_abort :: bool
  sb_denial :: "error option"
  sb_delivered :: bool

definition under_limit :: "reservation_intent \<Rightarrow> status_answer \<Rightarrow> bool" where
  "under_limit l a = (case a of StatusRead (Some n) \<Rightarrow> n < rq_limit (leg_request l) | _ \<Rightarrow> True)"

definition soft_observe ::
    "hot_config \<Rightarrow> int \<Rightarrow> reservation_intent \<Rightarrow> status_answer \<Rightarrow> soft_request \<times> exhausted_cache \<Rightarrow> soft_request \<times> exhausted_cache" where
  "soft_observe cfg now l a s =
     (let (q, c) = s
      in if rq_limit (leg_request l) \<noteq> 0 \<and> a = StatusFailed then (q, c)
         else if rq_limit (leg_request l) \<noteq> 0 \<and> under_limit l a then (q, cache_delete (leg_key l) c)
         else (let c1 = cache_set (leg_key l) () cfg (Some \<lceil>of_int now + fresh_age cfg\<rceil>) now c
               in if \<not> sb_abort q \<or> sb_delivered q \<or> sb_denial q \<noteq> None then (q, c1) else (q\<lparr>sb_denial := Some (soft_denial l)\<rparr>, c1)))"

text \<open>A leg's answer with the world its ledger was in, the delivery of the response, or the end of the request.\<close>

datatype soft_event = LegAnswer nat link int world | Deliver | CloseSoft

definition soft_step :: "hot_config \<Rightarrow> soft_event \<Rightarrow> soft_request \<times> exhausted_cache \<Rightarrow> soft_request \<times> exhausted_cache" where
  "soft_step cfg e s = (case e of
     LegAnswer n k now w \<Rightarrow>
       if n < length (sb_legs (fst s))
       then (let l = sb_legs (fst s) ! n in soft_observe cfg now l (status_answer_of (fst (ask k now (leg_object l) (status_request l) w))) s)
       else s
   | Deliver \<Rightarrow> ((fst s)\<lparr>sb_delivered := True\<rparr>, snd s)
   | CloseSoft \<Rightarrow> ((fst s)\<lparr>sb_delivered := True\<rparr>, snd s))"

text \<open>The charge of a leg; its amount is known at settlement.\<close>

definition soft_charge :: "string \<Rightarrow> string \<Rightarrow> int \<Rightarrow> reservation_intent \<Rightarrow> string \<times> charge_request" where
  "soft_charge request_id cap amount l = (let q = leg_request l; scope = (case rq_scope q of Some s \<Rightarrow> s | None \<Rightarrow> ''undefined'')
     in (leg_object l, \<lparr>cq_id = JStr (''charge:'' @ request_id @ '':'' @ scope @ '':'' @ rq_window q), cq_policy = JStr (rq_policy q), cq_window = JStr (rq_window q),
          cq_scope = (case rq_scope q of Some s \<Rightarrow> JStr s | None \<Rightarrow> JNull), cq_amount = JNum (of_int amount), cq_capability = JStr cap\<rparr>))"

definition soft_budget :: "bool \<Rightarrow> reservation_plan \<Rightarrow> soft_request" where
  "soft_budget abort p = \<lparr>sb_legs = legs p, sb_abort = abort, sb_denial = None, sb_delivered = False\<rparr>"

definition soft_run :: "hot_config \<Rightarrow> soft_event list \<Rightarrow> soft_request \<times> exhausted_cache \<Rightarrow> soft_request \<times> exhausted_cache" where
  "soft_run cfg evs s = fold (soft_step cfg) evs s"

subsection \<open>Properties\<close>

lemma soft_step_legs [simp]: "sb_legs (fst (soft_step cfg e s)) = sb_legs (fst s)" "sb_abort (fst (soft_step cfg e s)) = sb_abort (fst s)"
  by (cases s; simp add: soft_step_def soft_observe_def Let_def split: soft_event.split)+

lemma soft_run_snoc: "soft_run cfg (evs @ [e]) s = soft_step cfg e (soft_run cfg evs s)"
  by (simp add: soft_run_def)

lemma soft_run_legs [simp]: "sb_legs (fst (soft_run cfg evs s)) = sb_legs (fst s)" "sb_abort (fst (soft_run cfg evs s)) = sb_abort (fst s)"
  by (induction evs rule: rev_induct) (simp_all add: soft_run_snoc, simp_all add: soft_run_def)

lemma soft_delivered_iff: "sb_delivered (fst (soft_run cfg evs s)) \<longleftrightarrow> sb_delivered (fst s) \<or> Deliver \<in> set evs \<or> CloseSoft \<in> set evs"
proof (induction evs rule: rev_induct)
  case (snoc e evs)
  have "sb_delivered (fst (soft_step cfg e x)) \<longleftrightarrow> sb_delivered (fst x) \<or> e = Deliver \<or> e = CloseSoft" for x
    by (cases x) (auto simp: soft_step_def soft_observe_def Let_def split: soft_event.split)
  then show ?case using snoc by (auto simp: soft_run_snoc)
qed (simp add: soft_run_def)

text \<open>What a denial rests on: a blocked cap, or an answer of the leg's ledger that reached its limit.\<close>

definition exhausted_at :: "reservation_intent \<Rightarrow> link \<Rightarrow> int \<Rightarrow> world \<Rightarrow> bool" where
  "exhausted_at l k now w \<longleftrightarrow> rq_limit (leg_request l) = 0 \<or>
     k = Delivered \<and> rq_limit (leg_request l) \<le> effective_spent (maintain now (shards w (leg_object l))) (rq_window (leg_request l)) (rq_scope (leg_request l))"

lemma answer_exhausted:
  assumes "status_answer_of (fst (ask k now (leg_object l) (status_request l) w)) = StatusRead (Some n)" and "rq_limit (leg_request l) \<le> n"
  shows "exhausted_at l k now w"
  using assms by (auto simp: exhausted_at_def status_answer_of_def ask_def status_request_def ledger_fetch_def status_def Let_def
      split: if_splits prod.splits option.splits ledger_reply.splits)

lemma soft_step_denial:
  assumes "sb_denial (fst (soft_step cfg e s)) = Some d" and "sb_denial (fst s) = None"
  shows "\<not> sb_delivered (fst s) \<and> sb_abort (fst s) \<and>
    (\<exists>n k now w. e = LegAnswer n k now w \<and> n < length (sb_legs (fst s)) \<and> d = soft_denial (sb_legs (fst s) ! n) \<and> exhausted_at (sb_legs (fst s) ! n) k now w)"
proof -
  obtain n k now w where e: "e = LegAnswer n k now w" "n < length (sb_legs (fst s))"
    using assms by (cases e) (auto simp: soft_step_def split: if_splits)
  let ?l = "sb_legs (fst s) ! n" let ?a = "status_answer_of (fst (ask k now (leg_object ?l) (status_request ?l) w))"
  have o: "soft_step cfg e s = soft_observe cfg now ?l ?a s" using e by (simp add: soft_step_def Let_def)
  have c: "\<not> sb_delivered (fst s)" "sb_abort (fst s)" "d = soft_denial ?l" "rq_limit (leg_request ?l) = 0 \<or> \<not> under_limit ?l ?a"
    using assms unfolding o by (cases s; auto simp: soft_observe_def Let_def split: if_splits)+
  have "exhausted_at ?l k now w"
  proof (cases "rq_limit (leg_request ?l) = 0")
    case False
    then obtain m where "?a = StatusRead (Some m)" "rq_limit (leg_request ?l) \<le> m" using c(4) by (auto simp: under_limit_def split: status_answer.splits option.splits)
    then show ?thesis by (rule answer_exhausted)
  qed (simp add: exhausted_at_def)
  then show ?thesis using e c by blast
qed

lemma denial_stays: "sb_denial (fst s) = Some d \<Longrightarrow> sb_denial (fst (soft_step cfg e s)) = Some d"
  by (cases s) (simp add: soft_step_def soft_observe_def Let_def split: soft_event.split)

text \<open>
  C35. A soft budget denies only on evidence: a request under way is aborted for a cap of its plan only when that
  cap is a configured block or its ledger answered, before the response was delivered, that the spending
  had reached the limit. A failed, lost or refused observation never denies.
\<close>

theorem soft_denial_is_observed:
  assumes "sb_denial (fst (soft_run cfg evs (soft_budget abort p, c))) = Some d"
  shows "abort \<and> (\<exists>xs ys n k now w. evs = xs @ LegAnswer n k now w # ys \<and> Deliver \<notin> set xs \<and> CloseSoft \<notin> set xs \<and> n < length (legs p) \<and>
    d = soft_denial (legs p ! n) \<and> exhausted_at (legs p ! n) k now w)"
  using assms
proof (induction evs rule: rev_induct)
  case Nil
  then show ?case by (simp add: soft_run_def soft_budget_def)
next
  case (snoc e evs)
  let ?s = "soft_run cfg evs (soft_budget abort p, c)"
  have legs: "sb_legs (fst ?s) = legs p" by (simp add: soft_budget_def)
  show ?case
  proof (cases "sb_denial (fst ?s)")
    case None
    have ab: "sb_abort (fst ?s) = abort" by (simp add: soft_budget_def)
    have "\<not> sb_delivered (fst ?s)" "sb_abort (fst ?s)" "\<exists>n k now w. e = LegAnswer n k now w \<and> n < length (legs p) \<and> d = soft_denial (legs p ! n) \<and> exhausted_at (legs p ! n) k now w"
      using soft_step_denial [OF _ None, of cfg e d] snoc.prems legs by (simp_all add: soft_run_snoc)
    then show ?thesis using ab soft_delivered_iff [of cfg evs "(soft_budget abort p, c)"] by (metis append_Nil2 fst_conv)
  next
    case (Some d0)
    then have "d0 = d" using denial_stays [OF Some, of cfg e] snoc.prems by (simp add: soft_run_snoc)
    with snoc.IH Some show ?thesis by (metis append.assoc append_Cons)
  qed
qed

definition spent_leg :: reservation_intent where
  "spent_leg = \<lparr>leg_kind = PolicyLeg, leg_object = ''d:p'', leg_request = example_request\<lparr>rq_limit := 60\<rparr>\<rparr>"

definition spent_plan :: reservation_plan where
  "spent_plan = \<lparr>plan_reserved = 0, legs = [spent_leg]\<rparr>"

definition minute_cache :: hot_config where
  "minute_cache = \<lparr>max_age = 60000, fresh_age = 10000\<rparr>"

lemma spent_leg_denied:
  "sb_denial (fst (soft_run minute_cache [LegAnswer 0 Delivered 10 dispatched_world, Deliver] (soft_budget True spent_plan, new_exhausted))) = Some (soft_denial spent_leg)"
  by code_simp

theorem soft_denial_is_observed_witness:
  "exhausted_at spent_leg Delivered 10 dispatched_world"
  using soft_denial_is_observed [OF spent_leg_denied]
  by (auto simp: spent_plan_def append_eq_Cons_conv Cons_eq_append_conv)

definition remembered :: "int \<Rightarrow> hot_config \<Rightarrow> string \<Rightarrow> exhausted_cache \<Rightarrow> bool" where
  "remembered now cfg k c \<longleftrightarrow> fst (peek now cfg k c) \<noteq> None"

lemma map_of_latest: "0 < n \<Longrightarrow> k \<notin> fst ` set m \<Longrightarrow> map_of (keep_latest n (m @ [(k, v)])) k = Some v"
proof -
  assume n: "0 < n" and k: "k \<notin> fst ` set m"
  have "keep_latest n (m @ [(k, v)]) = drop (Suc (length m) - n) m @ [(k, v)]" using n by (simp add: keep_latest_def Suc_diff_le)
  moreover have "map_of (drop j m) k = None" for j using k by (auto simp: map_of_eq_None_iff dest: in_set_dropD)
  ultimately show ?thesis by (simp add: map_add_def)
qed

lemma missed_peek_keeps:
  assumes "\<not> remembered now cfg k c"
  shows "remembered now cfg j (snd (peek now cfg k c)) \<longleftrightarrow> remembered now cfg j c"
proof -
  have "snd (peek now cfg k c) = c \<or> snd (peek now cfg k c) = c\<lparr>hc_entries := drop_key k (hc_entries c)\<rparr>"
    using assms by (auto simp: remembered_def peek_def split: option.splits if_splits)
  moreover have "j = k \<Longrightarrow> \<not> remembered now cfg j (c\<lparr>hc_entries := drop_key k (hc_entries c)\<rparr>)" by (simp add: remembered_def peek_def map_of_drop_key)
  moreover have "j \<noteq> k \<Longrightarrow> remembered now cfg j (c\<lparr>hc_entries := drop_key k (hc_entries c)\<rparr>) \<longleftrightarrow> remembered now cfg j c"
    by (auto simp: remembered_def peek_def map_of_drop_key split: option.splits if_splits)
  ultimately show ?thesis using assms by metis
qed

lemma preflight_admits: "fst (preflight_legs now cfg ls c) = None \<longleftrightarrow> (\<forall>l \<in> set ls. rq_limit (leg_request l) \<noteq> 0 \<and> \<not> remembered now cfg (leg_key l) c)"
proof (induction ls arbitrary: c)
  case (Cons l ls)
  show ?case
  proof (cases "peek now cfg (leg_key l) c")
    case (Pair x c1)
    show ?thesis
    proof (cases x)
      case None
      then have "\<not> remembered now cfg (leg_key l) c" using Pair by (simp add: remembered_def)
      with missed_peek_keeps [OF this] show ?thesis using Cons.IH [of c1] Pair None by simp
    qed (use Pair in \<open>auto simp: remembered_def\<close>)
  qed
qed simp

lemma set_remembered:
  assumes "0 < hc_limit c" and "0 < fresh_age cfg" and "fresh_age cfg \<le> max_age cfg" and "t \<le> now" and "of_int now < of_int t + fresh_age cfg"
  shows "remembered now cfg k (cache_set k () cfg (Some \<lceil>of_int t + fresh_age cfg\<rceil>) t c)"
proof -
  let ?e = "\<lparr>en_value = (), en_stored = t, en_expires = Some \<lceil>of_int t + fresh_age cfg\<rceil>\<rparr>"
  have late: "now < \<lceil>of_int t + fresh_age cfg\<rceil>" using assms(5) by (simp add: less_ceiling_iff)
  then have ok: "\<not> outlived t (Some \<lceil>of_int t + fresh_age cfg\<rceil>)" "\<not> outlived now (Some \<lceil>of_int t + fresh_age cfg\<rceil>)" using assms(4) by (auto simp: outlived_def)
  have "map_of (hc_entries (cache_set k () cfg (Some \<lceil>of_int t + fresh_age cfg\<rceil>) t c)) k = Some ?e"
    using ok assms(1-3) map_of_latest [of "hc_limit c" k "drop_key k (hc_entries c)" ?e] by (auto simp: cache_set_def store_entry_def drop_key_def)
  moreover have "\<not> max_age cfg \<le> of_int (now - t)" using assms(3,5) by simp
  ultimately show ?thesis using ok(2) assms by (simp add: remembered_def peek_def)
qed

text \<open>
  An exhausted cap stops the next request before it is dispatched, for as long as the observation is fresh;
  and an answer under the limit clears the memory of that cap at once, so it never denies by itself.
\<close>

theorem exhaustion_blocks_next_request:
  assumes "0 < hc_limit c" and "0 < fresh_age cfg" and "fresh_age cfg \<le> max_age cfg" and "l \<in> set ls" and "t \<le> now" and "of_int now < of_int t + fresh_age cfg"
  shows "(a \<noteq> StatusFailed \<and> \<not> under_limit l a \<longrightarrow> fst (preflight_legs now cfg ls (snd (soft_observe cfg t l a (q, c)))) \<noteq> None) \<and>
    (a \<noteq> StatusFailed \<and> under_limit l a \<and> rq_limit (leg_request l) \<noteq> 0 \<longrightarrow> fst (preflight_legs now cfg [l] (snd (soft_observe cfg t l a (q, c)))) = None)"
proof (intro conjI impI)
  assume "a \<noteq> StatusFailed \<and> \<not> under_limit l a"
  then have "snd (soft_observe cfg t l a (q, c)) = cache_set (leg_key l) () cfg (Some \<lceil>of_int t + fresh_age cfg\<rceil>) t c"
    by (simp add: soft_observe_def Let_def)
  then show "fst (preflight_legs now cfg ls (snd (soft_observe cfg t l a (q, c)))) \<noteq> None"
    using set_remembered [OF assms(1-3,5,6), of "leg_key l"] assms(4) preflight_admits by metis
next
  assume "a \<noteq> StatusFailed \<and> under_limit l a \<and> rq_limit (leg_request l) \<noteq> 0"
  then show "fst (preflight_legs now cfg [l] (snd (soft_observe cfg t l a (q, c)))) = None"
    by (simp add: preflight_admits soft_observe_def Let_def remembered_def peek_def cache_delete_def map_of_drop_key)
qed

theorem exhaustion_blocks_next_request_witness:
  "fst (preflight_legs 5 minute_cache [spent_leg] (snd (soft_observe minute_cache 0 spent_leg (StatusRead (Some 60)) (soft_budget True spent_plan, new_exhausted)))) \<noteq> None \<and>
   fst (preflight_legs 5 minute_cache [spent_leg] (snd (soft_observe minute_cache 0 spent_leg (StatusRead (Some 59)) (soft_budget True spent_plan, new_exhausted)))) = None"
proof -
  have "under_limit spent_leg (StatusRead (Some 59))" "\<not> under_limit spent_leg (StatusRead (Some 60))" "rq_limit (leg_request spent_leg) \<noteq> 0"
    by (simp_all add: under_limit_def spent_leg_def)
  then show ?thesis
    using exhaustion_blocks_next_request [of new_exhausted minute_cache spent_leg "[spent_leg]" 0 5] by (simp add: minute_cache_def new_exhausted_def new_cache_def)
qed

end
