(* ===== verification/Usage_Snapshot.thy ===== *)
theory Usage_Snapshot
  imports Usage_Ledger Grant_Selection "HOL-Library.Multiset"
begin

section \<open>Usage snapshots\<close>

text \<open>
  The reads of a usage ledger (\<open>snapshot\<close> of \<open>worker/ledgers.ts\<close> with \<open>rollupOwnerCondition\<close> of
  \<open>worker/usage-rollups.ts\<close>) and their merge over the ledgers of several policies
  (\<open>worker/usage-sharding.ts\<close>). While the migrations run a snapshot sumup the events, afterwards it sumup the
  rollups. Counters are named by the constructors of \<open>counter\<close>. SQL leaves the order of groups and rows
  with equal sort keys open; the model keeps them in the order of their first row. \<open>lc\<close> is \<open>localeCompare\<close>.
\<close>

subsection \<open>Counts\<close>

type_synonym counts = "(counter \<times> int) list"

definition total_counters :: "counter list" where
  "total_counters = [RequestCount, SuccessCount, ErrorCount, TotalTokens, ActualCost, UnpricedCount]"

definition summary_counters :: "counter list" where
  "summary_counters = total_counters @ [InputTokens, OutputTokens]"

text \<open>Setting a key of an object or a \<open>Map\<close>: in place, or at the end.\<close>

fun put_in :: "'k \<Rightarrow> 'v \<Rightarrow> ('k \<times> 'v) list \<Rightarrow> ('k \<times> 'v) list" where
  "put_in k v [] = [(k, v)]"
| "put_in k v ((j, w) # m) = (if j = k then (k, v) # m else (j, w) # put_in k v m)"

definition empty_counts :: "counter list \<Rightarrow> counts" where
  "empty_counts cs = map (\<lambda>c. (c, 0)) cs"

definition add_count :: "counter \<times> int \<Rightarrow> counts \<Rightarrow> counts" where
  "add_count e t = put_in (fst e) ((case map_of t (fst e) of None \<Rightarrow> 0 | Some n \<Rightarrow> n) + snd e) t"

definition add_counts :: "counts \<Rightarrow> counts \<Rightarrow> counts" where
  "add_counts source target = fold add_count source target"

definition merge_row :: "counts \<Rightarrow> 'k \<times> counts \<Rightarrow> ('k \<times> counts) list \<Rightarrow> ('k \<times> counts) list" where
  "merge_row zero r m = put_in (fst r) (add_counts (snd r) (case map_of m (fst r) of None \<Rightarrow> zero | Some t \<Rightarrow> t)) m"

definition merge_rows :: "counts \<Rightarrow> ('k \<times> counts) list \<Rightarrow> ('k \<times> counts) list" where
  "merge_rows zero rs = fold (merge_row zero) rs []"

record usage_totals =
  ut_summary :: counts
  ut_providers :: "(string \<times> counts) list"
  ut_daily :: "(int \<times> counts) list option"

type_synonym principal_usage = "(string option \<times> string option) \<times> counts"

record usage_snapshot =
  us_totals :: usage_totals
  us_events :: "usage_event list"
  us_personal :: "usage_totals option"
  us_principals :: "principal_usage list option"

definition request_count :: "counts \<Rightarrow> int" where
  "request_count cs = (case map_of cs RequestCount of None \<Rightarrow> 0 | Some n \<Rightarrow> n)"

definition by_requests :: "('k \<times> counts) list \<Rightarrow> ('k \<times> counts) list" where
  "by_requests rs = sort_by (\<lambda>a b. request_count (snd b) < request_count (snd a)) rs"

definition by_day :: "(int \<times> counts) list \<Rightarrow> (int \<times> counts) list" where
  "by_day rs = sort_by (\<lambda>a b. fst a < fst b) rs"

definition principal_key_of :: "string option \<times> string option \<Rightarrow> string option \<times> string option" where
  "principal_key_of i = (fst i, if fst i = None then snd i else None)"

definition last_text :: string where "last_text = [CHR 0xEF, CHR 0xBF, CHR 0xBF]"

definition principal_sort_key :: "string option \<times> string option \<Rightarrow> string" where
  "principal_sort_key i = (case fst i of Some p \<Rightarrow> p | None \<Rightarrow> last_text @ (case snd i of Some c \<Rightarrow> c | None \<Rightarrow> last_text))"

definition merge_principal_usage :: "(string \<Rightarrow> string \<Rightarrow> int) \<Rightarrow> principal_usage list \<Rightarrow> principal_usage list" where
  "merge_principal_usage lc rs = sort_by
     (\<lambda>a b. request_count (snd b) < request_count (snd a) \<or>
        request_count (snd a) = request_count (snd b) \<and> lc (principal_sort_key (fst a)) (principal_sort_key (fst b)) < 0)
     (merge_rows (empty_counts summary_counters) (map (\<lambda>r. (principal_key_of (fst r), snd r)) rs))"

subsection \<open>One ledger\<close>

datatype usage_scope = AdminRead | PrincipalRead string | CredentialRead string

definition usage_cutoffs :: "int \<Rightarrow> int \<Rightarrow> int \<times> int" where
  "usage_cutoffs now days = (now - days * usage_day_ms, now div usage_day_ms * usage_day_ms - (days - 1) * usage_day_ms)"

definition policy_range :: "string list \<Rightarrow> string \<Rightarrow> bool" where
  "policy_range ids p = (let u = first_unique (filter (\<lambda>i. i \<noteq> []) ids) in u = [] \<or> p \<in> set u)"

definition sql_sums :: "counter list \<Rightarrow> ('row \<Rightarrow> counter \<Rightarrow> int) \<Rightarrow> ('row \<Rightarrow> bool) \<Rightarrow> 'row list \<Rightarrow> counts" where
  "sql_sums cs val p t = map (\<lambda>c. (c, sum_where p (\<lambda>r. val r c) t)) cs"

definition sql_groups :: "counter list \<Rightarrow> ('row \<Rightarrow> counter \<Rightarrow> int) \<Rightarrow> ('row \<Rightarrow> 'k) \<Rightarrow> ('row \<Rightarrow> bool) \<Rightarrow> 'row list \<Rightarrow> ('k \<times> counts) list" where
  "sql_groups cs val g p t = map (\<lambda>k. (k, sql_sums cs val (\<lambda>r. p r \<and> g r = k) t)) (first_unique (map g (filter p t)))"

definition range_totals ::
    "('row \<Rightarrow> string) \<Rightarrow> ('row \<Rightarrow> int) \<Rightarrow> ('row \<Rightarrow> counter \<Rightarrow> int) \<Rightarrow> ('row \<Rightarrow> bool) \<Rightarrow> ('row \<Rightarrow> bool) \<Rightarrow> 'row list \<Rightarrow> usage_totals" where
  "range_totals prov day val rng daily t =
     \<lparr>ut_summary = sql_sums summary_counters val rng t,
      ut_providers = by_requests (sql_groups total_counters val prov rng t),
      ut_daily = Some (by_day (sql_groups total_counters val day daily t))\<rparr>"

text \<open>The rows of the caller, in the events and in the rollups; \<open>None\<close> for the administrator.\<close>

definition pending_aliases :: "(usage_row \<Rightarrow> bool) \<Rightarrow> progress \<Rightarrow> string \<Rightarrow> usage_row list \<Rightarrow> string list" where
  "pending_aliases rng att p t = filter (\<lambda>q. normalize_email q = Some p)
     (List.map_filter (\<lambda>r. if rng r \<and> pending att (rowid r) then text_of (principal_id (event_json r)) else None) t)"

definition owner_condition :: "(usage_row \<Rightarrow> bool) \<Rightarrow> usage_scope \<Rightarrow> progress \<Rightarrow> usage_row list \<Rightarrow> (usage_row \<Rightarrow> bool) option" where
  "owner_condition rng scope att t = (case scope of
     AdminRead \<Rightarrow> None
   | CredentialRead i \<Rightarrow> Some (\<lambda>r. if pending att (rowid r)
       then principal_id (event_json r) = JNull \<and> credential_id (event_json r) = JStr i
       else principal_col r = None \<and> \<not> principal_nontext r \<and> credential_col r = Some i)
   | PrincipalRead i \<Rightarrow> (case normalize_email i of
       None \<Rightarrow> Some (\<lambda>_. False)
     | Some p \<Rightarrow> (let aliases = pending_aliases rng att p t in Some (\<lambda>r. if pending att (rowid r)
         then (case principal_id (event_json r) of JStr q \<Rightarrow> q \<in> set aliases | _ \<Rightarrow> False)
         else principal_key r = Some p))))"

definition rollup_owner_condition :: "usage_scope \<Rightarrow> rollups \<Rightarrow> (rollup_key \<Rightarrow> bool) option" where
  "rollup_owner_condition scope R = (case scope of
     AdminRead \<Rightarrow> None
   | CredentialRead i \<Rightarrow> Some (\<lambda>k. rk_principal k = None \<and> \<not> rk_nontext k \<and> rk_credential k = Some i)
   | PrincipalRead i \<Rightarrow> (case normalize_email i of
       None \<Rightarrow> Some (\<lambda>_. False)
     | Some p \<Rightarrow> (let aliases = filter (\<lambda>q. normalize_email q = Some p) (first_unique (List.map_filter (\<lambda>e. rk_principal (fst e)) R))
         in Some (\<lambda>k. case rk_principal k of None \<Rightarrow> False | Some q \<Rightarrow> q \<in> set aliases))))"

definition normal_principal :: "string option \<Rightarrow> string option" where
  "normal_principal p = map_option (\<lambda>q. case normalize_email q of Some n \<Rightarrow> n | None \<Rightarrow> q) p"

definition rollup_principal_totals :: "(string \<Rightarrow> string \<Rightarrow> int) \<Rightarrow> (rollup_key \<Rightarrow> bool) \<Rightarrow> rollups \<Rightarrow> principal_usage list" where
  "rollup_principal_totals lc rng R = merge_principal_usage lc
     (map (\<lambda>r. ((normal_principal (fst (fst r)), if fst (fst r) = None then snd (fst r) else None), snd r))
       (sql_groups summary_counters snd (\<lambda>e. (rk_principal (fst e), if rk_principal (fst e) = None then rk_credential (fst e) else None)) (\<lambda>e. rng (fst e)) R))"

definition principal_column :: "progress \<Rightarrow> usage_row \<Rightarrow> string option" where
  "principal_column att r = (if pending att (rowid r) then text_of (principal_id (event_json r)) else principal_col r)"

definition credential_column :: "progress \<Rightarrow> usage_row \<Rightarrow> json" where
  "credential_column att r = (if pending att (rowid r) then credential_id (event_json r)
     else case credential_col r of None \<Rightarrow> JNull | Some s \<Rightarrow> JStr s)"

definition principal_totals :: "(string \<Rightarrow> string \<Rightarrow> int) \<Rightarrow> progress \<Rightarrow> (usage_row \<Rightarrow> bool) \<Rightarrow> usage_row list \<Rightarrow> principal_usage list" where
  "principal_totals lc att rng t = merge_principal_usage lc
     (map (\<lambda>r. ((normal_principal (fst (fst r)), if fst (fst r) = None then text_of (snd (fst r)) else None), snd r))
       (sql_groups summary_counters (counter_values att)
         (\<lambda>r. (principal_column att r, if principal_column att r \<noteq> None then JNull else credential_column att r)) rng t))"

definition day_start :: "usage_row \<Rightarrow> int" where
  "day_start r = occurred_at_ms (event_json r) div usage_day_ms * usage_day_ms"

definition rollup_snapshot :: "(string \<Rightarrow> string \<Rightarrow> int) \<Rightarrow> string list \<Rightarrow> usage_scope \<Rightarrow> int \<Rightarrow> rollups \<Rightarrow> usage_event list \<Rightarrow> usage_snapshot" where
  "rollup_snapshot lc ids scope since R evs =
     (let rng = (\<lambda>k. policy_range ids (rk_policy k)); daily = (\<lambda>k. rng k \<and> since \<le> rk_day k);
          sumup = (\<lambda>f. range_totals (\<lambda>e. rk_provider (fst e)) (\<lambda>e. rk_day (fst e)) snd (\<lambda>e. rng (fst e) \<and> f (fst e)) (\<lambda>e. daily (fst e) \<and> f (fst e)) R);
          owner = rollup_owner_condition scope R
      in \<lparr>us_totals = sumup (\<lambda>_. True), us_events = evs, us_personal = map_option sumup owner,
          us_principals = (if owner = None then Some (rollup_principal_totals lc rng R) else None)\<rparr>)"

definition event_snapshot :: "(string \<Rightarrow> string \<Rightarrow> int) \<Rightarrow> progress \<Rightarrow> (usage_row \<Rightarrow> bool) \<Rightarrow> (usage_row \<Rightarrow> bool) \<Rightarrow>
    (usage_row \<Rightarrow> bool) option \<Rightarrow> usage_row list \<Rightarrow> usage_event list \<Rightarrow> usage_snapshot" where
  "event_snapshot lc att rng daily owner t evs =
     (let sumup = (\<lambda>f. range_totals (\<lambda>r. provider (event_json r)) day_start (counter_values att) (\<lambda>r. rng r \<and> f r) (\<lambda>r. daily r \<and> f r) t)
      in \<lparr>us_totals = sumup (\<lambda>_. True), us_events = evs, us_personal = map_option sumup owner,
          us_principals = (if owner = None then Some (principal_totals lc att rng t) else None)\<rparr>)"

definition recent_events :: "nat \<Rightarrow> usage_event list \<Rightarrow> usage_event list" where
  "recent_events n es = take n (sort_by (\<lambda>a b. occurred_at_ms b < occurred_at_ms a) es)"

definition in_range :: "string list \<Rightarrow> int \<Rightarrow> usage_row \<Rightarrow> bool" where
  "in_range ids since r \<longleftrightarrow> policy_range ids (policy_id (event_json r)) \<and> since \<le> occurred_at_ms (event_json r)"

definition ledger_snapshot :: "(string \<Rightarrow> string \<Rightarrow> int) \<Rightarrow> string list \<Rightarrow> usage_scope \<Rightarrow> nat \<Rightarrow> int \<Rightarrow> usage_ledger \<Rightarrow> usage_snapshot \<times> usage_ledger" where
  "ledger_snapshot lc ids scope most now L0 =
     (let L = cleanup (now - usage_retention_ms) L0; since = usage_cutoffs now 30; t = usage_events L;
          rng = in_range ids (fst since); daily = in_range ids (snd since);
          owner = owner_condition rng scope (attribution L) t;
          evs = recent_events most (map event_json (filter (\<lambda>r. rng r \<and> (case owner of None \<Rightarrow> True | Some f \<Rightarrow> f r)) t))
      in (if complete (rollup_migration L) then rollup_snapshot lc ids scope (snd since) (usage_rollups L) evs
          else event_snapshot lc (attribution L) rng daily owner t evs, L))"

definition valid_scope :: "usage_scope \<Rightarrow> bool" where
  "valid_scope scope \<longleftrightarrow> scope \<noteq> CredentialRead []"

definition snapshot_limit :: "nat \<Rightarrow> nat" where
  "snapshot_limit n = min 100 (if n = 0 then 100 else n)"

definition snapshot_request :: "(string \<Rightarrow> string \<Rightarrow> int) \<Rightarrow> string list \<Rightarrow> usage_scope \<Rightarrow> nat \<Rightarrow> int \<Rightarrow> usage_ledger \<Rightarrow> usage_snapshot result \<times> usage_ledger" where
  "snapshot_request lc ids scope most now L =
     (if \<not> valid_scope scope then (Inl (HttpError 400 ''invalid_usage_scope''), L)
      else let (s, L') = ledger_snapshot lc ids scope (snapshot_limit most) now (backfill_attribution L) in (Inr s, L'))"

subsection \<open>Several ledgers\<close>

definition merge_usage_totals :: "usage_totals list \<Rightarrow> usage_totals" where
  "merge_usage_totals vs =
     \<lparr>ut_summary = fold (\<lambda>v. add_counts (ut_summary v)) vs (empty_counts summary_counters),
      ut_providers = by_requests (merge_rows (empty_counts total_counters) (concat (map ut_providers vs))),
      ut_daily = (if list_all (\<lambda>v. ut_daily v \<noteq> None) vs
        then Some (by_day (merge_rows (empty_counts total_counters) (concat (map (\<lambda>v. case ut_daily v of None \<Rightarrow> [] | Some d \<Rightarrow> d) vs)))) else None)\<rparr>"

fun first_events :: "usage_event list \<Rightarrow> usage_event list" where
  "first_events [] = []"
| "first_events (e # es) = e # filter (\<lambda>x. ev_id x \<noteq> ev_id e) (first_events es)"

definition all_present :: "'a option list \<Rightarrow> 'a list option" where
  "all_present xs = (if xs \<noteq> [] \<and> list_all (\<lambda>x. x \<noteq> None) xs then Some (List.map_filter id xs) else None)"

definition merge_usage_snapshots :: "(string \<Rightarrow> string \<Rightarrow> int) \<Rightarrow> usage_snapshot list \<Rightarrow> nat \<Rightarrow> usage_snapshot" where
  "merge_usage_snapshots lc vs most =
     \<lparr>us_totals = merge_usage_totals (map us_totals vs),
      us_events = recent_events most (first_events (concat (map us_events vs))),
      us_personal = map_option merge_usage_totals (all_present (map us_personal vs)),
      us_principals = map_option (\<lambda>ps. merge_principal_usage lc (concat ps)) (all_present (map us_principals vs))\<rparr>"

definition usage_shard_name :: "string \<Rightarrow> string \<Rightarrow> string" where
  "usage_shard_name tenant p = ''policy:'' @ tenant @ '':'' @ p"

text \<open>A shard is read once, for the last of the policies with its name.\<close>

definition report_shards :: "(string \<times> string) list \<Rightarrow> (string \<times> string) list" where
  "report_shards policies = fold (\<lambda>q. put_in (usage_shard_name (fst q) (snd q)) (snd q)) policies []"

definition usage_snapshots ::
    "(string \<Rightarrow> string \<Rightarrow> int) \<Rightarrow> (string \<times> string) list \<Rightarrow> usage_scope \<Rightarrow> nat \<Rightarrow> int \<Rightarrow> (string \<Rightarrow> usage_ledger) \<Rightarrow>
     usage_snapshot result \<times> (string \<Rightarrow> usage_ledger)" where
  "usage_snapshots lc policies scope most now ledgers =
     (let reads = map (\<lambda>s. (fst s, snapshot_request lc [snd s] scope most now (ledgers (fst s)))) (report_shards policies);
          after = fold (\<lambda>r f. f(fst r := snd (snd r))) reads ledgers
      in case those (map (\<lambda>r. case fst (snd r) of Inl _ \<Rightarrow> None | Inr s \<Rightarrow> Some s) reads) of
           None \<Rightarrow> (Inl (Thrown ''usage snapshot returned 400''), after)
         | Some vs \<Rightarrow> (Inr (merge_usage_snapshots lc vs most), after))"

subsection \<open>Sums over counts and rows\<close>

definition tally :: "counter \<Rightarrow> counts \<Rightarrow> int" where
  "tally c cs = sum_where (\<lambda>e. fst e = c) snd cs"

definition row_tally :: "counter \<Rightarrow> 'k \<Rightarrow> ('k \<times> counts) list \<Rightarrow> int" where
  "row_tally c k rs = sum_where (\<lambda>r. fst r = k) (\<lambda>r. tally c (snd r)) rs"

lemma tally_simps [simp]: "tally c [] = 0" "tally c (e # cs) = (if fst e = c then snd e else 0) + tally c cs"
  by (simp_all add: tally_def sum_where_def)

lemma row_tally_simps [simp]: "row_tally c k [] = 0" "row_tally c k (r # rs) = (if fst r = k then tally c (snd r) else 0) + row_tally c k rs"
  by (simp_all add: row_tally_def sum_where_def)

lemma row_tally_append [simp]: "row_tally c k (rs @ ss) = row_tally c k rs + row_tally c k ss"
  by (induction rs) simp_all

lemma row_tally_concat: "row_tally c k (concat rss) = sum_list (map (row_tally c k) rss)"
  by (induction rss) simp_all

lemma mset_insert_by: "mset (insert_by lt x xs) = add_mset x (mset xs)"
  by (induction xs) (auto simp: add_mset_commute)

lemma mset_sort_by: "mset (sort_by lt xs) = mset xs"
proof -
  have "mset (fold (insert_by lt) xs ys) = mset xs + mset ys" for ys
    by (induction xs arbitrary: ys) (simp_all add: mset_insert_by)
  then show ?thesis by (simp add: sort_by_def)
qed

lemma row_tally_mset: "mset rs = mset ss \<Longrightarrow> row_tally c k rs = row_tally c k ss"
  by (simp add: row_tally_def sum_where_def flip: sum_mset_sum_list)

lemma row_tally_sorted [simp]: "row_tally c k (by_requests rs) = row_tally c k rs" "row_tally c d (by_day ds) = row_tally c d ds"
  by (auto intro!: row_tally_mset simp: by_requests_def by_day_def mset_sort_by)

lemma tally_zero [simp]: "tally c (empty_counts cs) = 0"
  by (induction cs) (simp_all add: empty_counts_def)

lemma keyed_empty_counts: "distinct cs \<Longrightarrow> keyed fst (empty_counts cs)"
  by (simp add: keyed_def empty_counts_def comp_def)

lemma keyed_put_in: "keyed fst m \<Longrightarrow> keyed fst (put_in k v m)" "set (put_in k v m) \<subseteq> insert (k, v) (set m)"
proof -
  show "set (put_in k v m) \<subseteq> insert (k, v) (set m)" by (induction m) (auto split: if_splits)
  have "map fst (put_in k v m) = (if k \<in> fst ` set m then map fst m else map fst m @ [k])" for m
  proof (induction m)
    case (Cons e m)
    then show ?case by (cases e; cases "fst e = k") auto
  qed simp
  then show "keyed fst m \<Longrightarrow> keyed fst (put_in k v m)" by (simp add: keyed_def)
qed

lemma tally_put_in: "keyed fst t \<Longrightarrow> tally c (put_in d v t) = tally c t + (if d = c then v - (case map_of t d of None \<Rightarrow> 0 | Some n \<Rightarrow> n) else 0)"
  by (induction t) (auto simp: keyed_Cons)

lemma add_counts_facts:
  assumes "keyed fst t"
  shows "keyed fst (add_counts cs t) \<and> tally c (add_counts cs t) = tally c t + tally c cs"
  using assms
proof (induction cs arbitrary: t)
  case (Cons e cs)
  have "keyed fst (add_count e t)" "tally c (add_count e t) = tally c t + (if fst e = c then snd e else 0)"
    using Cons.prems by (simp_all add: add_count_def keyed_put_in tally_put_in)
  with Cons.IH [of "add_count e t"] show ?case by (simp add: add_counts_def)
qed (simp add: add_counts_def)

lemma row_tally_put_in: "keyed fst m \<Longrightarrow>
    row_tally c k (put_in j t m) = row_tally c k m + (if j = k then tally c t - (case map_of m j of None \<Rightarrow> 0 | Some u \<Rightarrow> tally c u) else 0)"
  by (induction m) (auto simp: keyed_Cons)

lemma merge_rows_fold:
  assumes "keyed fst m" and "\<forall>r \<in> set m. keyed fst (snd r)" and "distinct cs"
  shows "row_tally c k (fold (merge_row (empty_counts cs)) rs m) = row_tally c k m + row_tally c k rs"
  using assms(1,2)
proof (induction rs arbitrary: m)
  case (Cons r rs)
  let ?t = "case map_of m (fst r) of None \<Rightarrow> empty_counts cs | Some t \<Rightarrow> t"
  have t: "keyed fst ?t" using Cons.prems assms(3) by (auto simp: keyed_empty_counts split: option.split dest!: map_of_SomeD)
  have "tally c ?t = (case map_of m (fst r) of None \<Rightarrow> 0 | Some u \<Rightarrow> tally c u)" by (simp split: option.split)
  then have "row_tally c k (merge_row (empty_counts cs) r m) = row_tally c k m + (if fst r = k then tally c (snd r) else 0)"
    using Cons.prems add_counts_facts [OF t, of "snd r" c] by (auto simp: merge_row_def row_tally_put_in)
  moreover have "keyed fst (merge_row (empty_counts cs) r m)" using Cons.prems by (simp add: merge_row_def keyed_put_in)
  moreover have "\<forall>x \<in> set (merge_row (empty_counts cs) r m). keyed fst (snd x)"
    using Cons.prems keyed_put_in(2) [of "fst r" "add_counts (snd r) ?t" m] add_counts_facts [OF t] by (auto simp: merge_row_def)
  ultimately show ?case using Cons.IH by simp
qed simp

lemma row_tally_merge: "distinct cs \<Longrightarrow> row_tally c k (merge_rows (empty_counts cs) rs) = row_tally c k rs"
  by (simp add: merge_rows_def merge_rows_fold keyed_empty_counts)

lemma merged_summary:
  assumes "keyed fst z"
  shows "tally c (fold (\<lambda>v. add_counts (ut_summary v)) vs z) = tally c z + sum_list (map (\<lambda>v. tally c (ut_summary v)) vs)"
  using assms by (induction vs arbitrary: z) (simp_all add: add_counts_facts)

lemma counters_distinct [simp]: "distinct total_counters" "distinct summary_counters"
  by (simp_all add: total_counters_def summary_counters_def)

lemma total_in_summary: "c \<in> set total_counters \<Longrightarrow> c \<in> set summary_counters"
  by (simp add: summary_counters_def)

subsection \<open>The sums of the SQL reads\<close>

lemma tally_map: "distinct cs \<Longrightarrow> tally c (map (\<lambda>c. (c, f c)) cs) = (if c \<in> set cs then f c else 0)"
  by (induction cs) auto

lemma row_tally_map: "distinct ks \<Longrightarrow> row_tally c k (map (\<lambda>k. (k, f k)) ks) = (if k \<in> set ks then tally c (f k) else 0)"
  by (induction ks) auto

lemma sql_sums_tally: "distinct cs \<Longrightarrow> c \<in> set cs \<Longrightarrow> tally c (sql_sums cs val p t) = sum_where p (\<lambda>r. val r c) t"
  by (simp add: sql_sums_def tally_map)

lemma sum_where_none: "(\<And>r. r \<in> set t \<Longrightarrow> \<not> p r) \<Longrightarrow> sum_where p f t = 0"
  by (induction t) (simp_all add: sum_where_Cons)

lemma sum_where_cong: "(\<And>r. r \<in> set t \<Longrightarrow> p r = q r) \<Longrightarrow> sum_where p f t = sum_where q f t"
  by (induction t) (simp_all add: sum_where_Cons)

lemma sql_groups_tally:
  assumes "distinct cs" and "c \<in> set cs"
  shows "row_tally c k (sql_groups cs val g p t) = sum_where (\<lambda>r. p r \<and> g r = k) (\<lambda>r. val r c) t"
proof (cases "k \<in> g ` set (filter p t)")
  case False
  then have "sum_where (\<lambda>r. p r \<and> g r = k) (\<lambda>r. val r c) t = 0" by (intro sum_where_none) auto
  with False show ?thesis by (auto simp: sql_groups_def row_tally_map)
qed (use assms in \<open>simp add: sql_groups_def row_tally_map sql_sums_tally\<close>)

lemma range_totals_facts:
  assumes "c \<in> set total_counters"
  shows "tally c (ut_summary (range_totals prov day val p q t)) = sum_where p (\<lambda>r. val r c) t"
    and "row_tally c k (ut_providers (range_totals prov day val p q t)) = sum_where (\<lambda>r. p r \<and> prov r = k) (\<lambda>r. val r c) t"
    and "\<exists>ds. ut_daily (range_totals prov day val p q t) = Some ds \<and> row_tally c d ds = sum_where (\<lambda>r. q r \<and> day r = d) (\<lambda>r. val r c) t"
  using assms by (simp_all add: range_totals_def sql_sums_tally sql_groups_tally total_in_summary)

subsection \<open>Snapshots report the events\<close>

lemma day_cut: "since = n * usage_day_ms \<Longrightarrow> since \<le> t div usage_day_ms * usage_day_ms \<longleftrightarrow> since \<le> t"
proof -
  assume "since = n * usage_day_ms"
  moreover have "n \<le> t div 86400000 \<longleftrightarrow> n * 86400000 \<le> t" by linarith
  ultimately show ?thesis by (simp add: usage_day_ms_def)
qed

definition event_sum :: "usage_ledger \<Rightarrow> counter \<Rightarrow> (usage_row \<Rightarrow> bool) \<Rightarrow> int" where
  "event_sum L c f = sum_where f (\<lambda>r. counter_values (attribution L) r c) (usage_events L)"

lemma rollup_sum:
  assumes "rollups_ok L" and "complete (rollup_migration L)"
  shows "sum_where (\<lambda>e. sel (fst e)) (\<lambda>e. snd e c) (usage_rollups L) = event_sum L c (\<lambda>r. sel (key_values (attribution L) r))"
  using agg.total_agrees [of "attribution L" "\<lambda>r. counted (rollup_migration L) (rowid r)" "usage_events L" "usage_rollups L" sel c] assms
  by (simp add: rollups_ok_def event_sum_def counted_def)

lemma ledger_totals:
  assumes "rollups_ok L0" and "c \<in> set total_counters" and "L = cleanup (now - usage_retention_ms) L0"
    and "tot = us_totals (fst (ledger_snapshot lc ids scope most now L0))"
  shows "tally c (ut_summary tot) = event_sum L c (\<lambda>r. policy_range ids (policy_id (event_json r)))"
    and "row_tally c k (ut_providers tot) = event_sum L c (\<lambda>r. policy_range ids (policy_id (event_json r)) \<and> provider (event_json r) = k)"
    and "\<exists>ds. ut_daily tot = Some ds \<and> row_tally c d ds =
      event_sum L c (\<lambda>r. policy_range ids (policy_id (event_json r)) \<and> snd (usage_cutoffs now 30) \<le> occurred_at_ms (event_json r) \<and> day_start r = d)"
proof -
  let ?p = "\<lambda>r. policy_range ids (policy_id (event_json r))" and ?s = "snd (usage_cutoffs now 30)"
  have ok: "rollups_ok L" using cleanup_facts(1) [OF assms(1)] assms(3) by simp
  have young: "now - usage_retention_ms \<le> occurred_at_ms (event_json r)" if "r \<in> set (usage_events L)" for r
    using that cleanup_facts(2) [OF assms(1), of "now - usage_retention_ms"] assms(3) by simp
  have all: "in_range ids (fst (usage_cutoffs now 30)) r = ?p r" if "r \<in> set (usage_events L)" for r
    using young [OF that] by (simp add: in_range_def usage_cutoffs_def usage_retention_ms_def)
  have day: "?s \<le> rk_day (key_values att r) \<longleftrightarrow> ?s \<le> occurred_at_ms (event_json r)" for att r
    using day_cut [of ?s "now div usage_day_ms - 29"] by (simp add: key_values_def usage_cutoffs_def Let_def left_diff_distrib)
  have key: "rk_policy (key_values att r) = policy_id (event_json r)" "rk_provider (key_values att r) = provider (event_json r)" "rk_day (key_values att r) = day_start r" for att r
    by (simp_all add: key_values_def day_start_def Let_def)
  note tot = assms(4) [unfolded ledger_snapshot_def Let_def, folded assms(3)]
  show "tally c (ut_summary tot) = event_sum L c ?p"
  proof (cases "complete (rollup_migration L)")
    case True
    then show ?thesis using rollup_sum [OF ok True, of "\<lambda>k. policy_range ids (rk_policy k)" c] assms(2) tot
      by (simp add: rollup_snapshot_def Let_def range_totals_facts key)
  next
    case False
    then show ?thesis using assms(2) tot
      by (simp add: event_snapshot_def Let_def range_totals_facts event_sum_def) (rule sum_where_cong, simp add: all)
  qed
  show "row_tally c k (ut_providers tot) = event_sum L c (\<lambda>r. ?p r \<and> provider (event_json r) = k)"
  proof (cases "complete (rollup_migration L)")
    case True
    then show ?thesis using rollup_sum [OF ok True, of "\<lambda>x. policy_range ids (rk_policy x) \<and> rk_provider x = k" c] assms(2) tot
      by (simp add: rollup_snapshot_def Let_def range_totals_facts key)
  next
    case False
    then show ?thesis using assms(2) tot
      by (simp add: event_snapshot_def Let_def range_totals_facts event_sum_def) (rule sum_where_cong, simp add: all)
  qed
  show "\<exists>ds. ut_daily tot = Some ds \<and> row_tally c d ds = event_sum L c (\<lambda>r. ?p r \<and> ?s \<le> occurred_at_ms (event_json r) \<and> day_start r = d)"
  proof (cases "complete (rollup_migration L)")
    case True
    have sum: "sum_where (\<lambda>e. (policy_range ids (rk_policy (fst e)) \<and> ?s \<le> rk_day (fst e)) \<and> rk_day (fst e) = d) (\<lambda>e. snd e c) (usage_rollups L) =
        event_sum L c (\<lambda>r. ?p r \<and> ?s \<le> occurred_at_ms (event_json r) \<and> day_start r = d)"
      using rollup_sum [OF ok True, of "\<lambda>x. (policy_range ids (rk_policy x) \<and> ?s \<le> rk_day x) \<and> rk_day x = d" c] by (simp add: day) (simp add: key)
    have eq: "tot = range_totals (\<lambda>e. rk_provider (fst e)) (\<lambda>e. rk_day (fst e)) snd (\<lambda>e. policy_range ids (rk_policy (fst e)))
        (\<lambda>e. policy_range ids (rk_policy (fst e)) \<and> ?s \<le> rk_day (fst e)) (usage_rollups L)"
      using True tot by (simp add: rollup_snapshot_def Let_def)
    show ?thesis unfolding sum [symmetric] eq by (rule range_totals_facts(3) [OF assms(2)])
  next
    case False
    have sum: "event_sum L c (\<lambda>r. ?p r \<and> ?s \<le> occurred_at_ms (event_json r) \<and> day_start r = d) =
        sum_where (\<lambda>r. in_range ids ?s r \<and> day_start r = d) (\<lambda>r. counter_values (attribution L) r c) (usage_events L)"
      by (simp add: event_sum_def in_range_def)
    have eq: "tot = range_totals (\<lambda>r. provider (event_json r)) day_start (counter_values (attribution L)) (in_range ids (fst (usage_cutoffs now 30)))
        (in_range ids ?s) (usage_events L)"
      using False tot by (simp add: event_snapshot_def Let_def)
    show ?thesis unfolding sum eq by (rule range_totals_facts(3) [OF assms(2)])
  qed
qed

text \<open>The ledger as a read leaves it.\<close>

definition after_read :: "int \<Rightarrow> usage_ledger \<Rightarrow> usage_ledger" where
  "after_read now L = cleanup (now - usage_retention_ms) (backfill_attribution L)"

lemma those_map_Some: "those (map (\<lambda>x. Some (f x)) xs) = Some (map f xs)"
  by (induction xs) simp_all

lemma usage_snapshots_merge:
  assumes "usage_snapshots lc policies scope most now ledgers = (Inr rep, after)"
  shows "rep = merge_usage_snapshots lc (map (\<lambda>s. fst (ledger_snapshot lc [snd s] scope (snapshot_limit most) now (backfill_attribution (ledgers (fst s)))))
    (report_shards policies)) most"
proof (cases "valid_scope scope \<or> report_shards policies = []")
  case True
  then show ?thesis using assms
    by (auto simp: usage_snapshots_def snapshot_request_def Let_def comp_def case_prod_beta those_map_Some)
next
  case False
  then obtain s ss where "report_shards policies = s # ss" by (cases "report_shards policies") auto
  with False assms show ?thesis by (simp add: usage_snapshots_def snapshot_request_def Let_def)
qed

lemma merged_totals:
  assumes "\<forall>v \<in> set vs. \<exists>ds. ut_daily v = Some ds \<and> row_tally c d ds = dy v" and "c \<in> set total_counters"
  shows "tally c (ut_summary (merge_usage_totals vs)) = sum_list (map (\<lambda>v. tally c (ut_summary v)) vs)"
    and "row_tally c k (ut_providers (merge_usage_totals vs)) = sum_list (map (\<lambda>v. row_tally c k (ut_providers v)) vs)"
    and "\<exists>ds. ut_daily (merge_usage_totals vs) = Some ds \<and> row_tally c d ds = sum_list (map dy vs)"
proof -
  show "tally c (ut_summary (merge_usage_totals vs)) = sum_list (map (\<lambda>v. tally c (ut_summary v)) vs)"
    by (simp add: merge_usage_totals_def merged_summary keyed_empty_counts)
  show "row_tally c k (ut_providers (merge_usage_totals vs)) = sum_list (map (\<lambda>v. row_tally c k (ut_providers v)) vs)"
    by (simp add: merge_usage_totals_def row_tally_merge row_tally_concat comp_def)
  have "list_all (\<lambda>v. ut_daily v \<noteq> None) vs" using assms(1) by (auto simp: list_all_iff)
  moreover have "map (\<lambda>v. row_tally c d (case ut_daily v of None \<Rightarrow> [] | Some ds \<Rightarrow> ds)) vs = map dy vs"
    using assms(1) by (intro map_cong) auto
  then have "(\<Sum>v \<leftarrow> vs. row_tally c d (case ut_daily v of None \<Rightarrow> [] | Some ds \<Rightarrow> ds)) = sum_list (map dy vs)" by (rule arg_cong)
  ultimately show "\<exists>ds. ut_daily (merge_usage_totals vs) = Some ds \<and> row_tally c d ds = sum_list (map dy vs)"
    by (simp add: merge_usage_totals_def row_tally_merge row_tally_concat comp_def)
qed

text \<open>
  C38. A usage report counts every retained event of its policies once. However the policies are spread over ledgers,
  and whether each ledger answers from its rollups or, while its migrations run, from its events, the merged
  totals of a counter are the sums over the retained events: overall, for every provider, and for every
  day of the daily range.
\<close>

theorem usage_report_counts_events:
  assumes "\<And>n. usage_reachable (ledgers n)" and "usage_snapshots lc policies scope most now ledgers = (Inr rep, after)" and "c \<in> set total_counters"
  shows "tally c (ut_summary (us_totals rep)) = (\<Sum>s \<leftarrow> report_shards policies.
      event_sum (after_read now (ledgers (fst s))) c (\<lambda>r. policy_range [snd s] (policy_id (event_json r)))) \<and>
    row_tally c k (ut_providers (us_totals rep)) = (\<Sum>s \<leftarrow> report_shards policies.
      event_sum (after_read now (ledgers (fst s))) c (\<lambda>r. policy_range [snd s] (policy_id (event_json r)) \<and> provider (event_json r) = k)) \<and>
    (\<exists>ds. ut_daily (us_totals rep) = Some ds \<and> row_tally c d ds = (\<Sum>s \<leftarrow> report_shards policies.
      event_sum (after_read now (ledgers (fst s))) c (\<lambda>r. policy_range [snd s] (policy_id (event_json r)) \<and>
        snd (usage_cutoffs now 30) \<le> occurred_at_ms (event_json r) \<and> day_start r = d)))"
proof -
  define snap where "snap s = us_totals (fst (ledger_snapshot lc [snd s] scope (snapshot_limit most) now (backfill_attribution (ledgers (fst s)))))" for s
  have ok: "rollups_ok (backfill_attribution (ledgers n))" for n using assms(1) reachable_ok rollups_ok_backfill_attribution by blast
  note t = ledger_totals [OF ok assms(3) refl snap_def, folded after_read_def]
  have rep: "us_totals rep = merge_usage_totals (map snap (report_shards policies))"
    using usage_snapshots_merge [OF assms(2)] by (simp add: merge_usage_snapshots_def snap_def [abs_def] comp_def)
  define dy where "dy v = (case ut_daily v of None \<Rightarrow> 0 | Some ds \<Rightarrow> row_tally c d ds)" for v :: usage_totals
  have "dy (snap s) = event_sum (after_read now (ledgers (fst s))) c (\<lambda>r. policy_range [snd s] (policy_id (event_json r)) \<and>
        snd (usage_cutoffs now 30) \<le> occurred_at_ms (event_json r) \<and> day_start r = d)" for s
    using t(3) [of s d] by (auto simp: dy_def)
  moreover have "\<forall>v \<in> set (map snap (report_shards policies)). \<exists>ds. ut_daily v = Some ds \<and> row_tally c d ds = dy v"
    using t(3) by (fastforce simp: dy_def)
  note m = merged_totals [OF this assms(3), folded rep]
  ultimately show ?thesis using m t(1,2) by (simp add: comp_def)
qed

definition sample_ledgers :: "string \<Rightarrow> usage_ledger" where
  "sample_ledgers n = snd (ingest_request sample_event 86400010 (ensure_usage_schema [(1, sample_event\<lparr>ev_id := ''event_0''\<rparr>)]))"

lemma sample_ledgers_sum: "event_sum (after_read 86400010 (sample_ledgers ''policy:t:team'')) ActualCost (\<lambda>r. policy_range [''team''] (policy_id (event_json r))) = 84"
  by code_simp

text \<open>A ledger opened on one earlier event, with one more ingested: its rollups are not yet migrated.\<close>

theorem usage_report_counts_events_witness:
  "\<exists>rep. fst (usage_snapshots (\<lambda>_ _. 0) [(''t'', ''team'')] AdminRead 100 86400010 sample_ledgers) = Inr rep \<and> tally ActualCost (ut_summary (us_totals rep)) = 84"
proof -
  obtain rep after where r: "usage_snapshots (\<lambda>_ _. 0) [(''t'', ''team'')] AdminRead 100 86400010 sample_ledgers = (Inr rep, after)"
    by (simp add: usage_snapshots_def report_shards_def snapshot_request_def valid_scope_def Let_def split_beta)
  have "usage_reachable (sample_ledgers n)" for n
    unfolding sample_ledgers_def by (intro usage_reachable.ingested usage_reachable.opened) simp_all
  from usage_report_counts_events [OF this r, of ActualCost] r sample_ledgers_sum show ?thesis
    by (simp add: total_counters_def report_shards_def usage_shard_name_def)
qed

end
