(* ===== verification/Body_Budget.thy ===== *)
theory Body_Budget
  imports Prelude
begin

section \<open>The memory budget of request bodies\<close>

text \<open>
  \<open>worker/body-budget.ts\<close>: the isolate's counter of charged bytes with the leases of the requests in flight.
  \<open>charged\<close> is the counter of the module and the leases are the objects that were ever allocated, by number.
  Byte counts are integers; the sums stay far below the safe range, and the comparisons that guard it are kept.
\<close>

definition body_lease_minimum :: int where "body_lease_minimum = 1024 * 1024"

definition body_budget_bytes :: int where "body_budget_bytes = 96 * 1024 * 1024"

record body_lease =
  held :: int
  transferred :: bool

record body_pool =
  charged :: int
  leases :: "body_lease list"

definition empty_pool :: body_pool where
  "empty_pool = \<lparr>charged = 0, leases = []\<rparr>"

definition new_lease :: "int \<Rightarrow> body_lease" where
  "new_lease n = \<lparr>held = n, transferred = False\<rparr>"

definition open_lease :: "body_pool \<Rightarrow> body_pool" where
  "open_lease b = b\<lparr>leases := leases b @ [new_lease 0]\<rparr>"

definition wanted :: "int \<Rightarrow> int" where
  "wanted bytes = (if bytes < body_lease_minimum then 0 else 2 * bytes)"

definition grow :: "nat \<Rightarrow> int \<Rightarrow> body_pool \<Rightarrow> bool \<times> body_pool" where
  "grow i bytes b =
     (let l = leases b ! i; want = wanted bytes
      in if transferred l then (False, b)
         else if want \<le> held l then (True, b)
         else if charged b - held l + want > body_budget_bytes then (False, b)
         else (True, b\<lparr>charged := charged b + (want - held l), leases := (leases b)[i := l\<lparr>held := want\<rparr>]\<rparr>))"

definition charge_ok :: "int \<Rightarrow> bool" where
  "charge_ok n \<longleftrightarrow> safe_int n \<and> 0 < n \<and> n \<le> body_budget_bytes"

text \<open>The two successors are the last leases of the pool.\<close>

definition split_charges :: "nat \<Rightarrow> int \<Rightarrow> int \<Rightarrow> body_pool \<Rightarrow> bool \<times> body_pool" where
  "split_charges i retained response b =
     (let l = leases b ! i
      in if transferred l \<or> \<not> charge_ok (held l) \<or> \<not> charge_ok retained \<or> \<not> charge_ok response then (False, b)
         else let both = retained + response; after = charged b - held l + both
           in if both > body_budget_bytes \<or> \<not> safe_int after \<or> after < both \<or> after > body_budget_bytes then (False, b)
              else (True, b\<lparr>charged := after,
                leases := (leases b)[i := l\<lparr>held := 0, transferred := True\<rparr>] @ [new_lease retained, new_lease response]\<rparr>))"

definition leased :: "nat \<Rightarrow> body_pool \<Rightarrow> bool" where
  "leased i b \<longleftrightarrow> held (leases b ! i) > 0"

definition release :: "nat \<Rightarrow> body_pool \<Rightarrow> body_pool" where
  "release i b = b\<lparr>charged := charged b - held (leases b ! i), leases := (leases b)[i := (leases b ! i)\<lparr>held := 0\<rparr>]\<rparr>"

text \<open>What the requests in flight do, in any order; an operation on a lease that does not exist does nothing.\<close>

datatype body_op = OpenLease | Grow nat int | SplitCharges nat int int | Release nat

definition body_step :: "body_op \<Rightarrow> body_pool \<Rightarrow> body_pool" where
  "body_step p b = (case p of
     OpenLease \<Rightarrow> open_lease b
   | Grow i n \<Rightarrow> if i < length (leases b) then snd (grow i n b) else b
   | SplitCharges i m n \<Rightarrow> if i < length (leases b) then snd (split_charges i m n b) else b
   | Release i \<Rightarrow> if i < length (leases b) then release i b else b)"

definition body_run :: "body_op list \<Rightarrow> body_pool" where
  "body_run ops = fold body_step ops empty_pool"

subsection \<open>Properties\<close>

definition held_bytes :: "body_pool \<Rightarrow> int" where
  "held_bytes b = sum_list (map held (leases b))"

definition pool_ok :: "body_pool \<Rightarrow> bool" where
  "pool_ok b \<longleftrightarrow> charged b = held_bytes b \<and> charged b \<le> body_budget_bytes \<and>
     (\<forall>l \<in> set (leases b). 0 \<le> held l \<and> (transferred l \<longrightarrow> held l = 0))"

lemma held_update: "i < length ls \<Longrightarrow> sum_list (map held (ls[i := l])) = sum_list (map held ls) - held (ls ! i) + held l"
  by (induction ls arbitrary: i) (auto split: nat.split)

lemma wanted_nonneg: "0 \<le> wanted n"
  by (simp add: wanted_def body_lease_minimum_def)

lemma pool_ok_lease: "pool_ok b \<Longrightarrow> i < length (leases b) \<Longrightarrow> 0 \<le> held (leases b ! i) \<and> (transferred (leases b ! i) \<longrightarrow> held (leases b ! i) = 0)"
  unfolding pool_ok_def by (meson nth_mem)

lemma grow_ok: "pool_ok b \<Longrightarrow> i < length (leases b) \<Longrightarrow> pool_ok (snd (grow i n b))"
  using pool_ok_lease [of b i] wanted_nonneg [of n]
  by (auto simp: grow_def Let_def pool_ok_def held_bytes_def held_update dest!: set_update_subset_insert [THEN subsetD])

lemma split_ok: "pool_ok b \<Longrightarrow> i < length (leases b) \<Longrightarrow> pool_ok (snd (split_charges i m n b))"
  by (auto simp: split_charges_def Let_def pool_ok_def held_bytes_def held_update new_lease_def charge_ok_def dest!: set_update_subset_insert [THEN subsetD])

lemma release_ok:
  assumes "pool_ok b" and "i < length (leases b)"
  shows "pool_ok (release i b)"
proof -
  have "charged (release i b) \<le> charged b" using pool_ok_lease [OF assms] unfolding release_def by simp
  then have "charged (release i b) \<le> body_budget_bytes" using assms(1) unfolding pool_ok_def by linarith
  then show ?thesis using assms
    by (auto simp: release_def pool_ok_def held_bytes_def held_update dest!: set_update_subset_insert [THEN subsetD])
qed

lemma run_ok: "pool_ok (body_run ops)"
proof (induction ops rule: rev_induct)
  case Nil
  show ?case by (simp add: body_run_def empty_pool_def pool_ok_def held_bytes_def body_budget_bytes_def)
next
  case (snoc p ops)
  moreover have "pool_ok b \<Longrightarrow> pool_ok (open_lease b)" for b by (auto simp: open_lease_def pool_ok_def held_bytes_def new_lease_def)
  ultimately show ?case by (cases p) (simp_all add: body_run_def body_step_def grow_ok split_ok release_ok)
qed

lemma refused_grow: "\<not> fst (grow i n b) \<longleftrightarrow> transferred (leases b ! i) \<or>
    held (leases b ! i) < wanted n \<and> body_budget_bytes < charged b - held (leases b ! i) + wanted n"
  by (auto simp: grow_def Let_def)

text \<open>
  C39. The bodies of the requests in flight never hold more than the budget of the isolate, whatever the requests do and
  in whatever order: the counter is the sum of what the leases hold, so a lease that was released or handed
  over holds nothing and the budget comes back. A lease is refused only when it was handed over or when
  its bytes do not fit beside what the others hold.
\<close>

theorem body_budget_is_bounded:
  assumes "b = body_run ops"
  shows "charged b = (\<Sum>l \<leftarrow> leases b. held l) \<and> 0 \<le> charged b \<and> charged b \<le> body_budget_bytes \<and>
    (i < length (leases b) \<longrightarrow> held (leases (release i b) ! i) = 0 \<and> charged (release i b) = charged b - held (leases b ! i) \<and>
      (\<not> fst (grow i n b) \<longrightarrow> transferred (leases b ! i) \<or> body_budget_bytes < (\<Sum>l \<leftarrow> (leases b)[i := new_lease 0]. held l) + wanted n))"
proof -
  have ok: "pool_ok b" using assms run_ok by simp
  then have "0 \<le> held_bytes b" unfolding held_bytes_def by (auto simp: pool_ok_def intro!: sum_list_nonneg)
  with ok show ?thesis by (auto simp: pool_ok_def held_bytes_def release_def refused_grow held_update new_lease_def)
qed

theorem body_budget_is_bounded_witness:
  "charged (body_run [OpenLease, Grow 0 30000000, OpenLease, Grow 1 30000000, SplitCharges 0 40000000 10000000]) = 50000000 \<and>
   charged (body_run [OpenLease, Grow 0 30000000, OpenLease, Grow 1 30000000, SplitCharges 0 40000000 10000000]) \<le> body_budget_bytes"
proof -
  have "charged (body_run [OpenLease, Grow 0 30000000, OpenLease, Grow 1 30000000, SplitCharges 0 40000000 10000000]) = 50000000" by code_simp
  then show ?thesis using body_budget_is_bounded [OF refl] by blast
qed

end
