(* ===== verification/Service_Tiers.thy ===== *)
theory Service_Tiers
  imports Assignments Token_Usage Tool_Pricing Access_Types
begin

section \<open>Models and service tiers of a policy\<close>

text \<open>
  The guards on what a key may ask for: \<open>worker/policy-models.ts\<close> with \<open>shared/policy-models.ts\<close>, and
  \<open>worker/service-tiers.ts\<close> with \<open>shared/service-tiers.ts\<close>. The tiers a policy names for single models are the
  members of an object, so the names every object inherits are found as well. Messages are left out of the errors.
\<close>

subsection \<open>Models\<close>

definition policy_allows_model :: "access_policy \<Rightarrow> string \<Rightarrow> string \<Rightarrow> bool" where
  "policy_allows_model pol prov m \<longleftrightarrow> (providers pol = [] \<or> prov \<in> set (providers pol)) \<and> (case models pol of None \<Rightarrow> True | Some ms \<Rightarrow> m \<in> set ms)"

definition assert_policy_model :: "access_policy \<Rightarrow> string option \<Rightarrow> string \<Rightarrow> string \<Rightarrow> unit result" where
  "assert_policy_model pol m format cap = (case (m, models pol) of
     (_, None) \<Rightarrow> Inr ()
   | (Some i, Some ms) \<Rightarrow> if i \<in> set ms then Inr () else Inl (HttpError 403 ''model_not_allowed'')
   | (None, Some ms) \<Rightarrow> if starts_with ''llm.'' cap \<or> format = ''cloudflare_ai_gateway.universal'' then Inl (HttpError 403 ''model_not_allowed'') else Inr ())"

subsection \<open>Tiers\<close>

definition default_service_tiers :: "string list" where
  "default_service_tiers = [''default'', ''flex'', ''priority'']"

definition normalize_service_tier :: "string option \<Rightarrow> string" where
  "normalize_service_tier tier = (case map_option to_lower tier of
     None \<Rightarrow> ''default''
   | Some v \<Rightarrow> if v = [] \<or> v = ''auto'' then ''default'' else if v = ''fast'' then ''priority'' else v)"

definition canonical_tier :: "json \<Rightarrow> bool" where
  "canonical_tier v = (case v of JStr s \<Rightarrow> tier_name s \<and> normalize_service_tier (Some s) = s | _ \<Rightarrow> False)"

definition bad_policy :: "'a result" where
  "bad_policy = Inl (HttpError 400 ''invalid_policy'')"

definition normalize_tier_list :: "json option \<Rightarrow> string list result" where
  "normalize_tier_list v = (case v of
     Some (JArr xs) \<Rightarrow> if \<not> list_all canonical_tier xs then bad_policy
       else (let ts = first_unique (List.map_filter (\<lambda>x. text_of (Some x)) xs) in if 8 < length ts then bad_policy else Inr ts)
   | _ \<Rightarrow> bad_policy)"

fun normalize_model_tiers :: "string list \<Rightarrow> (string \<times> json) list \<Rightarrow> (string \<times> string list) list result" where
  "normalize_model_tiers catalog [] = Inr []"
| "normalize_model_tiers catalog ((m, v) # kvs) =
     (if m \<notin> set catalog then bad_policy
      else rbind (normalize_tier_list (Some v)) (\<lambda>ts. rbind (normalize_model_tiers catalog kvs) (\<lambda>r. Inr ((m, ts) # r))))"

definition normalize_policy_tiers :: "string list \<Rightarrow> json option \<Rightarrow> policy_service_tiers option result" where
  "normalize_policy_tiers catalog v =
     (if nullish v then Inr None
      else if \<not> is_object v then bad_policy
      else rbind (normalize_tier_list (get ''allowed'' v)) (\<lambda>allowed_tiers.
        (let ms = coalesce (get ''models'' v) (Some (JObj []))
         in if \<not> is_object ms \<or> 32 < length (entries (the ms)) then bad_policy
            else rbind (normalize_model_tiers catalog (entries (the ms))) (\<lambda>r. Inr (Some \<lparr>tiers_allowed = allowed_tiers, tiers_models = Some r\<rparr>)))))"

text \<open>The tiers of one model: its own list, or the list of the policy, or the default.\<close>

definition model_tiers :: "(string \<times> string list) list option \<Rightarrow> string \<Rightarrow> string list option result" where
  "model_tiers ms m = (case ms of
     None \<Rightarrow> Inr None
   | Some kvs \<Rightarrow> (case map_of kvs m of Some ts \<Rightarrow> Inr (Some ts) | None \<Rightarrow> if m \<in> set inherited_names then Inl type_error else Inr None))"

definition policy_tiers :: "access_policy \<Rightarrow> string \<Rightarrow> string list result" where
  "policy_tiers pol m = (case policyTiers pol of
     None \<Rightarrow> Inr default_service_tiers
   | Some cfg \<Rightarrow> rbind (if m = [] then Inr None else model_tiers (tiers_models cfg) m) (\<lambda>own. Inr (case own of Some ts \<Rightarrow> ts | None \<Rightarrow> tiers_allowed cfg)))"

definition allowed_service_tiers :: "access_policy \<Rightarrow> string \<Rightarrow> string list option \<Rightarrow> string list result" where
  "allowed_service_tiers pol m cred = rbind (policy_tiers pol m) (\<lambda>ts. Inr (case cred of None \<Rightarrow> ts | Some cs \<Rightarrow> filter (\<lambda>t. t \<in> set cs) ts))"

definition provider_of :: "string \<Rightarrow> string" where
  "provider_of m = takeWhile (\<lambda>c. c \<noteq> CHR ''/'') m"

fun collect_tiers :: "string list result list \<Rightarrow> string list result" where
  "collect_tiers [] = Inr []"
| "collect_tiers (r # rs) = rbind r (\<lambda>ts. rbind (collect_tiers rs) (\<lambda>us. Inr (ts @ us)))"

definition granted_service_tiers :: "access_policy \<Rightarrow> string list result" where
  "granted_service_tiers pol =
     (let open_to = (\<lambda>m. providers pol = [] \<or> provider_of m \<in> set (providers pol))
      in case models pol of
           Some ms \<Rightarrow> rbind (collect_tiers (map (\<lambda>m. allowed_service_tiers pol m None) (filter open_to ms))) (\<lambda>ts. Inr (first_unique ts))
         | None \<Rightarrow> Inr (case policyTiers pol of
             None \<Rightarrow> first_unique default_service_tiers
           | Some cfg \<Rightarrow> first_unique (tiers_allowed cfg @ concat (map snd (filter (\<lambda>e. open_to (fst e)) (case tiers_models cfg of None \<Rightarrow> [] | Some kvs \<Rightarrow> kvs))))))"

subsection \<open>The tier of a request\<close>

record tier_selection =
  ts_provider :: string
  ts_format :: string
  ts_model :: "(string \<times> model_pricing option) option"
  ts_body :: json

definition google_format :: "tier_selection \<Rightarrow> bool" where
  "google_format s \<longleftrightarrow> ts_format s = ''google.generate_content''"

definition normalized_tier :: "tier_selection \<Rightarrow> string option" where
  "normalized_tier s =
     (if google_format s then map_option (\<lambda>t. if t = ''standard'' then ''default'' else t) (google_request_service_tier (Some (ts_body s)))
      else case get ''service_tier'' (Some (ts_body s)) of
          Some (JStr t) \<Rightarrow> Some (normalize_service_tier (Some (case extract_service_tier (Some (JObj [(''service_tier'', JStr (to_lower t))])) of Some x \<Rightarrow> x | None \<Rightarrow> to_lower t)))
        | v \<Rightarrow> if nullish v then Some ''default'' else Some ''invalid'')"

text \<open>A price card may know a tier by another name.\<close>

definition card_tier :: "tier_selection \<Rightarrow> string option" where
  "card_tier s = (case (google_format s, Option.bind (ts_model s) snd, normalized_tier s) of
     (False, Some (TokenCard p), Some t) \<Rightarrow> (case find (\<lambda>c. t \<in> set (tier_aliases c)) (tp_tiers p) of Some c \<Rightarrow> Some (tier_id c) | None \<Rightarrow> Some t)
   | (_, _, t) \<Rightarrow> t)"

definition tier_model :: "tier_selection \<Rightarrow> string" where
  "tier_model s = (case ts_model s of Some m \<Rightarrow> fst m
     | None \<Rightarrow> (case get ''model'' (Some (ts_body s)) of Some (JStr m) \<Rightarrow> m | _ \<Rightarrow> ''unknown''))"

definition tier_guarded :: "tier_selection \<Rightarrow> bool" where
  "tier_guarded s \<longleftrightarrow> (google_format s \<or> starts_with ''openai.'' (ts_format s)) \<and> \<not> is_array (Some (ts_body s))"

definition pins_default :: "bool \<Rightarrow> tier_selection \<Rightarrow> bool" where
  "pins_default api s \<longleftrightarrow> ts_format s \<in> {''openai.responses'', ''openai.responses_compact'', ''openai.chat_completions''} \<and> ts_provider s = ''openai'' \<and> api \<and>
     normalized_tier s = Some ''default'' \<and>
     (case get ''service_tier'' (Some (ts_body s)) of Some (JStr t) \<Rightarrow> to_lower t = ''auto'' | v \<Rightarrow> nullish v)"

definition put_member :: "string \<Rightarrow> json \<Rightarrow> (string \<times> json) list \<Rightarrow> (string \<times> json) list" where
  "put_member k v kvs = (if k \<in> fst ` set kvs then map (\<lambda>e. if fst e = k then (k, v) else e) kvs else kvs @ [(k, v)])"

definition with_tier :: "string \<Rightarrow> json \<Rightarrow> json" where
  "with_tier t v = (case v of JObj kvs \<Rightarrow> JObj (put_member ''service_tier'' (JStr t) kvs) | _ \<Rightarrow> v)"

text \<open>\<open>api\<close>: the transport is resolved and is the plain API.\<close>

definition assert_service_tier :: "access_policy \<Rightarrow> string list option \<Rightarrow> bool \<Rightarrow> tier_selection \<Rightarrow> tier_selection result" where
  "assert_service_tier pol cred api s =
     (if \<not> tier_guarded s then Inr s
      else rbind (allowed_service_tiers pol (tier_model s) cred) (\<lambda>ts.
        if (case card_tier s of None \<Rightarrow> True | Some t \<Rightarrow> t \<notin> set ts) then Inl (HttpError 400 ''service_tier_not_allowed'')
        else Inr (if pins_default api s then s\<lparr>ts_body := with_tier ''default'' (ts_body s)\<rparr> else s)))"

subsection \<open>Properties\<close>

lemma map_of_replace: "map_of (map (\<lambda>e. if fst e = k then (k, v) else e) m) j = (if j = k then map_option (\<lambda>_. v) (map_of m j) else map_of m j)"
  by (cases "j = k") (induction m; simp)+

lemma member_put: "member j (JObj (put_member k v kvs)) = (if j = k then Some v else member j (JObj kvs))"
proof (cases "k \<in> fst ` set kvs")
  case True
  then have "map_of (rev kvs) k \<noteq> None" by (simp add: map_of_eq_None_iff)
  with True show ?thesis by (auto simp: put_member_def rev_map map_of_replace)
qed (simp add: put_member_def)

lemma with_tier_get: "is_object (Some v) \<Longrightarrow> member j (with_tier t v) = (if j = ''service_tier'' then Some (JStr t) else member j v)"
  by (cases v) (simp_all add: with_tier_def member_put del: member.simps(1))

text \<open>The selection after the guard: the same but for a pinned tier.\<close>

definition pinned :: "bool \<Rightarrow> tier_selection \<Rightarrow> tier_selection" where
  "pinned api s = (if pins_default api s then s\<lparr>ts_body := with_tier ''default'' (ts_body s)\<rparr> else s)"

lemma default_normal: "normalize_service_tier (Some ''default'') = ''default''" "to_lower ''default'' = ''default''" "to_lower ''default'' \<noteq> ''auto''"
  by code_simp+

lemma pinned_facts:
  assumes "is_object (Some (ts_body s))"
  shows "normalized_tier (pinned api s) = normalized_tier s" "tier_model (pinned api s) = tier_model s" "card_tier (pinned api s) = card_tier s"
    "tier_guarded (pinned api s) = tier_guarded s" "\<not> pins_default api (pinned api s)"
proof -
  have f: "ts_provider (pinned api s) = ts_provider s" "ts_format (pinned api s) = ts_format s" "ts_model (pinned api s) = ts_model s"
    by (simp_all add: pinned_def)
  have body: "pins_default api s \<Longrightarrow> ts_body (pinned api s) = with_tier ''default'' (ts_body s)" by (simp add: pinned_def)
  have n: "normalized_tier (pinned api s) = Some ''default''" if "pins_default api s"
  proof -
    have "ts_format s \<noteq> ''google.generate_content''" using that by (auto simp: pins_default_def)
    then have "\<not> google_format (pinned api s)" by (simp add: google_format_def f)
    then show ?thesis using that assms
      by (simp add: normalized_tier_def body with_tier_get default_normal extract_service_tier_def split: option.split)
  qed
  show norm: "normalized_tier (pinned api s) = normalized_tier s"
  proof (cases "pins_default api s")
    case True
    then show ?thesis using n by (simp add: pins_default_def)
  qed (simp add: pinned_def)
  show "tier_model (pinned api s) = tier_model s"
    using assms by (cases "ts_model s"; cases "pins_default api s") (simp_all add: tier_model_def pinned_def with_tier_get)
  show "card_tier (pinned api s) = card_tier s" by (simp add: card_tier_def google_format_def f norm)
  show "tier_guarded (pinned api s) = tier_guarded s"
    using assms by (cases "ts_body s") (auto simp: tier_guarded_def google_format_def f pinned_def with_tier_def)
  show "\<not> pins_default api (pinned api s)"
  proof (cases "pins_default api s")
    case True
    then have "member ''service_tier'' (ts_body (pinned api s)) = Some (JStr ''default'')" using assms by (simp add: body with_tier_get)
    then show ?thesis using default_normal by (simp add: pins_default_def [of api "pinned api s"])
  qed (simp add: pinned_def)
qed

lemma assert_Inr:
  assumes "tier_guarded s"
  shows "assert_service_tier pol cred api s = Inr r \<longleftrightarrow>
    (\<exists>ts t. policy_tiers pol (tier_model s) = Inr ts \<and> card_tier s = Some t \<and> t \<in> set ts \<and> (case cred of None \<Rightarrow> True | Some cs \<Rightarrow> t \<in> set cs) \<and> r = pinned api s)"
  using assms by (cases "card_tier s"; cases cred; cases "policy_tiers pol (tier_model s)") (auto simp: assert_service_tier_def allowed_service_tiers_def pinned_def)


definition tier_sample :: tier_selection where
  "tier_sample = \<lparr>ts_provider = ''openai'', ts_format = ''openai.responses'', ts_model = Some (''openai/gpt'', None), ts_body = JObj [(''model'', JStr ''gpt''), (''service_tier'', JStr ''Auto'')]\<rparr>"


text \<open>Every tier a caller may ask for on some model of its providers is among the tiers a credential of the policy may be granted.\<close>

lemma collect_tiers_Inr: "collect_tiers rs = Inr us \<Longrightarrow> r \<in> set rs \<Longrightarrow> r = Inr ts \<Longrightarrow> set ts \<subseteq> set us"
  by (induction rs arbitrary: us) auto

lemma granted_tiers_cover:
  assumes "granted_service_tiers pol = Inr gs" and "allowed_service_tiers pol m cred = Inr ts" and "policy_allows_model pol (provider_of m) m"
  shows "set ts \<subseteq> set gs"
proof -
  obtain all_ts where a: "policy_tiers pol m = Inr all_ts" "set ts \<subseteq> set all_ts" using assms(2) by (auto simp: allowed_service_tiers_def split: option.splits)
  have ok: "providers pol = [] \<or> provider_of m \<in> set (providers pol)" using assms(3) by (simp add: policy_allows_model_def)
  show ?thesis
  proof (cases "models pol")
    case (Some ms)
    then have "m \<in> set ms" using assms(3) by (simp add: policy_allows_model_def)
    then have "allowed_service_tiers pol m None \<in> set (map (\<lambda>m. allowed_service_tiers pol m None) (filter (\<lambda>m. providers pol = [] \<or> provider_of m \<in> set (providers pol)) ms))"
      using ok by auto
    moreover have "allowed_service_tiers pol m None = Inr all_ts" using a by (simp add: allowed_service_tiers_def)
    ultimately show ?thesis using assms(1) Some a(2) by (auto simp: granted_service_tiers_def dest!: collect_tiers_Inr)
  next
    case None
    show ?thesis
    proof (cases "policyTiers pol")
      case (Some cfg)
      have "set all_ts \<subseteq> set gs"
      proof (cases "\<exists>kvs. tiers_models cfg = Some kvs \<and> map_of kvs m = Some all_ts \<and> m \<noteq> []")
        case True
        then obtain kvs where "tiers_models cfg = Some kvs" "(m, all_ts) \<in> set kvs" by (auto dest: map_of_SomeD)
        then show ?thesis using assms(1) None Some ok by (fastforce simp: granted_service_tiers_def)
      next
        case False
        then have "all_ts = tiers_allowed cfg" using a(1) Some by (auto simp: policy_tiers_def model_tiers_def split: if_splits option.splits)
        then show ?thesis using assms(1) None Some by (auto simp: granted_service_tiers_def)
      qed
      with a(2) show ?thesis by blast
    qed (use assms(1) a None in \<open>auto simp: granted_service_tiers_def policy_tiers_def\<close>)
  qed
qed

end
