(* ===== verification/Spec2Isabelle.thy ===== *)
theory Spec2Isabelle
  imports Budget_Ledger Budget_Scope Accounting Http_Utils Usage_Event Usage_Ledger Grant_Quota Grant_Selection
    Token_Usage Json_Parser Card_Rules Continuation_Store Tool_Evidence Hot_Cache Request_Receipt Background_Runs Grant_Refresh
    Assignments Responses_Scope Soft_Budget Usage_Snapshot Body_Budget Admission Service_Tiers
begin

text \<open>
  Verification library of ClawRouter, the multi-provider model router of this repository. The program is
  a Cloudflare worker under \<open>src/worker\<close> with the contracts it shares under \<open>src/shared\<close>. A request
  passes through these parts: a proxy key is parsed, the policy's grants are filtered and one is chosen, the
  body is measured and priced, the budgets of the caller are reserved on their ledgers, the request is sent,
  the usage in the response is read, the receipt of the request is computed, the reservation is settled and
  the usage event is ingested. Work that outlives its request (background responses and managed media jobs)
  is kept in a recovery table until it is settled.

  \<^bold>\<open>Conventions.\<close> \<open>Prelude\<close> holds the errors as values (\<open>HttpError\<close> or another exception), the JSON
  values, the safe integers, keyed tables and the shared automation. Strings are lists of UTF-8 bytes.
  Amounts, times and counts the program keeps as safe integers are integers, with the range checks of the
  program; numbers that come from JSON are rationals. \<open>now\<close> is \<open>Date.now()\<close> during a call. SQL tables are
  lists of rows with a primary key; a durable object runs one call at a time, so an operation is a function
  from state to state, and an error inside a transaction leaves the state alone. \<open>Js_Text\<close>, \<open>Js_Date\<close> and
  \<open>Json_Access\<close> model what the sources use of JavaScript's strings, dates and property access;
  \<open>Access_Types\<close> has the policy and identity records of \<open>worker/types.ts\<close>.

  \<^bold>\<open>Budgets.\<close> \<open>Budget_Ledger\<close> is the durable object \<open>BudgetLedger\<close> of \<open>worker/ledgers.ts\<close>: reserve,
  dispatch, settle, charge, release, expiry of leases, migration of old tables. Its theorems are that the
  amount counted against a scope never exceeds the cap in any reachable state, that settlement and charges
  happen exactly once, that expiry frees only what was never dispatched, and that migration conserves debt.
  \<open>Budget_Scope\<close> is \<open>worker/budget-scope.ts\<close> with the cap overrides of members: scope keys determine
  their scope, the weekly window is the ISO week, and a stale writer of caps is refused. \<open>Accounting\<close> is
  \<open>worker/accounting.ts\<close>: planning, reservation over several ledgers with rollback, settlement, and the queue
  that recovers lost acknowledgements, over links that may lose a request or its reply. \<open>Soft_Budget\<close> is
  \<open>worker/soft-budget.ts\<close>, where nothing is reserved: a request is denied only on a ledger's answer that
  arrives before its delivery, and an exhausted cap is remembered for the next request. \<open>Body_Budget\<close> is
  \<open>worker/body-budget.ts\<close>: the bytes held by the requests in flight stay within the isolate's budget.

  \<^bold>\<open>Keys and policies.\<close> \<open>Admission\<close> is \<open>worker/proxy-auth.ts\<close>, the admission of
  \<open>worker/authority-admission.ts\<close> and \<open>worker/admission-cache.ts\<close>: a key is admitted exactly when its stored
  rows allow it, and a revocation reaches every request within the maximal age of the caches. The
  theorem about the caches is over any sequence of events whose times are ordered as in one clock (a call is answered
  after it was made). \<open>Service_Tiers\<close> is \<open>worker/service-tiers.ts\<close> and \<open>worker/policy-models.ts\<close> with their
  shared parts. \<open>Assignments\<close> is \<open>worker/assignment-evaluator.ts\<close> with the user table of
  \<open>worker/authority.ts\<close>: a reconciled user holds exactly the groups that rules, evidence and manual entries
  give, and reconciling again changes nothing; a rule named like an inherited member breaks the evaluation.

  \<^bold>\<open>Usage.\<close> \<open>Usage_Event\<close> is the cost evidence of an event (\<open>worker/usage-report-cost.ts\<close>,
  \<open>shared/usage-report.ts\<close>); \<open>Usage_Ledger\<close> is the other durable object of \<open>worker/ledgers.ts\<close> with the
  rollup triggers and the two migrations of \<open>worker/usage-rollups.ts\<close>. Rollups are exact in every
  reachable state, ingestion is idempotent, and the migrations finish. The number of alarms in that theorem
  is bounded by the rows left and the batch size of the code. \<open>Usage_Snapshot\<close> has the reads of a ledger
  and their merge over ledgers (\<open>worker/usage-sharding.ts\<close>): a report counts every retained event of its
  policies once, during and after the migrations.

  \<^bold>\<open>Grants.\<close> \<open>Grant_Quota\<close> reads quota headers and probes and merges observations
  (\<open>worker/grant-quota.ts\<close>, \<open>worker/grant-runtime.ts\<close>); \<open>Grant_Selection\<close> filters candidates and
  chooses one by every strategy (\<open>worker/grant-eligibility.ts\<close>, \<open>worker/grant-routing.ts\<close>,
  \<open>worker/grant-selection-strategies.ts\<close>). String comparison by \<open>localeCompare\<close> is a parameter.
  \<open>Refresh_Ownership\<close> is \<open>worker/refresh-ownership.ts\<close>, the index of who may spend a refresh token, and
  \<open>Grant_Refresh\<close> the refresh of a credential in \<open>worker/grant-credentials.ts\<close> with
  \<open>worker/grant-refresh-diagnosis.ts\<close>: two requests with one token belong to one grant, and a refresh whose
  outcome is unknown is never sent again.

  \<^bold>\<open>Bodies and responses.\<close> \<open>Http_Utils\<close> has the pure helpers of \<open>worker/utils.ts\<close> and proxy keys;
  \<open>Json_Body\<close> and \<open>Json_Parser\<close> the chunked serializer, its measure, the transport and the bounded parser
  of \<open>worker/json-body.ts\<close>; \<open>Token_Usage\<close> the counters, the event stream framing and the accumulator of
  \<open>worker/token-usage.ts\<close>; \<open>Image_Bound\<close> the image headers of \<open>worker/image-input-bound.ts\<close>;
  \<open>Tool_Evidence\<close> the tool evidence machine of \<open>worker/responses-tool-evidence.ts\<close>.

  \<^bold>\<open>Prices.\<close> \<open>Tool_Pricing\<close>, \<open>Pricing\<close> and \<open>Card_Rules\<close> are the price cards, estimates and settlements of
  \<open>worker/pricing.ts\<close>, \<open>worker/image-generation.ts\<close> and \<open>worker/anthropic-pricing.ts\<close>; \<open>Request_Tariff\<close>
  is \<open>worker/request-tariff.ts\<close> with \<open>shared/request-pricing.ts\<close> and the request side of
  \<open>worker/xai-images.ts\<close>; \<open>Request_Receipt\<close> is the receipt of \<open>worker/proxy-accounting.ts\<close> with
  \<open>worker/reporting-estimate.ts\<close>. The theorem that spans them is that what a request is charged stays within
  what was reserved for it.

  \<^bold>\<open>Stores.\<close> \<open>Expiring_Table\<close>, \<open>Witness_Store\<close> and \<open>Continuation_Store\<close> are
  \<open>worker/compaction-witness-store.ts\<close> and \<open>worker/continuation-store.ts\<close>: exact counters, and evidence
  that is permanent once final. \<open>Hot_Cache\<close> is \<open>worker/hot-cache.ts\<close>: invalidation fences older loads.
  \<open>Published_Input\<close>, \<open>Background_Types\<close> and \<open>Background_Store\<close> are \<open>worker/published-input-receipt.ts\<close>,
  \<open>worker/managed-input-receipt.ts\<close> and \<open>worker/background-store.ts\<close>; \<open>Background_Safety\<close> shows that every
  operation steps one record at a time, and \<open>Background_Runs\<close> that over any sequence of operations work is
  dispatched at most once, a frozen receipt never changes, live work is never dropped and the table is
  bounded. \<open>Responses_Scope\<close> is the durable object of \<open>worker/responses-scope.ts\<close> over that table: pending
  work always has an alarm, and a generation that is dispatched is marked in every ledger that funds it, with
  other requests to those ledgers interleaved as long as they keep the reservations.

  \<^bold>\<open>Interfaces.\<close> Locales state what one part promises another and are interpreted on the model's
  definitions: the frozen rows of an expiring store (\<open>Expiring_Table\<close>), the step relation of the recovery
  table (\<open>Background_Safety\<close>) and those of the ledgers and the cache in their own theories.

  \<^bold>\<open>Parameters.\<close> What the sources do not define is an argument: digests and random identifiers, number
  printing, \<open>localeCompare\<close>, \<open>new URL\<close>, \<open>Date.parse\<close> of arbitrary texts, the length of a row's JSON
  text. A limit that only meters the size of a message (the bounded evaluation of assignments, the readable
  pools of an admission) is a flag. Recursions follow the data; the loops without a structural bound have a measure, and no theorem is
  limited by fuel.

  \<^bold>\<open>Not modelled.\<close> Network and stream I/O, encryption, the SQL report queries beyond the snapshots, the adapters of
  single upstreams (their request codecs mirror external protocols), the realtime and socket sessions, the
  administrative HTTP surface and console, and the build scripts. The orchestration in \<open>worker/proxy.ts\<close> calls
  the modelled parts between the upstream adapters and is not modelled itself; of \<open>worker/grant-credentials.ts\<close> only the
  refresh, and of \<open>worker/authority.ts\<close> only the tables of users and the admission, are.
\<close>

end
